(* ===== verification/Prelude.thy ===== *)
theory Prelude
  imports Main "HOL-Library.Word"
begin

text \<open>
  Shared vocabulary of the development: C++ exceptions as values, the effect type of
  operations that may throw and change a state, decimal text as \<open>std::to_string\<close>,
  \<open>std::stoull\<close> and \<open>std::stoll\<close> read and write it, and substring search as
  \<open>std::string::find\<close> does it. The lemmas here are the ones several components use.
\<close>

section \<open>Machine types\<close>

type_synonym u64 = "64 word"
type_synonym u32 = "32 word"
type_synonym u8 = "8 word"

lemma unat_Suc_less:
  assumes "t < (m :: 'a :: len word)"
  shows "unat (t + 1) = Suc (unat t)"
proof -
  have "unat t < unat m" using assms by (simp add: word_less_nat_alt)
  moreover have "unat m < 2 ^ LENGTH('a)" by (rule unsigned_less)
  ultimately have "unat t + unat (1 :: 'a word) < 2 ^ LENGTH('a)" unfolding unat_1 by linarith
  then have "unat (t + 1) = unat t + unat (1 :: 'a word)" by (simp only: unat_add_lem)
  then show ?thesis by simp
qed

section \<open>Exceptions and effects\<close>

text \<open>
  \<open>StdExn\<close> is anything derived from \<open>std::exception\<close>, with its kind and its
  \<open>what()\<close> text; \<open>Poco::Exception\<close> derives from it and carries a display text as
  well. \<open>ForeignExn\<close> is a thrown value that no \<open>catch (const std::exception &)\<close> sees.
\<close>

datatype exn_kind =
  Out_of_range | Invalid_argument | Runtime_error | Bad_cast | Length_error
| Poco_exception string | Http_error nat | Validator_exception | Crypto_exception

datatype exn = StdExn exn_kind string | ForeignExn

fun is_std :: "exn \<Rightarrow> bool" where
  "is_std (StdExn k w) = True"
| "is_std ForeignExn = False"

fun exn_what :: "exn \<Rightarrow> string" where
  "exn_what (StdExn k w) = w"
| "exn_what ForeignExn = []"

type_synonym ('s, 'a) eff = "'s \<Rightarrow> (exn + 'a) \<times> 's"

definition ret :: "'a \<Rightarrow> ('s, 'a) eff" where
  "ret x s = (Inr x, s)"

definition throw :: "exn \<Rightarrow> ('s, 'a) eff" where
  "throw e s = (Inl e, s)"

definition bind :: "('s, 'a) eff \<Rightarrow> ('a \<Rightarrow> ('s, 'b) eff) \<Rightarrow> ('s, 'b) eff" where
  "bind m f s = (case m s of (Inl e, s') \<Rightarrow> (Inl e, s') | (Inr x, s') \<Rightarrow> f x s')"

lemma ret_run [simp]: "ret x s = (Inr x, s)"
  by (simp add: ret_def)

lemma throw_run [simp]: "throw e s = (Inl e, s)"
  by (simp add: throw_def)

lemma bind_run [simp]:
  "bind m f s = (case m s of (Inl e, s') \<Rightarrow> (Inl e, s') | (Inr x, s') \<Rightarrow> f x s')"
  by (simp add: bind_def)

fun sum_bind :: "'e + 'a \<Rightarrow> ('a \<Rightarrow> 'e + 'b) \<Rightarrow> 'e + 'b" where
  "sum_bind (Inl e) f = Inl e"
| "sum_bind (Inr x) f = f x"

lemma sum_bind_Inr [simp]: "sum_bind m f = Inr y \<longleftrightarrow> (\<exists>x. m = Inr x \<and> f x = Inr y)"
  by (cases m) auto

section \<open>Characters and decimal text\<close>

definition byte :: "char \<Rightarrow> nat" where
  "byte c = of_char c"

definition is_digit :: "char \<Rightarrow> bool" where
  "is_digit c \<longleftrightarrow> 48 \<le> byte c \<and> byte c \<le> 57"

definition is_space :: "char \<Rightarrow> bool" where
  "is_space c \<longleftrightarrow> byte c = 32 \<or> (9 \<le> byte c \<and> byte c \<le> 13)"

definition digit_char :: "nat \<Rightarrow> char" where
  "digit_char d = char_of (48 + d)"

fun string_of_nat :: "nat \<Rightarrow> string" where
  "string_of_nat n =
     (if n < 10 then [digit_char n] else string_of_nat (n div 10) @ [digit_char (n mod 10)])"

declare string_of_nat.simps [simp del]

definition string_of_int :: "int \<Rightarrow> string" where
  "string_of_int i = (if i < 0 then CHR ''-'' # string_of_nat (nat (- i)) else string_of_nat (nat i))"

definition string_of_u64 :: "u64 \<Rightarrow> string" where
  "string_of_u64 w = string_of_nat (unat w)"

definition nat_of_digits :: "string \<Rightarrow> nat" where
  "nat_of_digits ds = foldl (\<lambda>a c. 10 * a + (byte c - 48)) 0 ds"

lemma byte_bound [simp]: "byte c < 256"
  by (simp add: byte_def)

lemma byte_digit_char [simp]: "d < 10 \<Longrightarrow> byte (digit_char d) = 48 + d"
  by (simp add: byte_def digit_char_def)

lemma byte_inject [simp]: "byte c = byte d \<longleftrightarrow> c = d"
  by (auto simp: byte_def)

lemma is_digit_digit_char [simp]: "d < 10 \<Longrightarrow> is_digit (digit_char d)"
  by (simp add: is_digit_def)

lemma string_of_nat_digits: "\<forall>c \<in> set (string_of_nat n). is_digit c"
proof (induction n rule: string_of_nat.induct)
  case (1 n)
  then show ?case
    by (cases "n < 10") (auto simp: string_of_nat.simps [of n])
qed

lemma string_of_nat_nonempty [simp]: "string_of_nat n \<noteq> []"
  by (subst string_of_nat.simps) simp

lemma nat_of_digits_snoc:
  "nat_of_digits (ds @ [c]) = 10 * nat_of_digits ds + (byte c - 48)"
  by (simp add: nat_of_digits_def)

lemma nat_of_digits_string_of_nat [simp]: "nat_of_digits (string_of_nat n) = n"
proof (induction n rule: string_of_nat.induct)
  case (1 n)
  show ?case
  proof (cases "n < 10")
    case True
    then show ?thesis by (simp add: string_of_nat.simps [of n] nat_of_digits_def)
  next
    case False
    with 1 show ?thesis
      by (simp add: string_of_nat.simps [of n] nat_of_digits_snoc)
  qed
qed

lemma string_of_nat_inject: "string_of_nat m = string_of_nat n \<longleftrightarrow> m = n"
  by (metis nat_of_digits_string_of_nat)

lemma digit_not_space: "is_digit c \<Longrightarrow> \<not> is_space c"
  by (auto simp: is_digit_def is_space_def)

lemma digit_not_sign: "is_digit c \<Longrightarrow> c \<noteq> CHR ''-'' \<and> c \<noteq> CHR ''+''"
  by (auto simp: is_digit_def byte_def)

text \<open>
  \<open>std::stoull\<close> and \<open>std::stoll\<close> in base 10: leading white space, an optional sign,
  digits; trailing text is ignored, no digit is \<open>std::invalid_argument\<close>, a magnitude out
  of range is \<open>std::out_of_range\<close>. \<open>strtoull\<close> accepts a minus sign and negates in the
  unsigned type.
\<close>

definition read_sign :: "string \<Rightarrow> bool \<times> string" where
  "read_sign s =
     (case dropWhile is_space s of
        [] \<Rightarrow> (False, [])
      | c # cs \<Rightarrow> if c = CHR ''-'' then (True, cs) else if c = CHR ''+'' then (False, cs)
                  else (False, c # cs))"

definition stoull :: "string \<Rightarrow> exn + u64" where
  "stoull s =
     (let (neg, t) = read_sign s; ds = takeWhile is_digit t; n = nat_of_digits ds
      in if ds = [] then Inl (StdExn Invalid_argument ''stoull'')
         else if 2 ^ 64 \<le> n then Inl (StdExn Out_of_range ''stoull'')
         else Inr (if neg then - of_nat n else of_nat n))"

definition stoll :: "string \<Rightarrow> exn + int" where
  "stoll s =
     (let (neg, t) = read_sign s; ds = takeWhile is_digit t;
          i = (if neg then - int (nat_of_digits ds) else int (nat_of_digits ds))
      in if ds = [] then Inl (StdExn Invalid_argument ''stoll'')
         else if i < - (2 ^ 63) \<or> 2 ^ 63 \<le> i then Inl (StdExn Out_of_range ''stoll'')
         else Inr i)"

text \<open>\<open>std::stoi\<close>, with the 32 bits of \<open>int\<close>.\<close>

definition stoi :: "string \<Rightarrow> exn + int" where
  "stoi s =
     (let (neg, t) = read_sign s; ds = takeWhile is_digit t;
          i = (if neg then - int (nat_of_digits ds) else int (nat_of_digits ds))
      in if ds = [] then Inl (StdExn Invalid_argument ''stoi'')
         else if i < - (2 ^ 31) \<or> 2 ^ 31 \<le> i then Inl (StdExn Out_of_range ''stoi'')
         else Inr i)"

lemma read_sign_digits:
  assumes "\<forall>c \<in> set s. is_digit c"
  shows "read_sign s = (False, s)"
proof (cases s)
  case Nil
  then show ?thesis by (simp add: read_sign_def)
next
  case (Cons c cs)
  with assms have "is_digit c" by simp
  with Cons show ?thesis
    using digit_not_space [of c] digit_not_sign [of c] by (simp add: read_sign_def)
qed

lemma takeWhile_digits: "\<forall>c \<in> set s. is_digit c \<Longrightarrow> takeWhile is_digit s = s"
  by (simp add: takeWhile_eq_all_conv)

lemma stoull_string_of_u64 [simp]: "stoull (string_of_u64 w) = Inr w"
proof -
  have d: "\<forall>c \<in> set (string_of_nat (unat w)). is_digit c" by (rule string_of_nat_digits)
  have "unat w < 2 ^ LENGTH(64)" by (rule unsigned_less)
  then show ?thesis
    by (simp add: stoull_def string_of_u64_def read_sign_digits [OF d] takeWhile_digits [OF d])
qed

lemma stoll_string_of_int:
  assumes "- (2 ^ 63) \<le> i" and "i < 2 ^ 63"
  shows "stoll (string_of_int i) = Inr i"
proof (cases "i < 0")
  case True
  have d: "\<forall>c \<in> set (string_of_nat (nat (- i))). is_digit c" by (rule string_of_nat_digits)
  have "read_sign (string_of_int i) = (True, string_of_nat (nat (- i)))"
    using True by (simp add: string_of_int_def read_sign_def is_space_def byte_def)
  with True assms show ?thesis
    by (simp add: stoll_def takeWhile_digits [OF d])
next
  case False
  have d: "\<forall>c \<in> set (string_of_nat (nat i)). is_digit c" by (rule string_of_nat_digits)
  from False assms show ?thesis
    by (simp add: stoll_def string_of_int_def read_sign_digits [OF d] takeWhile_digits [OF d])
qed

section \<open>Substrings\<close>

definition starts_with :: "string \<Rightarrow> string \<Rightarrow> bool" where
  "starts_with s p \<longleftrightarrow> take (length p) s = p"

text \<open>\<open>std::string::find\<close> from position 0: the least position where \<open>p\<close> occurs.\<close>

fun find_sub :: "string \<Rightarrow> string \<Rightarrow> nat option" where
  "find_sub p [] = (if p = [] then Some 0 else None)"
| "find_sub p (c # cs) =
     (if starts_with (c # cs) p then Some 0 else map_option Suc (find_sub p cs))"

lemma starts_with_append [simp]: "starts_with (p @ s) p"
  by (simp add: starts_with_def)

lemma starts_with_iff: "starts_with s p \<longleftrightarrow> (\<exists>t. s = p @ t)"
  by (metis append_take_drop_id starts_with_append starts_with_def)

lemma find_sub_Some:
  "find_sub p s = Some i \<Longrightarrow> i + length p \<le> length s \<and> s = take i s @ p @ drop (i + length p) s"
proof (induction p s arbitrary: i rule: find_sub.induct)
  case (1 p)
  then show ?case by (simp split: if_splits)
next
  case (2 p c cs)
  show ?case
  proof (cases "starts_with (c # cs) p")
    case True
    with "2.prems" have "i = 0" by simp
    moreover from True obtain t where "c # cs = p @ t" by (auto simp: starts_with_iff)
    ultimately show ?thesis by simp
  next
    case False
    with "2.prems" obtain j where "find_sub p cs = Some j" and "i = Suc j" by auto
    with "2.IH" False show ?thesis by simp
  qed
qed

lemma find_sub_None: "find_sub p s = None \<longleftrightarrow> (\<forall>a b. s \<noteq> a @ p @ b)"
proof (induction p s rule: find_sub.induct)
  case (1 p)
  then show ?case by auto
next
  case (2 p c cs)
  show ?case
  proof (cases "starts_with (c # cs) p")
    case True
    then obtain t where t: "c # cs = p @ t" by (auto simp: starts_with_iff)
    then have "c # cs = [] @ p @ t" by simp
    with True show ?thesis by (metis find_sub.simps(2) option.distinct(1))
  next
    case False
    have "(\<forall>a b. c # cs \<noteq> a @ p @ b) \<longleftrightarrow> (\<forall>a b. cs \<noteq> a @ p @ b)"
    proof
      assume l: "\<forall>a b. c # cs \<noteq> a @ p @ b"
      show "\<forall>a b. cs \<noteq> a @ p @ b" using l by (metis append_Cons)
    next
      assume r: "\<forall>a b. cs \<noteq> a @ p @ b"
      show "\<forall>a b. c # cs \<noteq> a @ p @ b"
      proof (intro allI notI)
        fix a b assume "c # cs = a @ p @ b"
        with r False show False by (cases a) (auto simp: starts_with_iff)
      qed
    qed
    with False 2 show ?thesis by simp
  qed
qed

section \<open>Escaped texts\<close>

text \<open>
  A writer that escapes a text character by character and a reader that stops at a closing character:
  \<open>follows\<close> says which texts may come after it. The reader gives back what was written, so that nothing
  in a text can end it early and no two texts are written alike.
\<close>

locale escaping =
  fixes esc :: "char \<Rightarrow> string"
    and rd :: "string \<Rightarrow> (string \<times> string) option"
    and stop :: char
    and follows :: "string \<Rightarrow> bool"
  assumes rd_esc: "t \<noteq> [] \<Longrightarrow> rd (esc c @ t) = map_option (map_prod ((#) c) id) (rd t)"
    and rd_stop: "follows rest \<Longrightarrow> rd (stop # rest) = Some ([], rest)"
    and follows_Nil: "follows []"
begin

lemma reads_back_text: "follows rest \<Longrightarrow> rd (concat (map esc s) @ stop # rest) = Some (s, rest)"
  by (induction s) (simp_all add: rd_stop rd_esc)

lemma esc_inject: "concat (map esc s) = concat (map esc t) \<longleftrightarrow> s = t"
proof
  assume eq: "concat (map esc s) = concat (map esc t)"
  have "Some (s, []) = rd (concat (map esc s) @ [stop])" by (rule reads_back_text [OF follows_Nil, symmetric])
  also have "\<dots> = rd (concat (map esc t) @ [stop])" by (simp only: eq)
  also have "\<dots> = Some (t, [])" by (rule reads_back_text [OF follows_Nil])
  finally show "s = t" by simp
qed simp

end

end
