(* ===== verification/Json.thy ===== *)
theory Json
  imports Prelude
begin

text \<open>
  The documents the framework passes around: \<open>Poco::Dynamic::Var\<close>, \<open>Poco::JSON::Object\<close> and
  \<open>Poco::JSON::Array\<close>. Poco itself is not part of the repository, so only the data is fixed
  here; the conversions and the parser are fields of the record \<open>poco\<close>, an argument of every
  definition that uses them, and what the code relies on is the predicate \<open>poco_documented\<close>.
  An object is the list of its entries in iteration order: \<open>Poco::JSON::Object\<close> keeps its
  values in a \<open>std::map\<close>, so \<open>set\<close> replaces the value of a key or inserts it in key order.
\<close>

section \<open>Values\<close>

text \<open>
  \<open>JEmpty\<close> is a \<open>Var\<close> that holds nothing (JSON null, or the value of a missing key).
  \<open>JReal\<close> carries a floating point value as the text its conversion gives, \<open>JOther\<close> any other
  held type by its text. \<open>JNullObj\<close> and \<open>JNullArr\<close> hold a null \<open>Object::Ptr\<close> or \<open>Array::Ptr\<close>.
\<close>

datatype jvar =
  JEmpty | JBool bool | JInt int | JReal string | JChar char | JStr string | JOther string
| JObj "(string \<times> jvar) list" | JArr "jvar list" | JNullObj | JNullArr

type_synonym jobj = "(string \<times> jvar) list"

fun isEmpty :: "jvar \<Rightarrow> bool" where
  "isEmpty JEmpty = True"
| "isEmpty v = False"

fun string_less :: "string \<Rightarrow> string \<Rightarrow> bool" where
  "string_less [] [] = False"
| "string_less [] (d # ds) = True"
| "string_less (c # cs) [] = False"
| "string_less (c # cs) (d # ds) =
     (if byte c < byte d then True else if byte d < byte c then False else string_less cs ds)"

definition obj_get :: "jobj \<Rightarrow> string \<Rightarrow> jvar" where
  "obj_get o' k = (case map_of o' k of None \<Rightarrow> JEmpty | Some v \<Rightarrow> v)"

definition obj_has :: "jobj \<Rightarrow> string \<Rightarrow> bool" where
  "obj_has o' k \<longleftrightarrow> map_of o' k \<noteq> None"

definition obj_isNull :: "jobj \<Rightarrow> string \<Rightarrow> bool" where
  "obj_isNull o' k \<longleftrightarrow> isEmpty (obj_get o' k)"

fun obj_set :: "string \<Rightarrow> jvar \<Rightarrow> jobj \<Rightarrow> jobj" where
  "obj_set k v [] = [(k, v)]"
| "obj_set k v ((k', v') # r) =
     (if k = k' then (k, v) # r
      else if string_less k k' then (k, v) # (k', v') # r
      else (k', v') # obj_set k v r)"

definition obj_getObject :: "jobj \<Rightarrow> string \<Rightarrow> jobj option" where
  "obj_getObject o' k = (case obj_get o' k of JObj x \<Rightarrow> Some x | _ \<Rightarrow> None)"

definition obj_getArray :: "jobj \<Rightarrow> string \<Rightarrow> jvar list option" where
  "obj_getArray o' k = (case obj_get o' k of JArr x \<Rightarrow> Some x | _ \<Rightarrow> None)"

definition obj_of_list :: "(string \<times> jvar) list \<Rightarrow> jobj" where
  "obj_of_list kvs = fold (\<lambda>(k, v). obj_set k v) kvs []"

text \<open>Dereferencing a null \<open>SharedPtr\<close> throws \<open>Poco::NullPointerException\<close>.\<close>

definition null_pointer :: exn where
  "null_pointer = StdExn (Poco_exception ''Null pointer'') ''Null pointer''"

definition deref :: "'a option \<Rightarrow> exn + 'a" where
  "deref p = (case p of None \<Rightarrow> Inl null_pointer | Some x \<Rightarrow> Inr x)"

definition bad_cast :: exn where
  "bad_cast = StdExn (Poco_exception ''Bad cast exception'') ''Bad cast exception''"

text \<open>\<open>extract<Object::Ptr>()\<close> and \<open>extract<Array::Ptr>()\<close>: any other held type is a bad cast;
  a held null pointer is returned as such.\<close>

fun extract_obj :: "jvar \<Rightarrow> exn + jobj option" where
  "extract_obj (JObj x) = Inr (Some x)"
| "extract_obj JNullObj = Inr None"
| "extract_obj v = Inl bad_cast"

fun extract_arr :: "jvar \<Rightarrow> exn + jvar list option" where
  "extract_arr (JArr x) = Inr (Some x)"
| "extract_arr JNullArr = Inr None"
| "extract_arr v = Inl bad_cast"

section \<open>Poco as a parameter\<close>

record poco =
  p_toString :: "jvar \<Rightarrow> exn + string"
  p_toU64 :: "jvar \<Rightarrow> exn + u64"
  p_toI64 :: "jvar \<Rightarrow> exn + int"
  p_parse :: "string \<Rightarrow> exn + jvar"
  p_hex :: "nat \<Rightarrow> nat \<Rightarrow> string"

definition poco_documented :: "poco \<Rightarrow> bool" where
  "poco_documented p \<longleftrightarrow>
     (\<forall>s. p_toString p (JStr s) = Inr s) \<and>
     (\<forall>i. p_toString p (JInt i) = Inr (string_of_int i)) \<and>
     (\<forall>w. p_toU64 p (JInt (uint w)) = Inr w) \<and>
     (\<forall>i. - (2 ^ 63) \<le> i \<longrightarrow> i < 2 ^ 63 \<longrightarrow> p_toI64 p (JInt i) = Inr i) \<and>
     (\<forall>v e. p_toString p v = Inl e \<longrightarrow> is_std e) \<and>
     (\<forall>v e. p_toU64 p v = Inl e \<longrightarrow> is_std e) \<and>
     (\<forall>v e. p_toI64 p v = Inl e \<longrightarrow> is_std e) \<and>
     (\<forall>s e. p_parse p s = Inl e \<longrightarrow> is_std e)"

definition getValue :: "(jvar \<Rightarrow> exn + 'a) \<Rightarrow> jobj \<Rightarrow> string \<Rightarrow> exn + 'a" where
  "getValue conv o' k = conv (obj_get o' k)"

section \<open>Lemmas on objects\<close>

lemma string_less_irrefl [simp]: "\<not> string_less k k"
  by (induction k) auto

lemma string_less_trans: "string_less a b \<Longrightarrow> string_less b c \<Longrightarrow> string_less a c"
proof (induction a b arbitrary: c rule: string_less.induct)
  case (4 x xs y ys)
  then show ?case by (cases c) (auto split: if_splits)
qed (auto elim: string_less.elims)

lemma string_less_linear: "string_less a b \<or> a = b \<or> string_less b a"
  by (induction a b rule: string_less.induct) (auto simp flip: byte_inject)

lemma map_of_obj_set [simp]: "map_of (obj_set k v o') = (map_of o')(k \<mapsto> v)"
  by (induction o') auto

lemma obj_get_set [simp]: "obj_get (obj_set k v o') j = (if j = k then v else obj_get o' j)"
  by (simp add: obj_get_def)

lemma obj_has_set [simp]: "obj_has (obj_set k v o') j \<longleftrightarrow> j = k \<or> obj_has o' j"
  by (simp add: obj_has_def)

lemma obj_getObject_set [simp]:
  "obj_getObject (obj_set k v o') j =
     (if j = k then (case v of JObj x \<Rightarrow> Some x | _ \<Rightarrow> None) else obj_getObject o' j)"
  by (simp add: obj_getObject_def)

lemma obj_get_Nil [simp]: "obj_get [] k = JEmpty"
  by (simp add: obj_get_def)

lemma obj_has_Nil [simp]: "\<not> obj_has [] k"
  by (simp add: obj_has_def)

definition obj_wf :: "jobj \<Rightarrow> bool" where
  "obj_wf o' \<longleftrightarrow> sorted_wrt string_less (map fst o')"

lemma set_keys_obj_set: "set (map fst (obj_set k v o')) = insert k (set (map fst o'))"
proof -
  have "set (map fst xs) = dom (map_of xs)" for xs :: jobj
    by (simp add: dom_map_of_conv_image_fst)
  then show ?thesis by (simp del: set_map)
qed

lemma obj_wf_set: "obj_wf o' \<Longrightarrow> obj_wf (obj_set k v o')"
proof (induction o')
  case Nil
  then show ?case by (simp add: obj_wf_def)
next
  case (Cons e r)
  obtain k' v' where e: "e = (k', v')" by (cases e)
  from Cons.prems have r: "obj_wf r" and k': "\<forall>j \<in> set (map fst r). string_less k' j"
    by (auto simp: obj_wf_def e)
  consider (eq) "k = k'" | (lt) "k \<noteq> k'" "string_less k k'" | (gt) "k \<noteq> k'" "\<not> string_less k k'"
    by blast
  then show ?case
  proof cases
    case eq
    with Cons.prems show ?thesis by (simp add: obj_wf_def e)
  next
    case lt
    with Cons.prems k' show ?thesis
      by (auto simp: obj_wf_def e intro: string_less_trans)
  next
    case gt
    then have "string_less k' k" using string_less_linear by blast
    with k' have "\<forall>j \<in> set (map fst (obj_set k v r)). string_less k' j"
      by (simp add: set_keys_obj_set del: set_map)
    with Cons.IH [OF r] gt show ?thesis by (simp add: obj_wf_def e)
  qed
qed

lemma getValue_simp: "getValue conv o' k = conv (obj_get o' k)"
  by (simp add: getValue_def)

declare obj_set.simps [simp del]

end
