(* ===== verification/Jobs.thy ===== *)
theory Jobs
  imports Json
begin

text \<open>
  Job instances and their registry: \<open>QueueableJob\<close> (src/src/jobhandler/QueueableJob.hpp, .cpp)
  and \<open>JobsHandler\<close> (src/src/jobhandler/JobsHandler.hpp, .cpp). A job class written by a user
  is a parameter: the record \<open>job_class\<close> of its virtual functions, over a type \<open>'p\<close> of the
  members the class adds. Output a job prints goes to the two log streams the handler
  redirects \<open>std::cout\<close> and \<open>std::cerr\<close> to; other console output is not modelled.
\<close>

section \<open>Instances\<close>

datatype jobStatus = noerror | errorremove | errorretry | errexcept

record 'p job =
  tries :: u64
  maxtries :: u64
  retryAfter :: int
  failed :: bool
  members :: 'p

definition new_job :: "'p \<Rightarrow> 'p job" where
  "new_job p = \<lparr>tries = 0, maxtries = 3, retryAfter = 0, failed = False, members = p\<rparr>"

record 'p job_class =
  cls_getName :: "'p job \<Rightarrow> string"
  cls_new :: "'p job"
  cls_dump_json :: "'p job \<Rightarrow> jobj"
  cls_from_json :: "jobj \<Rightarrow> 'p job \<Rightarrow> exn + 'p job"
  cls_handle :: "'p job \<Rightarrow> 'p job \<times> string \<times> string \<times> exn option"

definition concatJobSystemVersion :: "string \<Rightarrow> string \<Rightarrow> string" where
  "concatJobSystemVersion version str = str @ version"

definition base_dump_json :: "'p job \<Rightarrow> jobj" where
  "base_dump_json j =
     obj_set ''retryAfter'' (JInt (retryAfter j))
       (obj_set ''maxtries'' (JInt (uint (maxtries j)))
         (obj_set ''tries'' (JInt (uint (tries j))) []))"

definition base_from_json :: "poco \<Rightarrow> jobj \<Rightarrow> 'p job \<Rightarrow> exn + 'p job" where
  "base_from_json pc json j =
     sum_bind (if obj_has json ''tries''
               then sum_bind (getValue (p_toU64 pc) json ''tries'') (\<lambda>n. Inr (j\<lparr>tries := n\<rparr>))
               else Inr j) (\<lambda>j1.
     sum_bind (if obj_has json ''maxtries''
               then sum_bind (getValue (p_toU64 pc) json ''maxtries'') (\<lambda>n. Inr (j1\<lparr>maxtries := n\<rparr>))
               else Inr j1) (\<lambda>j2.
     if obj_has json ''retryAfter''
     then sum_bind (getValue (p_toI64 pc) json ''retryAfter'') (\<lambda>n. Inr (j2\<lparr>retryAfter := n\<rparr>))
     else Inr j2))"

definition setMaxTries :: "u64 \<Rightarrow> 'p job \<Rightarrow> 'p job" where
  "setMaxTries n j = j\<lparr>maxtries := n\<rparr>"

definition setRetryAfter :: "int \<Rightarrow> 'p job \<Rightarrow> 'p job" where
  "setRetryAfter seconds j = j\<lparr>retryAfter := seconds\<rparr>"

section \<open>Serialisation of members\<close>

text \<open>
  The macro \<open>QUEUEABLE_SERIALIZE(m1, ..., mn)\<close>: one \<open>serial_field\<close> per member, with its name,
  the \<open>Var\<close> made from it, the assignment of \<open>getValue<T>\<close> of a \<open>Var\<close> (which may throw) and the
  assignment of \<open>T{}\<close>.
\<close>

record 'p serial_field =
  sf_name :: string
  sf_get :: "'p \<Rightarrow> jvar"
  sf_assign :: "jvar \<Rightarrow> 'p \<Rightarrow> exn + 'p"
  sf_default :: "'p \<Rightarrow> 'p"

definition json_obj_set :: "'p serial_field \<Rightarrow> 'p \<Rightarrow> jobj \<Rightarrow> jobj" where
  "json_obj_set f p json = obj_set (sf_name f) (sf_get f p) json"

definition json_obj_get :: "jobj \<Rightarrow> 'p serial_field \<Rightarrow> 'p \<Rightarrow> exn + 'p" where
  "json_obj_get json f p =
     (if obj_has json (sf_name f) \<and> \<not> obj_isNull json (sf_name f)
      then sf_assign f (obj_get json (sf_name f)) p else Inr (sf_default f p))"

definition serialize_dump_json :: "'p serial_field list \<Rightarrow> 'p job \<Rightarrow> jobj" where
  "serialize_dump_json fs j = fold (\<lambda>f. json_obj_set f (members j)) fs (base_dump_json j)"

fun unserialize_members :: "jobj \<Rightarrow> 'p serial_field list \<Rightarrow> 'p \<Rightarrow> exn + 'p" where
  "unserialize_members json [] p = Inr p"
| "unserialize_members json (f # fs) p =
     sum_bind (json_obj_get json f p) (unserialize_members json fs)"

definition serialize_from_json :: "poco \<Rightarrow> 'p serial_field list \<Rightarrow> jobj \<Rightarrow> 'p job \<Rightarrow> exn + 'p job" where
  "serialize_from_json pc fs json j =
     sum_bind (base_from_json pc json j) (\<lambda>j1.
       sum_bind (unserialize_members json fs (members j1)) (\<lambda>p. Inr (j1\<lparr>members := p\<rparr>)))"

section \<open>The registry\<close>

type_synonym 'p joblist = "string \<rightharpoonup> 'p job_class"

definition register_job_handler :: "string \<Rightarrow> 'p job_class \<Rightarrow> 'p joblist \<Rightarrow> exn + 'p joblist" where
  "register_job_handler jobname cls jl =
     (case jl jobname of
        Some c \<Rightarrow> Inl (StdExn Invalid_argument
                    (''Job j'' @ [CHR 0xC3, CHR 0xA1] @ '' cadastrado na lista: '' @ jobname))
      | None \<Rightarrow> Inr (jl(jobname \<mapsto> cls)))"

definition is_job_registered_name :: "'p joblist \<Rightarrow> string \<Rightarrow> bool" where
  "is_job_registered_name jl jobname \<longleftrightarrow> jl jobname \<noteq> None"

definition instance_job_fn :: "'p joblist \<Rightarrow> string \<Rightarrow> exn + 'p job_class" where
  "instance_job_fn jl jobname =
     (case jl jobname of None \<Rightarrow> Inl (StdExn Out_of_range ''_Map_base::at'') | Some c \<Rightarrow> Inr c)"

definition instance_from_payload :: "poco \<Rightarrow> 'p joblist \<Rightarrow> jobj \<Rightarrow> exn + 'p job_class \<times> 'p job" where
  "instance_from_payload pc jl payload =
     sum_bind (getValue (p_toString pc) payload ''className'') (\<lambda>name.
       sum_bind (instance_job_fn jl name) (\<lambda>cls.
         sum_bind (deref (obj_getObject payload ''data'')) (\<lambda>data.
           sum_bind (cls_from_json cls data (cls_new cls)) (\<lambda>j. Inr (cls, j)))))"

definition create_jobpayload :: "string \<Rightarrow> 'p job_class \<Rightarrow> 'p job \<Rightarrow> jobj" where
  "create_jobpayload typeName cls j =
     obj_set ''data'' (JObj (cls_dump_json cls j)) (obj_set ''className'' (JStr typeName) [])"

definition recreate_jobpayload :: "string \<Rightarrow> 'p job_class \<Rightarrow> jobj option \<Rightarrow> 'p job \<Rightarrow> jobj" where
  "recreate_jobpayload typeName cls oldpayload j =
     (case oldpayload of
        Some result \<Rightarrow> obj_set ''data'' (JObj (cls_dump_json cls j)) result
      | None \<Rightarrow> create_jobpayload typeName cls j)"

section \<open>Running a job\<close>

text \<open>A log stream on a temporary file: nothing is stored when the file could not be opened.\<close>

record log_stream =
  ls_open :: bool
  ls_text :: string

definition stream_write :: "string \<Rightarrow> log_stream \<Rightarrow> log_stream" where
  "stream_write t s = (if ls_open s then s\<lparr>ls_text := ls_text s @ t\<rparr> else s)"

text \<open>\<open>JobsHandler::handle\<close>. \<open>file\<close> is the \<open>__FILE__\<close> of the handler's source; 19 and 24 are the
  lines of the two \<open>catch\<close> bodies. A thrown value outside \<open>std::exception\<close> passes through.\<close>

definition handle :: "string \<Rightarrow> 'p job_class \<Rightarrow> 'p job \<Rightarrow> log_stream \<Rightarrow> log_stream \<Rightarrow>
    (exn + jobStatus) \<times> 'p job \<times> log_stream \<times> log_stream" where
  "handle file cls j outstream errstream =
     (case cls_handle cls j of (j', out, err, r) \<Rightarrow>
       let os = stream_write out outstream; es = stream_write err errstream in
       (case r of
          None \<Rightarrow> (Inr noerror, j', os, es)
        | Some (StdExn (Poco_exception display) what) \<Rightarrow>
            (Inr errexcept, j', os,
             stream_write (file @ ''@19: Job exception: '' @ what @ ''; '' @ display @ [CHR 0x0A]) es)
        | Some (StdExn k what) \<Rightarrow>
            (Inr errexcept, j', os,
             stream_write (file @ ''@24: Job exception: '' @ what @ [CHR 0x0A]) es)
        | Some ForeignExn \<Rightarrow> (Inl ForeignExn, j', os, es)))"

text \<open>\<open>std::getline\<close> until the stream fails: a last line without a newline still counts.\<close>

fun getlines :: "string \<Rightarrow> string \<Rightarrow> string list" where
  "getlines cur [] = (if cur = [] then [] else [cur])"
| "getlines cur (c # cs) =
     (if c = CHR 0x0A then cur # getlines [] cs else getlines (cur @ [c]) cs)"

definition joblog_text :: "log_stream \<Rightarrow> string" where
  "joblog_text joblog =
     (if ls_open joblog then concat (map (\<lambda>l. l @ [CHR 0x0A]) (getlines [] (ls_text joblog))) else [])"

definition putLogInDataMap :: "log_stream \<Rightarrow> string \<Rightarrow> (string \<rightharpoonup> string) \<Rightarrow> (string \<rightharpoonup> string)" where
  "putLogInDataMap joblog key datamap = datamap(key \<mapsto> joblog_text joblog)"

text \<open>The two \<open>catch\<close> blocks of \<open>saveJobLog\<close> see nothing: the streams are used without
  exceptions enabled.\<close>

definition saveJobLog :: "log_stream \<Rightarrow> log_stream \<Rightarrow> (string \<rightharpoonup> string) \<Rightarrow> (string \<rightharpoonup> string)" where
  "saveJobLog outstream errstream datamap =
     putLogInDataMap outstream ''JobStdout'' (putLogInDataMap errstream ''JobStderr'' datamap)"

section \<open>Lemmas\<close>

lemma handle_status: "handle file cls j os es = (Inr st, j', os', es') \<Longrightarrow> st = noerror \<or> st = errexcept"
  by (auto simp: handle_def Let_def split: prod.splits option.splits exn.splits exn_kind.splits)

lemma handle_raises: "handle file cls j os es = (Inl e, j', os', es') \<Longrightarrow> e = ForeignExn"
  by (auto simp: handle_def Let_def split: prod.splits option.splits exn.splits exn_kind.splits)

lemma handle_status_of:
  assumes "cls_handle cls j = (j', out, err, r)"
  shows "fst (handle file cls j os es) =
     (case r of None \<Rightarrow> Inr noerror | Some e \<Rightarrow> if is_std e then Inr errexcept else Inl e)"
    and "fst (snd (handle file cls j os es)) = j'"
  using assms by (auto simp: handle_def Let_def split: option.splits exn.splits exn_kind.splits)

lemma getlines_concat:
  "concat (map (\<lambda>l. l @ [CHR 0x0A]) (getlines cur t)) =
     (if cur @ t = [] \<or> (t \<noteq> [] \<and> last t = CHR 0x0A) then cur @ t else cur @ t @ [CHR 0x0A])"
  by (induction cur t rule: getlines.induct) auto

lemma saveJobLog_frame:
  "k \<noteq> ''JobStdout'' \<Longrightarrow> k \<noteq> ''JobStderr'' \<Longrightarrow> saveJobLog os es d k = d k"
  by (simp add: saveJobLog_def putLogInDataMap_def)

lemma base_dump_get [simp]:
  "obj_get (base_dump_json j) ''tries'' = JInt (uint (tries j))"
  "obj_get (base_dump_json j) ''maxtries'' = JInt (uint (maxtries j))"
  "obj_get (base_dump_json j) ''retryAfter'' = JInt (retryAfter j)"
  by (simp_all add: base_dump_json_def)

lemma base_dump_has [simp]:
  "obj_has (base_dump_json j) k \<longleftrightarrow> k \<in> {''tries'', ''maxtries'', ''retryAfter''}"
  by (auto simp: base_dump_json_def)

lemma obj_get_json_obj_set [simp]:
  "obj_get (json_obj_set f p o') k = (if k = sf_name f then sf_get f p else obj_get o' k)"
  "obj_has (json_obj_set f p o') k \<longleftrightarrow> k = sf_name f \<or> obj_has o' k"
  by (simp_all add: json_obj_set_def)

lemma serialize_fold_other:
  "k \<notin> sf_name ` set fs \<Longrightarrow> obj_get (fold (\<lambda>f. json_obj_set f p) fs o') k = obj_get o' k"
  "k \<notin> sf_name ` set fs \<Longrightarrow> obj_has (fold (\<lambda>f. json_obj_set f p) fs o') k = obj_has o' k"
  by (induction fs arbitrary: o') auto

lemma serialize_fold_field:
  "distinct (map sf_name fs) \<Longrightarrow> f \<in> set fs \<Longrightarrow>
     obj_get (fold (\<lambda>f. json_obj_set f p) fs o') (sf_name f) = sf_get f p \<and>
     obj_has (fold (\<lambda>f. json_obj_set f p) fs o') (sf_name f)"
proof (induction fs arbitrary: o')
  case Nil
  then show ?case by simp
next
  case (Cons g gs)
  show ?case
  proof (cases "f = g")
    case True
    with Cons.prems have "sf_name f \<notin> sf_name ` set gs" by auto
    with True show ?thesis by (simp add: serialize_fold_other)
  next
    case False
    with Cons show ?thesis by auto
  qed
qed

text \<open>What the members of a class must satisfy for the macro to restore them: assigning the
  \<open>Var\<close> of a member gives that member back, the default of a member that was null is null, and
  neither touches another member.\<close>

definition serial_fields_ok :: "'p serial_field list \<Rightarrow> bool" where
  "serial_fields_ok fs \<longleftrightarrow> distinct (map sf_name fs) \<and>
     set (map sf_name fs) \<inter> {''tries'', ''maxtries'', ''retryAfter''} = {} \<and>
     (\<forall>f \<in> set fs. \<forall>p q. sf_get f p \<noteq> JEmpty \<longrightarrow>
        (\<exists>q'. sf_assign f (sf_get f p) q = Inr q' \<and> sf_get f q' = sf_get f p \<and>
          (\<forall>g \<in> set fs. g \<noteq> f \<longrightarrow> sf_get g q' = sf_get g q))) \<and>
     (\<forall>f \<in> set fs. \<forall>p q. sf_get f p = JEmpty \<longrightarrow> sf_get f (sf_default f q) = JEmpty) \<and>
     (\<forall>f \<in> set fs. \<forall>q. \<forall>g \<in> set fs. g \<noteq> f \<longrightarrow> sf_get g (sf_default f q) = sf_get g q)"

lemma json_obj_get_field:
  assumes ok: "serial_fields_ok fs" and f: "f \<in> set fs"
    and json: "obj_has json (sf_name f)" "obj_get json (sf_name f) = sf_get f p"
  shows "\<exists>q'. json_obj_get json f q = Inr q' \<and> sf_get f q' = sf_get f p \<and>
     (\<forall>g \<in> set fs. g \<noteq> f \<longrightarrow> sf_get g q' = sf_get g q)"
proof (cases "sf_get f p = JEmpty")
  case True
  with ok f json show ?thesis
    unfolding serial_fields_ok_def by (auto simp: json_obj_get_def obj_isNull_def)
next
  case False
  then have "\<not> isEmpty (sf_get f p)" by (cases "sf_get f p") auto
  with False ok f json show ?thesis
    unfolding serial_fields_ok_def json_obj_get_def obj_isNull_def by auto
qed

lemma unserialize_members_restores:
  assumes ok: "serial_fields_ok fs" and sub: "set gs \<subseteq> set fs" "distinct gs"
    and json: "\<forall>f \<in> set fs. obj_has json (sf_name f) \<and> obj_get json (sf_name f) = sf_get f p"
  shows "\<exists>q'. unserialize_members json gs q = Inr q' \<and> (\<forall>f \<in> set gs. sf_get f q' = sf_get f p) \<and>
     (\<forall>g \<in> set fs - set gs. sf_get g q' = sf_get g q)"
  using sub
proof (induction gs arbitrary: q)
  case Nil
  then show ?case by simp
next
  case (Cons f gs)
  from json_obj_get_field [OF ok, of f json p q] Cons.prems json
  obtain q1 where q1: "json_obj_get json f q = Inr q1" "sf_get f q1 = sf_get f p"
      "\<forall>g \<in> set fs. g \<noteq> f \<longrightarrow> sf_get g q1 = sf_get g q" by auto
  from Cons.IH [of q1] Cons.prems obtain q' where
      q': "unserialize_members json gs q1 = Inr q'" "\<forall>f \<in> set gs. sf_get f q' = sf_get f p"
      "\<forall>g \<in> set fs - set gs. sf_get g q' = sf_get g q1" by auto
  have "sf_get f q' = sf_get f p" using q' q1 Cons.prems by auto
  with q1 q' Cons.prems show ?case by auto
qed

section \<open>Properties\<close>

lemma base_from_json_counters_of:
  assumes "poco_documented pc" and "obj_has json ''tries''" "obj_get json ''tries'' = JInt (uint (tries j))"
    and "obj_has json ''maxtries''" "obj_get json ''maxtries'' = JInt (uint (maxtries j))"
    and "obj_has json ''retryAfter''" "obj_get json ''retryAfter'' = JInt (retryAfter j)"
    and "- (2 ^ 63) \<le> retryAfter j" "retryAfter j < 2 ^ 63"
  shows "base_from_json pc json k =
     Inr (k\<lparr>tries := tries j, maxtries := maxtries j, retryAfter := retryAfter j\<rparr>)"
  using assms by (simp add: base_from_json_def getValue_def poco_documented_def)

text \<open>C8: the payload a class with \<open>QUEUEABLE_SERIALIZE\<close> dumps brings back the job: reading it into
  any instance of the class restores the counters, the retry delay and every listed member, null
  members included.\<close>

theorem serialize_roundtrip:
  assumes pc: "poco_documented pc" and fs: "serial_fields_ok fs"
    and ra: "- (2 ^ 63) \<le> retryAfter j" "retryAfter j < 2 ^ 63"
  shows "\<exists>k'. serialize_from_json pc fs (serialize_dump_json fs j) k = Inr k' \<and>
     tries k' = tries j \<and> maxtries k' = maxtries j \<and> retryAfter k' = retryAfter j \<and>
     (\<forall>f \<in> set fs. sf_get f (members k') = sf_get f (members j))"
proof -
  let ?json = "serialize_dump_json fs j"
  have dist: "distinct (map sf_name fs)" and names: "''tries'' \<notin> sf_name ` set fs"
      "''maxtries'' \<notin> sf_name ` set fs" "''retryAfter'' \<notin> sf_name ` set fs"
    using fs by (auto simp: serial_fields_ok_def)
  have base: "base_from_json pc ?json k =
      Inr (k\<lparr>tries := tries j, maxtries := maxtries j, retryAfter := retryAfter j\<rparr>)"
    by (rule base_from_json_counters_of [OF pc])
      (use names ra in \<open>simp_all add: serialize_dump_json_def serialize_fold_other\<close>)
  have "\<forall>f \<in> set fs. obj_has ?json (sf_name f) \<and> obj_get ?json (sf_name f) = sf_get f (members j)"
    using serialize_fold_field [OF dist] by (auto simp: serialize_dump_json_def)
  moreover have "distinct fs" using dist by (simp add: distinct_map)
  ultimately obtain q' where "unserialize_members ?json fs (members k) = Inr q'"
      "\<forall>f \<in> set fs. sf_get f q' = sf_get f (members j)"
    using unserialize_members_restores [OF fs, of fs ?json "members j" "members k"] by blast
  with base show ?thesis by (simp add: serialize_from_json_def)
qed

definition id_fields :: "(int \<times> string option) serial_field list" where
  "id_fields =
     [\<lparr>sf_name = ''id'', sf_get = (\<lambda>p. JInt (fst p)),
       sf_assign = (\<lambda>v p. case v of JInt i \<Rightarrow> Inr (i, snd p) | _ \<Rightarrow> Inl bad_cast),
       sf_default = (\<lambda>p. (0, snd p))\<rparr>,
      \<lparr>sf_name = ''note'', sf_get = (\<lambda>p. case snd p of None \<Rightarrow> JEmpty | Some s \<Rightarrow> JStr s),
       sf_assign = (\<lambda>v p. case v of JStr s \<Rightarrow> Inr (fst p, Some s) | _ \<Rightarrow> Inl bad_cast),
       sf_default = (\<lambda>p. (fst p, None))\<rparr>]"

lemma id_fields_ok: "serial_fields_ok id_fields"
  by (auto simp: serial_fields_ok_def id_fields_def split: option.splits)

end
