(* ===== verification/GenericQueue.thy ===== *)
theory GenericQueue
  imports Prelude
begin

text \<open>
  The interface \<open>GenericQueue\<close> (src/src/queues/GenericQueue.hpp): a record of its virtual
  functions over an arbitrary provider state, the bodies the base class gives to \<open>expire\<close>
  and \<open>ttl\<close>, and the contract the job worker relies on as a locale. Every operation may throw
  and may change the provider's state, so all have the effect type; \<open>isConnected\<close> answers None where
  it dereferences a null pointer.
\<close>

section \<open>The virtual functions\<close>

type_synonym datamap_t = "string \<rightharpoonup> string"

record 'q generic_queue =
  gq_push :: "string \<Rightarrow> string \<Rightarrow> ('q, unit) eff"
  gq_pushToLater :: "string \<Rightarrow> string \<Rightarrow> int \<Rightarrow> ('q, unit) eff"
  gq_getFullQueue :: "string \<Rightarrow> ('q, string list) eff"
  gq_pop :: "string \<Rightarrow> int \<Rightarrow> ('q, string option) eff"
  gq_getPersistentData :: "string \<Rightarrow> ('q, datamap_t) eff"
  gq_getPersistentDataField :: "string \<Rightarrow> string \<Rightarrow> ('q, string option) eff"
  gq_setPersistentData :: "string \<Rightarrow> datamap_t \<Rightarrow> ('q, unit) eff"
  gq_delPersistentData :: "string \<Rightarrow> ('q, unit) eff"
  gq_isConnected :: "('q, bool option) eff"
  gq_expire :: "string \<Rightarrow> int \<Rightarrow> ('q, bool) eff"
  gq_ttl :: "string \<Rightarrow> ('q, int) eff"

definition base_expire :: "string \<Rightarrow> int \<Rightarrow> ('q, bool) eff" where
  "base_expire name seconds = ret False"

definition base_ttl :: "string \<Rightarrow> ('q, int) eff" where
  "base_ttl name = ret 0"

section \<open>The contract of a job queue\<close>

text \<open>
  What a client sees of a provider is a \<open>qview\<close>: the entries waiting on each queue in order, the
  delayed entries with their time, and the persistent record of each entry.
\<close>

record qview =
  ready :: "string \<Rightarrow> string list"
  later :: "string \<Rightarrow> (string \<times> int) set"
  stored :: "string \<Rightarrow> datamap_t option"

definition v_push :: "string \<Rightarrow> string \<Rightarrow> qview \<Rightarrow> qview" where
  "v_push n j v = v\<lparr>ready := (ready v)(n := ready v n @ [j])\<rparr>"

definition v_later :: "string \<Rightarrow> string \<Rightarrow> int \<Rightarrow> qview \<Rightarrow> qview" where
  "v_later n j t v = v\<lparr>later := (later v)(n := insert (j, t) (later v n))\<rparr>"

definition v_set :: "string \<Rightarrow> datamap_t \<Rightarrow> qview \<Rightarrow> qview" where
  "v_set j d v = v\<lparr>stored := (stored v)(j := Some ((case stored v j of None \<Rightarrow> Map.empty | Some d0 \<Rightarrow> d0) ++ d))\<rparr>"

definition v_del :: "string \<Rightarrow> qview \<Rightarrow> qview" where
  "v_del j v = v\<lparr>stored := (stored v)(j := None)\<rparr>"

text \<open>
  A provider may keep its promises only for some names and times: names of queues and of records
  that do not run into each other, spans of time (the wait of a pop, the life of a record) that
  end neither at once nor never, and points of time it can store.
\<close>

record qscope =
  sc_queue :: "string \<Rightarrow> bool"
  sc_key :: "string \<Rightarrow> bool"
  sc_secs :: "int \<Rightarrow> bool"
  sc_time :: "int \<Rightarrow> bool"

definition whole_scope :: qscope where
  "whole_scope = \<lparr>sc_queue = (\<lambda>n. True), sc_key = (\<lambda>k. True), sc_secs = (\<lambda>s. True), sc_time = (\<lambda>t. True)\<rparr>"

lemma whole_scope_sel [simp]: "sc_queue whole_scope n" "sc_key whole_scope k" "sc_secs whole_scope s" "sc_time whole_scope t"
  by (simp_all add: whole_scope_def)

text \<open>
  The contract: every operation, run on a provider that answers (\<open>up\<close>, which all of them keep),
  returns and changes the view as its specification does. \<open>setPersistentData\<close> merges its fields
  into the stored record; a data map is finite, and one without fields is not stored. An entry that
  is already delayed is not delayed once more.
\<close>

locale job_queue =
  fixes Q :: "'q generic_queue"
    and up :: "'q \<Rightarrow> bool"
    and view :: "'q \<Rightarrow> qview"
    and sc :: qscope
  assumes push_law: "up q \<Longrightarrow> sc_queue sc n \<Longrightarrow>
      \<exists>q'. gq_push Q n j q = (Inr (), q') \<and> up q' \<and> view q' = v_push n j (view q)"
    and later_law: "up q \<Longrightarrow> sc_queue sc n \<Longrightarrow> sc_time sc t \<Longrightarrow> (\<forall>t'. (j, t') \<notin> later (view q) n) \<Longrightarrow>
      \<exists>q'. gq_pushToLater Q n j t q = (Inr (), q') \<and> up q' \<and> view q' = v_later n j t (view q)"
    and pop_law: "up q \<Longrightarrow> sc_queue sc n \<Longrightarrow> ready (view q) n = j # js \<Longrightarrow> \<exists>q'. gq_pop Q n t q = (Inr (Some j), q') \<and>
      up q' \<and> view q' = (view q)\<lparr>ready := (ready (view q))(n := js)\<rparr>"
    and pop_empty_law: "up q \<Longrightarrow> sc_queue sc n \<Longrightarrow> sc_secs sc t \<Longrightarrow> ready (view q) n = [] \<Longrightarrow> later (view q) n = {} \<Longrightarrow>
      \<exists>q'. gq_pop Q n t q = (Inr None, q') \<and> up q' \<and> view q' = view q"
    and get_law: "up q \<Longrightarrow> sc_key sc j \<Longrightarrow> stored (view q) j = Some d \<Longrightarrow>
      \<exists>q'. gq_getPersistentData Q j q = (Inr d, q') \<and> up q' \<and> view q' = view q"
    and field_law: "up q \<Longrightarrow> sc_key sc j \<Longrightarrow> stored (view q) j = Some d \<Longrightarrow>
      \<exists>q'. gq_getPersistentDataField Q j f q = (Inr (d f), q') \<and> up q' \<and> view q' = view q"
    and set_law: "up q \<Longrightarrow> sc_key sc j \<Longrightarrow> finite (dom d) \<Longrightarrow> d \<noteq> Map.empty \<Longrightarrow>
      \<exists>q'. gq_setPersistentData Q j d q = (Inr (), q') \<and> up q' \<and> view q' = v_set j d (view q)"
    and del_law: "up q \<Longrightarrow> sc_key sc j \<Longrightarrow> \<exists>q'. gq_delPersistentData Q j q = (Inr (), q') \<and> up q' \<and>
      view q' = v_del j (view q)"
    and expire_law: "up q \<Longrightarrow> sc_key sc j \<Longrightarrow> sc_secs sc s \<Longrightarrow>
      \<exists>b q'. gq_expire Q j s q = (Inr b, q') \<and> up q' \<and> view q' = view q"
begin

text \<open>Entries leave a queue in the order they were pushed.\<close>

lemma push_then_pop:
  assumes "up q" and "sc_queue sc n" and "ready (view q) n = []"
  shows "\<exists>q1 q2. gq_push Q n j q = (Inr (), q1) \<and> gq_pop Q n t q1 = (Inr (Some j), q2) \<and>
    view q2 = view q"
proof -
  obtain q1 where q1: "gq_push Q n j q = (Inr (), q1)" "up q1" "view q1 = v_push n j (view q)"
    using push_law [OF assms(1,2)] by blast
  then have "ready (view q1) n = j # []" using assms(3) by (simp add: v_push_def)
  then obtain q2 where q2: "gq_pop Q n t q1 = (Inr (Some j), q2)"
      "view q2 = (view q1)\<lparr>ready := (ready (view q1))(n := [])\<rparr>"
    using pop_law [OF q1(2) assms(2)] by blast
  have "(ready (view q))(n := []) = ready (view q)" using assms(3) by auto
  then have "view q2 = view q" using q1 q2 by (simp add: v_push_def)
  with q1 q2 show ?thesis by blast
qed

end

text \<open>
  What a pop finds when nothing waits but entries are delayed: nothing, or one whose time has come by the
  clock of the provider, which then leaves the delayed entries.
\<close>

locale delayed_queue = job_queue Q up view sc
  for Q :: "'q generic_queue" and up :: "'q \<Rightarrow> bool" and view :: "'q \<Rightarrow> qview" and sc :: qscope +
  fixes clk :: "'q \<Rightarrow> int"
  assumes pop_due_law: "up q \<Longrightarrow> sc_queue sc n \<Longrightarrow> sc_secs sc t \<Longrightarrow> sc_time sc (clk q) \<Longrightarrow> ready (view q) n = [] \<Longrightarrow>
      \<exists>r q'. gq_pop Q n t q = (Inr r, q') \<and> up q' \<and>
        (case r of
           None \<Rightarrow> view q' = view q
         | Some j \<Rightarrow> \<exists>s. (j, s) \<in> later (view q) n \<and> s \<le> clk q \<and>
             view q' = (view q)\<lparr>later := (later (view q))(n := later (view q) n - {(j, s)})\<rparr>)"

end
