(* ===== verification/PocoJsonStringify.thy ===== *)
theory PocoJsonStringify
  imports Json
begin

unbundle bit_operations_syntax

text \<open>
  The JSON writer (src/src/utils/PocoJsonStringify.hpp). The class appends to its member
  \<open>str\<close>; here each function returns the text it appends. Poco's hexadecimal formatter is the
  field \<open>p_hex\<close> (value, width) of the parameter.
\<close>

section \<open>Options and strings\<close>

record stringify_opts =
  strictJSON :: bool
  escapeAllUnicode :: bool

definition default_opts :: stringify_opts where
  "default_opts = \<lparr>strictJSON = True, escapeAllUnicode = False\<rparr>"

definition offsetsFromUTF8 :: "nat \<Rightarrow> u32" where
  "offsetsFromUTF8 i =
     [0x00000000, 0x00003080, 0x000E2080, 0x03C82080, 0xFA082080, 0x82082080] ! i"

text \<open>The inner loop: collects one lead byte and the continuation bytes behind it, six bytes
  at most.\<close>

fun gather :: "u32 \<Rightarrow> nat \<Rightarrow> string \<Rightarrow> u32 \<times> nat \<times> string" where
  "gather cur sizeutf [] = (cur, sizeutf, [])"
| "gather cur sizeutf (c # cs) =
     (if (word_of_nat (byte c) :: u8) AND 0xC0 = 0x80 \<and> sizeutf < 6
      then gather (push_bit 6 cur + word_of_nat (byte c)) (Suc sizeutf) cs
      else (cur, sizeutf, c # cs))"

lemma gather_length: "gather cur n cs = (cur', n', cs') \<Longrightarrow> length cs' \<le> length cs"
  by (induction cur n cs rule: gather.induct) (auto split: if_splits)

definition cast_uchar :: "u32 \<Rightarrow> nat" where
  "cast_uchar w = unat w mod 256"

definition escape_char :: "poco \<Rightarrow> stringify_opts \<Rightarrow> u32 \<Rightarrow> string" where
  "escape_char p opts curCh =
     (if curCh = 10 then [CHR 0x5C, CHR ''n'']
      else if curCh = 9 then [CHR 0x5C, CHR ''t'']
      else if curCh = 13 then [CHR 0x5C, CHR ''r'']
      else if curCh = 8 then [CHR 0x5C, CHR ''b'']
      else if curCh = 12 then [CHR 0x5C, CHR ''f'']
      else if curCh = 11 then (if strictJSON opts then CHR 0x5C # ''u000B'' else [CHR 0x5C, CHR ''v''])
      else if curCh = 7 then (if strictJSON opts then CHR 0x5C # ''u0007'' else [CHR 0x5C, CHR ''a''])
      else if curCh = 92 then [CHR 0x5C, CHR 0x5C]
      else if curCh = 34 then [CHR 0x5C, CHR 0x22]
      else if curCh = 47 then [CHR 0x5C, CHR ''/'']
      else if curCh = 0 then CHR 0x5C # ''u0000''
      else if curCh < 32 \<or> curCh = 0x7F then CHR 0x5C # CHR ''u'' # p_hex p (cast_uchar curCh) 4
      else if 0xFFFF < curCh then
        (let c = curCh - 0x10000 in
         CHR 0x5C # CHR ''u'' # p_hex p (cast_uchar (drop_bit 10 c AND 0x03FF) + 0xD800) 4 @
         CHR 0x5C # CHR ''u'' # p_hex p (cast_uchar (c AND 0x03FF) + 0xDC00) 4)
      else if 0x80 \<le> curCh \<and> curCh \<le> 0xFFFF then
        CHR 0x5C # CHR ''u'' # p_hex p (cast_uchar curCh) 4
      else [char_of (unat curCh)])"

function escapeJSONUTF8 :: "poco \<Rightarrow> stringify_opts \<Rightarrow> string \<Rightarrow> string" where
  "escapeJSONUTF8 p opts [] = []"
| "escapeJSONUTF8 p opts (c # cs) =
     (case gather (word_of_nat (byte c)) 1 cs of (cur, sizeutf, rest) \<Rightarrow>
        escape_char p opts (cur - offsetsFromUTF8 (sizeutf - 1)) @ escapeJSONUTF8 p opts rest)"
  by pat_completeness auto
termination
  by (relation "measure (\<lambda>(p, opts, cs). length cs)") (auto dest!: sym [THEN gather_length] simp: less_Suc_eq_le)

definition formatChar :: "poco \<Rightarrow> stringify_opts \<Rightarrow> char \<Rightarrow> string" where
  "formatChar p opts c =
     (if byte c \<le> 31 \<or> c = CHR 0x22 \<or> c = CHR 0x5C then escapeJSONUTF8 p opts [c] else [c])"

definition formatString :: "poco \<Rightarrow> stringify_opts \<Rightarrow> string \<Rightarrow> string" where
  "formatString p opts value =
     [CHR 0x22] @
     (if escapeAllUnicode opts then escapeJSONUTF8 p opts value
      else concat (map (formatChar p opts) value)) @
     [CHR 0x22]"

section \<open>Documents\<close>

fun stringify :: "poco \<Rightarrow> stringify_opts \<Rightarrow> jvar \<Rightarrow> exn + string"
  and stringify_items :: "poco \<Rightarrow> stringify_opts \<Rightarrow> bool \<Rightarrow> jvar list \<Rightarrow> exn + string"
  and stringify_fields :: "poco \<Rightarrow> stringify_opts \<Rightarrow> bool \<Rightarrow> jobj \<Rightarrow> exn + string"
where
  "stringify p opts (JObj o') =
     sum_bind (stringify_fields p opts True o') (\<lambda>t. Inr (''{'' @ t @ ''}''))"
| "stringify p opts (JArr xs) =
     sum_bind (stringify_items p opts True xs) (\<lambda>t. Inr (''['' @ t @ '']''))"
| "stringify p opts JNullObj = Inr ''null''"
| "stringify p opts JNullArr = Inr ''null''"
| "stringify p opts JEmpty = Inr ''null''"
| "stringify p opts (JChar c) =
     sum_bind (p_toString p (JChar c)) (\<lambda>t. Inr (formatString p opts t))"
| "stringify p opts (JStr s) = Inr (formatString p opts s)"
| "stringify p opts (JOther s) =
     sum_bind (p_toString p (JOther s)) (\<lambda>t. Inr (formatString p opts t))"
| "stringify p opts v = p_toString p v"
| "stringify_items p opts first [] = Inr []"
| "stringify_items p opts first (x # xs) =
     sum_bind (stringify p opts x) (\<lambda>t.
       sum_bind (stringify_items p opts False xs) (\<lambda>r.
         Inr ((if first then [] else '','') @ t @ r)))"
| "stringify_fields p opts first [] = Inr []"
| "stringify_fields p opts first ((k, x) # xs) =
     sum_bind (stringify p opts x) (\<lambda>t.
       sum_bind (stringify_fields p opts False xs) (\<lambda>r.
         Inr ((if first then [] else '','') @ formatString p opts k @ '':'' @ t @ r)))"

definition JsonToString :: "poco \<Rightarrow> jvar \<Rightarrow> exn + string" where
  "JsonToString p v = stringify p default_opts v"

section \<open>A reader for JSON strings\<close>

text \<open>
  The reading side is the grammar of RFC 8259 for one string, used to state what the writer
  must produce: text from behind the opening quote up to the closing one, with the escapes
  undone. Only code points below 128 are needed for \<open>\u\<close> escapes.
\<close>

definition hex_digit :: "char \<Rightarrow> nat option" where
  "hex_digit c =
     (if is_digit c then Some (byte c - 48)
      else if 65 \<le> byte c \<and> byte c \<le> 70 then Some (byte c - 55)
      else if 97 \<le> byte c \<and> byte c \<le> 102 then Some (byte c - 87)
      else None)"

definition read_hex4 :: "char \<Rightarrow> char \<Rightarrow> char \<Rightarrow> char \<Rightarrow> nat option" where
  "read_hex4 a b c d =
     (case (hex_digit a, hex_digit b, hex_digit c, hex_digit d) of
        (Some w, Some x, Some y, Some z) \<Rightarrow> Some (((w * 16 + x) * 16 + y) * 16 + z)
      | _ \<Rightarrow> None)"

definition unescape_simple :: "char \<Rightarrow> char option" where
  "unescape_simple c =
     (if c = CHR ''n'' then Some (CHR 0x0A) else if c = CHR ''t'' then Some (CHR 0x09)
      else if c = CHR ''r'' then Some (CHR 0x0D) else if c = CHR ''b'' then Some (CHR 0x08)
      else if c = CHR ''f'' then Some (CHR 0x0C)
      else if c = CHR 0x22 \<or> c = CHR 0x5C \<or> c = CHR ''/'' then Some c else None)"

fun read_chars :: "string \<Rightarrow> (string \<times> string) option" where
  "read_chars [] = None"
| "read_chars (x # xs) =
     (if x = CHR 0x22 then Some ([], xs)
      else if byte x < 32 then None
      else if x = CHR 0x5C then
        (case xs of
           [] \<Rightarrow> None
         | e # ys \<Rightarrow>
             (if e = CHR ''u'' then
                (case ys of
                   a # b # c # d # zs \<Rightarrow>
                     (case read_hex4 a b c d of
                        Some n \<Rightarrow> if n < 128 then map_option (\<lambda>(s, r). (char_of n # s, r)) (read_chars zs)
                                  else None
                      | None \<Rightarrow> None)
                 | _ \<Rightarrow> None)
              else
                (case unescape_simple e of
                   Some y \<Rightarrow> map_option (\<lambda>(s, r). (y # s, r)) (read_chars ys)
                 | None \<Rightarrow> None)))
      else map_option (\<lambda>(s, r). (x # s, r)) (read_chars xs))"

definition read_string :: "string \<Rightarrow> (string \<times> string) option" where
  "read_string s = (case s of c # cs \<Rightarrow> if c = CHR 0x22 then read_chars cs else None | [] \<Rightarrow> None)"

text \<open>What the code relies on of \<open>NumberFormatter::appendHex\<close>: upper case digits, filled with
  zeros on the left up to the width.\<close>

definition hexchar :: "nat \<Rightarrow> char" where
  "hexchar d = (if d < 10 then char_of (48 + d) else char_of (55 + d))"

definition hex4 :: "nat \<Rightarrow> string" where
  "hex4 v = [hexchar (v div 4096 mod 16), hexchar (v div 256 mod 16), hexchar (v div 16 mod 16), hexchar (v mod 16)]"

definition hex_documented :: "poco \<Rightarrow> bool" where
  "hex_documented p \<longleftrightarrow> (\<forall>v < 65536. p_hex p v 4 = hex4 v)"

section \<open>What the reader makes of the writer's text\<close>

lemma escape_single: "escapeJSONUTF8 p opts [c] = escape_char p opts (word_of_nat (byte c))"
  by (simp add: offsetsFromUTF8_def)

lemma hexchar_digit: "d < 16 \<Longrightarrow> hex_digit (hexchar d) = Some d"
  by (auto simp: hex_digit_def hexchar_def is_digit_def byte_def)

lemma hexchar_plain: "d < 16 \<Longrightarrow> hexchar d \<noteq> CHR 0x22"
  by (auto simp: hexchar_def byte_def simp flip: byte_inject)

lemma read_hex4_hexchar:
  "w < 16 \<Longrightarrow> x < 16 \<Longrightarrow> y < 16 \<Longrightarrow> z < 16 \<Longrightarrow>
   read_hex4 (hexchar w) (hexchar x) (hexchar y) (hexchar z) = Some (((w * 16 + x) * 16 + y) * 16 + z)"
  by (simp add: read_hex4_def hexchar_digit)

lemma read_hex4_hex4:
  "n < 65536 \<Longrightarrow> read_hex4 (hexchar (n div 4096 mod 16)) (hexchar (n div 256 mod 16)) (hexchar (n div 16 mod 16)) (hexchar (n mod 16)) = Some n"
proof -
  assume n: "n < 65536"
  have a: "m div 16 * 16 + m mod 16 = m" for m :: nat by simp
  have d: "n div 256 = n div 16 div 16" "n div 4096 = n div 256 div 16"
    by (simp_all flip: div_mult2_eq)
  have "n div 4096 mod 16 = n div 4096" using n by simp
  then have "n div 4096 mod 16 * 16 + n div 256 mod 16 = n div 256"
    using a [of "n div 256"] by (simp add: d)
  then have "(n div 4096 mod 16 * 16 + n div 256 mod 16) * 16 + n div 16 mod 16 = n div 16"
    using a [of "n div 16"] by (simp add: d)
  then have "((n div 4096 mod 16 * 16 + n div 256 mod 16) * 16 + n div 16 mod 16) * 16 + n mod 16 = n"
    by (simp only: a)
  moreover have "read_hex4 (hexchar (n div 4096 mod 16)) (hexchar (n div 256 mod 16))
      (hexchar (n div 16 mod 16)) (hexchar (n mod 16)) =
      Some (((n div 4096 mod 16 * 16 + n div 256 mod 16) * 16 + n div 16 mod 16) * 16 + n mod 16)"
    by (rule read_hex4_hexchar) simp_all
  ultimately show ?thesis by (simp only:)
qed

text \<open>\<open>reads t c\<close>: the reader takes the text \<open>t\<close> for the character \<open>c\<close>, whatever follows.\<close>

definition reads :: "string \<Rightarrow> char \<Rightarrow> bool" where
  "reads t c \<longleftrightarrow> (\<forall>rest. read_chars (t @ rest) = map_option (\<lambda>(s, r). (c # s, r)) (read_chars rest))"

lemma reads_u:
  assumes "byte c < 128"
  shows "reads (CHR 0x5C # CHR ''u'' # hex4 (byte c)) c"
  using assms read_hex4_hex4 [of "byte c"] by (simp add: reads_def hex4_def byte_def)

lemma reads_simple:
  assumes "unescape_simple e = Some c" and "e \<noteq> CHR ''u''"
  shows "reads [CHR 0x5C, e] c"
  using assms by (simp add: reads_def byte_def)

lemma escape_char_reads_nat:
  assumes "hex_documented p"
  shows "\<forall>n \<in> set [0, 1, 2, 3, 4, 5, 6, 7, 8, 9, 10, 11, 12, 13, 14, 15, 16, 17, 18, 19, 20, 21, 22, 23, 24, 25, 26, 27, 28, 29, 30, 31, 34, 92]. reads (escape_char p default_opts (word_of_nat n)) (char_of n)"
proof -
  have u: "reads (CHR 0x5C # CHR ''u'' # hex4 n) (char_of n)" if "n < 128" for n
    using reads_u [of "char_of n"] that by (simp add: byte_def)
  have h: "p_hex p n 4 = hex4 n" if "n < 65536" for n
    using assms that by (simp add: hex_documented_def)
  have x: "CHR 0x5C # ''u000B'' = CHR 0x5C # CHR ''u'' # hex4 11"
    "CHR 0x5C # ''u0007'' = CHR 0x5C # CHR ''u'' # hex4 7"
    "CHR 0x5C # ''u0000'' = CHR 0x5C # CHR ''u'' # hex4 0"
    by code_simp+
  have c: "char_of (10::nat) = CHR 0x0A" "char_of (9::nat) = CHR 0x09" "char_of (13::nat) = CHR 0x0D"
    "char_of (8::nat) = CHR 0x08" "char_of (12::nat) = CHR 0x0C" "char_of (34::nat) = CHR 0x22"
    "char_of (92::nat) = CHR 0x5C"
    by code_simp+
  have u01: "reads (CHR 0x5C # CHR ''u'' # hex4 0) (char_of (0::nat))" "reads (CHR 0x5C # CHR ''u'' # hex4 1) (char_of (1::nat))"
    "reads (CHR 0x5C # CHR ''u'' # hex4 (Suc 0)) (char_of (Suc 0))" using u [of 0] u [of 1] by simp_all
  show ?thesis
    by (simp add: escape_char_def default_opts_def x cast_uchar_def h u u01 reads_simple unescape_simple_def c
      del: One_nat_def)
qed

lemma escape_char_reads:
  assumes "hex_documented p" and "byte c \<le> 31 \<or> c = CHR 0x22 \<or> c = CHR 0x5C"
  shows "reads (escape_char p default_opts (word_of_nat (byte c))) c"
proof -
  have "byte c \<in> set ([0..<32] @ [34, 92])" using assms(2) by (auto simp: byte_def)
  moreover have "[0..<32] @ [34, 92] = [0, 1, 2, 3, 4, 5, 6, 7, 8, 9, 10, 11, 12, 13, 14, 15, 16, 17, 18, 19, 20, 21, 22, 23, 24, 25, 26, 27, 28, 29, 30, 31, 34, 92]" by code_simp
  ultimately have "byte c \<in> set [0, 1, 2, 3, 4, 5, 6, 7, 8, 9, 10, 11, 12, 13, 14, 15, 16, 17, 18, 19, 20, 21, 22, 23, 24, 25, 26, 27, 28, 29, 30, 31, 34, 92]" by (simp only:)
  then have "reads (escape_char p default_opts (word_of_nat (byte c))) (char_of (byte c))"
    by (rule bspec [OF escape_char_reads_nat [OF assms(1)]])
  then show ?thesis by (simp add: byte_def)
qed

lemma formatChar_reads: "hex_documented p \<Longrightarrow> reads (formatChar p default_opts c) c"
proof (cases "byte c \<le> 31 \<or> c = CHR 0x22 \<or> c = CHR 0x5C")
  case True
  assume "hex_documented p"
  with True show ?thesis
    using escape_char_reads [of p c] by (simp add: formatChar_def escape_single del: escapeJSONUTF8.simps)
next
  case False
  then show ?thesis by (simp add: formatChar_def reads_def)
qed

text \<open>What \<open>hex_documented\<close> promises makes the writer and the reader a pair of escaping and reading.\<close>

lemma json_escaping:
  assumes "hex_documented p"
  shows "escaping (formatChar p default_opts) read_chars (CHR 0x22) (\<lambda>rest. True)"
proof
  show "read_chars (formatChar p default_opts c @ t) = map_option (map_prod ((#) c) id) (read_chars t)" for c t
    using formatChar_reads [OF assms, of c] by (simp add: reads_def map_prod_def)
qed simp_all

lemma formatString_read_string:
  assumes "hex_documented p"
  shows "read_string (formatString p default_opts s @ rest) = Some (s, rest)"
  using escaping.reads_back_text [OF json_escaping [OF assms] TrueI, of s rest]
  by (simp add: read_string_def formatString_def default_opts_def)

text \<open>A document's opening and closing characters, whatever the nesting.\<close>

lemma stringify_obj_shape:
  "stringify p opts (JObj o') = Inr t \<Longrightarrow> \<exists>m. t = ''{'' @ m @ ''}''"
  by auto

section \<open>Properties\<close>

text \<open>C11: a string written by \<open>formatString\<close> with the default options is read back exactly by a
  JSON string reader, whatever bytes it holds and whatever text follows: quotes, backslashes
  and control characters are escaped so that the string can neither be cut short nor run on.\<close>

theorem formatString_roundtrip:
  assumes "hex_documented p"
  shows "read_string (formatString p default_opts s @ rest) = Some (s, rest)"
  by (rule formatString_read_string [OF assms])

definition hex_poco :: poco where
  "hex_poco = \<lparr>p_toString = (\<lambda>v. case v of JStr s \<Rightarrow> Inr s | JInt i \<Rightarrow> Inr (string_of_int i) | _ \<Rightarrow> Inl bad_cast),
     p_toU64 = (\<lambda>v. case v of JInt i \<Rightarrow> if 0 \<le> i \<and> i < 2 ^ 64 then Inr (word_of_int i) else Inl bad_cast | _ \<Rightarrow> Inl bad_cast),
     p_toI64 = (\<lambda>v. case v of JInt i \<Rightarrow> if - (2 ^ 63) \<le> i \<and> i < 2 ^ 63 then Inr i else Inl bad_cast | _ \<Rightarrow> Inl bad_cast),
     p_parse = (\<lambda>s. Inl bad_cast), p_hex = (\<lambda>v w. hex4 v)\<rparr>"

lemma hex_poco_documented: "poco_documented hex_poco"
  by (auto simp: poco_documented_def hex_poco_def bad_cast_def uint_lt2p [where 'a = 64, simplified]
      split: jvar.splits if_splits)

interpretation hex_json: escaping "formatChar hex_poco default_opts" read_chars "CHR 0x22" "\<lambda>rest. True"
  by (rule json_escaping) (simp add: hex_documented_def hex_poco_def)

theorem formatString_roundtrip_witness:
  "read_string (formatString hex_poco default_opts [CHR 0x22, CHR 0x0A, CHR ''a''] @ ''}'') =
     Some ([CHR 0x22, CHR 0x0A, CHR ''a''], ''}'')"
  by (rule formatString_roundtrip) (simp add: hex_documented_def hex_poco_def)

text \<open>With \<open>escapeAllUnicode\<close> the escapes are not injective: the code point is cast to
  \<open>unsigned char\<close> before it is formatted, so U+0100 (bytes C4 80) and the NUL character have
  the same escape once \<open>appendHex\<close> fills with zeros, and a reader cannot tell them apart.\<close>

theorem escape_unicode_collides:
  assumes "hex_documented p"
  shows "formatString p \<lparr>strictJSON = True, escapeAllUnicode = True\<rparr> [CHR 0xC4, CHR 0x80] =
         formatString p \<lparr>strictJSON = True, escapeAllUnicode = True\<rparr> [CHR 0x00]"
proof -
  have h: "p_hex p 0 4 = ''0000''"
  proof -
    have "p_hex p 0 4 = hex4 0" using assms by (simp add: hex_documented_def)
    also have "hex4 0 = ''0000''" by code_simp
    finally show ?thesis .
  qed
  show ?thesis
    by (simp add: formatString_def escape_char_def offsetsFromUTF8_def cast_uchar_def byte_def h)
qed

theorem escape_unicode_collides_witness:
  "formatString hex_poco \<lparr>strictJSON = True, escapeAllUnicode = True\<rparr> [CHR 0xC4, CHR 0x80] =
   formatString hex_poco \<lparr>strictJSON = True, escapeAllUnicode = True\<rparr> [CHR 0x00]"
  by (rule escape_unicode_collides) (simp add: hex_documented_def hex_poco_def)

end
