(* ===== verification/QueueWorker.thy ===== *)
theory QueueWorker
  imports Jobs GenericQueue PocoJsonStringify
begin

text \<open>
  The job worker (src/src/jobhandler/QueueWorker.hpp and QueueWorker.cpp) over an arbitrary
  \<open>GenericQueue\<close>: enqueueing, one round of pop, instantiate, run and settle, and the loop. The
  world outside the worker is the record \<open>worker_env\<close>: the queue's virtual functions, Poco, the
  registered job classes, the clocks, the file system's answers, the results of \<open>fork\<close> and
  \<open>waitpid\<close> and the user's metrics callback. Console logging is not modelled.
\<close>

section \<open>State and environment\<close>

datatype waitStatuses = exited | signaled | stopped | continued | unknown

datatype metric =
  JobQueued string string string
| JobStarted string string string u64
| JobCompleted string string string jobStatus int u64
| JobRetry string string string u64 int
| JobRemoved string string string jobStatus u64

record ('q, 'p) worker_env =
  we_vtable :: "'q generic_queue"
  we_poco :: poco
  we_joblist :: "'p joblist"
  we_file :: string
  we_tmpdir :: "exn + string"
  we_can_open :: "string \<Rightarrow> bool"
  we_fork :: int
  we_wait :: "int \<Rightarrow> waitStatuses \<times> int"
  we_now :: int
  we_steady_now :: int
  we_started :: "string \<Rightarrow> string \<Rightarrow> string \<Rightarrow> u64 \<Rightarrow> int"

record 'q worker =
  wk_queue :: 'q
  queueTimeout :: int
  jobLogExpireSeconds :: int
  running :: bool
  forkToHandle :: bool
  cleanSuccessfulJobsLogs :: bool
  metricsCallback :: bool
  events :: "metric list"

definition new_worker :: "'q \<Rightarrow> 'q worker" where
  "new_worker q = \<lparr>wk_queue = q, queueTimeout = 1, jobLogExpireSeconds = 3600, running = True,
     forkToHandle = False, cleanSuccessfulJobsLogs = True, metricsCallback = False, events = []\<rparr>"

definition setMetricsCallback :: "bool \<Rightarrow> 'q worker \<Rightarrow> 'q worker" where
  "setMetricsCallback cb w = w\<lparr>metricsCallback := cb\<rparr>"

definition getMetricsCallback :: "'q worker \<Rightarrow> bool" where
  "getMetricsCallback w = metricsCallback w"

text \<open>The helper that forks and waits, \<open>processHelperInst\<close>, made when it is first needed; what it answers is in the
  environment.\<close>

definition setProcessHelper :: "'h option \<Rightarrow> 'h option \<Rightarrow> 'h option" where
  "setProcessHelper pHelper inst = pHelper"

definition getProcessHelper :: "'h \<Rightarrow> 'h option \<Rightarrow> 'h \<times> 'h option" where
  "getProcessHelper made inst = (case inst of None \<Rightarrow> (made, Some made) | Some h \<Rightarrow> (h, inst))"

definition setForkToHandleJob :: "bool \<Rightarrow> 'q worker \<Rightarrow> 'q worker" where
  "setForkToHandleJob forkstatus w = w\<lparr>forkToHandle := forkstatus\<rparr>"

definition setCleanSuccessfulJobsLogs :: "bool \<Rightarrow> 'q worker \<Rightarrow> 'q worker" where
  "setCleanSuccessfulJobsLogs value w = w\<lparr>cleanSuccessfulJobsLogs := value\<rparr>"

definition setJobFinishedExpireSeconds :: "int \<Rightarrow> 'q worker \<Rightarrow> 'q worker" where
  "setJobFinishedExpireSeconds value w = w\<lparr>jobLogExpireSeconds := value\<rparr>"

text \<open>A run of worker code returns, throws, or ends the process (\<open>exit\<close> in a forked child).\<close>

datatype 'a outcome = Ret 'a | Raise exn | Exit jobStatus

definition emit :: "metric \<Rightarrow> 'q worker \<Rightarrow> 'q worker" where
  "emit m w = w\<lparr>events := events w @ [m]\<rparr>"

text \<open>A call of a virtual function of the queue.\<close>

definition qcall :: "('q, 'a) eff \<Rightarrow> 'q worker \<Rightarrow> (exn + 'a) \<times> 'q worker" where
  "qcall f w = (case f (wk_queue w) of (r, q) \<Rightarrow> (r, w\<lparr>wk_queue := q\<rparr>))"

section \<open>Running one job\<close>

definition process_retry_condition :: "'p job \<Rightarrow> jobStatus" where
  "process_retry_condition j =
     (if maxtries j = 0 then errorretry
      else if tries j < maxtries j then errorretry
      else errorremove)"

definition fork_process :: "('q, 'p) worker_env \<Rightarrow> 'q worker \<Rightarrow> int" where
  "fork_process env w = (if forkToHandle w then we_fork env else 0)"

definition allocateJobOutputStream :: "('q, 'p) worker_env \<Rightarrow> jobj \<Rightarrow> exn + log_stream \<times> log_stream" where
  "allocateJobOutputStream env json =
     sum_bind (we_tmpdir env) (\<lambda>tmpdir.
       sum_bind (getValue (p_toString (we_poco env)) json ''uuid'') (\<lambda>uuid.
         let name = tmpdir @ ''/tmp'' @ uuid in
         Inr (\<lparr>ls_open = we_can_open env name, ls_text = []\<rparr>,
              \<lparr>ls_open = we_can_open env (name @ ''.stderr''), ls_text = []\<rparr>)))"

text \<open>The \<open>switch\<close> on the process id: the child's status, with the exceptions derived from
  \<open>std::exception\<close> turned into \<open>errexcept\<close> and a field \<open>LastException\<close>.\<close>

definition run_by_pid :: "('q, 'p) worker_env \<Rightarrow> 'p job_class \<Rightarrow> 'p job \<Rightarrow> int \<Rightarrow>
    log_stream \<Rightarrow> log_stream \<Rightarrow> datamap_t \<Rightarrow>
    (exn + jobStatus) \<times> 'p job \<times> log_stream \<times> log_stream \<times> datamap_t" where
  "run_by_pid env cls j pid joblog joblogerr datamap =
     (let (r, j', os, es) =
        (if pid = -1 then (Inl (StdExn Runtime_error ''Fork failed''), j, joblog, joblogerr)
         else if pid = 0 then handle (we_file env) cls j joblog joblogerr
         else (let resPid = we_wait env pid in
               (Inr (if fst resPid = exited \<and> snd resPid = 0 then noerror
                     else process_retry_condition j), j, joblog, joblogerr)))
      in (case r of
            Inr st \<Rightarrow> (Inr st, j', os, es, datamap)
          | Inl e \<Rightarrow> if is_std e
                     then (Inr errexcept, j', os, es, datamap(''LastException'' \<mapsto> exn_what e))
                     else (Inl e, j', os, es, datamap)))"

definition store_retry_after :: "('q, 'p) worker_env \<Rightarrow> 'p job \<Rightarrow> string \<Rightarrow> jobStatus \<Rightarrow>
    'q worker \<Rightarrow> (exn + unit) \<times> 'q worker" where
  "store_retry_after env j jobname result w =
     (if result \<noteq> noerror \<and> retryAfter j > 0 then
        (case qcall (gq_setPersistentData (we_vtable env) jobname
                       [''retryAfter'' \<mapsto> string_of_int (retryAfter j)]) w of
           (Inr u, w') \<Rightarrow> (Inr (), w')
         | (Inl e, w') \<Rightarrow> (if is_std e then Inr () else Inl e, w'))
      else (Inr (), w))"

definition handle_job_run :: "('q, 'p) worker_env \<Rightarrow> 'q worker \<Rightarrow> 'p job_class \<Rightarrow> 'p job \<Rightarrow> jobj \<Rightarrow>
    datamap_t \<Rightarrow> string \<Rightarrow> jobStatus outcome \<times> 'q worker \<times> 'p job \<times> datamap_t" where
  "handle_job_run env w cls newjob json datamap jobname =
     (let j = newjob\<lparr>tries := tries newjob + 1\<rparr> in
      case allocateJobOutputStream env json of
        Inl e \<Rightarrow> (Raise e, w, j, datamap)
      | Inr (joblog, joblogerr) \<Rightarrow>
          let pid = fork_process env w in
          (case run_by_pid env cls j pid joblog joblogerr datamap of
             (Inl e, j', os, es, dm) \<Rightarrow> (Raise e, w, j', dm)
           | (Inr result, j', os, es, dm) \<Rightarrow>
               (case store_retry_after env j' jobname result w of
                  (Inl e, w') \<Rightarrow> (Raise e, w', j', dm)
                | (Inr u, w') \<Rightarrow>
                    if forkToHandle w \<and> pid = 0 then (Exit result, w', j', dm)
                    else (Ret result, w', j', saveJobLog os es (dm(''retryAfter'' := None))))))"

text \<open>The first two \<open>try\<close> blocks of \<open>work\<close>: class name, payload and uuid, then the counters
  written into the payload's data object. \<open>datamap[k]\<close> inserts an empty string for a missing
  key. An error carries the data map as the failing block leaves it.\<close>

definition touch :: "string \<Rightarrow> datamap_t \<Rightarrow> datamap_t" where
  "touch k datamap = (case datamap k of None \<Rightarrow> datamap(k \<mapsto> []) | Some v \<Rightarrow> datamap)"

definition field :: "datamap_t \<Rightarrow> string \<Rightarrow> string" where
  "field datamap k = (case datamap k of None \<Rightarrow> [] | Some v \<Rightarrow> v)"

definition read_payload :: "poco \<Rightarrow> datamap_t \<Rightarrow> exn + string \<times> jobj \<times> string" where
  "read_payload pc datamap =
     (case datamap ''className'' of
        None \<Rightarrow> Inl (StdExn Out_of_range ''_Map_base::at'')
      | Some jobClassName \<Rightarrow>
          sum_bind (p_parse pc (field datamap ''payload'')) (\<lambda>v.
            sum_bind (extract_obj v) (\<lambda>ptr.
              sum_bind (deref ptr) (\<lambda>json.
                if obj_has json ''uuid''
                then sum_bind (getValue (p_toString pc) json ''uuid'') (\<lambda>u. Inr (jobClassName, json, u))
                else Inr (jobClassName, json, [])))))"

definition write_counters :: "datamap_t \<Rightarrow> jobj \<Rightarrow> exn + jobj" where
  "write_counters datamap json =
     sum_bind (deref (obj_getObject json ''data'')) (\<lambda>data.
       sum_bind (stoull (field datamap ''tries'')) (\<lambda>t.
         sum_bind (stoull (field datamap ''maxtries'')) (\<lambda>m.
           Inr (obj_set ''data'' (JObj (obj_set ''maxtries'' (JInt (uint m))
                                   (obj_set ''tries'' (JInt (uint t)) data))) json))))"

definition counters_touched :: "datamap_t \<Rightarrow> jobj \<Rightarrow> datamap_t" where
  "counters_touched datamap json =
     (case obj_getObject json ''data'' of
        None \<Rightarrow> datamap
      | Some d \<Rightarrow> (case stoull (field datamap ''tries'') of
                     Inl e \<Rightarrow> touch ''tries'' datamap
                   | Inr t \<Rightarrow> touch ''maxtries'' (touch ''tries'' datamap)))"

text \<open>\<open>work\<close> from the point where the instance exists: callbacks, run, retry decision, refresh of
  the counters in the data map. An exception outside \<open>std::exception\<close> leaves \<open>work\<close>.\<close>

definition run_instance :: "('q, 'p) worker_env \<Rightarrow> 'q worker \<Rightarrow> string \<Rightarrow> datamap_t \<Rightarrow> string \<Rightarrow>
    string \<Rightarrow> string \<Rightarrow> jobj \<Rightarrow> 'p job_class \<Rightarrow> 'p job \<Rightarrow> jobStatus outcome \<times> 'q worker \<times> datamap_t" where
  "run_instance env w queue datamap jobname jobClassName jobUuid json cls newjob =
     (let cb = metricsCallback w \<and> jobClassName \<noteq> [];
          startTime = (if cb then we_started env queue jobClassName jobUuid (tries newjob)
                       else we_steady_now env);
          w1 = (if cb then emit (JobStarted queue jobClassName jobUuid (tries newjob)) w else w);
          settle = (\<lambda>result w j dm.
            let result' = (if result \<noteq> noerror then process_retry_condition j else result);
                w' = (if cb then emit (JobCompleted queue jobClassName jobUuid result' startTime (tries j)) w
                      else w);
                dm' = (if result' = errorretry
                       then dm(''tries'' \<mapsto> string_of_u64 (tries j), ''maxtries'' \<mapsto> string_of_u64 (maxtries j))
                       else dm)
            in (Ret result', w', dm'))
      in (case handle_job_run env w1 cls newjob json datamap jobname of
            (Ret result, w2, j, dm) \<Rightarrow> settle result w2 j dm
          | (Raise e, w2, j, dm) \<Rightarrow>
              if is_std e then settle errexcept w2 j dm else (Raise e, w2, dm)
          | (Exit st, w2, j, dm) \<Rightarrow> (Exit st, w2, dm)))"

definition work :: "('q, 'p) worker_env \<Rightarrow> 'q worker \<Rightarrow> string \<Rightarrow> datamap_t \<Rightarrow> string \<Rightarrow>
    jobStatus outcome \<times> 'q worker \<times> datamap_t" where
  "work env w queue datamap jobname =
     (case read_payload (we_poco env) datamap of
        Inl e \<Rightarrow> if is_std e then (Ret errorremove, w, touch ''payload'' datamap)
                 else (Raise e, w, datamap)
      | Inr (jobClassName, json, jobUuid) \<Rightarrow>
          let dm = touch ''payload'' datamap in
          (case write_counters dm json of
             Inl e \<Rightarrow> if is_std e then (Ret errorremove, w, counters_touched dm json) else (Raise e, w, dm)
           | Inr json' \<Rightarrow>
               let dm2 = counters_touched dm json in
               (case instance_from_payload (we_poco env) (we_joblist env) json' of
                  Inl e \<Rightarrow> if is_std e then (Ret errorretry, w, dm2) else (Raise e, w, dm2)
                | Inr (cls, newjob) \<Rightarrow>
                    run_instance env w queue (dm2(''payload'' := None)) jobname jobClassName jobUuid
                      json' cls newjob)))"

section \<open>Settling the result\<close>

definition job_key :: "string \<Rightarrow> string" where
  "job_key jobuuid = ''job_instance:'' @ jobuuid"

definition job_uuid_of :: "string \<Rightarrow> string" where
  "job_uuid_of jobname = (if starts_with jobname ''job_instance:'' then drop 13 jobname else [])"

definition metric_tries :: "datamap_t \<Rightarrow> u64" where
  "metric_tries datamap =
     (case datamap ''tries'' of None \<Rightarrow> 0
      | Some s \<Rightarrow> (case stoull s of Inl e \<Rightarrow> 0 | Inr t \<Rightarrow> t))"

text \<open>Every thrown value is swallowed while the delay is read: it is then 0.\<close>

definition read_retry_after :: "('q, 'p) worker_env \<Rightarrow> string \<Rightarrow> 'q worker \<Rightarrow> int \<times> 'q worker" where
  "read_retry_after env jobname w =
     (case qcall (gq_getPersistentDataField (we_vtable env) jobname ''retryAfter'') w of
        (Inr (Some s), w') \<Rightarrow> (case stoll s of Inl e \<Rightarrow> 0 | Inr n \<Rightarrow> n, w')
      | (Inr None, w') \<Rightarrow> (0, w')
      | (Inl e, w') \<Rightarrow> (0, w'))"

definition keep_log :: "('q, 'p) worker_env \<Rightarrow> string \<Rightarrow> datamap_t \<Rightarrow> 'q worker \<Rightarrow> (exn + unit) \<times> 'q worker" where
  "keep_log env jobname datamap w =
     (case qcall (gq_setPersistentData (we_vtable env) jobname datamap) w of
        (Inl e, w1) \<Rightarrow> (Inl e, w1)
      | (Inr u, w1) \<Rightarrow>
          (case qcall (gq_expire (we_vtable env) jobname (jobLogExpireSeconds w1)) w1 of
             (Inl e, w2) \<Rightarrow> (Inl e, w2)
           | (Inr b, w2) \<Rightarrow> (Inr (), w2)))"

definition requeue :: "('q, 'p) worker_env \<Rightarrow> string \<Rightarrow> string \<Rightarrow> int \<Rightarrow> 'q worker \<Rightarrow> (exn + unit) \<times> 'q worker" where
  "requeue env queue jobname after w =
     (if after = 0 then qcall (gq_push (we_vtable env) queue jobname) w
      else qcall (gq_pushToLater (we_vtable env) queue jobname (we_now env + after)) w)"

definition process_job_result :: "('q, 'p) worker_env \<Rightarrow> 'q worker \<Rightarrow> string \<Rightarrow> string \<Rightarrow> datamap_t \<Rightarrow>
    jobStatus \<Rightarrow> (exn + unit) \<times> 'q worker" where
  "process_job_result env w queue jobname datamap workresult =
     (let jobClassName = field datamap ''className'';
          jobUuid = job_uuid_of jobname;
          tries = metric_tries datamap;
          cb = metricsCallback w \<and> jobClassName \<noteq> [] in
      case workresult of
        noerror \<Rightarrow>
          (if cleanSuccessfulJobsLogs w then qcall (gq_delPersistentData (we_vtable env) jobname) w
           else keep_log env jobname datamap w)
      | errorremove \<Rightarrow>
          (case keep_log env jobname datamap w of
             (Inl e, w1) \<Rightarrow> (Inl e, w1)
           | (Inr u, w1) \<Rightarrow>
               (Inr (), if cb then emit (JobRemoved queue jobClassName jobUuid workresult tries) w1 else w1))
      | _ \<Rightarrow>
          (case read_retry_after env jobname w of (after, w1) \<Rightarrow>
            (case qcall (gq_setPersistentData (we_vtable env) jobname datamap) w1 of
               (Inl e, w2) \<Rightarrow> (Inl e, w2)
             | (Inr u, w2) \<Rightarrow>
                 requeue env queue jobname after
                   (if cb then emit (JobRetry queue jobClassName jobUuid tries after) w2 else w2))))"

lemma job_key_simps [simp]: "job_key u \<noteq> []" "job_key u = job_key v \<longleftrightarrow> u = v" "job_uuid_of (job_key u) = u"
  by (simp_all add: job_key_def job_uuid_of_def starts_with_def)

section \<open>The worker's entry points\<close>

definition wk_pop :: "('q, 'p) worker_env \<Rightarrow> 'q worker \<Rightarrow> string \<Rightarrow> int \<Rightarrow> (exn + string) \<times> 'q worker" where
  "wk_pop env w queue timeout =
     (case qcall (gq_pop (we_vtable env) queue timeout) w of
        (Inl e, w') \<Rightarrow> (Inl e, w')
      | (Inr data, w') \<Rightarrow> (Inr (case data of None \<Rightarrow> [] | Some s \<Rightarrow> s), w'))"

definition do_one_named :: "('q, 'p) worker_env \<Rightarrow> 'q worker \<Rightarrow> string \<Rightarrow> string \<Rightarrow> bool outcome \<times> 'q worker" where
  "do_one_named env w queue jobname =
     (if jobname = [] then (Ret False, w)
      else
        (case qcall (gq_getPersistentData (we_vtable env) jobname) w of
           (Inl e, w1) \<Rightarrow> (Raise e, w1)
         | (Inr jobdata, w1) \<Rightarrow>
             (case work env w1 queue jobdata jobname of
                (Raise e, w2, dm) \<Rightarrow> (Raise e, w2)
              | (Exit st, w2, dm) \<Rightarrow> (Exit st, w2)
              | (Ret workresult, w2, dm) \<Rightarrow>
                  (case process_job_result env w2 queue jobname dm workresult of
                     (Inl e, w3) \<Rightarrow> (Raise e, w3)
                   | (Inr u, w3) \<Rightarrow> (Ret True, w3)))))"

definition do_one :: "('q, 'p) worker_env \<Rightarrow> 'q worker \<Rightarrow> string \<Rightarrow> bool outcome \<times> 'q worker" where
  "do_one env w queue =
     (case wk_pop env w queue (queueTimeout w) of
        (Inl e, w1) \<Rightarrow> (Raise e, w1)
      | (Inr jobpayload, w1) \<Rightarrow>
          if jobpayload = [] then (Ret False, w1) else do_one_named env w1 queue jobpayload)"

text \<open>\<open>loop\<close>: nothing in the class clears \<open>running\<close>, so the loop is run for as many rounds as the
  list has environments (each round sees the clocks and system calls of its own moment); it
  stops early where a round throws or ends the process.\<close>

fun loop :: "('q, 'p) worker_env list \<Rightarrow> 'q worker \<Rightarrow> string \<Rightarrow> unit outcome \<times> 'q worker" where
  "loop [] w queue = (Ret (), w)"
| "loop (env # envs) w queue =
     (if running w then
        (case do_one env w queue of
           (Ret b, w') \<Rightarrow> loop envs w' queue
         | (Raise e, w') \<Rightarrow> (Raise e, w')
         | (Exit st, w') \<Rightarrow> (Exit st, w'))
      else (Ret (), w))"

text \<open>\<open>push<T>\<close>: \<open>jobuuid\<close> is the generated uuid, \<open>unixtime\<close> the value of \<open>time(nullptr)\<close>,
  \<open>scheduledAt\<close> the time point in seconds (0 for the default argument).\<close>

definition wk_push :: "('q, 'p) worker_env \<Rightarrow> 'q worker \<Rightarrow> string \<Rightarrow> string \<Rightarrow> 'p job_class \<Rightarrow> 'p job \<Rightarrow>
    int \<Rightarrow> string \<Rightarrow> int \<Rightarrow> (exn + string) \<times> 'q worker" where
  "wk_push env w queue typeName cls j scheduledAt jobuuid unixtime =
     (let persistentkey = job_key jobuuid;
          json = obj_set ''uuid'' (JStr jobuuid) (create_jobpayload typeName cls j) in
      case JsonToString (we_poco env) (JObj json) of
        Inl e \<Rightarrow> (Inl e, w)
      | Inr text \<Rightarrow>
          (case qcall (gq_setPersistentData (we_vtable env) persistentkey
                   [''tries'' \<mapsto> ''0'', ''maxtries'' \<mapsto> string_of_u64 (maxtries j), ''payload'' \<mapsto> text,
                    ''created_at_unixt'' \<mapsto> string_of_int unixtime, ''className'' \<mapsto> cls_getName cls j]) w of
             (Inl e, w1) \<Rightarrow> (Inl e, w1)
           | (Inr u, w1) \<Rightarrow>
               (case (if scheduledAt \<noteq> 0
                      then qcall (gq_pushToLater (we_vtable env) queue persistentkey scheduledAt) w1
                      else qcall (gq_push (we_vtable env) queue persistentkey) w1) of
                  (Inl e, w2) \<Rightarrow> (Inl e, w2)
                | (Inr u, w2) \<Rightarrow>
                    (Inr jobuuid,
                     if metricsCallback w2 then emit (JobQueued queue (cls_getName cls j) jobuuid) w2
                     else w2))))"

fun count_types :: "('q, 'p) worker_env \<Rightarrow> 'q worker \<Rightarrow> string list \<Rightarrow> (string \<rightharpoonup> u64) \<Rightarrow>
    (exn + (string \<rightharpoonup> u64)) \<times> 'q worker" where
  "count_types env w [] result = (Inr result, w)"
| "count_types env w (jobName # jobList) result =
     (case qcall (gq_getPersistentData (we_vtable env) jobName) w of
        (Inl e, w1) \<Rightarrow> (Inl e, w1)
      | (Inr jobData, w1) \<Rightarrow>
          (case jobData ''className'' of
             None \<Rightarrow> (Inl (StdExn Out_of_range ''_Map_base::at''), w1)
           | Some c \<Rightarrow> count_types env w1 jobList
                         (result(c \<mapsto> (case result c of None \<Rightarrow> 0 | Some n \<Rightarrow> n) + 1))))"

definition getNumberOfPendentJobTypes :: "('q, 'p) worker_env \<Rightarrow> 'q worker \<Rightarrow> string \<Rightarrow>
    (exn + (string \<rightharpoonup> u64)) \<times> 'q worker" where
  "getNumberOfPendentJobTypes env w queue =
     (case qcall (gq_getFullQueue (we_vtable env) queue) w of
        (Inl e, w1) \<Rightarrow> (Inl e, w1)
      | (Inr jobList, w1) \<Rightarrow> count_types env w1 jobList Map.empty)"

definition getNumberOfJobsByT :: "string \<Rightarrow> (string \<rightharpoonup> u64) \<Rightarrow> exn + u64" where
  "getNumberOfJobsByT typeName data =
     (case data typeName of None \<Rightarrow> Inl (StdExn Out_of_range ''_Map_base::at'') | Some n \<Rightarrow> Inr n)"

end
