(* ===== verification/StdQueue.thy ===== *)
theory StdQueue
  imports GenericQueue
begin

text \<open>
  The in-memory queue (src/src/queues/StdQueue.hpp and StdQueue.cpp). The three
  \<open>std::unordered_map\<close>s are maps; a deque is a list from front to back; the priority queue of
  delayed entries is the list of its elements from \<open>top()\<close> downwards, in the order
  \<open>operator<\<close> gives (the standard leaves the order of equal positions open: here the element
  pushed first stays nearer the top).
\<close>

section \<open>State\<close>

record ScheduledStdQueueData =
  sd_data :: string
  sd_pos :: int

definition scheduled_greater :: "ScheduledStdQueueData \<Rightarrow> ScheduledStdQueueData \<Rightarrow> bool" where
  "scheduled_greater a b \<longleftrightarrow> sd_pos a > sd_pos b"

definition scheduled_less :: "ScheduledStdQueueData \<Rightarrow> ScheduledStdQueueData \<Rightarrow> bool" where
  "scheduled_less a b \<longleftrightarrow> sd_pos a < sd_pos b"

record std_queue =
  queue_map :: "string \<rightharpoonup> string list"
  later_queue_map :: "string \<rightharpoonup> ScheduledStdQueueData list"
  persistentdata :: "string \<rightharpoonup> datamap_t"

definition std_queue_init :: std_queue where
  "std_queue_init = \<lparr>queue_map = Map.empty, later_queue_map = Map.empty, persistentdata = Map.empty\<rparr>"

section \<open>Operations\<close>

text \<open>\<open>m[k]\<close> of an \<open>unordered_map\<close> inserts the default value when the key is missing;
  \<open>m.at(k)\<close> throws \<open>std::out_of_range\<close>.\<close>

definition map_at :: "('k \<rightharpoonup> 'v) \<Rightarrow> 'k \<Rightarrow> exn + 'v" where
  "map_at m k = (case m k of None \<Rightarrow> Inl (StdExn Out_of_range ''_Map_base::at'') | Some v \<Rightarrow> Inr v)"

definition deque_at :: "(string \<rightharpoonup> 'a list) \<Rightarrow> string \<Rightarrow> 'a list" where
  "deque_at m k = (case m k of None \<Rightarrow> [] | Some xs \<Rightarrow> xs)"

definition std_push :: "string \<Rightarrow> string \<Rightarrow> (std_queue, unit) eff" where
  "std_push queue data q =
     (Inr (), q\<lparr>queue_map := (queue_map q)(queue \<mapsto> deque_at (queue_map q) queue @ [data])\<rparr>)"

fun pq_push :: "ScheduledStdQueueData \<Rightarrow> ScheduledStdQueueData list \<Rightarrow> ScheduledStdQueueData list" where
  "pq_push x [] = [x]"
| "pq_push x (y # ys) = (if scheduled_less y x then x # y # ys else y # pq_push x ys)"

text \<open>\<open>timep\<close> is the time point in seconds since the epoch, which is what the
  \<open>duration_cast\<close> stores.\<close>

definition std_pushToLater :: "string \<Rightarrow> string \<Rightarrow> int \<Rightarrow> (std_queue, unit) eff" where
  "std_pushToLater queue data timep q =
     (Inr (), q\<lparr>later_queue_map := (later_queue_map q)
        (queue \<mapsto> pq_push \<lparr>sd_data = data, sd_pos = timep\<rparr> (deque_at (later_queue_map q) queue))\<rparr>)"

definition std_getFullQueue :: "string \<Rightarrow> (std_queue, string list) eff" where
  "std_getFullQueue queue q = (map_at (queue_map q) queue, q)"

definition std_pop :: "string \<Rightarrow> int \<Rightarrow> (std_queue, string option) eff" where
  "std_pop queue timeout q =
     (case deque_at (queue_map q) queue of
        [] \<Rightarrow> (Inr None, q\<lparr>queue_map := (queue_map q)(queue \<mapsto> [])\<rparr>)
      | front # rest \<Rightarrow> (Inr (Some front), q\<lparr>queue_map := (queue_map q)(queue \<mapsto> rest)\<rparr>))"

definition std_getName :: string where
  "std_getName = ''in_memory''"

definition std_setName :: "string \<Rightarrow> std_queue \<Rightarrow> std_queue" where
  "std_setName name q = q"

definition std_getNumQueues :: "std_queue \<Rightarrow> nat" where
  "std_getNumQueues q = card (dom (queue_map q))"

definition std_getQueueSize :: "std_queue \<Rightarrow> string \<Rightarrow> exn + nat" where
  "std_getQueueSize q queue = sum_bind (map_at (queue_map q) queue) (\<lambda>xs. Inr (length xs))"

definition std_getLaterQueueSize :: "std_queue \<Rightarrow> string \<Rightarrow> exn + nat" where
  "std_getLaterQueueSize q queue = sum_bind (map_at (later_queue_map q) queue) (\<lambda>xs. Inr (length xs))"

text \<open>\<open>top()\<close> of an empty priority queue is undefined behaviour; it cannot arise, because a
  key is only ever inserted together with an element (\<open>later_ok\<close> below).\<close>

definition std_getLaterQueueTop :: "std_queue \<Rightarrow> string \<Rightarrow> exn + ScheduledStdQueueData option" where
  "std_getLaterQueueTop q queue =
     sum_bind (map_at (later_queue_map q) queue)
       (\<lambda>xs. Inr (case xs of [] \<Rightarrow> None | x # _ \<Rightarrow> Some x))"

definition std_getPersistentData :: "string \<Rightarrow> (std_queue, datamap_t) eff" where
  "std_getPersistentData name q = (map_at (persistentdata q) name, q)"

definition std_getPersistentDataField :: "string \<Rightarrow> string \<Rightarrow> (std_queue, string option) eff" where
  "std_getPersistentDataField name field q =
     (sum_bind (map_at (persistentdata q) name) (\<lambda>val. Inr (val field)), q)"

definition std_setPersistentData :: "string \<Rightarrow> datamap_t \<Rightarrow> (std_queue, unit) eff" where
  "std_setPersistentData name data q =
     (let old = (case persistentdata q name of None \<Rightarrow> Map.empty | Some m \<Rightarrow> m)
      in (Inr (), q\<lparr>persistentdata := (persistentdata q)(name \<mapsto> old ++ data)\<rparr>))"

definition std_delPersistentData :: "string \<Rightarrow> (std_queue, unit) eff" where
  "std_delPersistentData name q = (Inr (), q\<lparr>persistentdata := (persistentdata q)(name := None)\<rparr>)"

definition std_isConnected :: "(std_queue, bool option) eff" where
  "std_isConnected = ret (Some True)"

definition std_vtable :: "std_queue generic_queue" where
  "std_vtable =
     \<lparr>gq_push = std_push, gq_pushToLater = std_pushToLater, gq_getFullQueue = std_getFullQueue,
      gq_pop = std_pop, gq_getPersistentData = std_getPersistentData,
      gq_getPersistentDataField = std_getPersistentDataField,
      gq_setPersistentData = std_setPersistentData, gq_delPersistentData = std_delPersistentData,
      gq_isConnected = std_isConnected, gq_expire = base_expire, gq_ttl = base_ttl\<rparr>"

lemmas std_queue_defs =
  std_push_def std_pushToLater_def std_getFullQueue_def std_pop_def std_getPersistentData_def
  std_getPersistentDataField_def std_setPersistentData_def std_delPersistentData_def
  std_isConnected_def base_expire_def base_ttl_def

section \<open>The contract\<close>

definition std_ready :: "std_queue \<Rightarrow> string \<Rightarrow> string list" where
  "std_ready q n = deque_at (queue_map q) n"

definition std_view :: "std_queue \<Rightarrow> qview" where
  "std_view q = \<lparr>ready = std_ready q,
     later = (\<lambda>n. (\<lambda>x. (sd_data x, sd_pos x)) ` set (deque_at (later_queue_map q) n)),
     stored = persistentdata q\<rparr>"

lemma std_ready_upd [simp]:
  "std_ready (q\<lparr>queue_map := (queue_map q)(n \<mapsto> xs)\<rparr>) = (std_ready q)(n := xs)"
  by (auto simp: std_ready_def deque_at_def)

lemma std_ready_other [simp]:
  "std_ready (q\<lparr>persistentdata := p\<rparr>) = std_ready q"
  "std_ready (q\<lparr>later_queue_map := l\<rparr>) = std_ready q"
  by (auto simp: std_ready_def)

lemma std_view_sel [simp]:
  "ready (std_view q) = std_ready q"
  "stored (std_view q) = persistentdata q"
  by (simp_all add: std_view_def)

lemma deque_at_upd [simp]: "deque_at (m(k \<mapsto> xs)) n = (if n = k then xs else deque_at m n)"
  by (simp add: deque_at_def)

lemma map_at_Some [simp]: "m k = Some v \<Longrightarrow> map_at m k = Inr v"
  by (simp add: map_at_def)

lemma set_pq_push [simp]: "set (pq_push x xs) = insert x (set xs)"
  by (induction xs) auto

lemma std_view_later:
  "std_view (snd (std_pushToLater n j t q)) = v_later n j t (std_view q)"
  by (simp add: std_view_def std_pushToLater_def v_later_def fun_eq_iff)

lemma std_pop_none:
  assumes "ready (std_view q) n = []"
  shows "\<exists>q'. gq_pop std_vtable n t q = (Inr None, q') \<and> std_view q' = std_view q"
proof -
  from assms have "std_ready q n = []" and "(std_ready q)(n := []) = std_ready q" by auto
  then show ?thesis
    by (simp add: std_vtable_def std_pop_def std_ready_def [symmetric]) (simp add: std_view_def)
qed

interpretation stdq: job_queue std_vtable "\<lambda>_. True" std_view whole_scope
proof
  fix q :: std_queue and n j :: string and js :: "string list" and t :: int
  assume "ready (std_view q) n = j # js"
  then show "\<exists>q'. gq_pop std_vtable n t q = (Inr (Some j), q') \<and> True \<and>
      std_view q' = (std_view q)\<lparr>ready := (ready (std_view q))(n := js)\<rparr>"
    by (simp add: std_vtable_def std_pop_def std_ready_def [symmetric]) (simp add: std_view_def)
next
  fix q :: std_queue and n :: string and t :: int
  assume "ready (std_view q) n = []"
  then show "\<exists>q'. gq_pop std_vtable n t q = (Inr None, q') \<and> True \<and> std_view q' = std_view q"
    using std_pop_none [of q n t] by simp
next
  fix q :: std_queue and n j :: string and t :: int
  show "\<exists>q'. gq_pushToLater std_vtable n j t q = (Inr (), q') \<and> True \<and>
      std_view q' = v_later n j t (std_view q)"
    using std_view_later [of n j t q] by (simp add: std_vtable_def std_pushToLater_def)
qed (auto simp: std_vtable_def std_queue_defs std_ready_def [symmetric] std_view_def Let_def
       v_push_def v_set_def v_del_def split: option.splits)

text \<open>Its pop never takes a delayed entry, whatever the time.\<close>

interpretation stdd: delayed_queue std_vtable "\<lambda>_. True" std_view whole_scope "\<lambda>_. now"
  by unfold_locales (use std_pop_none in fastforce)

section \<open>Delayed entries\<close>

definition later_ok :: "std_queue \<Rightarrow> bool" where
  "later_ok q \<longleftrightarrow> (\<forall>n xs. later_queue_map q n = Some xs \<longrightarrow>
     xs \<noteq> [] \<and> sorted_wrt (\<lambda>a b. sd_pos b \<le> sd_pos a) xs)"

lemma length_pq_push [simp]: "length (pq_push x xs) = Suc (length xs)"
  by (induction xs) auto

lemma pq_push_nonempty [simp]: "pq_push x xs \<noteq> []"
  by (cases xs) auto

lemma pq_push_sorted:
  "sorted_wrt (\<lambda>a b. sd_pos b \<le> sd_pos a) xs \<Longrightarrow> sorted_wrt (\<lambda>a b. sd_pos b \<le> sd_pos a) (pq_push x xs)"
  by (induction xs) (auto simp: scheduled_less_def)

lemma later_ok_upd:
  assumes "later_ok q" and "xs \<noteq> []" and "sorted_wrt (\<lambda>a b. sd_pos b \<le> sd_pos a) xs"
  shows "later_ok (q\<lparr>later_queue_map := (later_queue_map q)(n \<mapsto> xs)\<rparr>)"
  using assms by (simp add: later_ok_def)

lemma later_ok_pushToLater:
  assumes "later_ok q"
  shows "later_ok (snd (std_pushToLater n d t q))"
proof -
  have "sorted_wrt (\<lambda>a b. sd_pos b \<le> sd_pos a) (deque_at (later_queue_map q) n)"
    using assms by (auto simp: later_ok_def deque_at_def split: option.splits)
  then show ?thesis
    unfolding std_pushToLater_def snd_conv
    by (intro later_ok_upd assms pq_push_nonempty pq_push_sorted)
qed

text \<open>One operation on the in-memory queue, for runs of arbitrary clients.\<close>

datatype queue_op =
  Push string string | PushLater string string int | Pop string int
| SetData string datamap_t | DelData string

fun run_op :: "queue_op \<Rightarrow> std_queue \<Rightarrow> std_queue" where
  "run_op (Push n d) q = snd (std_push n d q)"
| "run_op (PushLater n d t) q = snd (std_pushToLater n d t q)"
| "run_op (Pop n t) q = snd (std_pop n t q)"
| "run_op (SetData n d) q = snd (std_setPersistentData n d q)"
| "run_op (DelData n) q = snd (std_delPersistentData n q)"

definition run_ops :: "queue_op list \<Rightarrow> std_queue \<Rightarrow> std_queue" where
  "run_ops ops q = fold run_op ops q"

lemma run_ops_simps [simp]:
  "run_ops [] q = q"
  "run_ops (x # xs) q = run_ops xs (run_op x q)"
  by (simp_all add: run_ops_def)

lemma later_ok_frame [simp]:
  "later_ok (q\<lparr>queue_map := m\<rparr>) = later_ok q"
  "later_ok (q\<lparr>persistentdata := p\<rparr>) = later_ok q"
  by (simp_all add: later_ok_def)

lemma run_op_later_ok: "later_ok q \<Longrightarrow> later_ok (run_op x q)"
  by (cases x) (simp_all add: later_ok_pushToLater std_push_def std_pop_def
      std_setPersistentData_def std_delPersistentData_def Let_def split: list.split)

text \<open>The entries a run hands out from one queue, in order, and the entries it put there.\<close>

fun popped :: "string \<Rightarrow> queue_op list \<Rightarrow> std_queue \<Rightarrow> string list" where
  "popped n [] q = []"
| "popped n (x # xs) q =
     (case x of
        Pop m t \<Rightarrow> (case fst (std_pop m t q) of
                     Inr (Some d) \<Rightarrow> if m = n then [d] else []
                   | _ \<Rightarrow> [])
      | _ \<Rightarrow> []) @ popped n xs (run_op x q)"

fun pushed :: "string \<Rightarrow> queue_op list \<Rightarrow> string list" where
  "pushed n [] = []"
| "pushed n (Push m d # xs) = (if m = n then d # pushed n xs else pushed n xs)"
| "pushed n (x # xs) = pushed n xs"

lemma run_op_ready:
  "std_ready (run_op (Push m d) q) n = (if m = n then std_ready q n @ [d] else std_ready q n)"
  "std_ready (run_op (PushLater m d t) q) n = std_ready q n"
  "std_ready (run_op (SetData m f) q) n = std_ready q n"
  "std_ready (run_op (DelData m) q) n = std_ready q n"
  by (auto simp: std_queue_defs std_ready_def deque_at_def Let_def)

lemma std_pop_ready:
  "std_pop m t q = (case std_ready q m of
     [] \<Rightarrow> (Inr None, q\<lparr>queue_map := (queue_map q)(m \<mapsto> [])\<rparr>)
   | d # ds \<Rightarrow> (Inr (Some d), q\<lparr>queue_map := (queue_map q)(m \<mapsto> ds)\<rparr>))"
  by (simp add: std_pop_def std_ready_def)

lemma popped_ready_pushed:
  "popped n ops q @ std_ready (run_ops ops q) n = std_ready q n @ pushed n ops"
proof (induction ops arbitrary: q)
  case Nil
  then show ?case by simp
next
  case (Cons x xs)
  show ?case
  proof (cases x)
    case (Pop m t)
    then show ?thesis
      using Cons [of "run_op x q"] by (auto simp: std_pop_ready split: list.splits)
  qed (use Cons [of "run_op x q"] in \<open>auto simp: run_op_ready simp del: run_op.simps\<close>)
qed

lemma run_ops_later_ok: "later_ok q \<Longrightarrow> later_ok (run_ops ops q)"
  by (induction ops arbitrary: q) (auto simp: run_op_later_ok)

section \<open>Properties\<close>

text \<open>C7: the in-memory queue is first in, first out per queue name, over any run of its
  operations from the empty state: what has been popped from a queue, followed by what still
  waits there, is exactly what was pushed to it, in order. Entries given to \<open>pushToLater\<close> are not
  among them, whatever their time: \<open>pop\<close> never hands out a delayed entry.\<close>

theorem std_queue_fifo:
  "popped n ops std_queue_init @ deque_at (queue_map (run_ops ops std_queue_init)) n = pushed n ops"
  using popped_ready_pushed [of n ops std_queue_init]
  by (simp add: std_ready_def std_queue_init_def deque_at_def)

text \<open>\<open>getLaterQueueTop\<close> gives the delayed entry with the latest time, not the one due first:
  \<open>std::priority_queue\<close> with the class's \<open>operator<\<close> keeps the greatest \<open>pos\<close> on top. After any
  run from the empty queue a known name has a top entry and no delayed entry of it is later.\<close>

theorem later_top_is_latest:
  assumes "later_queue_map (run_ops ops std_queue_init) n = Some xs"
  shows "\<exists>x \<in> set xs. std_getLaterQueueTop (run_ops ops std_queue_init) n = Inr (Some x) \<and>
     (\<forall>y \<in> set xs. sd_pos y \<le> sd_pos x)"
proof -
  have "later_ok (run_ops ops std_queue_init)"
    by (rule run_ops_later_ok) (simp add: later_ok_def std_queue_init_def)
  with assms have "xs \<noteq> []" "sorted_wrt (\<lambda>a b. sd_pos b \<le> sd_pos a) xs" by (simp_all add: later_ok_def)
  then obtain x ys where "xs = x # ys" "\<forall>y \<in> set ys. sd_pos y \<le> sd_pos x" by (cases xs) auto
  with assms show ?thesis by (auto simp: std_getLaterQueueTop_def)
qed

theorem later_top_is_latest_witness:
  "\<exists>x \<in> set [\<lparr>sd_data = ''b'', sd_pos = 20\<rparr>, \<lparr>sd_data = ''a'', sd_pos = 10\<rparr>].
     std_getLaterQueueTop (run_ops [PushLater ''q'' ''a'' 10, PushLater ''q'' ''b'' 20] std_queue_init) ''q'' =
       Inr (Some x) \<and>
     (\<forall>y \<in> set [\<lparr>sd_data = ''b'', sd_pos = 20\<rparr>, \<lparr>sd_data = ''a'', sd_pos = 10\<rparr>]. sd_pos y \<le> sd_pos x)"
  by (rule later_top_is_latest)
    (simp add: std_pushToLater_def std_queue_init_def deque_at_def scheduled_less_def)

end
