(* ===== verification/WorkerSpec.thy ===== *)
theory WorkerSpec
  imports QueueWorker StdQueue
begin

text \<open>
  What one round of the worker does, stated on the view of the queue and proved for every
  provider that keeps the contract \<open>job_queue\<close>: settling a result is a function of the view, a
  round touches only its own entry, and the runs of a job that always fails.
\<close>

section \<open>Settling as a function of the view\<close>

definition delay_of :: "qview \<Rightarrow> string \<Rightarrow> int" where
  "delay_of v j =
     (case stored v j of None \<Rightarrow> 0
      | Some d \<Rightarrow> (case d ''retryAfter'' of None \<Rightarrow> 0
                  | Some s \<Rightarrow> (case stoll s of Inl e \<Rightarrow> 0 | Inr n \<Rightarrow> n)))"

definition settle_view :: "bool \<Rightarrow> int \<Rightarrow> string \<Rightarrow> string \<Rightarrow> datamap_t \<Rightarrow> jobStatus \<Rightarrow> qview \<Rightarrow> qview" where
  "settle_view clean now queue j dm st v =
     (case st of
        noerror \<Rightarrow> if clean then v_del j v else v_set j dm v
      | errorremove \<Rightarrow> v_set j dm v
      | _ \<Rightarrow> if delay_of v j = 0 then v_push queue j (v_set j dm v)
            else v_later queue j (now + delay_of v j) (v_set j dm v))"

definition settle_events :: "bool \<Rightarrow> string \<Rightarrow> string \<Rightarrow> datamap_t \<Rightarrow> jobStatus \<Rightarrow> int \<Rightarrow> metric list" where
  "settle_events cb queue j dm st delay =
     (if cb \<and> field dm ''className'' \<noteq> [] then
        (case st of
           noerror \<Rightarrow> []
         | errorremove \<Rightarrow> [JobRemoved queue (field dm ''className'') (job_uuid_of j) st (metric_tries dm)]
         | _ \<Rightarrow> [JobRetry queue (field dm ''className'') (job_uuid_of j) (metric_tries dm) delay])
      else [])"

lemma emit_wk [simp]: "wk_queue (emit m w) = wk_queue w" "metricsCallback (emit m w) = metricsCallback w"
  "forkToHandle (emit m w) = forkToHandle w" "cleanSuccessfulJobsLogs (emit m w) = cleanSuccessfulJobsLogs w"
  by (simp_all add: emit_def)

lemma jobStatus_retry_cases:
  "st \<noteq> noerror \<Longrightarrow> st \<noteq> errorremove \<Longrightarrow> (case st of noerror \<Rightarrow> a | errorremove \<Rightarrow> b | _ \<Rightarrow> c) = c"
  by (cases st) auto

lemma settle_events_noerror [simp]: "settle_events cb queue j dm noerror delay = []"
  by (simp add: settle_events_def)

lemma worker_events_id [simp]:
  "w\<lparr>wk_queue := q, events := events w\<rparr> = (w\<lparr>wk_queue := q\<rparr> :: 'q worker)"
  by simp

lemma saveJobLog_finite [simp]: "finite (dom d) \<Longrightarrow> finite (dom (saveJobLog os es d))"
  by (simp add: saveJobLog_def putLogInDataMap_def)

lemma pushed_fields_not_empty: "d k = Some v \<Longrightarrow> d \<noteq> Map.empty"
  by auto

section \<open>A job that always fails\<close>

text \<open>A payload that can be run: it parses to an object with a uuid, the name of a registered
  class and a data object from which the class restores the counters written into it, always to a
  job with the property \<open>P\<close>.\<close>

definition payload_as :: "('p job \<Rightarrow> bool) \<Rightarrow> ('q, 'p) worker_env \<Rightarrow> 'p job_class \<Rightarrow> string \<Rightarrow> string \<Rightarrow> bool" where
  "payload_as P env cls u text \<longleftrightarrow>
     (\<exists>json data name. p_parse (we_poco env) text = Inr (JObj json) \<and>
        obj_get json ''data'' = JObj data \<and>
        p_toString (we_poco env) (obj_get json ''className'') = Inr name \<and>
        we_joblist env name = Some cls \<and>
        obj_has json ''uuid'' \<and> p_toString (we_poco env) (obj_get json ''uuid'') = Inr u \<and>
        (\<forall>t m. \<exists>j. cls_from_json cls
             (obj_set ''maxtries'' (JInt (uint m)) (obj_set ''tries'' (JInt (uint t)) data)) (cls_new cls) = Inr j \<and>
           tries j = t \<and> maxtries j = m \<and> P j))"

definition runnable_as :: "('p job \<Rightarrow> bool) \<Rightarrow> ('q, 'p) worker_env \<Rightarrow> 'p job_class \<Rightarrow> string \<Rightarrow> string \<Rightarrow>
    u64 \<Rightarrow> u64 \<Rightarrow> datamap_t \<Rightarrow> bool" where
  "runnable_as P env cls c u t m d \<longleftrightarrow>
     d ''className'' = Some c \<and> c \<noteq> [] \<and> d ''tries'' = Some (string_of_u64 t) \<and>
     d ''maxtries'' = Some (string_of_u64 m) \<and> d ''retryAfter'' = None \<and>
     (\<exists>text. d ''payload'' = Some text \<and> payload_as P env cls u text)"

definition runnable :: "('q, 'p) worker_env \<Rightarrow> 'p job_class \<Rightarrow> string \<Rightarrow> string \<Rightarrow> u64 \<Rightarrow> u64 \<Rightarrow> datamap_t \<Rightarrow> bool" where
  "runnable = runnable_as (\<lambda>j. True)"

text \<open>What the jobs with \<open>P\<close> do when they are run, whatever the count of the attempt.\<close>

definition throws_on :: "('p job \<Rightarrow> bool) \<Rightarrow> 'p job_class \<Rightarrow> bool" where
  "throws_on P cls \<longleftrightarrow>
     (\<forall>j t. P j \<longrightarrow> (\<exists>j' out err e. cls_handle cls (j\<lparr>tries := t\<rparr>) = (j', out, err, Some e) \<and> is_std e \<and>
        tries j' = t \<and> maxtries j' = maxtries j \<and> retryAfter j' \<le> 0))"

definition succeeds_on :: "('p job \<Rightarrow> bool) \<Rightarrow> 'p job_class \<Rightarrow> bool" where
  "succeeds_on P cls \<longleftrightarrow>
     (\<forall>j t. P j \<longrightarrow> (\<exists>j' out err. cls_handle cls (j\<lparr>tries := t\<rparr>) = (j', out, err, None)))"

definition always_throws :: "'p job_class \<Rightarrow> bool" where
  "always_throws cls \<longleftrightarrow>
     (\<forall>j. \<exists>j' out err e. cls_handle cls j = (j', out, err, Some e) \<and> is_std e \<and>
        tries j' = tries j \<and> maxtries j' = maxtries j \<and> retryAfter j' \<le> 0)"

lemma always_throws_on: "always_throws cls \<Longrightarrow> throws_on (\<lambda>j. True) cls"
  unfolding always_throws_def throws_on_def
proof (intro allI impI)
  fix j :: "'a job" and t
  assume "\<forall>j. \<exists>j' out err e. cls_handle cls j = (j', out, err, Some e) \<and> is_std e \<and>
      tries j' = tries j \<and> maxtries j' = maxtries j \<and> retryAfter j' \<le> 0"
  from spec [OF this, of "j\<lparr>tries := t\<rparr>"]
  show "\<exists>j' out err e. cls_handle cls (j\<lparr>tries := t\<rparr>) = (j', out, err, Some e) \<and> is_std e \<and>
      tries j' = t \<and> maxtries j' = maxtries j \<and> retryAfter j' \<le> 0" by simp
qed

definition quiet_env :: "('q, 'p) worker_env \<Rightarrow> 'q worker \<Rightarrow> bool" where
  "quiet_env env w \<longleftrightarrow> \<not> forkToHandle w \<and> (\<exists>dir. we_tmpdir env = Inr dir)"

definition again :: "u64 \<Rightarrow> u64 \<Rightarrow> bool" where
  "again t m \<longleftrightarrow> m = 0 \<or> t + 1 < m"

definition attempt_events :: "'q worker \<Rightarrow> string \<Rightarrow> string \<Rightarrow> string \<Rightarrow> u64 \<Rightarrow> jobStatus \<Rightarrow> int \<Rightarrow> metric list" where
  "attempt_events w queue c u t st started =
     (if metricsCallback w then [JobStarted queue c u t, JobCompleted queue c u st started (t + 1)] else [])"

definition round_events :: "'q worker \<Rightarrow> string \<Rightarrow> string \<Rightarrow> string \<Rightarrow> string \<Rightarrow> u64 \<Rightarrow> u64 \<Rightarrow> int \<Rightarrow> metric list" where
  "round_events w queue c u jn t m started =
     attempt_events w queue c u t (if again t m then errorretry else errorremove) started @
     (if metricsCallback w
      then [if again t m then JobRetry queue c (job_uuid_of jn) (t + 1) 0
            else JobRemoved queue c (job_uuid_of jn) errorremove t]
      else [])"

lemma attempt_events_wk [simp]: "attempt_events (w\<lparr>wk_queue := q\<rparr>) = attempt_events w"
  by (simp add: attempt_events_def fun_eq_iff)

lemma events_wk: "events (w\<lparr>wk_queue := q\<rparr>) = events w"
  by simp

text \<open>Environments of one process: the same queue, Poco and registry, and a temporary directory.\<close>

definition same_world :: "('q, 'p) worker_env \<Rightarrow> ('q, 'p) worker_env list \<Rightarrow> bool" where
  "same_world env envs \<longleftrightarrow> (\<forall>e \<in> set envs. we_vtable e = we_vtable env \<and> we_poco e = we_poco env \<and>
     we_joblist e = we_joblist env \<and> (\<exists>dir. we_tmpdir e = Inr dir))"

fun is_started :: "metric \<Rightarrow> bool" where
  "is_started (JobStarted q c u t) = True"
| "is_started m = False"

definition started_count :: "'q worker \<Rightarrow> nat" where
  "started_count w = length (filter is_started (events w))"

lemma field_Some [simp]: "d k = Some v \<Longrightarrow> field d k = v"
  by (simp add: field_def)

lemma touch_Some [simp]: "d k = Some v \<Longrightarrow> touch k d = d"
  by (simp add: touch_def)

lemma handle_throws:
  assumes "cls_handle cls j = (j', out, err, Some e)" and "is_std e"
  obtains os' es' where "handle file cls j os es = (Inr errexcept, j', os', es')"
proof -
  have "fst (handle file cls j os es) = Inr errexcept" "fst (snd (handle file cls j os es)) = j'"
    using handle_status_of [OF assms(1)] assms(2) by simp_all
  with that show ?thesis by (cases "handle file cls j os es") auto
qed

lemma process_retry_condition_again:
  "tries j = t + 1 \<Longrightarrow> maxtries j = m \<Longrightarrow>
     process_retry_condition j = (if again t m then errorretry else errorremove)"
  by (simp add: process_retry_condition_def again_def)

lemma handle_job_run_throws:
  assumes q: "quiet_env env w" and a: "throws_on P cls" "P j"
    and u: "p_toString (we_poco env) (obj_get json ''uuid'') = Inr u"
  obtains j' os es where "handle_job_run env w cls j json dm jn =
      (Ret errexcept, w, j', saveJobLog os es (dm(''retryAfter'' := None)))"
    and "tries j' = tries j + 1" and "maxtries j' = maxtries j"
proof -
  let ?j = "j\<lparr>tries := tries j + 1\<rparr>"
  obtain j' out err e where h: "cls_handle cls ?j = (j', out, err, Some e)" "is_std e"
      "tries j' = tries ?j" "maxtries j' = maxtries ?j" "retryAfter j' \<le> 0"
    using a unfolding throws_on_def by simp blast
  obtain os es where os: "allocateJobOutputStream env json = Inr (os, es)"
    using q u by (auto simp: quiet_env_def allocateJobOutputStream_def getValue_def Let_def)
  obtain os' es' where "handle (we_file env) cls ?j os es = (Inr errexcept, j', os', es')"
    using handle_throws [OF h(1,2)] by blast
  then have "handle_job_run env w cls j json dm jn =
      (Ret errexcept, w, j', saveJobLog os' es' (dm(''retryAfter'' := None)))"
    using q os h by (simp add: handle_job_run_def Let_def run_by_pid_def fork_process_def quiet_env_def
        store_retry_after_def)
  with h that show ?thesis by simp
qed

text \<open>The start of \<open>work\<close> does not look at the delay.\<close>

lemma work_starts_any:
  assumes r: "runnable_as P env cls c u t m (d(''retryAfter'' := None))"
  obtains j json where
    "work env w queue d jn = run_instance env w queue (d(''payload'' := None)) jn c u json cls j"
    and "tries j = t" and "maxtries j = m" and "P j" and "p_toString (we_poco env) (obj_get json ''uuid'') = Inr u"
proof -
  have "d ''className'' = Some c \<and> c \<noteq> [] \<and> d ''tries'' = Some (string_of_u64 t) \<and>
      d ''maxtries'' = Some (string_of_u64 m) \<and> (\<exists>text. d ''payload'' = Some text \<and> payload_as P env cls u text)"
    using r by (simp add: runnable_as_def)
  then obtain ptext json data name where
    d: "d ''className'' = Some c" "c \<noteq> []" "d ''tries'' = Some (string_of_u64 t)"
      "d ''maxtries'' = Some (string_of_u64 m)" "d ''payload'' = Some ptext" and
    p: "p_parse (we_poco env) ptext = Inr (JObj json)" "obj_get json ''data'' = JObj data"
      "p_toString (we_poco env) (obj_get json ''className'') = Inr name" "we_joblist env name = Some cls"
      "obj_has json ''uuid''" "p_toString (we_poco env) (obj_get json ''uuid'') = Inr u" and
    f: "\<exists>j. cls_from_json cls (obj_set ''maxtries'' (JInt (uint m)) (obj_set ''tries'' (JInt (uint t)) data))
           (cls_new cls) = Inr j \<and> tries j = t \<and> maxtries j = m \<and> P j"
    unfolding payload_as_def by blast
  let ?data = "obj_set ''maxtries'' (JInt (uint m)) (obj_set ''tries'' (JInt (uint t)) data)"
  let ?json = "obj_set ''data'' (JObj ?data) json"
  from f obtain j where j: "cls_from_json cls ?data (cls_new cls) = Inr j" "tries j = t" "maxtries j = m" "P j"
    by blast
  have pay: "read_payload (we_poco env) d = Inr (c, json, u)"
    using d p by (simp add: read_payload_def deref_def getValue_def)
  have cnt: "write_counters d json = Inr ?json" "counters_touched d json = d"
    using d p by (simp_all add: write_counters_def counters_touched_def obj_getObject_def deref_def)
  have inst: "instance_from_payload (we_poco env) (we_joblist env) ?json = Inr (cls, j)"
    using p j by (simp add: instance_from_payload_def getValue_def instance_job_fn_def deref_def)
  have "work env w queue d jn = run_instance env w queue (d(''payload'' := None)) jn c u ?json cls j"
    using pay cnt inst d by (simp add: work_def Let_def)
  with j p that show ?thesis by simp
qed

lemma work_starts:
  assumes r: "runnable_as P env cls c u t m d"
  obtains j json where
    "work env w queue d jn = run_instance env w queue (d(''payload'' := None)) jn c u json cls j"
    and "tries j = t" and "maxtries j = m" and "P j" and "p_toString (we_poco env) (obj_get json ''uuid'') = Inr u"
proof -
  have "d(''retryAfter'' := None) = d" using r by (auto simp: runnable_as_def)
  then have "runnable_as P env cls c u t m (d(''retryAfter'' := None))" using r by simp
  from work_starts_any [OF this] that show ?thesis by metis
qed

lemma work_throws:
  assumes r: "runnable_as P env cls c u t m d" and q: "quiet_env env w" and a: "throws_on P cls"
  defines "st \<equiv> (if again t m then errorretry else errorremove)"
  obtains dm s where "work env w queue d jn =
      (Ret st, w\<lparr>events := events w @ attempt_events w queue c u t st s\<rparr>, dm)"
    and "dm ''className'' = Some c" and "dm ''payload'' = None" and "dm ''retryAfter'' = None"
    and "dm ''tries'' = Some (string_of_u64 (if again t m then t + 1 else t))"
    and "dm ''maxtries'' = Some (string_of_u64 m)" and "finite (dom d) \<Longrightarrow> finite (dom dm)"
proof -
  obtain j json where start: "work env w queue d jn =
        run_instance env w queue (d(''payload'' := None)) jn c u json cls j"
      and j: "tries j = t" "maxtries j = m" and P: "P j" and u: "p_toString (we_poco env) (obj_get json ''uuid'') = Inr u"
    using work_starts [OF r] .
  have d: "d ''className'' = Some c" "c \<noteq> []" "d ''tries'' = Some (string_of_u64 t)"
      "d ''maxtries'' = Some (string_of_u64 m)" using r by (simp_all add: runnable_as_def)
  let ?cb = "metricsCallback w"
  define w1 where "w1 = (if ?cb then emit (JobStarted queue c u t) w else w)"
  define s where "s = (if ?cb then we_started env queue c u t else we_steady_now env)"
  have q1: "quiet_env env w1" using q by (simp add: quiet_env_def w1_def)
  obtain j' os es where run: "handle_job_run env w1 cls j json (d(''payload'' := None)) jn =
      (Ret errexcept, w1, j', saveJobLog os es (d(''payload'' := None, ''retryAfter'' := None)))"
      and tj: "tries j' = tries j + 1" "maxtries j' = maxtries j"
    using handle_job_run_throws [OF q1 a P u] by blast
  define dm where "dm = (if again t m then (saveJobLog os es (d(''payload'' := None, ''retryAfter'' := None)))
      (''tries'' \<mapsto> string_of_u64 (t + 1), ''maxtries'' \<mapsto> string_of_u64 m)
    else saveJobLog os es (d(''payload'' := None, ''retryAfter'' := None)))"
  have st: "process_retry_condition j' = st"
    using tj j unfolding st_def by (intro process_retry_condition_again) auto
  have "run_instance env w queue (d(''payload'' := None)) jn c u json cls j =
      (Ret st, w\<lparr>events := events w @ attempt_events w queue c u t st s\<rparr>, dm)"
    using run tj j d st unfolding run_instance_def
    by (auto simp: Let_def w1_def s_def dm_def emit_def attempt_events_def st_def)
  with start have work: "work env w queue d jn =
      (Ret st, w\<lparr>events := events w @ attempt_events w queue c u t st s\<rparr>, dm)" by simp
  show ?thesis
    by (rule that [OF work]) (use d in \<open>auto simp: dm_def saveJobLog_frame\<close>)
qed

section \<open>Other ends of a round\<close>

definition succeeds :: "'p job_class \<Rightarrow> bool" where
  "succeeds cls \<longleftrightarrow> (\<forall>j. \<exists>j' out err. cls_handle cls j = (j', out, err, None))"

definition throws_foreign :: "'p job_class \<Rightarrow> bool" where
  "throws_foreign cls \<longleftrightarrow> (\<forall>j. \<exists>j' out err. cls_handle cls j = (j', out, err, Some ForeignExn))"

definition success_events :: "'q worker \<Rightarrow> string \<Rightarrow> string \<Rightarrow> string \<Rightarrow> u64 \<Rightarrow> int \<Rightarrow> u64 \<Rightarrow> metric list" where
  "success_events w queue c u t started n =
     (if metricsCallback w then [JobStarted queue c u t, JobCompleted queue c u noerror started n] else [])"

lemma success_events_wk [simp]: "success_events (w\<lparr>wk_queue := q\<rparr>) = success_events w"
  by (simp add: success_events_def fun_eq_iff)

lemma work_succeeds_on:
  assumes r: "runnable_as P env cls c u t m d" and q: "quiet_env env w" and a: "succeeds_on P cls"
  obtains dm s n where "work env w queue d jn = (Ret noerror, w\<lparr>events := events w @ success_events w queue c u t s n\<rparr>, dm)"
    and "dm ''className'' = Some c" and "finite (dom d) \<Longrightarrow> finite (dom dm)"
proof -
  obtain j json where start: "work env w queue d jn =
        run_instance env w queue (d(''payload'' := None)) jn c u json cls j"
      and j: "tries j = t" "P j" and u: "p_toString (we_poco env) (obj_get json ''uuid'') = Inr u"
    using work_starts [OF r] by metis
  let ?j = "j\<lparr>tries := tries j + 1\<rparr>"
  define w1 where "w1 = (if metricsCallback w then emit (JobStarted queue c u (tries j)) w else w)"
  obtain j' out err where h: "cls_handle cls ?j = (j', out, err, None)"
    using a j unfolding succeeds_on_def by blast
  obtain os es where os: "allocateJobOutputStream env json = Inr (os, es)"
    using q u by (auto simp: quiet_env_def allocateJobOutputStream_def getValue_def Let_def)
  have "fst (handle (we_file env) cls ?j os es) = Inr noerror" "fst (snd (handle (we_file env) cls ?j os es)) = j'"
    using handle_status_of [OF h] by simp_all
  then obtain os' es' where "handle (we_file env) cls ?j os es = (Inr noerror, j', os', es')"
    by (cases "handle (we_file env) cls ?j os es") auto
  then have run: "handle_job_run env w1 cls j json (d(''payload'' := None)) jn =
      (Ret noerror, w1, j', saveJobLog os' es' (d(''payload'' := None, ''retryAfter'' := None)))"
    using q os by (simp add: handle_job_run_def Let_def run_by_pid_def fork_process_def quiet_env_def
        store_retry_after_def w1_def)
  have c: "c \<noteq> []" "d ''className'' = Some c" using r by (simp_all add: runnable_as_def)
  define dm where "dm = saveJobLog os' es' (d(''payload'' := None, ''retryAfter'' := None))"
  define s where "s = (if metricsCallback w then we_started env queue c u (tries j) else we_steady_now env)"
  have "work env w queue d jn = (Ret noerror, w\<lparr>events := events w @ success_events w queue c u t s (tries j')\<rparr>, dm)"
    using start run c j
    by (cases "metricsCallback w") (auto simp: run_instance_def Let_def w1_def emit_def success_events_def dm_def s_def)
  then show ?thesis
    by (rule that) (use c in \<open>auto simp: dm_def saveJobLog_frame\<close>)
qed

lemma work_succeeds:
  assumes r: "runnable env cls c u t m d" and q: "quiet_env env w" and a: "succeeds cls"
  obtains dm evs where "work env w queue d jn = (Ret noerror, w\<lparr>events := events w @ evs\<rparr>, dm)"
proof -
  have "succeeds_on (\<lambda>j. True) cls" using a by (simp add: succeeds_def succeeds_on_def)
  from work_succeeds_on [OF r [unfolded runnable_def] q this] that show ?thesis by metis
qed

lemma work_foreign:
  assumes r: "runnable env cls c u t m d" and q: "quiet_env env w" and a: "throws_foreign cls"
  obtains dm evs where "work env w queue d jn = (Raise ForeignExn, w\<lparr>events := events w @ evs\<rparr>, dm)"
proof -
  obtain j json where start: "work env w queue d jn =
        run_instance env w queue (d(''payload'' := None)) jn c u json cls j"
      and u: "p_toString (we_poco env) (obj_get json ''uuid'') = Inr u"
    using work_starts [OF r [unfolded runnable_def]] by metis
  let ?j = "j\<lparr>tries := tries j + 1\<rparr>"
  define w1 where "w1 = (if metricsCallback w then emit (JobStarted queue c u (tries j)) w else w)"
  obtain j' out err where h: "cls_handle cls ?j = (j', out, err, Some ForeignExn)"
    using a unfolding throws_foreign_def by blast
  obtain os es where os: "allocateJobOutputStream env json = Inr (os, es)"
    using q u by (auto simp: quiet_env_def allocateJobOutputStream_def getValue_def Let_def)
  have "fst (handle (we_file env) cls ?j os es) = Inl ForeignExn"
    using handle_status_of [OF h] by simp
  then have "\<exists>j2 dm. handle_job_run env w1 cls j json (d(''payload'' := None)) jn = (Raise ForeignExn, w1, j2, dm)"
    using q os by (cases "handle (we_file env) cls ?j os es")
      (auto simp: handle_job_run_def Let_def run_by_pid_def fork_process_def quiet_env_def w1_def)
  moreover have "c \<noteq> []" using r by (simp add: runnable_def runnable_as_def)
  ultimately show ?thesis
    using start that that [where evs = "[]"] by (cases "metricsCallback w") (auto simp: run_instance_def Let_def w1_def emit_def)
qed

text \<open>A record whose payload names a class that is not registered.\<close>

definition unknown_class :: "('q, 'p) worker_env \<Rightarrow> datamap_t \<Rightarrow> bool" where
  "unknown_class env d \<longleftrightarrow>
     (\<exists>c text json u json' name. d ''className'' = Some c \<and> d ''payload'' = Some text \<and>
        d ''tries'' \<noteq> None \<and> d ''maxtries'' \<noteq> None \<and> d ''retryAfter'' = None \<and>
        read_payload (we_poco env) d = Inr (c, json, u) \<and> write_counters d json = Inr json' \<and>
        p_toString (we_poco env) (obj_get json' ''className'') = Inr name \<and> we_joblist env name = None)"

lemma work_unknown:
  assumes "unknown_class env d"
  shows "work env w queue d jn = (Ret errorretry, w, d)"
proof -
  from assms obtain c ptxt json u json' name where *: "d ''className'' = Some c" "d ''payload'' = Some ptxt"
      "d ''tries'' \<noteq> None" "d ''maxtries'' \<noteq> None" "read_payload (we_poco env) d = Inr (c, json, u)"
      "write_counters d json = Inr json'" "p_toString (we_poco env) (obj_get json' ''className'') = Inr name"
      "we_joblist env name = None"
    unfolding unknown_class_def by blast
  have "counters_touched d json = d"
    using * by (auto simp: counters_touched_def split: option.splits sum.splits)
  with * show ?thesis
    by (simp add: work_def Let_def instance_from_payload_def getValue_def instance_job_fn_def)
qed

text \<open>The status \<open>errexcept\<close> is always turned into a retry or a removal.\<close>

lemma work_status:
  assumes "work env w queue d jn = (Ret st, w', dm)"
  shows "st \<noteq> errexcept"
proof -
  have prc: "process_retry_condition j \<noteq> errexcept" for j :: "'b job"
    by (simp add: process_retry_condition_def)
  have ri: "run_instance env w queue x jn c u json cls j = (Ret st', w', dm) \<Longrightarrow> st' \<noteq> errexcept"
    for x c u json cls st' and j :: "'b job"
    unfolding run_instance_def Let_def
    by (auto simp: prc split: prod.splits outcome.splits if_splits)
  show ?thesis
    using assms unfolding work_def Let_def
    by (auto split: sum.splits prod.splits if_splits dest: ri)
qed

section \<open>What a push stores\<close>

definition pushed_payload :: "string \<Rightarrow> 'p job_class \<Rightarrow> 'p job \<Rightarrow> string \<Rightarrow> jobj" where
  "pushed_payload typeName cls j uuid = obj_set ''uuid'' (JStr uuid) (create_jobpayload typeName cls j)"

definition pushed_record :: "'p job_class \<Rightarrow> 'p job \<Rightarrow> string \<Rightarrow> int \<Rightarrow> datamap_t" where
  "pushed_record cls j t now =
     [''tries'' \<mapsto> ''0'', ''maxtries'' \<mapsto> string_of_u64 (maxtries j), ''payload'' \<mapsto> t,
      ''created_at_unixt'' \<mapsto> string_of_int now, ''className'' \<mapsto> cls_getName cls j]"

text \<open>The class restores the counters that \<open>work\<close> writes into the dump of \<open>j\<close>.\<close>

definition restores_counters :: "'p job_class \<Rightarrow> 'p job \<Rightarrow> bool" where
  "restores_counters cls j \<longleftrightarrow>
     (\<forall>t m. \<exists>j'. cls_from_json cls
        (obj_set ''maxtries'' (JInt (uint m)) (obj_set ''tries'' (JInt (uint t)) (cls_dump_json cls j)))
        (cls_new cls) = Inr j' \<and> tries j' = t \<and> maxtries j' = m)"

definition reads_back :: "poco \<Rightarrow> jobj \<Rightarrow> bool" where
  "reads_back pc json \<longleftrightarrow> (\<exists>t. JsonToString pc (JObj json) = Inr t \<and> p_parse pc t = Inr (JObj json))"

lemma string_of_u64_0: "string_of_u64 0 = ''0''"
  by code_simp

lemma pushed_runnable:
  assumes "poco_documented (we_poco env)" and "we_joblist env typeName = Some cls"
    and "p_parse (we_poco env) t = Inr (JObj (pushed_payload typeName cls j uuid))"
    and "restores_counters cls j" and "cls_getName cls j \<noteq> []"
  shows "runnable env cls (cls_getName cls j) uuid 0 (maxtries j) (pushed_record cls j t now)"
  using assms
  by (auto simp: runnable_def runnable_as_def pushed_record_def string_of_u64_0 payload_as_def pushed_payload_def
      create_jobpayload_def poco_documented_def restores_counters_def)

lemma pushed_record_storable: "finite (dom (pushed_record cls j t now))" "pushed_record cls j t now \<noteq> Map.empty"
  unfolding pushed_record_def by (simp_all add: fun_eq_iff) (rule exI [of _ "''tries''"], simp)

section \<open>Runs over any provider\<close>

context job_queue
begin

abbreviation wview :: "'q worker \<Rightarrow> qview" where
  "wview w \<equiv> view (wk_queue w)"

lemma w_push:
  assumes "up (wk_queue w)" and "sc_queue sc n"
  obtains q' where "qcall (gq_push Q n j) w = (Inr (), w\<lparr>wk_queue := q'\<rparr>)" and "up q'"
    and "view q' = v_push n j (wview w)"
  using push_law [OF assms, of j] by (auto simp: qcall_def)

lemma w_later:
  assumes "up (wk_queue w)" and "sc_queue sc n" and "sc_time sc t" and "\<forall>t'. (j, t') \<notin> later (wview w) n"
  obtains q' where "qcall (gq_pushToLater Q n j t) w = (Inr (), w\<lparr>wk_queue := q'\<rparr>)" and "up q'"
    and "view q' = v_later n j t (wview w)"
  using later_law [OF assms] by (auto simp: qcall_def)

lemma w_get:
  assumes "up (wk_queue w)" and "sc_key sc j" and "stored (wview w) j = Some d"
  obtains q' where "qcall (gq_getPersistentData Q j) w = (Inr d, w\<lparr>wk_queue := q'\<rparr>)" and "up q'"
    and "view q' = wview w"
  using get_law [OF assms] by (auto simp: qcall_def)

lemma w_field:
  assumes "up (wk_queue w)" and "sc_key sc j" and "stored (wview w) j = Some d"
  obtains q' where "qcall (gq_getPersistentDataField Q j f) w = (Inr (d f), w\<lparr>wk_queue := q'\<rparr>)" and "up q'"
    and "view q' = wview w"
  using field_law [OF assms, of f] by (auto simp: qcall_def)

lemma w_set:
  assumes "up (wk_queue w)" and "sc_key sc j" and "finite (dom d)" and "d \<noteq> Map.empty"
  obtains q' where "qcall (gq_setPersistentData Q j d) w = (Inr (), w\<lparr>wk_queue := q'\<rparr>)" and "up q'"
    and "view q' = v_set j d (wview w)"
  using set_law [OF assms] by (auto simp: qcall_def)

lemma w_del:
  assumes "up (wk_queue w)" and "sc_key sc j"
  obtains q' where "qcall (gq_delPersistentData Q j) w = (Inr (), w\<lparr>wk_queue := q'\<rparr>)" and "up q'"
    and "view q' = v_del j (wview w)"
  using del_law [OF assms] by (auto simp: qcall_def)

lemma w_pop:
  assumes "up (wk_queue w)" and "sc_queue sc n" and "ready (wview w) n = j # js"
  obtains q' where "qcall (gq_pop Q n t) w = (Inr (Some j), w\<lparr>wk_queue := q'\<rparr>)" and "up q'"
    and "view q' = (wview w)\<lparr>ready := (ready (wview w))(n := js)\<rparr>"
  using pop_law [OF assms, of t] by (auto simp: qcall_def)

text \<open>A data map that the provider stores, and a worker set up within the provider's scope.\<close>

abbreviation storable :: "string \<Rightarrow> datamap_t \<Rightarrow> bool" where
  "storable j dm \<equiv> sc_key sc j \<and> finite (dom dm) \<and> dm \<noteq> Map.empty"

abbreviation in_scope :: "'q worker \<Rightarrow> string \<Rightarrow> bool" where
  "in_scope w queue \<equiv> up (wk_queue w) \<and> sc_queue sc queue \<and> sc_secs sc (jobLogExpireSeconds w) \<and>
     sc_secs sc (queueTimeout w)"

lemma keep_log_run:
  assumes env: "we_vtable env = Q" and w: "in_scope w queue" and dm: "storable j dm"
  obtains q' where "keep_log env j dm w = (Inr (), w\<lparr>wk_queue := q'\<rparr>)" and "up q'"
    and "view q' = v_set j dm (wview w)"
proof -
  have up: "up (wk_queue w)" and key: "sc_key sc j" using w dm by simp_all
  obtain q1 where q1: "qcall (gq_setPersistentData Q j dm) w = (Inr (), w\<lparr>wk_queue := q1\<rparr>)"
      "up q1" "view q1 = v_set j dm (wview w)"
    using w_set [OF up key] dm by blast
  obtain b q2 where "gq_expire Q j (jobLogExpireSeconds w) q1 = (Inr b, q2)" "up q2" "view q2 = view q1"
    using expire_law [OF q1(2) key] w by blast
  with q1 env that show ?thesis by (simp add: keep_log_def qcall_def)
qed

lemma read_retry_after_run:
  assumes env: "we_vtable env = Q" and "up (wk_queue w)" and "sc_key sc j" and "stored (wview w) j = Some d"
  obtains q' where "read_retry_after env j w = (delay_of (wview w) j, w\<lparr>wk_queue := q'\<rparr>)" and "up q'"
    and "view q' = wview w"
proof -
  obtain q' where "qcall (gq_getPersistentDataField Q j ''retryAfter'') w = (Inr (d ''retryAfter''), w\<lparr>wk_queue := q'\<rparr>)"
      "up q'" "view q' = wview w"
    using w_field [OF assms(2-4)] by blast
  with env assms(4) that show ?thesis
    by (cases "d ''retryAfter''") (simp_all add: read_retry_after_def delay_of_def)
qed

lemma process_job_result_run:
  assumes env: "we_vtable env = Q" and w: "in_scope w queue" and d: "stored (wview w) j = Some d"
    and dm: "storable j dm"
    and later: "delay_of (wview w) j \<noteq> 0 \<Longrightarrow>
      sc_time sc (we_now env + delay_of (wview w) j) \<and> (\<forall>t'. (j, t') \<notin> later (wview w) queue)"
  obtains q' where
    "process_job_result env w queue j dm st =
       (Inr (), w\<lparr>wk_queue := q',
          events := events w @ settle_events (metricsCallback w) queue j dm st (delay_of (wview w) j)\<rparr>)"
    and "up q'"
    and "view q' = settle_view (cleanSuccessfulJobsLogs w) (we_now env) queue j dm st (wview w)"
proof -
  have up: "up (wk_queue w)" and sq: "sc_queue sc queue" and key: "sc_key sc j" using w dm by simp_all
  let ?cb = "metricsCallback w \<and> field dm ''className'' \<noteq> []"
  consider (ok) "st = noerror" | (rm) "st = errorremove" | (again) "st \<noteq> noerror" "st \<noteq> errorremove"
    by blast
  then show ?thesis
  proof cases
    case ok
    show ?thesis
    proof (cases "cleanSuccessfulJobsLogs w")
      case True
      obtain q' where "qcall (gq_delPersistentData Q j) w = (Inr (), w\<lparr>wk_queue := q'\<rparr>)" "up q'"
          "view q' = v_del j (wview w)" using w_del [OF up key] by blast
      with True ok env that [of q'] show ?thesis
        by (simp add: process_job_result_def settle_view_def)
    next
      case False
      obtain q' where "keep_log env j dm w = (Inr (), w\<lparr>wk_queue := q'\<rparr>)" "up q'"
          "view q' = v_set j dm (wview w)" using keep_log_run [OF env w dm] by blast
      with False ok that [of q'] show ?thesis
        by (simp add: process_job_result_def settle_view_def)
    qed
  next
    case rm
    obtain q' where "keep_log env j dm w = (Inr (), w\<lparr>wk_queue := q'\<rparr>)" "up q'"
        "view q' = v_set j dm (wview w)" using keep_log_run [OF env w dm] by blast
    with rm that [of q'] show ?thesis
      by (auto simp: process_job_result_def settle_view_def settle_events_def emit_def Let_def
          split: if_splits)
  next
    case again
    define m where "m = JobRetry queue (field dm ''className'') (job_uuid_of j) (metric_tries dm) (delay_of (wview w) j)"
    obtain q1 where q1: "read_retry_after env j w = (delay_of (wview w) j, w\<lparr>wk_queue := q1\<rparr>)" "up q1"
        "view q1 = wview w" using read_retry_after_run [OF env up key d] by blast
    have "up (wk_queue (w\<lparr>wk_queue := q1\<rparr>))" using q1 by simp
    from w_set [OF this key, of dm] q1(3) dm obtain q2 where
        q2: "qcall (gq_setPersistentData Q j dm) (w\<lparr>wk_queue := q1\<rparr>) = (Inr (), w\<lparr>wk_queue := q2\<rparr>)"
        "up q2" "view q2 = v_set j dm (wview w)" by auto
    define w2 where "w2 = (if ?cb then emit m (w\<lparr>wk_queue := q2\<rparr>) else w\<lparr>wk_queue := q2\<rparr>)"
    have w2: "wk_queue w2 = q2" "w2 = w\<lparr>wk_queue := q2, events := events w @ (if ?cb then [m] else [])\<rparr>"
      by (auto simp: w2_def emit_def)
    then have upw2: "up (wk_queue w2)" using q2 by simp
    have body: "process_job_result env w queue j dm st = requeue env queue j (delay_of (wview w) j) w2"
      using again q1 q2 env
      by (cases st) (simp_all add: process_job_result_def w2_def m_def Let_def)
    have ev: "settle_events (metricsCallback w) queue j dm st (delay_of (wview w) j) = (if ?cb then [m] else [])"
      using again by (cases st) (auto simp: settle_events_def m_def)
    have fin: "w2\<lparr>wk_queue := q\<rparr> = w\<lparr>wk_queue := q, events := events w @
        settle_events (metricsCallback w) queue j dm st (delay_of (wview w) j)\<rparr>" for q
      by (simp add: w2(2) ev)
    have sv: "settle_view (cleanSuccessfulJobsLogs w) (we_now env) queue j dm st (wview w) =
        (if delay_of (wview w) j = 0 then v_push queue j (v_set j dm (wview w))
         else v_later queue j (we_now env + delay_of (wview w) j) (v_set j dm (wview w)))"
      using again by (cases st) (simp_all add: settle_view_def)
    show ?thesis
    proof (cases "delay_of (wview w) j = 0")
      case True
      obtain q' where q': "qcall (gq_push Q queue j) w2 = (Inr (), w2\<lparr>wk_queue := q'\<rparr>)" "up q'"
          "view q' = v_push queue j (wview w2)" using w_push [OF upw2 sq] by blast
      have "requeue env queue j (delay_of (wview w) j) w2 = (Inr (), w2\<lparr>wk_queue := q'\<rparr>)"
        by (simp add: True requeue_def env q')
      then show ?thesis
        using q' by (intro that [of q']) (simp_all only: fin body sv True w2(1) q2 if_True simp_thms)
    next
      case False
      obtain q' where q': "qcall (gq_pushToLater Q queue j (we_now env + delay_of (wview w) j)) w2 =
            (Inr (), w2\<lparr>wk_queue := q'\<rparr>)" "up q'"
          "view q' = v_later queue j (we_now env + delay_of (wview w) j) (wview w2)"
        using w_later [OF upw2 sq, of "we_now env + delay_of (wview w) j" j] later [OF False] w2(1) q2(3)
        by (auto simp: v_set_def)
      have "requeue env queue j (delay_of (wview w) j) w2 = (Inr (), w2\<lparr>wk_queue := q'\<rparr>)"
        by (simp add: False requeue_def env q')
      then show ?thesis
        using q' by (intro that [of q']) (simp_all only: fin body sv False w2(1) q2 if_False simp_thms)
    qed
  qed
qed

lemma round_throws:
  assumes env: "we_vtable env = Q" and ws: "in_scope w queue"
    and rdy: "ready (wview w) queue = jn # js" and jn: "jn \<noteq> []" and d: "stored (wview w) jn = Some d"
    and sd: "storable jn d" and r: "runnable_as P env cls c u t m d" and q: "quiet_env env w" and a: "throws_on P cls"
  obtains q' s d' where
    "do_one env w queue = (Ret True, w\<lparr>wk_queue := q', events := events w @ round_events w queue c u jn t m s\<rparr>)"
    and "up q'"
    and "ready (view q') = (ready (wview w))(queue := (if again t m then js @ [jn] else js))"
    and "later (view q') = later (wview w)"
    and "stored (view q') = (stored (wview w))(jn \<mapsto> d')"
    and "d' ''payload'' = d ''payload''" and "finite (dom d')"
    and "d' ''tries'' = Some (string_of_u64 (if again t m then t + 1 else t))"
    and "runnable_as P env cls c u (if again t m then t + 1 else t) m d'"
proof -
  have up: "up (wk_queue w)" and sq: "sc_queue sc queue" and key: "sc_key sc jn" using ws sd by simp_all
  let ?st = "if again t m then errorretry else errorremove"
  obtain q1 where q1: "qcall (gq_pop Q queue (queueTimeout w)) w = (Inr (Some jn), w\<lparr>wk_queue := q1\<rparr>)" "up q1"
      "view q1 = (wview w)\<lparr>ready := (ready (wview w))(queue := js)\<rparr>"
    using w_pop [OF up sq rdy] by blast
  have "stored (wview (w\<lparr>wk_queue := q1\<rparr>)) jn = Some d" "up (wk_queue (w\<lparr>wk_queue := q1\<rparr>))"
    using d q1 by simp_all
  from w_get [OF this(2) key this(1)] obtain q2 where
      q2: "qcall (gq_getPersistentData Q jn) (w\<lparr>wk_queue := q1\<rparr>) = (Inr d, w\<lparr>wk_queue := q2\<rparr>)" "up q2"
      "view q2 = view q1" by auto
  let ?w2 = "w\<lparr>wk_queue := q2\<rparr>"
  have "quiet_env env ?w2" using q by (simp add: quiet_env_def)
  from work_throws [OF r this a, of queue jn] obtain dm s where
      w: "work env ?w2 queue d jn = (Ret ?st, ?w2\<lparr>events := events w @ attempt_events w queue c u t ?st s\<rparr>, dm)"
      and dm: "dm ''className'' = Some c" "dm ''payload'' = None" "dm ''retryAfter'' = None"
        "dm ''tries'' = Some (string_of_u64 (if again t m then t + 1 else t))"
        "dm ''maxtries'' = Some (string_of_u64 m)" "finite (dom d) \<Longrightarrow> finite (dom dm)"
    by (metis attempt_events_wk events_wk)
  let ?w3 = "?w2\<lparr>events := events w @ attempt_events w queue c u t ?st s\<rparr>"
  have up3: "in_scope ?w3 queue" and d3: "stored (wview ?w3) jn = Some d" using q1 q2 d ws by simp_all
  have sdm: "storable jn dm" using sd dm pushed_fields_not_empty by blast
  have ret: "d ''retryAfter'' = None" and cne: "c \<noteq> []" using r by (simp_all add: runnable_as_def)
  have delay: "delay_of (wview ?w3) jn = 0" using q1 q2 d ret by (simp add: delay_of_def)
  obtain q4 where q4: "process_job_result env ?w3 queue jn dm ?st =
       (Inr (), ?w3\<lparr>wk_queue := q4, events := events ?w3 @ settle_events (metricsCallback ?w3) queue jn dm ?st 0\<rparr>)"
      "up q4" "view q4 = settle_view (cleanSuccessfulJobsLogs ?w3) (we_now env) queue jn dm ?st (wview ?w3)"
    using process_job_result_run [OF env up3 d3 sdm, of ?st] delay by auto
  have ev: "attempt_events w queue c u t ?st s @ settle_events (metricsCallback w) queue jn dm ?st 0 =
      round_events w queue c u jn t m s"
    using dm cne by (auto simp: round_events_def attempt_events_def settle_events_def metric_tries_def)
  have run: "do_one env w queue = (Ret True, w\<lparr>wk_queue := q4, events := events w @ round_events w queue c u jn t m s\<rparr>)"
    using q1 q2 w q4(1) env jn by (simp add: do_one_def do_one_named_def wk_pop_def ev [symmetric])
  have pay: "(d ++ dm) ''payload'' = d ''payload''" using dm by (simp add: map_add_def)
  have run': "runnable_as P env cls c u (if again t m then t + 1 else t) m (d ++ dm)"
    using r dm pay unfolding runnable_as_def by (simp add: map_add_def)
  show ?thesis
  proof (rule that [OF run q4(2)])
    show "ready (view q4) = (ready (wview w))(queue := (if again t m then js @ [jn] else js))"
      using q4(3) q2 q1 delay by (auto simp: settle_view_def v_push_def v_set_def)
    show "later (view q4) = later (wview w)"
      using q4(3) q2 q1 delay by (auto simp: settle_view_def v_push_def v_set_def)
    show "stored (view q4) = (stored (wview w))(jn \<mapsto> d ++ dm)"
      using q4(3) q2 q1 d delay by (auto simp: settle_view_def v_push_def v_set_def)
    show "finite (dom (d ++ dm))" using dm sd by simp
  qed (use pay run' dm in \<open>simp_all add: map_add_def\<close>)
qed

lemma round_succeeds:
  assumes env: "we_vtable env = Q" and ws: "in_scope w queue"
    and rdy: "ready (wview w) queue = jn # js" and jn: "jn \<noteq> []" and d: "stored (wview w) jn = Some d"
    and sd: "storable jn d" and r: "runnable_as P env cls c u t m d" and q: "quiet_env env w" and a: "succeeds_on P cls"
    and clean: "cleanSuccessfulJobsLogs w"
  obtains q' s n where
    "do_one env w queue = (Ret True, w\<lparr>wk_queue := q', events := events w @ success_events w queue c u t s n\<rparr>)"
    and "up q'" and "view q' = v_del jn ((wview w)\<lparr>ready := (ready (wview w))(queue := js)\<rparr>)"
proof -
  have up: "up (wk_queue w)" and sq: "sc_queue sc queue" and key: "sc_key sc jn" using ws sd by simp_all
  obtain q1 where q1: "qcall (gq_pop Q queue (queueTimeout w)) w = (Inr (Some jn), w\<lparr>wk_queue := q1\<rparr>)" "up q1"
      "view q1 = (wview w)\<lparr>ready := (ready (wview w))(queue := js)\<rparr>"
    using w_pop [OF up sq rdy] by blast
  have "stored (wview (w\<lparr>wk_queue := q1\<rparr>)) jn = Some d" "up (wk_queue (w\<lparr>wk_queue := q1\<rparr>))"
    using q1 d by simp_all
  from w_get [OF this(2) key this(1)] obtain q2 where
      q2: "qcall (gq_getPersistentData Q jn) (w\<lparr>wk_queue := q1\<rparr>) = (Inr d, w\<lparr>wk_queue := q2\<rparr>)" "up q2"
      "view q2 = view q1" by auto
  let ?w2 = "w\<lparr>wk_queue := q2\<rparr>"
  have "quiet_env env ?w2" using q by (simp add: quiet_env_def)
  from work_succeeds_on [OF r this a, of queue jn] obtain dm s n where
      w: "work env ?w2 queue d jn = (Ret noerror, ?w2\<lparr>events := events w @ success_events w queue c u t s n\<rparr>, dm)"
      and dm: "dm ''className'' = Some c" "finite (dom d) \<Longrightarrow> finite (dom dm)"
    by (metis success_events_wk events_wk)
  let ?w3 = "?w2\<lparr>events := events w @ success_events w queue c u t s n\<rparr>"
  have up3: "in_scope ?w3 queue" and d3: "stored (wview ?w3) jn = Some d" using q1 q2 d ws by simp_all
  have sdm: "storable jn dm" using sd dm pushed_fields_not_empty by blast
  have "d ''retryAfter'' = None" using r by (simp add: runnable_as_def)
  then have delay: "delay_of (wview ?w3) jn = 0" using q1 q2 d by (simp add: delay_of_def)
  obtain q4 where q4: "process_job_result env ?w3 queue jn dm noerror =
       (Inr (), ?w3\<lparr>wk_queue := q4, events := events ?w3 @ settle_events (metricsCallback ?w3) queue jn dm noerror 0\<rparr>)"
      "up q4" "view q4 = settle_view (cleanSuccessfulJobsLogs ?w3) (we_now env) queue jn dm noerror (wview ?w3)"
    using process_job_result_run [OF env up3 d3 sdm, of noerror] delay by auto
  have "do_one env w queue = (Ret True, w\<lparr>wk_queue := q4, events := events w @ success_events w queue c u t s n\<rparr>)"
    using q1 q2 w q4(1) env jn by (simp add: do_one_def do_one_named_def wk_pop_def)
  then show ?thesis
    by (rule that) (use q4 q2 q1 clean in \<open>simp_all add: settle_view_def\<close>)
qed

lemma do_one_idle:
  assumes env: "we_vtable env = Q" and w: "in_scope w queue"
    and "ready (wview w) queue = []" and "later (wview w) queue = {}"
  obtains q' where "do_one env w queue = (Ret False, w\<lparr>wk_queue := q'\<rparr>)" and "up q'" and "view q' = wview w"
  using pop_empty_law [of "wk_queue w" queue "queueTimeout w"] assms
  by (auto simp: do_one_def wk_pop_def qcall_def)

lemma loop_idle:
  assumes "same_world env envs" and "we_vtable env = Q" and "in_scope w queue"
    and "ready (wview w) queue = []" and "later (wview w) queue = {}"
  obtains q' where "loop envs w queue = (Ret (), w\<lparr>wk_queue := q'\<rparr>)" and "up q'" and "view q' = wview w"
  using assms
proof (induction envs arbitrary: w thesis)
  case Nil
  from Nil.prems(1) [of "wk_queue w"] Nil.prems show ?case by simp
next
  case (Cons e es)
  show ?case
  proof (cases "running w")
    case True
    have "we_vtable e = Q" using Cons.prems by (simp add: same_world_def)
    from do_one_idle [OF this Cons.prems(4-6)] obtain q1 where
        q1: "do_one e w queue = (Ret False, w\<lparr>wk_queue := q1\<rparr>)" "up q1" "view q1 = wview w" .
    have sw: "same_world env es" using Cons.prems by (simp add: same_world_def)
    show ?thesis
      by (rule Cons.IH [of "w\<lparr>wk_queue := q1\<rparr>", OF _ sw Cons.prems(3)])
        (use q1 True Cons.prems in auto)
  next
    case False
    with Cons.prems(1) [of "wk_queue w"] Cons.prems show ?thesis by simp
  qed
qed

lemma loop_always_throws:
  assumes "in_scope w queue" and "ready (wview w) queue = [jn]" and "later (wview w) queue = {}"
    and "jn \<noteq> []" and "stored (wview w) jn = Some d" and "runnable env cls c u t m d" and "t < m"
    and "same_world env envs" and "we_vtable env = Q" and "always_throws cls"
    and "running w" and "\<not> forkToHandle w" and "metricsCallback w"
    and "unat m - unat t \<le> length envs" and "storable jn d"
  shows "\<exists>w' d'. loop envs w queue = (Ret (), w') \<and> up (wk_queue w') \<and> ready (wview w') queue = [] \<and>
     later (wview w') = later (wview w) \<and> started_count w' = started_count w + (unat m - unat t) \<and>
     stored (wview w') = (stored (wview w))(jn \<mapsto> d') \<and> d' ''payload'' = d ''payload'' \<and>
     last (events w') = JobRemoved queue c (job_uuid_of jn) errorremove (m - 1)"
  using assms
proof (induction envs arbitrary: w d t)
  case Nil
  then show ?case by (simp add: word_less_nat_alt)
next
  case (Cons e es)
  have e: "we_vtable e = Q" "runnable e cls c u t m d" "quiet_env e w" and sw: "same_world env es"
    using Cons.prems by (auto simp: same_world_def quiet_env_def runnable_def runnable_as_def payload_as_def)
  from round_throws [OF e(1) Cons.prems(1) Cons.prems(2) Cons.prems(4,5) Cons.prems(15) e(2) [unfolded runnable_def] e(3) always_throws_on [OF Cons.prems(10)]]
  obtain q' s d' where
      run: "do_one e w queue = (Ret True, w\<lparr>wk_queue := q', events := events w @ round_events w queue c u jn t m s\<rparr>)"
      and up': "up q'" and rdy: "ready (view q') = (ready (wview w))(queue := (if again t m then [] @ [jn] else []))"
      and lat: "later (view q') = later (wview w)" and sto: "stored (view q') = (stored (wview w))(jn \<mapsto> d')"
      and pay: "d' ''payload'' = d ''payload''" and fin: "finite (dom d')"
      and r': "runnable e cls c u (if again t m then t + 1 else t) m d'"
    unfolding runnable_def by blast
  have sd': "storable jn d'"
    using fin Cons.prems(15) pushed_fields_not_empty r' unfolding runnable_def runnable_as_def by blast
  let ?w = "w\<lparr>wk_queue := q', events := events w @ round_events w queue c u jn t m s\<rparr>"
  have loop: "loop (e # es) w queue = loop es ?w queue" using run Cons.prems by simp
  have cnt: "started_count ?w = started_count w + 1"
    using Cons.prems by (simp add: started_count_def round_events_def attempt_events_def)
  have suc: "unat (t + 1) = Suc (unat t)"
    using \<open>t < m\<close> by (rule unat_Suc_less)
  show ?case
  proof (cases "again t m")
    case True
    with \<open>t < m\<close> have less: "t + 1 < m" by (auto simp: again_def word_less_nat_alt)
    have r1: "runnable env cls c u (t + 1) m d'"
      using r' True Cons.prems by (auto simp: runnable_def runnable_as_def payload_as_def same_world_def)
    have len: "unat m - unat (t + 1) \<le> length es" using Cons.prems(14) suc by simp
    have "\<exists>w' d2. loop es ?w queue = (Ret (), w') \<and> up (wk_queue w') \<and> ready (wview w') queue = [] \<and>
        later (wview w') = later (wview ?w) \<and> started_count w' = started_count ?w + (unat m - unat (t + 1)) \<and>
        stored (wview w') = (stored (wview ?w))(jn \<mapsto> d2) \<and> d2 ''payload'' = d' ''payload'' \<and>
        last (events w') = JobRemoved queue c (job_uuid_of jn) errorremove (m - 1)"
      by (rule Cons.IH [OF _ _ _ Cons.prems(4) _ r1 less sw Cons.prems(9,10)])
        (use True rdy lat sto up' Cons.prems len sd' in simp_all)
    then obtain w' d2 where "loop es ?w queue = (Ret (), w')" "up (wk_queue w')" "ready (wview w') queue = []"
        "later (wview w') = later (view q')" "started_count w' = started_count ?w + (unat m - unat (t + 1))"
        "stored (wview w') = (stored (view q'))(jn \<mapsto> d2)" "d2 ''payload'' = d' ''payload''"
        "last (events w') = JobRemoved queue c (job_uuid_of jn) errorremove (m - 1)"
      by auto
    moreover have "unat t < unat m" using \<open>t < m\<close> by (simp add: word_less_nat_alt)
    ultimately show ?thesis
      using loop cnt lat sto pay suc by (intro exI [of _ w'] exI [of _ d2]) auto
  next
    case False
    have up2: "in_scope ?w queue" using up' Cons.prems(1) by simp_all
    have one: "m = t + 1"
      using False \<open>t < m\<close> suc by (auto simp: again_def word_less_nat_alt word_unat_eq_iff)
    have rdy': "ready (wview ?w) queue = []" "later (wview ?w) queue = {}"
      using rdy lat False Cons.prems by simp_all
    obtain q2 where q2: "loop es ?w queue = (Ret (), ?w\<lparr>wk_queue := q2\<rparr>)" "up q2" "view q2 = wview ?w"
      using loop_idle [OF sw Cons.prems(9) up2 rdy'] by blast
    have "unat m - unat t = 1" using one suc by simp
    then show ?thesis
      using loop q2 cnt rdy' lat sto pay False one Cons.prems
      by (intro exI [of _ "?w\<lparr>wk_queue := q2\<rparr>"] exI [of _ d'])
        (simp add: round_events_def started_count_def)
  qed
qed

lemma wk_push_run:
  assumes env: "we_vtable env = Q" and up: "up (wk_queue w)" and sq: "sc_queue sc queue"
    and key: "sc_key sc (job_key uuid)"
    and later: "schedAt \<noteq> 0 \<Longrightarrow> sc_time sc schedAt \<and> (\<forall>t'. (job_key uuid, t') \<notin> later (wview w) queue)"
    and new: "stored (wview w) (job_key uuid) = None"
    and prn: "JsonToString (we_poco env) (JObj (pushed_payload typeName cls j uuid)) = Inr t"
  obtains q' where "wk_push env w queue typeName cls j schedAt uuid now =
      (Inr uuid, w\<lparr>wk_queue := q', events := events w @
         (if metricsCallback w then [JobQueued queue (cls_getName cls j) uuid] else [])\<rparr>)"
    and "up q'"
    and "view q' = (let v = (wview w)\<lparr>stored := (stored (wview w))
             (job_key uuid \<mapsto> pushed_record cls j t now)\<rparr> in
           if schedAt = 0 then v_push queue (job_key uuid) v
           else v_later queue (job_key uuid) schedAt v)"
proof -
  let ?key = "job_key uuid"
  let ?v = "(wview w)\<lparr>stored := (stored (wview w))(?key \<mapsto> pushed_record cls j t now)\<rparr>"
  obtain q1 where q1: "qcall (gq_setPersistentData Q ?key (pushed_record cls j t now)) w =
      (Inr (), w\<lparr>wk_queue := q1\<rparr>)" "up q1" "view q1 = v_set ?key (pushed_record cls j t now) (wview w)"
    using w_set [OF up key pushed_record_storable] by blast
  have v1: "view q1 = ?v" using q1 new by (simp add: v_set_def)
  have step: "\<exists>q'. (if schedAt \<noteq> 0 then qcall (gq_pushToLater Q queue ?key schedAt) (w\<lparr>wk_queue := q1\<rparr>)
        else qcall (gq_push Q queue ?key) (w\<lparr>wk_queue := q1\<rparr>)) = (Inr (), w\<lparr>wk_queue := q'\<rparr>) \<and> up q' \<and>
      view q' = (if schedAt = 0 then v_push queue ?key ?v else v_later queue ?key schedAt ?v)"
    using push_law [OF q1(2) sq, of ?key] later_law [OF q1(2) sq, of schedAt ?key] v1 later
    by (cases "schedAt = 0") (auto simp: qcall_def)
  then obtain q' where q': "(if schedAt \<noteq> 0 then qcall (gq_pushToLater Q queue ?key schedAt) (w\<lparr>wk_queue := q1\<rparr>)
        else qcall (gq_push Q queue ?key) (w\<lparr>wk_queue := q1\<rparr>)) = (Inr (), w\<lparr>wk_queue := q'\<rparr>)" "up q'"
      "view q' = (if schedAt = 0 then v_push queue ?key ?v else v_later queue ?key schedAt ?v)"
    by blast
  show ?thesis
    by (rule that [of q'])
      (use q' prn q1(1) env in \<open>auto simp: wk_push_def pushed_payload_def pushed_record_def emit_def Let_def\<close>)
qed

text \<open>A job pushed to an empty queue that throws on every run.\<close>

lemma push_then_fail:
  assumes env: "we_vtable env = Q" "same_world env envs" "poco_documented (we_poco env)"
    and cls: "we_joblist env typeName = Some cls" "always_throws cls" "restores_counters cls j"
      "cls_getName cls j \<noteq> []"
    and json: "reads_back (we_poco env) (pushed_payload typeName cls j uuid)"
    and w: "running w" "\<not> forkToHandle w" "metricsCallback w" "in_scope w queue"
      "ready (wview w) queue = []" "later (wview w) queue = {}"
      "sc_key sc (job_key uuid)" "stored (wview w) (job_key uuid) = None"
    and m: "maxtries j \<noteq> 0" "unat (maxtries j) \<le> length envs"
  shows "\<exists>w1 w2 d. wk_push env w queue typeName cls j 0 uuid now = (Inr uuid, w1) \<and>
     loop envs w1 queue = (Ret (), w2) \<and> ready (wview w2) queue = [] \<and>
     started_count w2 = started_count w + unat (maxtries j) \<and>
     stored (wview w2) (job_key uuid) = Some d \<and>
     Inr (the (d ''payload'')) = JsonToString (we_poco env) (JObj (pushed_payload typeName cls j uuid)) \<and>
     last (events w2) = JobRemoved queue (cls_getName cls j) uuid errorremove (maxtries j - 1)"
proof -
  let ?key = "job_key uuid"
  obtain t where t: "JsonToString (we_poco env) (JObj (pushed_payload typeName cls j uuid)) = Inr t"
      "p_parse (we_poco env) t = Inr (JObj (pushed_payload typeName cls j uuid))"
    using json by (auto simp: reads_back_def)
  let ?d = "pushed_record cls j t now"
  have "up (wk_queue w)" "sc_queue sc queue" using w by simp_all
  from wk_push_run [OF env(1) this w(7) _ w(8) t(1), of 0 now] obtain q1 where
      q1: "wk_push env w queue typeName cls j 0 uuid now = (Inr uuid, w\<lparr>wk_queue := q1,
        events := events w @ [JobQueued queue (cls_getName cls j) uuid]\<rparr>)" "up q1"
      "view q1 = v_push queue ?key ((wview w)\<lparr>stored := (stored (wview w))(?key \<mapsto> ?d)\<rparr>)"
    using w by (auto simp: Let_def)
  let ?w1 = "w\<lparr>wk_queue := q1, events := events w @ [JobQueued queue (cls_getName cls j) uuid]\<rparr>"
  have r: "runnable env cls (cls_getName cls j) uuid 0 (maxtries j) ?d"
    using pushed_runnable [OF env(3) cls(1) t(2) cls(3,4)] .
  have v: "ready (view q1) = (ready (wview w))(queue := [?key])" "later (view q1) = later (wview w)"
      "stored (view q1) = (stored (wview w))(?key \<mapsto> ?d)"
    using q1 w by (simp_all add: v_push_def)
  have "\<exists>w' d'. loop envs ?w1 queue = (Ret (), w') \<and> up (wk_queue w') \<and> ready (wview w') queue = [] \<and>
     later (wview w') = later (wview ?w1) \<and>
     started_count w' = started_count ?w1 + (unat (maxtries j) - unat (0 :: u64)) \<and>
     stored (wview w') = (stored (wview ?w1))(?key \<mapsto> d') \<and> d' ''payload'' = ?d ''payload'' \<and>
     last (events w') = JobRemoved queue (cls_getName cls j) (job_uuid_of ?key) errorremove (maxtries j - 1)"
    by (rule loop_always_throws [where env = env and envs = envs and cls = cls and u = uuid])
      (use r v w m env cls q1 pushed_record_storable [of cls j t now] in \<open>auto simp: word_neq_0_conv\<close>)
  then show ?thesis
    using q1 t by (auto simp: pushed_record_def started_count_def)
qed

end

end
