(* ===== verification/WorkerRuns.thy ===== *)
theory WorkerRuns
  imports WorkerSpec "HOL-Library.Multiset"
begin

text \<open>
  Properties of the worker running over the in-memory queue, and a concrete job class with a
  concrete reading of Poco on which their hypotheses hold.
\<close>

section \<open>A concrete job class\<close>

definition failing_class :: "unit job_class" where
  "failing_class = \<lparr>cls_getName = \<lambda>j. ''Boom'', cls_new = new_job (), cls_dump_json = base_dump_json,
     cls_from_json = base_from_json hex_poco,
     cls_handle = (\<lambda>j. (j\<lparr>retryAfter := 0\<rparr>, ''out'', [], Some (StdExn Runtime_error ''boom'')))\<rparr>"

definition working_class :: "unit job_class" where
  "working_class = failing_class\<lparr>cls_handle := (\<lambda>j. (j, ''done'', [], None))\<rparr>"

definition foreign_class :: "unit job_class" where
  "foreign_class = failing_class\<lparr>cls_handle := (\<lambda>j. (j, [], [], Some ForeignExn))\<rparr>"

definition sample_json :: jobj where
  "sample_json = pushed_payload ''Boom'' failing_class (new_job ()) ''u1''"

definition sample_poco :: poco where
  "sample_poco = hex_poco\<lparr>p_parse := (\<lambda>s. if JsonToString hex_poco (JObj sample_json) = Inr s
     then Inr (JObj sample_json) else Inl (StdExn Runtime_error ''json''))\<rparr>"

definition sample_env :: "unit job_class \<Rightarrow> (std_queue, unit) worker_env" where
  "sample_env cls = \<lparr>we_vtable = std_vtable, we_poco = sample_poco, we_joblist = [''Boom'' \<mapsto> cls],
     we_file = ''JobsHandler.cpp'', we_tmpdir = Inr ''/tmp'', we_can_open = (\<lambda>n. True), we_fork = 0,
     we_wait = (\<lambda>pid. (exited, 0)), we_now = 100, we_steady_now = 5, we_started = (\<lambda>q c u t. 7)\<rparr>"

definition sample_worker :: "std_queue worker" where
  "sample_worker = setMetricsCallback True (new_worker std_queue_init)"

lemma base_from_json_counters:
  assumes "poco_documented pc"
  shows "\<exists>j'. base_from_json pc (obj_set ''maxtries'' (JInt (uint m)) (obj_set ''tries'' (JInt (uint t))
      (base_dump_json (new_job p)))) k = Inr j' \<and> tries j' = t \<and> maxtries j' = m"
  using assms by (simp add: base_from_json_def getValue_def poco_documented_def new_job_def)

lemma sample_poco_documented: "poco_documented sample_poco"
  using hex_poco_documented by (simp add: poco_documented_def sample_poco_def)

lemma failing_class_getName [simp]: "cls_getName failing_class j = ''Boom''"
  by (simp add: failing_class_def)

lemma sample_restores: "restores_counters failing_class (new_job ())"
  using base_from_json_counters [OF hex_poco_documented, where p = "()" and k = "new_job ()"]
  by (simp add: restores_counters_def failing_class_def)

lemma sample_always_throws: "always_throws failing_class"
  by (simp add: always_throws_def failing_class_def)

definition sample_text :: string where
  "sample_text = (case JsonToString hex_poco (JObj sample_json) of Inl e \<Rightarrow> [] | Inr t \<Rightarrow> t)"

definition sample_record :: datamap_t where
  "sample_record = pushed_record failing_class (new_job ()) sample_text 9"

definition sample_queue :: std_queue where
  "sample_queue = \<lparr>queue_map = [''q'' \<mapsto> [job_key ''u1'']], later_queue_map = Map.empty,
     persistentdata = [job_key ''u1'' \<mapsto> sample_record]\<rparr>"

lemma sample_text_ok: "JsonToString hex_poco (JObj sample_json) = Inr sample_text"
proof -
  have "\<not> isl (JsonToString hex_poco (JObj sample_json))" by code_simp
  then show ?thesis
    by (cases "JsonToString hex_poco (JObj sample_json)") (simp_all add: sample_text_def)
qed

lemma sample_reads_back: "reads_back sample_poco sample_json"
proof -
  have "JsonToString sample_poco (JObj sample_json) = JsonToString hex_poco (JObj sample_json)"
    by code_simp
  with sample_text_ok show ?thesis by (auto simp: reads_back_def sample_poco_def)
qed

lemma sample_runnable:
  assumes "cls = failing_class\<lparr>cls_handle := h\<rparr>"
  shows "runnable (sample_env cls) cls ''Boom'' ''u1'' 0 3 sample_record"
proof -
  have "cls_getName cls (new_job ()) = ''Boom''" "maxtries (new_job ()) = 3" "restores_counters cls (new_job ())"
      "pushed_payload ''Boom'' cls (new_job ()) ''u1'' = sample_json"
      "pushed_record cls (new_job ()) sample_text 9 = sample_record"
    using sample_restores
    by (simp_all add: assms sample_record_def sample_json_def pushed_payload_def create_jobpayload_def
        pushed_record_def restores_counters_def new_job_def)
  with pushed_runnable [of "sample_env cls" "''Boom''" cls sample_text "new_job ()" "''u1''" 9]
  show ?thesis
    using sample_poco_documented sample_text_ok
    by (simp add: sample_env_def) (simp add: sample_poco_def)
qed

section \<open>A job that keeps failing\<close>

text \<open>C1: a pushed job whose every run throws a \<open>std::exception\<close>, leaving its counters alone and asking for no
  retry delay, is run exactly \<open>maxtries\<close> times (when that is not 0) by a worker that does not fork, and
  then leaves the queue; its record is kept and still holds the payload it was pushed with. (An exception of
  another type loses the job after one run, and over this queue a delayed job does not come back.) The
  count reported with the removal is one less than the number of runs: the data map's \<open>tries\<close> is
  refreshed only when the job will be retried.\<close>

theorem failing_job_runs_maxtries_times:
  fixes env :: "(std_queue, 'p) worker_env" and w :: "std_queue worker"
  assumes env: "we_vtable env = std_vtable" "same_world env envs" "poco_documented (we_poco env)"
    and cls: "we_joblist env typeName = Some cls" "always_throws cls" "restores_counters cls j"
      "cls_getName cls j \<noteq> []"
    and json: "reads_back (we_poco env) (pushed_payload typeName cls j uuid)"
    and w: "running w" "\<not> forkToHandle w" "metricsCallback w"
      "deque_at (queue_map (wk_queue w)) queue = []" "deque_at (later_queue_map (wk_queue w)) queue = []"
      "persistentdata (wk_queue w) (job_key uuid) = None"
    and m: "maxtries j \<noteq> 0" "unat (maxtries j) \<le> length envs"
  shows "\<exists>w1 w2 d. wk_push env w queue typeName cls j 0 uuid now = (Inr uuid, w1) \<and>
     loop envs w1 queue = (Ret (), w2) \<and>
     deque_at (queue_map (wk_queue w2)) queue = [] \<and>
     started_count w2 = started_count w + unat (maxtries j) \<and>
     persistentdata (wk_queue w2) (job_key uuid) = Some d \<and>
     Inr (the (d ''payload'')) = JsonToString (we_poco env) (JObj (pushed_payload typeName cls j uuid)) \<and>
     last (events w2) = JobRemoved queue (cls_getName cls j) uuid errorremove (maxtries j - 1)"
  using stdq.push_then_fail [OF env cls json w(1-3), of queue now] w m
  by (simp add: std_ready_def) (simp add: std_view_def)

theorem failing_job_runs_maxtries_times_witness:
  "\<exists>w1 w2 d. wk_push (sample_env failing_class) sample_worker ''q'' ''Boom'' failing_class (new_job ()) 0 ''u1'' 9 =
       (Inr ''u1'', w1) \<and>
     loop (replicate 5 (sample_env failing_class)) w1 ''q'' = (Ret (), w2) \<and>
     deque_at (queue_map (wk_queue w2)) ''q'' = [] \<and>
     started_count w2 = started_count sample_worker + unat (maxtries (new_job ())) \<and>
     persistentdata (wk_queue w2) (job_key ''u1'') = Some d \<and>
     Inr (the (d ''payload'')) = JsonToString (we_poco (sample_env failing_class))
       (JObj (pushed_payload ''Boom'' failing_class (new_job ()) ''u1'')) \<and>
     last (events w2) = JobRemoved ''q'' (cls_getName failing_class (new_job ())) ''u1'' errorremove
       (maxtries (new_job ()) - 1)"
  by (rule failing_job_runs_maxtries_times)
    (use sample_restores sample_poco_documented sample_always_throws sample_reads_back in
      \<open>simp_all add: sample_env_def same_world_def sample_json_def
        sample_worker_def new_worker_def setMetricsCallback_def std_queue_init_def deque_at_def new_job_def\<close>)

section \<open>One round over the in-memory queue\<close>

lemma std_do_one:
  assumes "we_vtable env = std_vtable" and "deque_at (queue_map (wk_queue w)) queue = jn # js" and "jn \<noteq> []"
    and "persistentdata (wk_queue w) jn = Some d"
  shows "do_one env w queue =
     (case work env (w\<lparr>wk_queue := (wk_queue w)\<lparr>queue_map := (queue_map (wk_queue w))(queue \<mapsto> js)\<rparr>\<rparr>) queue d jn of
        (Raise e, w2, dm) \<Rightarrow> (Raise e, w2)
      | (Exit st, w2, dm) \<Rightarrow> (Exit st, w2)
      | (Ret workresult, w2, dm) \<Rightarrow>
          (case process_job_result env w2 queue jn dm workresult of
             (Inl e, w3) \<Rightarrow> (Raise e, w3)
           | (Inr u, w3) \<Rightarrow> (Ret True, w3)))"
  using assms by (simp add: do_one_def do_one_named_def wk_pop_def qcall_def std_vtable_def std_pop_def
      std_getPersistentData_def map_at_def)

text \<open>C9: a job that succeeds is removed with its record: one round takes the head of the queue,
  deletes exactly its record and changes nothing else of the queue's state.\<close>

theorem successful_job_is_deleted:
  fixes env :: "(std_queue, 'p) worker_env"
  assumes "we_vtable env = std_vtable" and "deque_at (queue_map (wk_queue w)) queue = jn # js" and "jn \<noteq> []"
    and "persistentdata (wk_queue w) jn = Some d" and "runnable env cls c u t m d" and "succeeds cls"
    and "quiet_env env w" and "cleanSuccessfulJobsLogs w"
  shows "\<exists>w'. do_one env w queue = (Ret True, w') \<and>
     wk_queue w' = \<lparr>queue_map = (queue_map (wk_queue w))(queue \<mapsto> js), later_queue_map = later_queue_map (wk_queue w),
       persistentdata = (persistentdata (wk_queue w))(jn := None)\<rparr>"
proof -
  let ?w = "w\<lparr>wk_queue := (wk_queue w)\<lparr>queue_map := (queue_map (wk_queue w))(queue \<mapsto> js)\<rparr>\<rparr>"
  have "quiet_env env ?w" using assms(7) by (simp add: quiet_env_def)
  then obtain dm evs where "work env ?w queue d jn = (Ret noerror, ?w\<lparr>events := events ?w @ evs\<rparr>, dm)"
    using work_succeeds [OF assms(5) _ assms(6)] by blast
  then show ?thesis
    using assms by (simp add: std_do_one [OF assms(1-4)] process_job_result_def qcall_def std_vtable_def
        std_delPersistentData_def Let_def)
qed

theorem successful_job_is_deleted_witness:
  "\<exists>w'. do_one (sample_env working_class) (sample_worker\<lparr>wk_queue := sample_queue\<rparr>) ''q'' = (Ret True, w') \<and>
     wk_queue w' = \<lparr>queue_map = (queue_map (wk_queue (sample_worker\<lparr>wk_queue := sample_queue\<rparr>)))(''q'' \<mapsto> []),
       later_queue_map = later_queue_map (wk_queue (sample_worker\<lparr>wk_queue := sample_queue\<rparr>)),
       persistentdata = (persistentdata (wk_queue (sample_worker\<lparr>wk_queue := sample_queue\<rparr>)))(job_key ''u1'' := None)\<rparr>"
  by (rule successful_job_is_deleted [OF _ _ _ _ sample_runnable [OF working_class_def]])
    (simp_all add: sample_env_def sample_queue_def sample_worker_def setMetricsCallback_def new_worker_def
      quiet_env_def succeeds_def working_class_def deque_at_def)

text \<open>A job that throws a value not derived from \<open>std::exception\<close> takes down the round: the
  throw leaves \<open>do_one\<close>, the entry has already been taken from the queue, and its record stays
  behind unchanged, so nothing will run it again.\<close>

theorem foreign_exception_loses_job:
  fixes env :: "(std_queue, 'p) worker_env"
  assumes "we_vtable env = std_vtable" and "deque_at (queue_map (wk_queue w)) queue = jn # js" and "jn \<noteq> []"
    and "persistentdata (wk_queue w) jn = Some d" and "runnable env cls c u t m d" and "throws_foreign cls"
    and "quiet_env env w"
  shows "\<exists>w'. do_one env w queue = (Raise ForeignExn, w') \<and>
     wk_queue w' = (wk_queue w)\<lparr>queue_map := (queue_map (wk_queue w))(queue \<mapsto> js)\<rparr>"
proof -
  let ?w = "w\<lparr>wk_queue := (wk_queue w)\<lparr>queue_map := (queue_map (wk_queue w))(queue \<mapsto> js)\<rparr>\<rparr>"
  have "quiet_env env ?w" using assms(7) by (simp add: quiet_env_def)
  then obtain dm evs where "work env ?w queue d jn = (Raise ForeignExn, ?w\<lparr>events := events ?w @ evs\<rparr>, dm)"
    using work_foreign [OF assms(5) _ assms(6)] by blast
  then show ?thesis using assms by (simp add: std_do_one [OF assms(1-4)])
qed

theorem foreign_exception_loses_job_witness:
  "\<exists>w'. do_one (sample_env foreign_class) (sample_worker\<lparr>wk_queue := sample_queue\<rparr>) ''q'' = (Raise ForeignExn, w') \<and>
     wk_queue w' = (wk_queue (sample_worker\<lparr>wk_queue := sample_queue\<rparr>))
       \<lparr>queue_map := (queue_map (wk_queue (sample_worker\<lparr>wk_queue := sample_queue\<rparr>)))(''q'' \<mapsto> [])\<rparr>"
  by (rule foreign_exception_loses_job [OF _ _ _ _ sample_runnable [OF foreign_class_def]])
    (simp_all add: sample_env_def sample_queue_def sample_worker_def setMetricsCallback_def new_worker_def
      quiet_env_def throws_foreign_def foreign_class_def deque_at_def)

lemma unknown_round:
  fixes env :: "(std_queue, 'p) worker_env"
  assumes "we_vtable env = std_vtable" and "deque_at (queue_map (wk_queue w)) queue = [jn]" and "jn \<noteq> []"
    and "persistentdata (wk_queue w) jn = Some d" and "unknown_class env d"
  obtains w' where "do_one env w queue = (Ret True, w')" and "wk_queue w' = wk_queue w" and "running w' = running w"
proof -
  let ?q = "(wk_queue w)\<lparr>queue_map := (queue_map (wk_queue w))(queue \<mapsto> [])\<rparr>"
  let ?w = "w\<lparr>wk_queue := ?q\<rparr>"
  have d: "std_view (wk_queue ?w) = (std_view (wk_queue w))\<lparr>ready := (std_ready (wk_queue w))(queue := [])\<rparr>"
    by (simp add: std_view_def)
  have ret: "d ''retryAfter'' = None" using assms(5) by (auto simp: unknown_class_def)
  have qm: "(queue_map (wk_queue w))(queue \<mapsto> [jn]) = queue_map (wk_queue w)"
    using assms(2) by (auto simp: deque_at_def split: option.splits)
  have pd: "(persistentdata (wk_queue w))(jn \<mapsto> d) = persistentdata (wk_queue w)" using assms(4) by auto
  have dd: "d ++ d = d" by (auto simp: map_add_def split: option.splits)
  have *: "do_one env w queue = (case process_job_result env ?w queue jn d errorretry of
      (Inl e, w3) \<Rightarrow> (Raise e, w3) | (Inr u, w3) \<Rightarrow> (Ret True, w3))"
    using work_unknown [OF assms(5)] by (simp add: std_do_one [OF assms(1-4)])
  have "\<exists>w3. process_job_result env ?w queue jn d errorretry = (Inr (), w3) \<and>
      wk_queue w3 = wk_queue w \<and> running w3 = running w"
    using assms ret qm pd
    by (simp add: process_job_result_def read_retry_after_def qcall_def std_vtable_def std_queue_defs requeue_def
        Let_def emit_def dd map_at_def)
  then show ?thesis using that * by auto
qed

text \<open>C10: a job of a class that is not registered is never given up: each round puts it back with
  the same number of tries, whatever \<open>maxtries\<close> is, so a worker handed such a job works on it for as
  long as it runs.\<close>

theorem unknown_class_spins:
  fixes env :: "(std_queue, 'p) worker_env"
  assumes "deque_at (queue_map (wk_queue w)) queue = [jn]" and "jn \<noteq> []"
    and "persistentdata (wk_queue w) jn = Some d" and "running w"
    and "\<forall>env \<in> set envs. we_vtable env = std_vtable \<and> unknown_class env d"
  shows "\<exists>w'. loop envs w queue = (Ret (), w') \<and> wk_queue w' = wk_queue w"
  using assms
proof (induction envs arbitrary: w)
  case Nil
  then show ?case by simp
next
  case (Cons env envs)
  then obtain w1 where w1: "do_one env w queue = (Ret True, w1)" "wk_queue w1 = wk_queue w"
      "running w1 = running w"
    using unknown_round [of env w queue jn d] by auto
  then obtain w' where "loop envs w1 queue = (Ret (), w')" "wk_queue w' = wk_queue w1"
    using Cons.IH [of w1] Cons.prems by auto
  with w1 Cons.prems show ?case by simp
qed

definition unknown_env :: "(std_queue, unit) worker_env" where
  "unknown_env = (sample_env failing_class)\<lparr>we_joblist := Map.empty\<rparr>"

lemma sample_unknown: "unknown_class unknown_env sample_record"
proof -
  have t: "p_parse sample_poco sample_text = Inr (JObj sample_json)"
    using sample_text_ok by (simp add: sample_poco_def)
  have s: "p_toString sample_poco (JStr x) = Inr x" for x
    using sample_poco_documented by (simp add: poco_documented_def)
  have z: "stoull ''0'' = Inr 0" "stoull (string_of_u64 3) = Inr 3"
    using stoull_string_of_u64 [of 0] by (simp_all add: string_of_u64_0)
  show ?thesis
    unfolding unknown_class_def unknown_env_def sample_env_def
    using t s z
    by (simp add: sample_record_def pushed_record_def read_payload_def deref_def getValue_def write_counters_def
        obj_getObject_def sample_json_def pushed_payload_def create_jobpayload_def new_job_def)
qed

theorem unknown_class_spins_witness:
  "\<exists>w'. loop (replicate 1000 unknown_env) (sample_worker\<lparr>wk_queue := sample_queue\<rparr>) ''q'' = (Ret (), w') \<and>
     wk_queue w' = wk_queue (sample_worker\<lparr>wk_queue := sample_queue\<rparr>)"
  by (rule unknown_class_spins [where d = sample_record and jn = "job_key ''u1''"])
    (use sample_unknown in \<open>simp_all add: unknown_env_def sample_env_def sample_queue_def sample_worker_def
      setMetricsCallback_def new_worker_def deque_at_def\<close>)

section \<open>What a round may touch\<close>

text \<open>Outside the record of \<open>jn\<close> and the queue's two lists nothing changes; \<open>jn\<close> itself is added at most once, at the
  end of the waiting entries or to the delayed ones, all of which stay.\<close>

definition touches_only :: "string \<Rightarrow> string \<Rightarrow> std_queue \<Rightarrow> std_queue \<Rightarrow> bool" where
  "touches_only queue jn q q' \<longleftrightarrow>
     (\<forall>k. k \<noteq> jn \<longrightarrow> persistentdata q' k = persistentdata q k) \<and>
     (\<forall>n. n \<noteq> queue \<longrightarrow> queue_map q' n = queue_map q n \<and> later_queue_map q' n = later_queue_map q n) \<and>
     (\<exists>i ts. deque_at (queue_map q') queue = deque_at (queue_map q) queue @ replicate i jn \<and> i + length ts \<le> 1 \<and>
        mset (deque_at (later_queue_map q') queue) =
          mset (deque_at (later_queue_map q) queue) + mset (map (\<lambda>t. \<lparr>sd_data = jn, sd_pos = t\<rparr>) ts))"

definition record_only :: "string \<Rightarrow> std_queue \<Rightarrow> std_queue \<Rightarrow> bool" where
  "record_only jn q q' \<longleftrightarrow> queue_map q' = queue_map q \<and> later_queue_map q' = later_queue_map q \<and>
     (\<forall>k. k \<noteq> jn \<longrightarrow> persistentdata q' k = persistentdata q k)"

lemma record_only_trans: "record_only jn a b \<Longrightarrow> record_only jn b c \<Longrightarrow> record_only jn a c"
  by (simp add: record_only_def)

lemma record_only_refl [simp]: "record_only jn q q"
  by (simp add: record_only_def)

lemma store_retry_after_record:
  assumes "we_vtable env = std_vtable" and "store_retry_after env j jn st w = (r, w')"
  shows "record_only jn (wk_queue w) (wk_queue w')"
  using assms by (auto simp: store_retry_after_def qcall_def std_vtable_def std_setPersistentData_def Let_def
      record_only_def split: if_splits)

lemma handle_job_run_record:
  assumes "we_vtable env = std_vtable" and "handle_job_run env w cls j json dm jn = (r, w', j', dm')"
  shows "record_only jn (wk_queue w) (wk_queue w')"
  using assms unfolding handle_job_run_def Let_def
  by (auto split: sum.splits prod.splits if_splits dest: store_retry_after_record)

lemma run_instance_record:
  assumes "we_vtable env = std_vtable" and "run_instance env w queue dm jn c u json cls j = (r, w', dm')"
  shows "record_only jn (wk_queue w) (wk_queue w')"
  using assms unfolding run_instance_def Let_def
  by (auto split: prod.splits outcome.splits if_splits dest!: handle_job_run_record [rotated])

lemma work_record:
  assumes "we_vtable env = std_vtable" and "work env w queue d jn = (r, w', dm)"
  shows "record_only jn (wk_queue w) (wk_queue w')"
  using assms unfolding work_def Let_def
  by (auto split: sum.splits prod.splits if_splits dest: run_instance_record)

lemma record_only_touches: "record_only jn q q' \<Longrightarrow> touches_only queue jn q q'"
  by (auto simp: record_only_def touches_only_def intro!: exI [of _ 0] exI [of _ "[] :: int list"])

lemma record_only_then: "record_only jn a b \<Longrightarrow> touches_only queue jn b c \<Longrightarrow> touches_only queue jn a c"
  by (auto simp: record_only_def touches_only_def)

lemma keep_log_record:
  assumes "we_vtable env = std_vtable" and "keep_log env jn dm w = (r, w')"
  shows "record_only jn (wk_queue w) (wk_queue w')"
  using assms by (auto simp: keep_log_def qcall_def std_vtable_def std_queue_defs record_only_def Let_def)

lemma read_retry_after_record:
  assumes "we_vtable env = std_vtable" and "read_retry_after env jn w = (r, w')"
  shows "wk_queue w' = wk_queue w"
  using assms by (auto simp: read_retry_after_def qcall_def std_vtable_def std_queue_defs
      split: sum.splits option.splits)

lemma mset_pq_push [simp]: "mset (pq_push x xs) = add_mset x (mset xs)"
  by (induction xs) auto

lemma requeue_touches:
  assumes "we_vtable env = std_vtable" and "requeue env queue jn after w = (r, w')"
  shows "touches_only queue jn (wk_queue w) (wk_queue w')"
proof (cases "after = 0")
  case True
  with assms have "wk_queue w' = snd (std_push queue jn (wk_queue w))"
    by (auto simp: requeue_def qcall_def std_vtable_def std_push_def)
  then show ?thesis
    by (auto simp: touches_only_def std_push_def intro!: exI [of _ "Suc 0"] exI [of _ "[] :: int list"])
next
  case False
  with assms have "wk_queue w' = snd (std_pushToLater queue jn (we_now env + after) (wk_queue w))"
    by (auto simp: requeue_def qcall_def std_vtable_def std_pushToLater_def)
  then show ?thesis
    by (auto simp: touches_only_def std_pushToLater_def intro!: exI [of _ 0] exI [of _ "[we_now env + after]"])
qed

lemma process_job_result_touches:
  assumes env: "we_vtable env = std_vtable" and run: "process_job_result env w queue jn dm st = (r, w')"
  shows "touches_only queue jn (wk_queue w) (wk_queue w')"
proof (cases "st = noerror \<or> st = errorremove")
  case True
  have del: "qcall (gq_delPersistentData (we_vtable env) jn) w = (r, w') \<Longrightarrow>
      record_only jn (wk_queue w) (wk_queue w')"
    using env by (auto simp: qcall_def std_vtable_def std_delPersistentData_def record_only_def)
  obtain r1 w1 where k: "keep_log env jn dm w = (r1, w1)" by (cases "keep_log env jn dm w")
  from True have "record_only jn (wk_queue w) (wk_queue w')"
  proof
    assume "st = noerror"
    with run k have "qcall (gq_delPersistentData (we_vtable env) jn) w = (r, w') \<or> w' = w1"
      by (cases "cleanSuccessfulJobsLogs w") (simp_all add: process_job_result_def Let_def)
    then show ?thesis using del keep_log_record [OF env k] by blast
  next
    assume "st = errorremove"
    with run k have "wk_queue w' = wk_queue w1"
      by (cases r1) (auto simp: process_job_result_def Let_def)
    then show ?thesis using keep_log_record [OF env k] by simp
  qed
  then show ?thesis by (rule record_only_touches)
next
  case False
  obtain after w1 where w1: "read_retry_after env jn w = (after, w1)" by (cases "read_retry_after env jn w")
  obtain w2 where w2: "qcall (gq_setPersistentData (we_vtable env) jn dm) w1 = (Inr (), w2)"
      and rec: "record_only jn (wk_queue w1) (wk_queue w2)"
    using env by (auto simp: qcall_def std_vtable_def std_setPersistentData_def record_only_def Let_def)
  obtain m where "requeue env queue jn after (if metricsCallback w \<and> field dm ''className'' \<noteq> [] then emit m w2 else w2) = (r, w')"
    using False run w1 w2 by (cases st) (auto simp: process_job_result_def Let_def)
  from requeue_touches [OF env this] have "touches_only queue jn (wk_queue w2) (wk_queue w')"
    by (simp split: if_splits)
  with rec have "touches_only queue jn (wk_queue w1) (wk_queue w')" by (rule record_only_then)
  with read_retry_after_record [OF env w1] show ?thesis by simp
qed

text \<open>C5: whatever a job does, and however its round ends, a round of the worker takes the head of
  its queue and touches nothing else: other records, other queues, the order of the waiting entries and
  every delayed entry stay, and the taken entry, and no other, is put back at most once, at the end or among the
  delayed.\<close>

theorem round_touches_only_its_job:
  fixes env :: "(std_queue, 'p) worker_env"
  assumes "we_vtable env = std_vtable" and "deque_at (queue_map (wk_queue w)) queue = jn # js"
    and "do_one env w queue = (r, w')"
  shows "touches_only queue jn ((wk_queue w)\<lparr>queue_map := (queue_map (wk_queue w))(queue \<mapsto> js)\<rparr>) (wk_queue w')"
proof -
  let ?q = "(wk_queue w)\<lparr>queue_map := (queue_map (wk_queue w))(queue \<mapsto> js)\<rparr>"
  have pop: "wk_pop env w queue (queueTimeout w) = (Inr jn, w\<lparr>wk_queue := ?q\<rparr>)"
    using assms(1,2) by (simp add: wk_pop_def qcall_def std_vtable_def std_pop_def)
  show ?thesis
  proof (cases "jn = [] \<or> persistentdata (wk_queue w) jn = None")
    case True
    with assms pop have "wk_queue w' = ?q"
      by (auto simp: do_one_def do_one_named_def qcall_def std_vtable_def std_getPersistentData_def map_at_def
          split: if_splits)
    then show ?thesis by (simp add: record_only_touches)
  next
    case False
    then obtain d where "jn \<noteq> []" and d: "persistentdata (wk_queue w) jn = Some d" by auto
    obtain res w2 dm where w2: "work env (w\<lparr>wk_queue := ?q\<rparr>) queue d jn = (res, w2, dm)"
      by (cases "work env (w\<lparr>wk_queue := ?q\<rparr>) queue d jn")
    have rec: "record_only jn ?q (wk_queue w2)" using work_record [OF assms(1) w2] by simp
    show ?thesis
    proof (cases res)
      case (Ret st)
      obtain x where "process_job_result env w2 queue jn dm st = (x, w')"
        using assms(3) std_do_one [OF assms(1,2) \<open>jn \<noteq> []\<close> d] w2 Ret
        by (cases "process_job_result env w2 queue jn dm st") (auto split: sum.splits)
      then show ?thesis
        using record_only_then [OF rec process_job_result_touches [OF assms(1)]] by simp
    qed (use assms(3) std_do_one [OF assms(1,2) \<open>jn \<noteq> []\<close> d] w2 rec in \<open>auto intro: record_only_touches\<close>)
  qed
qed

theorem round_touches_only_its_job_witness:
  "touches_only ''q'' (job_key ''u1'')
     ((wk_queue (sample_worker\<lparr>wk_queue := sample_queue\<rparr>))
        \<lparr>queue_map := (queue_map (wk_queue (sample_worker\<lparr>wk_queue := sample_queue\<rparr>)))(''q'' \<mapsto> [])\<rparr>)
     (wk_queue (snd (do_one (sample_env failing_class) (sample_worker\<lparr>wk_queue := sample_queue\<rparr>) ''q'')))"
  by (rule round_touches_only_its_job [OF _ _ prod.collapse [symmetric]])
    (simp_all add: sample_env_def sample_queue_def deque_at_def)

text \<open>\<open>work\<close> never returns \<open>errexcept\<close>: whatever the payload, the class and the system calls do,
  that status has been turned into a retry or a removal, so the case of \<open>process_job_result\<close> that
  would put the job back regardless of \<open>maxtries\<close> is only reached with \<open>errorretry\<close>.\<close>

theorem work_never_errexcept: "fst (work env w queue d jn) \<noteq> Ret errexcept"
proof
  assume "fst (work env w queue d jn) = Ret errexcept"
  then show False by (cases "work env w queue d jn") (auto dest: work_status)
qed

section \<open>A class with serialised members\<close>

theorem serialize_roundtrip_witness:
  "\<exists>k'. serialize_from_json hex_poco id_fields
      (serialize_dump_json id_fields (setRetryAfter 30 (setMaxTries 7 (new_job (42, Some ''x''))))) (new_job (0, None)) = Inr k' \<and>
     tries k' = tries (setRetryAfter 30 (setMaxTries 7 (new_job (42 :: int, Some ''x'')))) \<and>
     maxtries k' = maxtries (setRetryAfter 30 (setMaxTries 7 (new_job (42 :: int, Some ''x'')))) \<and>
     retryAfter k' = retryAfter (setRetryAfter 30 (setMaxTries 7 (new_job (42 :: int, Some ''x'')))) \<and>
     (\<forall>f \<in> set id_fields. sf_get f (members k') =
        sf_get f (members (setRetryAfter 30 (setMaxTries 7 (new_job (42, Some ''x''))))))"
  by (rule serialize_roundtrip [OF hex_poco_documented id_fields_ok])
    (simp_all add: setRetryAfter_def setMaxTries_def new_job_def)

end
