(* ===== verification/BorrowPool.thy ===== *)
theory BorrowPool
  imports Prelude
begin

text \<open>
  The lock free resource pool (src/src/utils/BorrowPool.hpp): its operations run to completion by
  one thread, the life of a \<open>BorrowedObject\<close>, and the same code as atomic steps of any number of
  concurrent borrowers. \<open>INVALIDPOS\<close> is \<open>None\<close>.
\<close>

section \<open>State and operations of one thread\<close>

record pool =
  firstFreeElement :: "nat option"
  borrowedElements :: u64
  bits :: "bool list"

definition new_pool :: "nat \<Rightarrow> pool" where
  "new_pool n = \<lparr>firstFreeElement = Some 0, borrowedElements = 0, bits = replicate n False\<rparr>"

fun first_false :: "nat \<Rightarrow> bool list \<Rightarrow> nat option" where
  "first_false i [] = None"
| "first_false i (b # bs) = (if \<not> b then Some i else first_false (Suc i) bs)"

definition findFreeElement :: "pool \<Rightarrow> nat option" where
  "findFreeElement p = first_false 0 (bits p)"

definition take_pos :: "nat \<Rightarrow> pool \<Rightarrow> pool" where
  "take_pos i p = p\<lparr>bits := (bits p)[i := True], borrowedElements := borrowedElements p + 1\<rparr>"

definition scan_pos :: "pool \<Rightarrow> nat option \<times> pool" where
  "scan_pos p =
     (if borrowedElements p = of_nat (length (bits p)) then (None, p)
      else (case first_false 0 (bits p) of
              None \<Rightarrow> (None, p)
            | Some i \<Rightarrow> (Some i, take_pos i p)))"

definition getValidPos :: "pool \<Rightarrow> nat option \<times> pool" where
  "getValidPos p =
     (let p1 = p\<lparr>firstFreeElement := None\<rparr> in
      case firstFreeElement p of
        None \<Rightarrow> scan_pos p1
      | Some r \<Rightarrow> if bits p1 ! r then scan_pos p1 else (Some r, take_pos r p1))"

text \<open>A \<open>BorrowedObject\<close>: whether it points to its pool and to an element, and the position.\<close>

record borrowed_object =
  originpool :: bool
  bobject :: bool
  bpos :: "nat option"

definition disownBorrowed :: "borrowed_object \<Rightarrow> pool \<Rightarrow> pool" where
  "disownBorrowed b p =
     (case bpos b of
        None \<Rightarrow> p
      | Some i \<Rightarrow> p\<lparr>bits := (bits p)[i := False], firstFreeElement := Some i,
                    borrowedElements := borrowedElements p - 1\<rparr>)"

definition destroy :: "borrowed_object \<Rightarrow> pool \<Rightarrow> pool" where
  "destroy b p = (if originpool b \<and> bobject b then disownBorrowed b p else p)"

definition move_assign :: "borrowed_object \<Rightarrow> borrowed_object \<Rightarrow> borrowed_object \<times> borrowed_object" where
  "move_assign this n =
     (this\<lparr>originpool := originpool n, bobject := bobject n, bpos := bpos n\<rparr>,
      n\<lparr>originpool := False, bobject := False\<rparr>)"

definition move_construct :: "borrowed_object \<Rightarrow> borrowed_object \<times> borrowed_object" where
  "move_construct n = move_assign \<lparr>originpool = False, bobject = False, bpos = Some 0\<rparr> n"

text \<open>What a holder sees: whether there is an element, its position, and the element itself.\<close>

definition object_valid :: "borrowed_object \<Rightarrow> bool" where
  "object_valid b = bobject b"

definition object_id :: "borrowed_object \<Rightarrow> nat option" where
  "object_id b = bpos b"

definition object_get :: "'a list \<Rightarrow> borrowed_object \<Rightarrow> 'a option" where
  "object_get elements b = (if bobject b then map_option ((!) elements) (bpos b) else None)"

text \<open>\<open>borrow\<close>: each entry of \<open>waits\<close> is one return of \<open>wait_for\<close>: the pool as other threads left
  it and whether it was a timeout. No result where the list ends while the call still waits.\<close>

definition borrowed_at :: "nat \<Rightarrow> borrowed_object" where
  "borrowed_at i = \<lparr>originpool = True, bobject = True, bpos = Some i\<rparr>"

definition no_object :: borrowed_object where
  "no_object = \<lparr>originpool = False, bobject = False, bpos = None\<rparr>"

fun borrow_wait :: "(pool \<times> bool) list \<Rightarrow> nat option \<times> pool \<Rightarrow> (borrowed_object \<times> pool) option" where
  "borrow_wait ws (Some i, p) = Some (borrowed_at i, p)"
| "borrow_wait [] (None, p) = None"
| "borrow_wait ((q, timeout) # ws) (None, p) =
     (if timeout then Some (no_object, q) else borrow_wait ws (getValidPos q))"

definition borrow :: "(pool \<times> bool) list \<Rightarrow> pool \<Rightarrow> (borrowed_object \<times> pool) option" where
  "borrow waits p = borrow_wait waits (getValidPos p)"

section \<open>Lemmas of one thread\<close>

lemma first_false_Some:
  "first_false k bs = Some i \<Longrightarrow> k \<le> i \<and> i - k < length bs \<and> \<not> bs ! (i - k)"
proof (induction bs arbitrary: k)
  case Nil
  then show ?case by simp
next
  case (Cons b bs)
  show ?case
  proof (cases b)
    case True
    with Cons.prems Cons.IH [of "Suc k"] show ?thesis by (auto simp: nth_Cons' Suc_diff_le split: if_splits)
  qed (use Cons.prems in auto)
qed

lemma first_false_None: "first_false k bs = None \<longleftrightarrow> (\<forall>b \<in> set bs. b)"
  by (induction bs arbitrary: k) auto

definition taken :: "bool list \<Rightarrow> nat" where
  "taken bs = length (filter id bs)"

definition pool_ok :: "pool \<Rightarrow> bool" where
  "pool_ok p \<longleftrightarrow> (\<forall>i. firstFreeElement p = Some i \<longrightarrow> i < length (bits p)) \<and>
     length (bits p) < 2 ^ 64 \<and> borrowedElements p = of_nat (taken (bits p))"

lemma taken_le: "taken bs \<le> length bs"
  by (simp add: taken_def)

lemma taken_update:
  "i < length bs \<Longrightarrow> taken (bs[i := True]) = (if bs ! i then taken bs else Suc (taken bs))"
  "i < length bs \<Longrightarrow> taken (bs[i := False]) = (if bs ! i then taken bs - 1 else taken bs)"
  "i < length bs \<Longrightarrow> bs ! i \<Longrightarrow> 0 < taken bs"
  by (induction bs arbitrary: i) (auto simp: taken_def nth_Cons' less_Suc_eq_0_disj split: nat.splits)

lemma taken_all: "taken bs = length bs \<longleftrightarrow> (\<forall>b \<in> set bs. b)"
proof (induction bs)
  case (Cons b bs)
  have "taken (b # bs) = (if b then Suc (taken bs) else taken bs)" by (simp add: taken_def)
  with Cons taken_le [of bs] show ?case by auto
qed (simp add: taken_def)

lemma taken_counter:
  "length bs < 2 ^ 64 \<Longrightarrow> (of_nat (taken bs) :: u64) = of_nat (length bs) \<longleftrightarrow> (\<forall>b \<in> set bs. b)"
  using taken_le [of bs] by (simp add: word_unat_eq_iff unat_of_nat flip: taken_all)

lemma take_pos_ok:
  "pool_ok p \<Longrightarrow> i < length (bits p) \<Longrightarrow> \<not> bits p ! i \<Longrightarrow> pool_ok (take_pos i p)"
  by (simp add: pool_ok_def take_pos_def taken_update)

text \<open>What \<open>getValidPos\<close> does with the pool to itself.\<close>

definition got :: "pool \<Rightarrow> nat \<Rightarrow> pool \<Rightarrow> bool" where
  "got p i p' \<longleftrightarrow> i < length (bits p) \<and> \<not> bits p ! i \<and> bits p' = (bits p)[i := True] \<and> pool_ok p'"

lemma scan_pos_spec:
  assumes "pool_ok p"
  shows "case scan_pos p of (None, p') \<Rightarrow> (\<forall>b \<in> set (bits p). b) \<and> p' = p | (Some i, p') \<Rightarrow> got p i p'"
proof (cases "first_false 0 (bits p)")
  case None
  moreover from None have "\<forall>b \<in> set (bits p). b" by (simp add: first_false_None)
  ultimately show ?thesis by (simp add: scan_pos_def)
next
  case (Some i)
  from first_false_Some [OF this] have i: "i < length (bits p)" "\<not> bits p ! i" by simp_all
  then have "\<not> (\<forall>b \<in> set (bits p). b)" by (metis nth_mem)
  with assms have "borrowedElements p \<noteq> of_nat (length (bits p))"
    by (simp add: pool_ok_def taken_counter)
  with Some i take_pos_ok [OF assms i] show ?thesis
    by (simp add: scan_pos_def got_def take_pos_def)
qed

lemma getValidPos_spec:
  assumes "pool_ok p"
  shows "case getValidPos p of (None, p') \<Rightarrow> (\<forall>b \<in> set (bits p). b) \<and> bits p' = bits p \<and> pool_ok p'
    | (Some i, p') \<Rightarrow> got p i p'"
proof -
  let ?p = "p\<lparr>firstFreeElement := None\<rparr>"
  have ok: "pool_ok ?p" using assms by (simp add: pool_ok_def)
  have scan: "case scan_pos ?p of (None, p') \<Rightarrow> (\<forall>b \<in> set (bits p). b) \<and> bits p' = bits p \<and> pool_ok p'
    | (Some i, p') \<Rightarrow> got p i p'"
    using scan_pos_spec [OF ok] ok by (auto simp: got_def split: option.splits prod.splits)
  show ?thesis
  proof (cases "firstFreeElement p")
    case None
    with scan show ?thesis by (simp add: getValidPos_def)
  next
    case (Some r)
    show ?thesis
    proof (cases "bits p ! r")
      case True
      with scan Some show ?thesis by (simp add: getValidPos_def)
    next
      case False
      with Some assms take_pos_ok [OF ok, of r] show ?thesis
        by (simp add: getValidPos_def got_def pool_ok_def take_pos_def)
    qed
  qed
qed

text \<open>With no other thread in the pool, borrowing succeeds at once when an element is free and
  only then: it hands out an element that was free, marks exactly that one, and keeps the counter
  equal to the number of marked elements; when it has to wait, every element is borrowed.\<close>

theorem borrow_sequential:
  assumes "pool_ok p"
  shows "case getValidPos p of
       (None, p') \<Rightarrow> (\<forall>b \<in> set (bits p). b) \<and> bits p' = bits p \<and> pool_ok p' \<and> borrow [] p = None
     | (Some i, p') \<Rightarrow> i < length (bits p) \<and> \<not> bits p ! i \<and> bits p' = (bits p)[i := True] \<and> pool_ok p' \<and>
         borrow [] p = Some (borrowed_at i, p') \<and> destroy (borrowed_at i) p' =
           p'\<lparr>bits := bits p, firstFreeElement := Some i, borrowedElements := borrowedElements p' - 1\<rparr>"
  using getValidPos_spec [OF assms]
  by (auto simp: got_def borrow_def destroy_def borrowed_at_def disownBorrowed_def list_update_same_conv
      split: prod.splits option.splits)

theorem borrow_sequential_witness:
  "case getValidPos (new_pool 2) of
       (None, p') \<Rightarrow> (\<forall>b \<in> set (bits (new_pool 2)). b) \<and> bits p' = bits (new_pool 2) \<and> pool_ok p' \<and>
         borrow [] (new_pool 2) = None
     | (Some i, p') \<Rightarrow> i < length (bits (new_pool 2)) \<and> \<not> bits (new_pool 2) ! i \<and>
         bits p' = (bits (new_pool 2))[i := True] \<and> pool_ok p' \<and>
         borrow [] (new_pool 2) = Some (borrowed_at i, p') \<and> destroy (borrowed_at i) p' =
           p'\<lparr>bits := bits (new_pool 2), firstFreeElement := Some i, borrowedElements := borrowedElements p' - 1\<rparr>"
  by (rule borrow_sequential) (simp add: pool_ok_def new_pool_def taken_def)

text \<open>Move assignment to an object that still holds an element forgets it: after both objects
  are destroyed the element stays marked, so the pool has one element less for ever.\<close>

theorem move_assign_leaks:
  assumes "bits p ! i" and "i \<noteq> j" and "move_assign (borrowed_at i) (borrowed_at j) = (a, b)"
  shows "bits (destroy a (destroy b p)) ! i"
  using assms by (auto simp: move_assign_def borrowed_at_def destroy_def disownBorrowed_def)

theorem move_assign_leaks_witness:
  "bits (destroy (fst (move_assign (borrowed_at 0) (borrowed_at 1)))
     (destroy (snd (move_assign (borrowed_at 0) (borrowed_at 1)))
       \<lparr>firstFreeElement = None, borrowedElements = 2, bits = [True, True]\<rparr>)) ! 0"
  by (rule move_assign_leaks [OF _ _ prod.collapse [symmetric], where j = 1]) simp_all

section \<open>Concurrent borrowers\<close>

text \<open>
  One borrower is one call of \<open>borrow\<close> and the object it returns, and its program counter is the
  next atomic operation: the exchange of the hint, the compare-exchange of a bit, the two
  counter updates, the two stores of \<open>disownBorrowed\<close>, \<open>notify_one\<close>. \<open>Locking\<close> is between the
  failed \<open>getValidPos\<close> and \<open>wait_for\<close>, \<open>Waiting\<close> inside \<open>wait_for\<close>; a waiter may also return by
  itself (spuriously) or by its timeout. The mutex guards nothing else, so taking it is no step.
\<close>

datatype pc =
  Start | HintCas nat | Counting nat | CheckFull | Scan nat | Locking | Waiting | Holding nat
| ClearBit nat | StoreHint nat | Uncount | Notify | Released | TimedOut

record 'a system =
  spool :: pool
  pcs :: "'a \<Rightarrow> pc"

definition goto :: "'a \<Rightarrow> pc \<Rightarrow> pool \<Rightarrow> 'a system \<Rightarrow> 'a system" where
  "goto a c p s = \<lparr>spool = p, pcs = (pcs s)(a := c)\<rparr>"

inductive pstep :: "'a system \<Rightarrow> 'a system \<Rightarrow> bool" where
  exchange: "pcs s a = Start \<Longrightarrow>
     pstep s (goto a (case firstFreeElement (spool s) of None \<Rightarrow> CheckFull | Some r \<Rightarrow> HintCas r)
       ((spool s)\<lparr>firstFreeElement := None\<rparr>) s)"
| hint_cas: "pcs s a = HintCas r \<Longrightarrow>
     pstep s (if bits (spool s) ! r then goto a CheckFull (spool s) s
              else goto a (Counting r) ((spool s)\<lparr>bits := (bits (spool s))[r := True]\<rparr>) s)"
| count: "pcs s a = Counting i \<Longrightarrow>
     pstep s (goto a (Holding i) ((spool s)\<lparr>borrowedElements := borrowedElements (spool s) + 1\<rparr>) s)"
| check_full: "pcs s a = CheckFull \<Longrightarrow>
     pstep s (goto a (if borrowedElements (spool s) = of_nat (length (bits (spool s))) then Locking else Scan 0)
       (spool s) s)"
| scan_end: "pcs s a = Scan i \<Longrightarrow> length (bits (spool s)) \<le> i \<Longrightarrow> pstep s (goto a Locking (spool s) s)"
| scan_cas: "pcs s a = Scan i \<Longrightarrow> i < length (bits (spool s)) \<Longrightarrow>
     pstep s (if bits (spool s) ! i then goto a (Scan (Suc i)) (spool s) s
              else goto a (Counting i) ((spool s)\<lparr>bits := (bits (spool s))[i := True]\<rparr>) s)"
| wait: "pcs s a = Locking \<Longrightarrow> pstep s (goto a Waiting (spool s) s)"
| wake: "pcs s a = Waiting \<Longrightarrow> pstep s (goto a Start (spool s) s)"
| timeout: "pcs s a = Waiting \<Longrightarrow> pstep s (goto a TimedOut (spool s) s)"
| release: "pcs s a = Holding i \<Longrightarrow> pstep s (goto a (ClearBit i) (spool s) s)"
| clear_bit: "pcs s a = ClearBit i \<Longrightarrow>
     pstep s (goto a (StoreHint i) ((spool s)\<lparr>bits := (bits (spool s))[i := False]\<rparr>) s)"
| store_hint: "pcs s a = StoreHint i \<Longrightarrow>
     pstep s (goto a Uncount ((spool s)\<lparr>firstFreeElement := Some i\<rparr>) s)"
| uncount: "pcs s a = Uncount \<Longrightarrow>
     pstep s (goto a Notify ((spool s)\<lparr>borrowedElements := borrowedElements (spool s) - 1\<rparr>) s)"
| notify_none: "pcs s a = Notify \<Longrightarrow> \<forall>b. pcs s b \<noteq> Waiting \<Longrightarrow> pstep s (goto a Released (spool s) s)"
| notify: "pcs s a = Notify \<Longrightarrow> pcs s b = Waiting \<Longrightarrow>
     pstep s (goto a Released (spool s) (goto b Start (spool s) s))"

inductive preach :: "nat \<Rightarrow> 'a system \<Rightarrow> bool" for n where
  init: "preach n \<lparr>spool = new_pool n, pcs = \<lambda>a. Start\<rparr>"
| step: "preach n s \<Longrightarrow> pstep s t \<Longrightarrow> preach n t"

text \<open>The element a borrower has marked as its own.\<close>

fun owns :: "pc \<Rightarrow> nat option" where
  "owns (Counting i) = Some i"
| "owns (Holding i) = Some i"
| "owns (ClearBit i) = Some i"
| "owns c = None"

fun hints_at :: "pc \<Rightarrow> nat option" where
  "hints_at (HintCas i) = Some i"
| "hints_at (StoreHint i) = Some i"
| "hints_at c = None"

definition sys_ok :: "nat \<Rightarrow> 'a system \<Rightarrow> bool" where
  "sys_ok n s \<longleftrightarrow> length (bits (spool s)) = n \<and>
     (\<forall>i. firstFreeElement (spool s) = Some i \<longrightarrow> i < n) \<and>
     (\<forall>a i. hints_at (pcs s a) = Some i \<longrightarrow> i < n) \<and>
     (\<forall>a i. owns (pcs s a) = Some i \<longrightarrow> i < n) \<and>
     (\<forall>a b i. owns (pcs s a) = Some i \<longrightarrow> owns (pcs s b) = Some i \<longrightarrow> a = b) \<and>
     (\<forall>i < n. bits (spool s) ! i \<longleftrightarrow> (\<exists>a. owns (pcs s a) = Some i))"

lemma goto_simps [simp]: "spool (goto a c p s) = p" "pcs (goto a c p s) = (pcs s)(a := c)"
  by (simp_all add: goto_def)

lemma owners_goto:
  "(\<exists>b. owns (((pcs s)(a := c)) b) = Some k) \<longleftrightarrow> owns c = Some k \<or> (\<exists>b. b \<noteq> a \<and> owns (pcs s b) = Some k)"
  by auto

lemma owners_other:
  "owns (pcs s a) \<noteq> Some k \<Longrightarrow> (\<exists>b. b \<noteq> a \<and> owns (pcs s b) = Some k) \<longleftrightarrow> (\<exists>b. owns (pcs s b) = Some k)"
  by metis

lemma sys_ok_frame:
  assumes "sys_ok n s" and "owns c = owns (pcs s a)" and "hints_at c = None \<or> (\<exists>i < n. hints_at c = Some i)"
    and "bits p = bits (spool s)" and "\<forall>i. firstFreeElement p = Some i \<longrightarrow> i < n"
  shows "sys_ok n (goto a c p s)"
proof -
  have "owns (((pcs s)(a := c)) b) = owns (pcs s b)" for b using assms(2) by simp
  then show ?thesis using assms(1,3-5) unfolding sys_ok_def goto_simps by auto
qed

lemma sys_ok_take:
  assumes ok: "sys_ok n s" and a: "owns (pcs s a) = None" and i: "i < n" "\<not> bits (spool s) ! i"
  shows "sys_ok n (goto a (Counting i) ((spool s)\<lparr>bits := (bits (spool s))[i := True]\<rparr>) s)"
proof -
  have no: "owns (pcs s b) \<noteq> Some i" for b using ok i by (auto simp: sys_ok_def)
  have bits: "(bits (spool s))[i := True] ! k \<longleftrightarrow> (\<exists>b. owns (((pcs s)(a := Counting i)) b) = Some k)" if "k < n" for k
    using that ok i a owners_other [of s a k] by (auto simp: sys_ok_def owners_goto nth_list_update)
  show ?thesis using ok a i no bits unfolding sys_ok_def goto_simps by (auto split: if_splits)
qed

lemma sys_ok_clear:
  assumes ok: "sys_ok n s" and a: "pcs s a = ClearBit i"
  shows "sys_ok n (goto a (StoreHint i) ((spool s)\<lparr>bits := (bits (spool s))[i := False]\<rparr>) s)"
proof -
  have own: "owns (pcs s a) = Some i" using a by simp
  then have i: "i < n" and only: "\<And>b. owns (pcs s b) = Some i \<Longrightarrow> b = a" using ok unfolding sys_ok_def by blast+
  have bits: "(bits (spool s))[i := False] ! k \<longleftrightarrow> (\<exists>b. owns (((pcs s)(a := StoreHint i)) b) = Some k)" if "k < n" for k
    using that ok i own only owners_other [of s a k] by (cases "k = i") (auto simp: sys_ok_def owners_goto nth_list_update)
  show ?thesis using ok own i only bits unfolding sys_ok_def goto_simps by (auto split: if_splits)
qed

lemma sys_ok_bounds:
  assumes "sys_ok n s"
  shows "\<forall>i. firstFreeElement (spool s) = Some i \<longrightarrow> i < n"
    and "hints_at (pcs s a) = Some k \<Longrightarrow> k < n" and "length (bits (spool s)) = n"
  using assms unfolding sys_ok_def by blast+

lemma sys_ok_keep:
  assumes "sys_ok n s" and "owns c = owns (pcs s a)" and "hints_at c = None"
  shows "sys_ok n (goto a c (spool s) s)"
  using assms sys_ok_bounds(1) [OF assms(1)] by (intro sys_ok_frame) simp_all

lemma sys_ok_step:
  assumes "pstep s t" and ok: "sys_ok n s"
  shows "sys_ok n t"
  using assms(1)
proof cases
  case (exchange a)
  show ?thesis unfolding exchange(1)
    by (rule sys_ok_frame [OF ok]) (use exchange(2) sys_ok_bounds(1) [OF ok] in \<open>auto split: option.splits\<close>)
next
  case (hint_cas a r)
  have r: "r < n" using hint_cas(2) sys_ok_bounds(2) [OF ok, of a r] by simp
  show ?thesis
  proof (cases "bits (spool s) ! r")
    case True
    then show ?thesis using hint_cas sys_ok_keep [OF ok, of CheckFull a] by simp
  next
    case False
    then show ?thesis using hint_cas sys_ok_take [OF ok, of a r] r by simp
  qed
next
  case (scan_cas a i)
  have i: "i < n" using scan_cas sys_ok_bounds(3) [OF ok] by simp
  show ?thesis
  proof (cases "bits (spool s) ! i")
    case True
    then show ?thesis using scan_cas sys_ok_keep [OF ok, of "Scan (Suc i)" a] by simp
  next
    case False
    then show ?thesis using scan_cas sys_ok_take [OF ok, of a i] i by simp
  qed
next
  case (clear_bit a i)
  then show ?thesis using sys_ok_clear [OF ok] by simp
next
  case (store_hint a i)
  have "i < n" using store_hint(2) sys_ok_bounds(2) [OF ok, of a i] by simp
  then show ?thesis unfolding store_hint(1)
    by (intro sys_ok_frame [OF ok]) (use store_hint(2) in simp_all)
next
  case (count a i)
  show ?thesis unfolding count(1)
    by (rule sys_ok_frame [OF ok]) (use count(2) sys_ok_bounds(1) [OF ok] in simp_all)
next
  case (uncount a)
  show ?thesis unfolding uncount(1)
    by (rule sys_ok_frame [OF ok]) (use uncount(2) sys_ok_bounds(1) [OF ok] in simp_all)
next
  case (notify a b)
  have "sys_ok n (goto b Start (spool s) s)"
    by (rule sys_ok_keep [OF ok]) (use notify in simp_all)
  from sys_ok_keep [OF this, of Released a] notify show ?thesis by (cases "a = b") simp_all
qed (use sys_ok_keep [OF ok] in \<open>auto split: if_splits\<close>)

lemma sys_ok_reach:
  assumes "preach n s" and "0 < n"
  shows "sys_ok n s"
  using assms
proof induction
  case init
  then show ?case by (simp add: sys_ok_def new_pool_def)
next
  case (step s t)
  then show ?case using sys_ok_step by blast
qed

text \<open>C17: mutual exclusion for any number of concurrent borrowers and every interleaving of their
  atomic operations: no two of them ever have the same element, and an element is marked exactly
  while some borrower has it, so an element that was given back can be borrowed again.\<close>

theorem borrow_exclusive:
  assumes "preach n s" and "0 < n"
  shows "(\<forall>a b i. owns (pcs s a) = Some i \<longrightarrow> owns (pcs s b) = Some i \<longrightarrow> a = b) \<and>
     (\<forall>a i. owns (pcs s a) = Some i \<longrightarrow> i < n) \<and>
     (\<forall>i < n. bits (spool s) ! i \<longleftrightarrow> (\<exists>a. owns (pcs s a) = Some i))"
  using sys_ok_reach [OF assms] by (simp add: sys_ok_def)

section \<open>A lost wake-up\<close>

definition two :: "pool \<Rightarrow> pc \<Rightarrow> pc \<Rightarrow> bool system" where
  "two p c d = \<lparr>spool = p, pcs = \<lambda>a. if a then c else d\<rparr>"

lemma two_simps [simp]:
  "spool (two p c d) = p" "pcs (two p c d) True = c" "pcs (two p c d) False = d"
  "goto True c' p' (two p c d) = two p' c' d" "goto False d' p' (two p c d) = two p' c d'"
  by (auto simp: two_def goto_def fun_eq_iff)

definition pool1 :: "nat option \<Rightarrow> u64 \<Rightarrow> bool \<Rightarrow> pool" where
  "pool1 h k b = \<lparr>firstFreeElement = h, borrowedElements = k, bits = [b]\<rparr>"

lemma pool1_simps [simp]:
  "firstFreeElement (pool1 h k b) = h" "borrowedElements (pool1 h k b) = k" "bits (pool1 h k b) = [b]"
  "(pool1 h k b)\<lparr>firstFreeElement := h'\<rparr> = pool1 h' k b" "(pool1 h k b)\<lparr>borrowedElements := k'\<rparr> = pool1 h k' b"
  "(pool1 h k b)\<lparr>bits := [b']\<rparr> = pool1 h k b'"
  by (simp_all add: pool1_def)

lemma preach_next: "preach n s \<Longrightarrow> pstep s t' \<Longrightarrow> t' = t \<Longrightarrow> preach n t"
  by (auto intro: preach.step)

lemma one_holds_one_waits: "preach 1 (two (pool1 None 1 True) Locking (Holding 0))"
proof -
  have "preach 1 (two (pool1 (Some 0) 0 False) Start Start)"
    using preach.init [of 1, where 'a = bool] by (simp add: two_def pool1_def new_pool_def)
  then have "preach 1 (two (pool1 None 0 False) Start (HintCas 0))"
    by (rule preach_next [OF _ exchange [of _ False]]) simp_all
  then have "preach 1 (two (pool1 None 0 True) Start (Counting 0))"
    by (rule preach_next [OF _ hint_cas [of _ False 0]]) simp_all
  then have "preach 1 (two (pool1 None 1 True) Start (Holding 0))"
    by (rule preach_next [OF _ count [of _ False 0]]) simp_all
  then have "preach 1 (two (pool1 None 1 True) CheckFull (Holding 0))"
    by (rule preach_next [OF _ exchange [of _ True]]) simp_all
  then have "preach 1 (two (pool1 None 1 True) Locking (Holding 0))"
    by (rule preach_next [OF _ check_full [of _ True]]) simp_all
  then show ?thesis .
qed

theorem borrow_exclusive_witness:
  "owns (pcs (two (pool1 None 1 True) Locking (Holding 0)) True) \<noteq> Some 0 \<and>
   bits (spool (two (pool1 None 1 True) Locking (Holding 0))) ! 0"
proof -
  note b = borrow_exclusive [OF one_holds_one_waits, simplified]
  have "owns (Holding 0) = Some 0" by simp
  then show ?thesis using b by auto
qed

text \<open>C18: a wake-up can be lost. With a pool of one element and two borrowers there is a run in which
  one waits inside \<open>wait_for\<close> although the element is free and nobody is left to notify: the holder
  released and notified between the other's last look at the pool and its wait. It then sleeps until
  its timeout, two hours by default.\<close>

theorem borrow_lost_wakeup:
  "\<exists>s :: bool system. preach 1 s \<and> pcs s True = Waiting \<and> pcs s False = Released \<and> \<not> bits (spool s) ! 0"
proof -
  have "preach 1 (two (pool1 None 1 True) Locking (Holding 0))" by (rule one_holds_one_waits)
  then have "preach 1 (two (pool1 None 1 True) Locking (ClearBit 0))"
    by (rule preach_next [OF _ release [of _ False 0]]) simp_all
  then have "preach 1 (two (pool1 None 1 False) Locking (StoreHint 0))"
    by (rule preach_next [OF _ clear_bit [of _ False 0]]) simp_all
  then have "preach 1 (two (pool1 (Some 0) 1 False) Locking Uncount)"
    by (rule preach_next [OF _ store_hint [of _ False 0]]) simp_all
  then have "preach 1 (two (pool1 (Some 0) 0 False) Locking Notify)"
    by (rule preach_next [OF _ uncount [of _ False]]) simp_all
  then have "preach 1 (two (pool1 (Some 0) 0 False) Locking Released)"
    by (rule preach_next [OF _ notify_none [of _ False]]) (auto simp: all_bool_eq)
  then have "preach 1 (two (pool1 (Some 0) 0 False) Waiting Released)"
    by (rule preach_next [OF _ wait [of _ True]]) simp_all
  then show ?thesis by (intro exI [of _ "two (pool1 (Some 0) 0 False) Waiting Released"]) simp
qed

end
