(* ===== verification/Config.thy ===== *)
theory Config
  imports Prelude
begin

text \<open>
  The configuration singleton (src/src/utils/CConfig.hpp and CConfig.cpp): a map filled from the
  environment of the process, one \<open>KEY=value\<close> text per entry; the boot function and the TLS set-up that read it.
\<close>

section \<open>State and operations\<close>

type_synonym config_data = "string \<rightharpoonup> string"

definition config_get :: "config_data \<Rightarrow> string \<Rightarrow> string" where
  "config_get data key = (case data key of None \<Rightarrow> [] | Some v \<Rightarrow> v)"

definition config_at :: "config_data \<Rightarrow> string \<Rightarrow> string \<Rightarrow> string" where
  "config_at data key default_ret = (case data key of None \<Rightarrow> default_ret | Some v \<Rightarrow> v)"

definition config_set :: "string \<Rightarrow> string \<Rightarrow> config_data \<Rightarrow> config_data" where
  "config_set key value data = data(key \<mapsto> value)"

definition load_line :: "string \<Rightarrow> config_data \<Rightarrow> config_data" where
  "load_line line data =
     (case find_sub [CHR ''=''] line of
        None \<Rightarrow> data
      | Some pos \<Rightarrow> data(take pos line \<mapsto> drop (pos + 1) line))"

definition load_from_envp :: "string list \<Rightarrow> config_data \<Rightarrow> config_data" where
  "load_from_envp envp data = fold load_line envp data"

text \<open>\<open>mainboot\<close> (src/src/boot.cpp), and the calls \<open>initClient\<close> makes (src/src/SSLUtils/InitClient.hpp).\<close>

definition mainboot :: "string list \<Rightarrow> config_data \<Rightarrow> int \<times> config_data" where
  "mainboot envp data = (0, load_from_envp envp data)"

datatype ssl_call = InitializeNetwork | InitializeSSL | InitializeClient string bool

definition initNetwork :: "ssl_call list" where
  "initNetwork = [InitializeNetwork, InitializeSSL]"

definition initClient :: "bool \<Rightarrow> config_data \<Rightarrow> ssl_call list" where
  "initClient loadDefaultCAs conf =
     (let ca_certificates = config_at conf ''CUSTOM_CA_BUNDLE'' [] in
      initNetwork @ (if ca_certificates \<noteq> [] then [InitializeClient ca_certificates loadDefaultCAs] else []))"

section \<open>Properties\<close>

definition env_line :: "string \<times> string \<Rightarrow> string" where
  "env_line kv = fst kv @ CHR ''='' # snd kv"

lemma find_sub_char: "c \<notin> set a \<Longrightarrow> find_sub [c] (a @ c # b) = Some (length a)"
  by (induction a) (auto simp: starts_with_def)

lemma load_line_env: "CHR ''='' \<notin> set k \<Longrightarrow> load_line (env_line (k, v)) data = data(k \<mapsto> v)"
  by (simp add: load_line_def env_line_def find_sub_char)

text \<open>Loading an environment gives each variable its value, equals signs in the value included;
  of two entries with one name the last one counts, and names that do not occur keep what they had.\<close>

theorem load_from_envp_values:
  assumes "\<forall>kv \<in> set kvs. CHR ''='' \<notin> set (fst kv)"
  shows "load_from_envp (map env_line kvs) data = data ++ map_of (rev kvs)"
  using assms
proof (induction kvs arbitrary: data)
  case Nil
  then show ?case by (simp add: load_from_envp_def)
next
  case (Cons kv kvs)
  then show ?case
    by (cases kv) (simp add: load_from_envp_def load_line_env map_add_upd_left [symmetric] map_of_append map_add_assoc)
qed

theorem load_from_envp_values_witness:
  "load_from_envp (map env_line [(''A'', ''1''), (''B'', ''x=y''), (''A'', ''2'')]) Map.empty =
     Map.empty ++ map_of (rev [(''A'', ''1''), (''B'', ''x=y''), (''A'', ''2'')])"
  by (rule load_from_envp_values) simp

end
