(* ===== verification/Strutils.thy ===== *)
theory Strutils
  imports Json PocoJsonStringify
begin

text \<open>
  Text helpers: the class \<open>Strutils\<close> (src/src/utils/Strutils.hpp) and the message formatter
  \<open>StrFormat::multiRegister\<close> (src/src/utils/StrFormat.hpp). Strings are byte strings and the
  character classes are those of the \<open>C\<close> locale.
\<close>

section \<open>Character mapping\<close>

definition to_upper :: "string \<Rightarrow> string" where
  "to_upper str = map (\<lambda>c. if 97 \<le> byte c \<and> byte c \<le> 122 then char_of (byte c - 32) else c) str"

definition to_lower :: "string \<Rightarrow> string" where
  "to_lower str = map (\<lambda>c. if 65 \<le> byte c \<and> byte c \<le> 90 then char_of (byte c + 32) else c) str"

definition replace_chr :: "string \<Rightarrow> char \<Rightarrow> char \<Rightarrow> string" where
  "replace_chr str chin chout = map (\<lambda>ch. if ch = chin then chout else ch) str"

definition is_alnum :: "char \<Rightarrow> bool" where
  "is_alnum c \<longleftrightarrow> is_digit c \<or> (65 \<le> byte c \<and> byte c \<le> 90) \<or> (97 \<le> byte c \<and> byte c \<le> 122)"

definition getCNPJNumbers :: "string \<Rightarrow> string" where
  "getCNPJNumbers cnpj = filter is_alnum cnpj"

text \<open>The copies into a buffer: \<open>dest\<close> is the buffer's content and \<open>src\<close> the readable bytes behind
  the pointer. \<open>None\<close> where a write or a read leaves them, which is undefined behaviour.\<close>

fun copy_from :: "string \<Rightarrow> string \<Rightarrow> nat \<Rightarrow> nat \<Rightarrow> string option" where
  "copy_from dest src i 0 = Some dest"
| "copy_from dest src i (Suc k) =
     (if i < length dest \<and> i < length src then copy_from (dest[i := src ! i]) src (Suc i) k else None)"

definition terminate_at :: "nat \<Rightarrow> string \<Rightarrow> string option" where
  "terminate_at n dest = (if n < length dest then Some (dest[n := CHR 0x00]) else None)"

definition constexpr_strncpy :: "string \<Rightarrow> string \<Rightarrow> nat \<Rightarrow> string option" where
  "constexpr_strncpy dest src n = Option.bind (copy_from dest src 0 n) (terminate_at n)"

definition constexpr_strncat :: "string \<Rightarrow> nat \<Rightarrow> string \<Rightarrow> nat \<Rightarrow> string option" where
  "constexpr_strncat dest start src n = Option.bind (copy_from dest src start (n - start)) (terminate_at n)"

section \<open>Joining and splitting\<close>

definition join :: "string list \<Rightarrow> string \<Rightarrow> string" where
  "join vec term =
     (let result = foldl (\<lambda>result str. (result @ str) @ term) [] vec in
      if result \<noteq> [] \<and> term \<noteq> [] then take (length result - length term) result else result)"

text \<open>The loop on the text from \<open>current\<close> on.\<close>

function explode_loop :: "string \<Rightarrow> string \<Rightarrow> string list" where
  "explode_loop term rest =
     (case find_sub term rest of
        None \<Rightarrow> [rest]
      | Some sep \<Rightarrow>
          take sep rest #
          (if term \<noteq> [] \<and> sep + length term < length rest
           then explode_loop term (drop (sep + length term) rest) else []))"
  by pat_completeness auto
termination
proof (relation "measure (\<lambda>(term, rest). length rest)", goal_cases)
  case (2 t rest i)
  then have "0 < length t" and "i + length t < length rest" by simp_all
  then show ?case by (simp only: in_measure case_prod_conv length_drop)
qed simp

declare explode_loop.simps [simp del]

definition explode :: "string \<Rightarrow> string \<Rightarrow> string list" where
  "explode strview term =
     (if strview = [] then [] else if term = [] then [strview] else explode_loop term strview)"

text \<open>\<open>split\<close> repeats the loop; it is written over the position in the whole text here.\<close>

function split_from :: "string \<Rightarrow> string \<Rightarrow> nat \<Rightarrow> string list" where
  "split_from strview term current =
     (case find_sub term (drop current strview) of
        None \<Rightarrow> [drop current strview]
      | Some i \<Rightarrow>
          (let sep = current + i in
           take (sep - current) (drop current strview) #
           (if term \<noteq> [] \<and> sep + length term < length strview
            then split_from strview term (sep + length term) else [])))"
  by pat_completeness auto
termination
proof (relation "measure (\<lambda>(s, term, current). length s - current)", goal_cases)
  case (2 s t current i sep)
  then have "0 < length t" and "current + i + length t < length s" and "sep = current + i" by simp_all
  then show ?case by (simp only: in_measure case_prod_conv)
qed simp

declare split_from.simps [simp del]

definition split :: "string \<Rightarrow> string \<Rightarrow> string list" where
  "split strview term =
     (if strview = [] then [] else if term = [] then [strview] else split_from strview term 0)"

definition multi_concat :: "string list \<Rightarrow> string" where
  "multi_concat values = foldl (@) [] values"

section \<open>URL decoding\<close>

text \<open>\<open>arrmap[c]\<close>: the table has the digits and the capital letters A to F; any other character
  is inserted with 0.\<close>

definition url_arrmap :: "char \<Rightarrow> u32" where
  "url_arrmap c =
     (if is_digit c then of_nat (byte c - 48)
      else if 65 \<le> byte c \<and> byte c \<le> 70 then of_nat (byte c - 55)
      else 0)"

record url_state =
  us_result :: string
  us_chrsize :: int
  us_tempchchr :: u32
  us_inchr :: bool

definition url_char :: "u32 \<Rightarrow> char" where
  "url_char w = char_of (unat w mod 256)"

definition url_flush :: "url_state \<Rightarrow> url_state" where
  "url_flush st =
     (if us_chrsize st = 2
      then \<lparr>us_result = us_result st @ [url_char (us_tempchchr st)], us_chrsize = 0, us_tempchchr = 0,
            us_inchr = False\<rparr>
      else st)"

definition url_step :: "char \<Rightarrow> url_state \<Rightarrow> url_state" where
  "url_step c st0 =
     (let st = url_flush st0 in
      if c = CHR ''%'' then st\<lparr>us_inchr := True, us_chrsize := 0, us_tempchchr := 0\<rparr>
      else if us_inchr st then
        (if us_chrsize st = 0
         then st\<lparr>us_tempchchr := push_bit 4 (url_arrmap c), us_chrsize := us_chrsize st + 1\<rparr>
         else st\<lparr>us_tempchchr := or (us_tempchchr st) (url_arrmap c), us_chrsize := us_chrsize st + 1\<rparr>)
      else st\<lparr>us_result := us_result st @ [c]\<rparr>)"

definition url_init :: url_state where
  "url_init = \<lparr>us_result = [], us_chrsize = 0, us_tempchchr = 0, us_inchr = False\<rparr>"

definition url_decode :: "string \<Rightarrow> string" where
  "url_decode str =
     (let st = fold url_step str url_init in
      if us_chrsize st = 2 then us_result st @ [url_char (us_tempchchr st)] else us_result st)"

section \<open>Formatting\<close>

text \<open>\<open>ANum\<close> is an arithmetic argument other than an integer, as the text \<open>std::to_string\<close> gives.\<close>

datatype fmt_arg = ABool bool | AStr string | AExn exn | AJson "jobj option" | AInt int | ANum string

fun argToString :: "poco \<Rightarrow> fmt_arg \<Rightarrow> exn + string" where
  "argToString pc (ABool value) = Inr (if value then ''true'' else ''false'')"
| "argToString pc (AStr istr) = Inr istr"
| "argToString pc (AExn excp) = Inr (exn_what excp)"
| "argToString pc (AJson None) = Inr ''{NULL JSON}''"
| "argToString pc (AJson (Some jsonobj)) = JsonToString pc (JObj jsonobj)"
| "argToString pc (AInt value) = Inr (string_of_int value)"
| "argToString pc (ANum value) = Inr value"

definition getNumericFromString :: "string \<Rightarrow> string" where
  "getNumericFromString str = takeWhile is_digit str"

function fmt_loop :: "string list \<Rightarrow> bool \<Rightarrow> string \<Rightarrow> string \<Rightarrow> exn + string" where
  "fmt_loop argl ignoreNext printbuf [] = Inr printbuf"
| "fmt_loop argl ignoreNext printbuf (curCh # rest) =
     (if curCh = CHR 0x5C then
        (if ignoreNext then fmt_loop argl False (printbuf @ [curCh]) rest
         else fmt_loop argl True printbuf rest)
      else if curCh = CHR ''%'' then
        (if ignoreNext then fmt_loop argl False (printbuf @ [curCh]) rest
         else
           (let numbuf = getNumericFromString rest; rest' = drop (length numbuf) rest in
            if numbuf = [] then fmt_loop argl ignoreNext printbuf rest'
            else sum_bind (stoull numbuf) (\<lambda>argId.
                   if unat argId < length argl
                   then fmt_loop argl ignoreNext (printbuf @ argl ! unat argId) rest'
                   else fmt_loop argl ignoreNext (printbuf @ ''%'' @ numbuf) rest')))
      else fmt_loop argl False (printbuf @ [curCh]) rest)"
  by pat_completeness auto
termination by (relation "measure (\<lambda>(a, i, p, s). length s)") auto

declare fmt_loop.simps [simp del]

fun args_text :: "poco \<Rightarrow> fmt_arg list \<Rightarrow> exn + string list" where
  "args_text pc [] = Inr []"
| "args_text pc (a # as) = sum_bind (argToString pc a) (\<lambda>s. sum_bind (args_text pc as) (\<lambda>ss. Inr (s # ss)))"

definition multiRegister :: "poco \<Rightarrow> string \<Rightarrow> fmt_arg list \<Rightarrow> exn + string" where
  "multiRegister pc format args = sum_bind (args_text pc args) (\<lambda>argl. fmt_loop argl False [] format)"

section \<open>Lemmas on joining and splitting\<close>

lemma foldl_join: "foldl (\<lambda>result str. (result @ str) @ t) acc vec = acc @ concat (map (\<lambda>s. s @ t) vec)"
  by (induction vec arbitrary: acc) simp_all

lemma join_concat: "join vec t =
   (let r = concat (map (\<lambda>s. s @ t) vec) in if r \<noteq> [] \<and> t \<noteq> [] then take (length r - length t) r else r)"
  by (simp only: join_def foldl_join append_Nil)

lemma join_simps [simp]:
  "join [] t = []"
  "join [s] t = s"
  by (simp_all add: join_concat Let_def)

lemma join_Cons: "ss \<noteq> [] \<Longrightarrow> join (s # ss) t = s @ t @ join ss t"
proof -
  assume "ss \<noteq> []"
  then have "length t \<le> length (concat (map (\<lambda>s. s @ t) ss))" by (cases ss) auto
  with \<open>ss \<noteq> []\<close> show ?thesis by (cases ss) (auto simp: join_concat Let_def)
qed

lemma explode_loop_None: "find_sub t rest = None \<Longrightarrow> explode_loop t rest = [rest]"
  by (subst explode_loop.simps) simp

lemma explode_loop_Some:
  assumes "t \<noteq> []" and "find_sub t rest = Some i"
  obtains a b where "rest = a @ t @ b" and "a = take i rest" and "length b < length rest"
    and "explode_loop t rest = a # (if b = [] then [] else explode_loop t b)"
proof -
  from find_sub_Some [OF assms(2)] have "rest = take i rest @ t @ drop (i + length t) rest"
    and "i + length t \<le> length rest" by simp_all
  moreover have "explode_loop t rest = take i rest #
      (if drop (i + length t) rest = [] then [] else explode_loop t (drop (i + length t) rest))"
    using assms by (subst explode_loop.simps) simp
  moreover have "length (drop (i + length t) rest) < length rest"
    using assms(1) \<open>i + length t \<le> length rest\<close> by (cases t) simp_all
  ultimately show ?thesis by (intro that [of "take i rest" "drop (i + length t) rest"]) auto
qed

lemma explode_loop_nonempty [simp]: "explode_loop t rest \<noteq> []"
  by (subst explode_loop.simps) (simp split: option.split)

lemma explode_loop_join:
  assumes "t \<noteq> []"
  shows "join (explode_loop t rest) t = rest \<or> join (explode_loop t rest) t @ t = rest"
proof (induction rest rule: length_induct)
  case (1 rest)
  show ?case
  proof (cases "find_sub t rest")
    case None
    then show ?thesis by (simp add: explode_loop_None)
  next
    case (Some i)
    obtain a b where ab: "rest = a @ t @ b" "length b < length rest"
        "explode_loop t rest = a # (if b = [] then [] else explode_loop t b)"
      using explode_loop_Some [OF assms Some] by blast
    with 1 show ?thesis by (cases "b = []") (auto simp: join_Cons)
  qed
qed

text \<open>Joining the pieces of a split text with the same separator gives the text back, except
  that one separator at its very end is dropped (no empty last piece is produced for it).\<close>

theorem explode_join: "join (explode s t) t = s \<or> join (explode s t) t @ t = s"
  using explode_loop_join [of t s] by (simp add: explode_def)

lemma find_sub_single: "c \<notin> set a \<Longrightarrow> find_sub [c] (a @ c # b) = Some (length a)"
  by (induction a) (auto simp: starts_with_def)

lemma find_sub_single_None: "c \<notin> set a \<Longrightarrow> find_sub [c] a = None"
  by (induction a) (auto simp: starts_with_def)

lemma join_nonempty: "ps \<noteq> [] \<Longrightarrow> last ps \<noteq> [] \<Longrightarrow> join ps t \<noteq> []"
proof (induction ps)
  case (Cons p ps)
  then show ?case by (cases "ps = []") (simp_all add: join_Cons)
qed simp

lemma explode_loop_join_inverse:
  "ps \<noteq> [] \<Longrightarrow> last ps \<noteq> [] \<Longrightarrow> \<forall>p \<in> set ps. c \<notin> set p \<Longrightarrow> explode_loop [c] (join ps [c]) = ps"
proof (induction ps)
  case Nil
  then show ?case by simp
next
  case (Cons p ps)
  show ?case
  proof (cases "ps = []")
    case True
    with Cons.prems show ?thesis by (simp add: explode_loop_None find_sub_single_None)
  next
    case False
    have ih: "explode_loop [c] (join ps [c]) = ps" by (rule Cons.IH) (use False Cons.prems in simp_all)
    have ne: "join ps [c] \<noteq> []" using False Cons.prems by (intro join_nonempty) simp_all
    have "find_sub [c] (p @ c # join ps [c]) = Some (length p)" using Cons.prems by (simp add: find_sub_single)
    with ih ne have "explode_loop [c] (p @ c # join ps [c]) = p # ps"
      by (subst explode_loop.simps) simp
    with False show ?thesis by (simp add: join_Cons)
  qed
qed

text \<open>Splitting at a one character separator undoes joining with it, for pieces that do not
  contain it and a last piece that is not empty.\<close>

theorem join_explode:
  assumes "ps \<noteq> []" and "last ps \<noteq> []" and "\<forall>p \<in> set ps. c \<notin> set p"
  shows "explode (join ps [c]) [c] = ps"
  using explode_loop_join_inverse [OF assms] join_nonempty [OF assms(1,2)] by (simp add: explode_def)

theorem join_explode_witness:
  "explode (join [''a'', [], ''bc''] [CHR '','']) [CHR '',''] = [''a'', [], ''bc'']"
  by (rule join_explode) simp_all

lemma split_from_drop: "current \<le> length s \<Longrightarrow> split_from s t current = explode_loop t (drop current s)"
proof (induction s t current rule: split_from.induct)
  case (1 s t current)
  then show ?case
    by (subst split_from.simps, subst explode_loop.simps) (auto simp: Let_def ac_simps split: option.split)
qed

text \<open>\<open>split\<close> and \<open>explode\<close> are the same function, one written over positions in the whole
  text and the other over the rest of it.\<close>

theorem split_is_explode: "split s t = explode s t"
  by (simp add: split_def explode_def split_from_drop)

section \<open>Lemmas on URL decoding\<close>

text \<open>The percent encoding of RFC 3986 with capital hexadecimal digits, for any choice of the
  characters left as they are.\<close>

definition upper_hex :: "nat \<Rightarrow> char" where
  "upper_hex d = (if d < 10 then char_of (48 + d) else char_of (55 + d))"

definition url_encode_char :: "(char \<Rightarrow> bool) \<Rightarrow> char \<Rightarrow> string" where
  "url_encode_char keep c =
     (if keep c \<and> c \<noteq> CHR ''%'' then [c]
      else [CHR ''%'', upper_hex (byte c div 16), upper_hex (byte c mod 16)])"

definition url_encode :: "(char \<Rightarrow> bool) \<Rightarrow> string \<Rightarrow> string" where
  "url_encode keep s = concat (map (url_encode_char keep) s)"

definition us_text :: "url_state \<Rightarrow> string" where
  "us_text st = us_result (url_flush st)"

lemma url_decode_text: "url_decode s = us_text (fold url_step s url_init)"
  by (simp add: url_decode_def us_text_def url_flush_def Let_def)

lemma byte_char_of: "n < 256 \<Longrightarrow> byte (char_of n) = n"
  by (simp add: byte_def)

lemma upper_hex_props:
  assumes "d < 16"
  shows "url_arrmap (upper_hex d) = of_nat d" and "upper_hex d \<noteq> CHR ''%''"
proof -
  have "byte (upper_hex d) \<noteq> 37" using assms by (auto simp: upper_hex_def byte_char_of)
  moreover have "byte (CHR ''%'') = 37" by (simp add: byte_def)
  ultimately show "upper_hex d \<noteq> CHR ''%''" by metis
  from assms show "url_arrmap (upper_hex d) = of_nat d"
    by (auto simp: url_arrmap_def upper_hex_def is_digit_def byte_char_of)
qed

lemma hex_halves: "or (push_bit 4 (n div 16)) (n mod 16) = (n :: nat)"
proof -
  have "or (push_bit 4 (drop_bit 4 n)) (take_bit 4 n) = n"
    by (rule bit_eqI) (auto simp: bit_or_iff bit_push_bit_iff bit_drop_bit_eq bit_take_bit_iff)
  then show ?thesis by (simp add: drop_bit_eq_div take_bit_eq_mod)
qed

lemma url_hex_char: "url_char (or (push_bit 4 (of_nat (byte c div 16))) (of_nat (byte c mod 16))) = c"
proof -
  have "or (push_bit 4 (byte c div 16)) (byte c mod 16) = byte c"
    by (rule hex_halves)
  then have "or (push_bit 4 (of_nat (byte c div 16))) (of_nat (byte c mod 16)) = (of_nat (byte c) :: u32)"
    by (metis of_nat_or_eq push_bit_of_nat)
  moreover have "of_char c < (256 :: nat)" using byte_bound [of c] by (simp only: byte_def)
  then have "of_char c mod 4294967296 = (of_char c :: nat)" by (intro mod_less) linarith
  ultimately show ?thesis by (simp add: url_char_def unat_of_nat byte_def)
qed

lemma url_step_encoded:
  assumes "us_inchr (url_flush st) = False"
  shows "us_text (fold url_step (url_encode_char keep c) st) = us_text st @ [c] \<and>
     us_inchr (url_flush (fold url_step (url_encode_char keep c) st)) = False"
proof (cases "keep c \<and> c \<noteq> CHR ''%''")
  case True
  with assms show ?thesis
    by (auto simp: url_encode_char_def url_step_def us_text_def Let_def url_flush_def)
next
  case False
  have d: "byte c div 16 < 16" "byte c mod 16 < 16" using byte_bound [of c] by (simp_all add: less_mult_imp_div_less del: byte_bound)
  from False show ?thesis
    using upper_hex_props [OF d(1)] upper_hex_props [OF d(2)]
    by (simp add: url_encode_char_def url_step_def us_text_def Let_def url_flush_def url_hex_char)
qed

lemma url_decode_fold:
  "us_inchr (url_flush st) = False \<Longrightarrow>
     us_text (fold url_step (url_encode keep s) st) = us_text st @ s"
proof (induction s arbitrary: st)
  case Nil
  then show ?case by (simp add: url_encode_def)
next
  case (Cons c s)
  let ?st = "fold url_step (url_encode_char keep c) st"
  have "fold url_step (url_encode keep (c # s)) st = fold url_step (url_encode keep s) ?st"
    by (simp add: url_encode_def)
  with url_step_encoded [OF Cons.prems, of keep c] Cons.IH [of ?st] show ?case by simp
qed

text \<open>C13: \<open>url_decode\<close> undoes percent encoding with capital hexadecimal digits, whichever characters
  the encoder leaves unencoded, for every byte string.\<close>

theorem url_decode_encode: "url_decode (url_encode keep s) = s"
  using url_decode_fold [of url_init keep s]
  by (simp add: url_decode_text url_init_def us_text_def url_flush_def)

text \<open>A small hexadecimal digit is read as 0, so an encoder that writes small digits is not
  understood: \<open>%2f\<close> decodes to a space.\<close>

lemma url_decode_small_digit: "url_decode ''%2f'' = '' '' \<and> url_decode ''%2F'' = ''/''"
  by code_simp

section \<open>Lemmas on formatting\<close>

definition fmt_escape :: "string \<Rightarrow> string" where
  "fmt_escape s = concat (map (\<lambda>c. if c = CHR 0x5C \<or> c = CHR ''%'' then [CHR 0x5C, c] else [c]) s)"

lemma fmt_loop_escape: "fmt_loop argl False buf (fmt_escape s @ rest) = fmt_loop argl False (buf @ s) rest"
  by (induction s arbitrary: buf) (auto simp: fmt_escape_def fmt_loop.simps)

lemma takeWhile_digits_append:
  assumes "\<forall>c \<in> set ds. is_digit c" and "rest = [] \<or> \<not> is_digit (hd rest)"
  shows "takeWhile is_digit (ds @ rest) = ds"
  using assms by (cases rest) (auto simp: takeWhile_append)

lemma stoull_string_of_nat:
  assumes "n < 2 ^ 64"
  shows "stoull (string_of_nat n) = Inr (of_nat n)"
proof -
  have "string_of_nat n = string_of_u64 (of_nat n)"
    using assms by (simp add: string_of_u64_def unat_of_nat)
  then show ?thesis by simp
qed

text \<open>C12: a text with its backslashes and percent signs escaped is printed as it is, and \<open>%k\<close> prints
  the argument number \<open>k\<close> (or itself, when there are not that many) wherever it is not followed by
  another digit.\<close>

theorem multiRegister_positional:
  assumes "args_text pc args = Inr argl" and "k < 2 ^ 64"
    and "b = [] \<or> \<not> is_digit (hd b)"
  shows "multiRegister pc (fmt_escape a @ ''%'' @ string_of_nat k @ fmt_escape b) args =
     Inr (a @ (if k < length argl then argl ! k else ''%'' @ string_of_nat k) @ b)"
proof -
  have hd: "fmt_escape b = [] \<or> \<not> is_digit (hd (fmt_escape b))"
    using assms(3) by (cases b) (auto simp: fmt_escape_def is_digit_def byte_def)
  have num: "getNumericFromString (string_of_nat k @ fmt_escape b) = string_of_nat k"
    unfolding getNumericFromString_def
    by (rule takeWhile_digits_append [OF string_of_nat_digits hd])
  have unat: "unat (of_nat k :: u64) = k" using assms(2) by (simp add: unat_of_nat)
  have fin: "fmt_loop argl False buf (fmt_escape b) = Inr (buf @ b)" for buf
    using fmt_loop_escape [of argl buf b "[]"] by (simp add: fmt_loop.simps)
  have "fmt_loop argl False [] (fmt_escape a @ ''%'' @ string_of_nat k @ fmt_escape b) =
      fmt_loop argl False a (''%'' @ string_of_nat k @ fmt_escape b)"
    using fmt_loop_escape [of argl "[]" a] by simp
  also have "\<dots> = Inr (a @ (if k < length argl then argl ! k else ''%'' @ string_of_nat k) @ b)"
    using num stoull_string_of_nat [OF assms(2)] unat fin by (simp add: fmt_loop.simps Let_def)
  finally show ?thesis using assms(1) by (simp add: multiRegister_def)
qed

theorem multiRegister_positional_witness:
  "multiRegister hex_poco (fmt_escape ''100% '' @ ''%'' @ string_of_nat 1 @ fmt_escape ''!'') [ABool True, AInt 5] =
     Inr (''100% '' @ (if 1 < length [''true'', ''5''] then [''true'', ''5''] ! 1 else ''%'' @ string_of_nat 1) @ ''!'')"
proof (rule multiRegister_positional)
  show "args_text hex_poco [ABool True, AInt 5] = Inr [''true'', ''5'']" by code_simp
qed (simp_all add: is_digit_def byte_def)

end
