(* ===== verification/Lexing.thy ===== *)
theory Lexing
  imports Prelude
begin

text \<open>
  The texts the program hands to other interpreters, the Lua script of the Redis queue and the SQL of
  the migrations, are read by the rules of those languages: here their common lexer. It goes through the text
  byte by byte, so that a text built from pieces is read piece by piece. What it does not know it gives up on.
\<close>

datatype token = TWord string | TQuoted string | TSym string

text \<open>What differs between the languages: the symbols of two characters, whether \<open>--\<close> starts a
  comment, whether a doubled quote stands for a quote, and the character an escape stands for.\<close>

record language =
  lg_pairs :: "string list"
  lg_comments :: bool
  lg_doubled :: bool
  lg_escape :: "char \<Rightarrow> char option"

datatype lex_mode =
  Ready | InWord string | InSym char | InQuote string | InEscape string | AfterQuote string | InComment | Broken

definition word_char :: "char \<Rightarrow> bool" where
  "word_char c \<longleftrightarrow> is_digit c \<or> 65 \<le> byte c \<and> byte c \<le> 90 \<or> 97 \<le> byte c \<and> byte c \<le> 122 \<or> byte c = 95"

fun lex_ready :: "char \<Rightarrow> token list \<Rightarrow> token list \<times> lex_mode" where
  "lex_ready c ts =
     (if is_space c then (ts, Ready) else if word_char c then (ts, InWord [c])
      else if c = CHR 0x27 then (ts, InQuote []) else (ts, InSym c))"

fun lex_step :: "language \<Rightarrow> char \<Rightarrow> token list \<times> lex_mode \<Rightarrow> token list \<times> lex_mode" where
  "lex_step lg c (ts, Ready) = lex_ready c ts"
| "lex_step lg c (ts, InWord w) = (if word_char c then (ts, InWord (w @ [c])) else lex_ready c (ts @ [TWord w]))"
| "lex_step lg c (ts, InSym d) =
     (if lg_comments lg \<and> d = CHR ''-'' \<and> c = CHR ''-'' then (ts, InComment)
      else if [d, c] \<in> set (lg_pairs lg) then (ts @ [TSym [d, c]], Ready)
      else lex_ready c (ts @ [TSym [d]]))"
| "lex_step lg c (ts, InQuote s) =
     (if c = CHR 0x27 then (ts, AfterQuote s) else if c = CHR 0x5C then (ts, InEscape s) else (ts, InQuote (s @ [c])))"
| "lex_step lg c (ts, InEscape s) = (case lg_escape lg c of Some d \<Rightarrow> (ts, InQuote (s @ [d])) | None \<Rightarrow> (ts, Broken))"
| "lex_step lg c (ts, AfterQuote s) =
     (if lg_doubled lg \<and> c = CHR 0x27 then (ts, InQuote (s @ [c])) else lex_ready c (ts @ [TQuoted s]))"
| "lex_step lg c (ts, InComment) = (ts, if c = CHR 0x0A then Ready else InComment)"
| "lex_step lg c (ts, Broken) = (ts, Broken)"

fun lex_end :: "token list \<times> lex_mode \<Rightarrow> token list option" where
  "lex_end (ts, Ready) = Some ts"
| "lex_end (ts, InComment) = Some ts"
| "lex_end (ts, InWord w) = Some (ts @ [TWord w])"
| "lex_end (ts, InSym d) = Some (ts @ [TSym [d]])"
| "lex_end (ts, AfterQuote s) = Some (ts @ [TQuoted s])"
| "lex_end (ts, m) = None"

definition lex :: "language \<Rightarrow> string \<Rightarrow> token list option" where
  "lex lg t = lex_end (fold (lex_step lg) t ([], Ready))"

text \<open>The number a word of digits stands for.\<close>

definition word_number :: "string \<Rightarrow> nat option" where
  "word_number w = (if w \<noteq> [] \<and> list_all is_digit w then Some (nat_of_digits w) else None)"

section \<open>The languages\<close>

definition lua_language :: language where
  "lua_language = \<lparr>lg_pairs = [''=='', ''~='', ''<='', ''>='', ''..''], lg_comments = True, lg_doubled = False,
     lg_escape = (\<lambda>c. None)\<rparr>"

definition unesc_char :: "char \<Rightarrow> char" where
  "unesc_char c = (if c = CHR ''0'' then CHR 0x00 else if c = CHR ''n'' then CHR 0x0A
     else if c = CHR ''r'' then CHR 0x0D else if c = CHR ''Z'' then CHR 0x1A else c)"

definition sql_language :: language where
  "sql_language = \<lparr>lg_pairs = [''<='', ''>='', ''<>'', ''!=''], lg_comments = False, lg_doubled = True,
     lg_escape = (\<lambda>c. Some (unesc_char c))\<rparr>"

text \<open>The escapes of \<open>mysql_real_escape_string\<close>.\<close>

definition esc_char :: "char \<Rightarrow> string" where
  "esc_char c =
     (if c = CHR 0x00 then CHR 0x5C # ''0'' else if c = CHR 0x0A then CHR 0x5C # ''n''
      else if c = CHR 0x0D then CHR 0x5C # ''r'' else if c = CHR 0x1A then CHR 0x5C # ''Z''
      else if c = CHR 0x5C \<or> c = CHR 0x27 \<or> c = CHR 0x22 then [CHR 0x5C, c] else [c])"

definition mysql_escape :: "string \<Rightarrow> string" where
  "mysql_escape s = concat (map esc_char s)"

text \<open>Whatever bytes a text has, escaped it stays inside its quotes and stands for itself.\<close>

lemma fold_mysql_escape:
  "fold (lex_step sql_language) (mysql_escape s) (ts, InQuote acc) = (ts, InQuote (acc @ s))"
proof (induction s arbitrary: acc)
  case (Cons c s)
  have "fold (lex_step sql_language) (esc_char c) (ts, InQuote acc) = (ts, InQuote (acc @ [c]))"
    by (simp add: esc_char_def sql_language_def unesc_char_def)
  with Cons show ?case by (simp add: mysql_escape_def)
qed (simp add: mysql_escape_def)

end
