(* ===== verification/LuaScript.thy ===== *)
theory LuaScript
  imports Lexing
begin

text \<open>
  Lua as far as the scripts given to Redis need it: a parser from the text of a script to its statements
  and an interpreter of them, which calls Redis through \<open>redis.call\<close>. A construct, a type error or
  a command outside of it is \<open>None\<close>: nothing is said of such a script.
\<close>

section \<open>Syntax\<close>

datatype lua_expr =
  ENil | ENum int | EStr string | EVar string | EIndex lua_expr lua_expr | ELen lua_expr
| ERel string lua_expr lua_expr | EAnd lua_expr lua_expr | ECall "lua_expr list"

datatype lua_stmt = SLocal string lua_expr | SIf lua_expr "lua_stmt list" | SCall lua_expr | SReturn lua_expr

definition lua_relations :: "string list" where
  "lua_relations = [''=='', ''~='', ''<'', ''>'', ''<='', ''>='']"

definition lua_keywords :: "string list" where
  "lua_keywords = [''and'', ''break'', ''do'', ''else'', ''elseif'', ''end'', ''false'', ''for'', ''function'', ''if'', ''in'',
     ''local'', ''nil'', ''not'', ''or'', ''repeat'', ''return'', ''then'', ''true'', ''until'', ''while'']"

definition lua_name :: "string \<Rightarrow> bool" where
  "lua_name w \<longleftrightarrow> w \<notin> set lua_keywords \<and> (case w of c # _ \<Rightarrow> \<not> is_digit c | [] \<Rightarrow> False)"

text \<open>
  A parser takes tokens and leaves the rest. Its first argument, at least the number of tokens, bounds the
  depth. An operator without one of its operands, or a call of anything but \<open>redis.call\<close>, is refused.
\<close>

type_synonym 'a parser = "token list \<Rightarrow> ('a \<times> token list) option"

definition p_then :: "'a parser \<Rightarrow> ('a \<Rightarrow> 'b parser) \<Rightarrow> 'b parser" where
  "p_then p f ts = (case p ts of None \<Rightarrow> None | Some (x, r) \<Rightarrow> f x r)"

definition p_return :: "'a \<Rightarrow> 'a parser" where
  "p_return x ts = Some (x, ts)"

definition p_next :: "token list \<Rightarrow> 'a parser \<Rightarrow> 'a parser" where
  "p_next us p ts = (if take (length us) ts = us then p (drop (length us) ts) else None)"

definition p_on :: "token \<Rightarrow> 'a parser \<Rightarrow> 'a parser \<Rightarrow> 'a parser" where
  "p_on t p q ts = (case ts of u # r \<Rightarrow> if u = t then p r else q ts | [] \<Rightarrow> q ts)"

primrec p_index :: "nat \<Rightarrow> lua_expr parser \<Rightarrow> lua_expr \<Rightarrow> lua_expr parser" where
  "p_index 0 p e ts = None"
| "p_index (Suc n) p e ts =
     p_on (TSym ''['') (p_then p (\<lambda>i. p_next [TSym '']''] (p_index n p (EIndex e i)))) (p_return e) ts"

primrec p_args :: "nat \<Rightarrow> lua_expr parser \<Rightarrow> lua_expr list parser" where
  "p_args 0 p ts = None"
| "p_args (Suc n) p ts =
     p_then p (\<lambda>e. p_on (TSym '','') (p_then (p_args n p) (\<lambda>es. p_return (e # es))) (p_next [TSym '')''] (p_return [e]))) ts"

definition p_primary :: "nat \<Rightarrow> lua_expr parser \<Rightarrow> lua_expr parser" where
  "p_primary n p ts =
     (case ts of
        TQuoted s # r \<Rightarrow> Some (EStr s, r)
      | TWord w # r \<Rightarrow>
          if w = ''nil'' then Some (ENil, r)
          else if w = ''redis'' then
            p_next [TSym ''.'', TWord ''call'', TSym ''(''] (p_then (p_args n p) (\<lambda>es. p_index n p (ECall es))) r
          else (case word_number w of
                  Some k \<Rightarrow> Some (ENum (int k), r)
                | None \<Rightarrow> if lua_name w then p_index n p (EVar w) r else None)
      | _ \<Rightarrow> p_next [TSym ''(''] (p_then p (\<lambda>e. p_next [TSym '')''] (p_index n p e))) ts)"

definition p_unary :: "nat \<Rightarrow> lua_expr parser \<Rightarrow> lua_expr parser" where
  "p_unary n p ts = p_on (TSym ''#'') (p_then (p_primary n p) (\<lambda>e. p_return (ELen e))) (p_primary n p) ts"

definition p_relation :: "nat \<Rightarrow> lua_expr parser \<Rightarrow> lua_expr parser" where
  "p_relation n p ts = p_then (p_unary n p) (\<lambda>e ts'.
     case ts' of
       TSym q # r \<Rightarrow> if q \<in> set lua_relations then p_then (p_unary n p) (\<lambda>e'. p_return (ERel q e e')) r else Some (e, ts')
     | _ \<Rightarrow> Some (e, ts')) ts"

primrec p_expr :: "nat \<Rightarrow> lua_expr parser" where
  "p_expr 0 ts = None"
| "p_expr (Suc n) ts =
     p_then (p_relation n (p_expr n)) (\<lambda>e.
       p_on (TWord ''and'') (p_then (p_expr n) (\<lambda>e'. p_return (EAnd e e'))) (p_return e)) ts"

text \<open>A block ends at \<open>end\<close> or with the text; \<open>return\<close> is its last statement.\<close>

definition block_ends :: "token list \<Rightarrow> bool" where
  "block_ends ts \<longleftrightarrow> ts = [] \<or> hd ts = TWord ''end''"

definition p_local :: "nat \<Rightarrow> lua_stmt parser" where
  "p_local n ts =
     (case ts of
        TWord v # r \<Rightarrow> if lua_name v then p_next [TSym ''=''] (p_then (p_expr n) (\<lambda>e. p_return (SLocal v e))) r else None
      | _ \<Rightarrow> None)"

definition p_call :: "nat \<Rightarrow> lua_stmt parser" where
  "p_call n ts = p_then (p_expr n) (\<lambda>e r. case e of ECall es \<Rightarrow> Some (SCall e, r) | _ \<Rightarrow> None) ts"

definition p_more :: "lua_stmt list parser \<Rightarrow> lua_stmt \<Rightarrow> lua_stmt list parser" where
  "p_more p s ts = p_then p (\<lambda>b. p_return (s # b)) ts"

primrec p_block :: "nat \<Rightarrow> lua_stmt list parser" where
  "p_block 0 ts = None"
| "p_block (Suc n) ts =
     (if block_ends ts then Some ([], ts)
     else p_on (TWord ''local'') (p_then (p_local n) (p_more (p_block n)))
       (p_on (TWord ''if'') (p_then (p_expr n) (\<lambda>c. p_next [TWord ''then''] (p_then (p_block n) (\<lambda>b.
          p_next [TWord ''end''] (p_more (p_block n) (SIf c b))))))
       (p_on (TWord ''return'') (p_then (p_expr n) (\<lambda>e r. if block_ends r then Some ([SReturn e], r) else None))
       (p_then (p_call n) (p_more (p_block n))))) ts)"

definition lua_parse :: "string \<Rightarrow> lua_stmt list option" where
  "lua_parse t =
     (case lex lua_language t of
        None \<Rightarrow> None
      | Some ts \<Rightarrow> (case p_block (Suc (length ts)) ts of Some (b, r) \<Rightarrow> if r = [] then Some b else None | None \<Rightarrow> None))"

section \<open>Meaning\<close>

datatype lua_val = VNil | VBool bool | VNum int | VStr string | VTab "lua_val list"

definition truthy :: "lua_val \<Rightarrow> bool" where
  "truthy v \<longleftrightarrow> v \<noteq> VNil \<and> v \<noteq> VBool False"

text \<open>Values of different types are not equal; two tables are compared by identity, which is left out.\<close>

fun lua_equal :: "lua_val \<Rightarrow> lua_val \<Rightarrow> bool option" where
  "lua_equal (VTab xs) (VTab ys) = None"
| "lua_equal v w = Some (v = w)"

definition lua_rel :: "string \<Rightarrow> lua_val \<Rightarrow> lua_val \<Rightarrow> lua_val option" where
  "lua_rel q v w =
     (if q = ''=='' then map_option VBool (lua_equal v w)
      else if q = ''~='' then map_option (\<lambda>b. VBool (\<not> b)) (lua_equal v w)
      else case (v, w) of
        (VNum a, VNum b) \<Rightarrow>
          Some (VBool (if q = ''<'' then a < b else if q = ''>'' then a > b else if q = ''<='' then a \<le> b else a \<ge> b))
      | _ \<Rightarrow> None)"

fun lua_length :: "lua_val \<Rightarrow> lua_val option" where
  "lua_length (VTab xs) = Some (VNum (int (length xs)))"
| "lua_length (VStr s) = Some (VNum (int (length s)))"
| "lua_length v = None"

fun lua_index :: "lua_val \<Rightarrow> lua_val \<Rightarrow> lua_val option" where
  "lua_index (VTab xs) (VNum i) = Some (if 1 \<le> i \<and> i \<le> int (length xs) then xs ! nat (i - 1) else VNil)"
| "lua_index (VTab xs) (VStr s) = Some VNil"
| "lua_index v w = None"

text \<open>The arguments of a command are strings or numbers.\<close>

fun lua_arg :: "lua_val \<Rightarrow> string option" where
  "lua_arg (VStr s) = Some s"
| "lua_arg (VNum n) = Some (string_of_int n)"
| "lua_arg v = None"

fun lua_args :: "lua_val list \<Rightarrow> string list option" where
  "lua_args [] = Some []"
| "lua_args (v # vs) = (case lua_arg v of Some a \<Rightarrow> map_option ((#) a) (lua_args vs) | None \<Rightarrow> None)"

type_synonym 's redis_call = "string list \<Rightarrow> 's \<Rightarrow> (lua_val \<times> 's) option"

fun lua_eval :: "'s redis_call \<Rightarrow> (string \<rightharpoonup> lua_val) \<Rightarrow> lua_expr \<Rightarrow> 's \<Rightarrow> (lua_val \<times> 's) option"
  and lua_evals :: "'s redis_call \<Rightarrow> (string \<rightharpoonup> lua_val) \<Rightarrow> lua_expr list \<Rightarrow> 's \<Rightarrow> (lua_val list \<times> 's) option" where
  "lua_eval call env ENil s = Some (VNil, s)"
| "lua_eval call env (ENum n) s = Some (VNum n, s)"
| "lua_eval call env (EStr t) s = Some (VStr t, s)"
| "lua_eval call env (EVar v) s = map_option (\<lambda>x. (x, s)) (env v)"
| "lua_eval call env (EIndex e i) s =
     (case lua_eval call env e s of
        None \<Rightarrow> None
      | Some (v, s1) \<Rightarrow> (case lua_eval call env i s1 of
          None \<Rightarrow> None
        | Some (w, s2) \<Rightarrow> map_option (\<lambda>x. (x, s2)) (lua_index v w)))"
| "lua_eval call env (ELen e) s =
     (case lua_eval call env e s of None \<Rightarrow> None | Some (v, s1) \<Rightarrow> map_option (\<lambda>x. (x, s1)) (lua_length v))"
| "lua_eval call env (ERel q a b) s =
     (case lua_eval call env a s of
        None \<Rightarrow> None
      | Some (v, s1) \<Rightarrow> (case lua_eval call env b s1 of
          None \<Rightarrow> None
        | Some (w, s2) \<Rightarrow> map_option (\<lambda>x. (x, s2)) (lua_rel q v w)))"
| "lua_eval call env (EAnd a b) s =
     (case lua_eval call env a s of
        None \<Rightarrow> None
      | Some (v, s1) \<Rightarrow> if truthy v then lua_eval call env b s1 else Some (v, s1))"
| "lua_eval call env (ECall es) s =
     (case lua_evals call env es s of
        None \<Rightarrow> None
      | Some (vs, s1) \<Rightarrow> (case lua_args vs of None \<Rightarrow> None | Some as \<Rightarrow> call as s1))"
| "lua_evals call env [] s = Some ([], s)"
| "lua_evals call env (e # es) s =
     (case lua_eval call env e s of
        None \<Rightarrow> None
      | Some (v, s1) \<Rightarrow> (case lua_evals call env es s1 of None \<Rightarrow> None | Some (vs, s2) \<Rightarrow> Some (v # vs, s2)))"

text \<open>A block gives what it returned, if it did, and its last state; the locals of an inner block end with it.\<close>

fun lua_stmt_run :: "'s redis_call \<Rightarrow> (string \<rightharpoonup> lua_val) \<Rightarrow> lua_stmt \<Rightarrow> 's \<Rightarrow> (lua_val option \<times> (string \<rightharpoonup> lua_val) \<times> 's) option"
  and lua_block :: "'s redis_call \<Rightarrow> (string \<rightharpoonup> lua_val) \<Rightarrow> lua_stmt list \<Rightarrow> 's \<Rightarrow> (lua_val option \<times> 's) option" where
  "lua_stmt_run call env (SLocal v e) s =
     (case lua_eval call env e s of None \<Rightarrow> None | Some (x, s1) \<Rightarrow> Some (None, env(v \<mapsto> x), s1))"
| "lua_stmt_run call env (SCall e) s =
     (case lua_eval call env e s of None \<Rightarrow> None | Some (x, s1) \<Rightarrow> Some (None, env, s1))"
| "lua_stmt_run call env (SReturn e) s =
     (case lua_eval call env e s of None \<Rightarrow> None | Some (x, s1) \<Rightarrow> Some (Some x, env, s1))"
| "lua_stmt_run call env (SIf c b) s =
     (case lua_eval call env c s of
        None \<Rightarrow> None
      | Some (x, s1) \<Rightarrow>
          if truthy x then map_option (\<lambda>(r, s2). (r, env, s2)) (lua_block call env b s1) else Some (None, env, s1))"
| "lua_block call env [] s = Some (None, s)"
| "lua_block call env (t # ts) s =
     (case lua_stmt_run call env t s of
        None \<Rightarrow> None
      | Some (Some x, env', s1) \<Rightarrow> Some (Some x, s1)
      | Some (None, env', s1) \<Rightarrow> lua_block call env' ts s1)"

text \<open>\<open>EVAL\<close>: the script sees the keys and the arguments it is given as the tables \<open>KEYS\<close> and \<open>ARGV\<close>.\<close>

definition run_script :: "'s redis_call \<Rightarrow> string \<Rightarrow> string list \<Rightarrow> string list \<Rightarrow> 's \<Rightarrow> (lua_val \<times> 's) option" where
  "run_script call text keys args s =
     (case lua_parse text of
        None \<Rightarrow> None
      | Some b \<Rightarrow>
          (case lua_block call [''KEYS'' \<mapsto> VTab (map VStr keys), ''ARGV'' \<mapsto> VTab (map VStr args)] b s of
             Some (Some v, s') \<Rightarrow> Some (v, s')
           | Some (None, s') \<Rightarrow> Some (VNil, s')
           | None \<Rightarrow> None))"

fun tab_strings :: "lua_val list \<Rightarrow> string list option" where
  "tab_strings [] = Some []"
| "tab_strings (VStr s # vs) = map_option ((#) s) (tab_strings vs)"
| "tab_strings (v # vs) = None"

lemma tab_strings_map [simp]: "tab_strings (map VStr xs) = Some xs"
  by (induction xs) simp_all

end
