(* ===== verification/Redis.thy ===== *)
theory Redis
  imports BorrowPool Config GenericQueue Strutils LuaScript
begin

text \<open>
  The Redis service with its connection pool (src/src/utils/RedisService.hpp and .cpp), the queue
  over it (src/src/queues/RedisQueue.hpp and .cpp) and the cache helper (src/src/CacheUtils/Cache.cpp).
  Redis and Poco's client are the record \<open>redis_client\<close>: one client per position of the pool, a
  command, and the reply converted to the type the code asks for. Operations run with the pool
  to themselves; a call that finds no free client waits for its timeout.
\<close>

section \<open>The client\<close>

text \<open>The commands as the code builds them: one of Poco's builders or a command by name, and the
  arguments added with \<open><<\<close>.\<close>

datatype command_base =
  Custom string | RPush string string | BLPop "string list" int | SetOverwrite string string
| GetKey string | HGet string string | HGetAll string | HDel string "string list" | Del "string list"

type_synonym command = "command_base \<times> string list"

record 'r redis_client =
  rc_isConnected :: "nat \<Rightarrow> 'r \<Rightarrow> bool"
  rc_connect :: "nat \<Rightarrow> string \<Rightarrow> int \<Rightarrow> ('r, unit) eff"
  rc_int :: "nat \<Rightarrow> command \<Rightarrow> ('r, int) eff"
  rc_str :: "nat \<Rightarrow> command \<Rightarrow> ('r, string) eff"
  rc_bulk :: "nat \<Rightarrow> command \<Rightarrow> ('r, string option) eff"
  rc_array :: "nat \<Rightarrow> command \<Rightarrow> ('r, string option option list option) eff"

text \<open>An array reply is null or a list; an element is \<open>None\<close> when it is not a bulk string, else the
  bulk string, which may be null. \<open>get<BulkString>\<close> of another type is a bad cast.\<close>

definition elem_bulk :: "string option option list \<Rightarrow> nat \<Rightarrow> exn + string option" where
  "elem_bulk xs i =
     (if i < length xs then (case xs ! i of None \<Rightarrow> Inl (StdExn Bad_cast ''std::bad_cast'') | Some b \<Rightarrow> Inr b)
      else Inl (StdExn Out_of_range ''vector::_M_range_check''))"

text \<open>\<open>value()\<close> of a null \<open>Nullable\<close> throws.\<close>

definition null_value :: exn where
  "null_value = StdExn (Poco_exception ''Null value'') ''Null value''"

definition nullable_value :: "string option \<Rightarrow> exn + string" where
  "nullable_value b = (case b of None \<Rightarrow> Inl null_value | Some s \<Rightarrow> Inr s)"

section \<open>The service\<close>

record 'r service =
  sv_pool :: pool
  replicaList :: "(string \<times> int) list"
  sv_password :: string
  sv_redis :: 'r

definition parse_port :: "string \<Rightarrow> int" where
  "parse_port s = (case stoi s of Inr n \<Rightarrow> n | Inl e \<Rightarrow> 6379)"

definition new_service :: "config_data \<Rightarrow> nat \<Rightarrow> string \<Rightarrow> int \<Rightarrow> string \<Rightarrow> 'r \<Rightarrow> 'r service" where
  "new_service config poolsize HostAddr port pwd r =
     (let host = (if HostAddr = [] then config_at config ''REDIS_HOST'' ''127.0.0.1'' else HostAddr);
          port' = (if port = 0 then parse_port (config_at config ''REDIS_PORT'' ''6379'') else port);
          pwd' = (if pwd = [] then config_at config ''REDIS_PASSWORD'' [] else pwd)
      in \<lparr>sv_pool = new_pool poolsize, replicaList = [(host, port')], sv_password = pwd', sv_redis = r\<rparr>)"

definition new_service_replicas :: "nat \<Rightarrow> (string \<times> int) list \<Rightarrow> string \<Rightarrow> 'r \<Rightarrow> 'r service" where
  "new_service_replicas poolsize replicas pwd r =
     \<lparr>sv_pool = new_pool poolsize, replicaList = replicas, sv_password = pwd, sv_redis = r\<rparr>"

definition set_credentials :: "string \<Rightarrow> int \<Rightarrow> string \<Rightarrow> 'r service \<Rightarrow> 'r service" where
  "set_credentials HostAddr port pwd s =
     s\<lparr>replicaList := (case replicaList s of [] \<Rightarrow> [(HostAddr, port)] | r # rs \<Rightarrow> (HostAddr, port) # rs),
       sv_password := pwd\<rparr>"

definition add_host_replica :: "string \<Rightarrow> int \<Rightarrow> 'r service \<Rightarrow> 'r service" where
  "add_host_replica HostAddr port s = s\<lparr>replicaList := replicaList s @ [(HostAddr, port)]\<rparr>"

text \<open>\<open>connect\<close>. An empty \<open>replicaList\<close> would be a division by zero; the constructors and
  \<open>set_credentials\<close> leave it with an entry unless an empty list of replicas is passed in.\<close>

definition try_connect :: "'r redis_client \<Rightarrow> nat \<Rightarrow> string \<times> int \<Rightarrow> string \<Rightarrow> ('r, unit) eff" where
  "try_connect rc inst choosenHost password r =
     (case rc_connect rc inst (fst choosenHost) (snd choosenHost) r of
        (Inl e, r1) \<Rightarrow> (Inl e, r1)
      | (Inr u, r1) \<Rightarrow>
          if password \<noteq> [] then
            (case rc_str rc inst (Custom ''AUTH'', [password]) r1 of
               (Inl e, r2) \<Rightarrow> (Inl e, r2)
             | (Inr reply, r2) \<Rightarrow>
                 if reply \<noteq> ''OK'' then (Inl (StdExn Invalid_argument ''Senha incorreta para o REDIS''), r2)
                 else (Inr (), r2))
          else (Inr (), r1))"

definition connect :: "'r redis_client \<Rightarrow> nat \<Rightarrow> 'r service \<Rightarrow> (exn + bool) \<times> 'r service" where
  "connect rc inst s =
     (if rc_isConnected rc inst (sv_redis s) then (Inr True, s)
      else
        (let choosenHost = replicaList s ! (inst mod length (replicaList s)) in
         case try_connect rc inst choosenHost (sv_password s) (sv_redis s) of
           (Inl e, r1) \<Rightarrow> (if is_std e then Inr False else Inl e, s\<lparr>sv_redis := r1\<rparr>)
         | (Inr u, r1) \<Rightarrow> (Inr (rc_isConnected rc inst r1), s\<lparr>sv_redis := r1\<rparr>)))"

definition borrow_alone :: "pool \<Rightarrow> borrowed_object \<times> pool" where
  "borrow_alone p = (case borrow [(snd (getValidPos p), True)] p of Some r \<Rightarrow> r | None \<Rightarrow> (no_object, p))"

definition return_to :: "borrowed_object \<Rightarrow> 'r service \<Rightarrow> 'r service" where
  "return_to b s = s\<lparr>sv_pool := destroy b (sv_pool s)\<rparr>"

text \<open>\<open>get_connection\<close> borrows a client and connects it; what \<open>connect\<close> returns is not looked at.\<close>

definition get_connection :: "'r redis_client \<Rightarrow> 'r service \<Rightarrow> (exn + borrowed_object) \<times> 'r service" where
  "get_connection rc s =
     (case borrow_alone (sv_pool s) of
        (b, p) \<Rightarrow>
          let s1 = s\<lparr>sv_pool := p\<rparr> in
          if \<not> bobject b then (Inr b, s1)
          else (case connect rc (the (bpos b)) s1 of
                  (Inl e, s2) \<Rightarrow> (Inl e, return_to b s2)
                | (Inr ok, s2) \<Rightarrow> (Inr b, s2)))"

text \<open>The shape of every member function: a borrowed connection, a default without one, the call on
  the client, and the connection given back when it goes out of scope, on a throw as well.\<close>

definition with_connection :: "'r redis_client \<Rightarrow> (exn + 'a) \<Rightarrow> (nat \<Rightarrow> ('r, 'a) eff) \<Rightarrow> ('r service, 'a) eff" where
  "with_connection rc dflt f s =
     (case get_connection rc s of
        (Inl e, s1) \<Rightarrow> (Inl e, s1)
      | (Inr b, s1) \<Rightarrow>
          if \<not> bobject b then (dflt, return_to b s1)
          else (case f (the (bpos b)) (sv_redis s1) of
                  (r, r') \<Rightarrow> (r, return_to b (s1\<lparr>sv_redis := r'\<rparr>))))"

definition svc_eval :: "(nat \<Rightarrow> command \<Rightarrow> ('r, 'a) eff) \<Rightarrow> nat \<Rightarrow> string \<Rightarrow> string list \<Rightarrow> string list \<Rightarrow> ('r, 'a) eff" where
  "svc_eval exec inst luascript keys args =
     exec inst (Custom ''eval'', [luascript] @ [string_of_nat (length keys)] @ keys @ args)"

definition rpush_inst :: "'r redis_client \<Rightarrow> nat \<Rightarrow> string \<times> string \<Rightarrow> ('r, int) eff" where
  "rpush_inst rc inst data = rc_int rc inst (RPush (fst data) (snd data), [])"

definition rpush :: "'r redis_client \<Rightarrow> string \<times> string \<Rightarrow> ('r service, int) eff" where
  "rpush rc data = with_connection rc (Inr (-1)) (\<lambda>inst. rpush_inst rc inst data)"

definition blpop_inst :: "'r redis_client \<Rightarrow> nat \<Rightarrow> string list \<Rightarrow> int \<Rightarrow> ('r, (string \<times> string) option) eff" where
  "blpop_inst rc inst lista timeout r =
     (case rc_array rc inst (BLPop lista timeout, []) r of
        (Inl e, r1) \<Rightarrow> (Inl e, r1)
      | (Inr None, r1) \<Rightarrow> (Inr None, r1)
      | (Inr (Some xs), r1) \<Rightarrow>
          (sum_bind (sum_bind (elem_bulk xs 0) nullable_value) (\<lambda>k.
             sum_bind (sum_bind (elem_bulk xs 1) nullable_value) (\<lambda>v. Inr (Some (k, v)))), r1))"

definition blpop :: "'r redis_client \<Rightarrow> string list \<Rightarrow> int \<Rightarrow> ('r service, (string \<times> string) option) eff" where
  "blpop rc lista timeout = with_connection rc (Inr None) (\<lambda>inst. blpop_inst rc inst lista timeout)"

definition set_command :: "string \<Rightarrow> string \<Rightarrow> int \<Rightarrow> command" where
  "set_command key data key_expire =
     (SetOverwrite key data, if key_expire > 0 then [''EX''] @ [string_of_int key_expire] else [])"

definition set_inst :: "(nat \<Rightarrow> command \<Rightarrow> ('r, 'a) eff) \<Rightarrow> nat \<Rightarrow> string \<Rightarrow> string \<Rightarrow> int \<Rightarrow> ('r, 'a) eff" where
  "set_inst exec inst key data key_expire = exec inst (set_command key data key_expire)"

definition set_cache :: "'r redis_client \<Rightarrow> 'a \<Rightarrow> (nat \<Rightarrow> command \<Rightarrow> ('r, 'a) eff) \<Rightarrow> string \<times> string \<Rightarrow> int \<Rightarrow>
    ('r service, 'a) eff" where
  "set_cache rc dv exec data key_expire =
     with_connection rc (Inr dv) (\<lambda>inst. exec inst (set_command (fst data) (snd data) key_expire))"

definition get_cache_inst :: "(nat \<Rightarrow> command \<Rightarrow> ('r, 'a) eff) \<Rightarrow> nat \<Rightarrow> string \<Rightarrow> ('r, 'a) eff" where
  "get_cache_inst exec inst key_name = exec inst (GetKey key_name, [])"

definition get_cache :: "'r redis_client \<Rightarrow> 'a \<Rightarrow> (nat \<Rightarrow> command \<Rightarrow> ('r, 'a) eff) \<Rightarrow> string \<Rightarrow> ('r service, 'a) eff" where
  "get_cache rc dv exec key_name = with_connection rc (Inr dv) (\<lambda>inst. get_cache_inst exec inst key_name)"

definition getJson :: "poco \<Rightarrow> 'r redis_client \<Rightarrow> nat \<Rightarrow> string \<Rightarrow> ('r, jvar) eff" where
  "getJson pc rc inst key_name r =
     (case get_cache_inst (rc_bulk rc) inst key_name r of
        (Inl e, r1) \<Rightarrow> (Inl e, r1)
      | (Inr None, r1) \<Rightarrow> (Inr JEmpty, r1)
      | (Inr (Some t), r1) \<Rightarrow> (p_parse pc t, r1))"

definition setJson :: "poco \<Rightarrow> 'r redis_client \<Rightarrow> nat \<Rightarrow> string \<Rightarrow> jvar \<Rightarrow> int \<Rightarrow> ('r, string) eff" where
  "setJson pc rc inst key_name var key_expire r =
     (case JsonToString pc var of
        Inl e \<Rightarrow> (Inl e, r)
      | Inr t \<Rightarrow> rc_str rc inst (set_command key_name t key_expire) r)"

definition hget :: "'r redis_client \<Rightarrow> 'a \<Rightarrow> (nat \<Rightarrow> command \<Rightarrow> ('r, 'a) eff) \<Rightarrow> string \<Rightarrow> string \<Rightarrow> ('r service, 'a) eff" where
  "hget rc dv exec key_name field = with_connection rc (Inr dv) (\<lambda>inst. exec inst (HGet key_name field, []))"

fun hgetall_fill :: "string option option list \<Rightarrow> datamap_t \<Rightarrow> exn + datamap_t" where
  "hgetall_fill (k # v # xs) resultmap =
     sum_bind (elem_bulk [k, v] 0) (\<lambda>key.
       sum_bind (elem_bulk [k, v] 1) (\<lambda>val.
         hgetall_fill xs (resultmap((case key of None \<Rightarrow> [] | Some s \<Rightarrow> s) \<mapsto> (case val of None \<Rightarrow> [] | Some s \<Rightarrow> s)))))"
| "hgetall_fill xs resultmap = Inr resultmap"

definition hgetall_map :: "string option option list option \<Rightarrow> exn + datamap_t" where
  "hgetall_map result =
     (case result of
        None \<Rightarrow> Inr Map.empty
      | Some xs \<Rightarrow>
          if length xs mod 2 \<noteq> 0 then Inl (StdExn Runtime_error ''hgetall result is not multiple of 2'')
          else hgetall_fill xs Map.empty)"

definition hgetall_inst :: "'r redis_client \<Rightarrow> nat \<Rightarrow> string \<Rightarrow> ('r, datamap_t) eff" where
  "hgetall_inst rc inst key_name r =
     (case rc_array rc inst (HGetAll key_name, []) r of (x, r1) \<Rightarrow> (sum_bind x hgetall_map, r1))"

definition hgetall :: "'r redis_client \<Rightarrow> string \<Rightarrow> ('r service, datamap_t) eff" where
  "hgetall rc key_name = with_connection rc (Inr Map.empty) (\<lambda>inst. hgetall_inst rc inst key_name)"

text \<open>\<open>hset\<close>: \<open>flds\<close> is the map in its iteration order.\<close>

definition hset_inst :: "'r redis_client \<Rightarrow> nat \<Rightarrow> string \<Rightarrow> (string \<times> string) list \<Rightarrow> ('r, int) eff" where
  "hset_inst rc inst keyname flds =
     rc_int rc inst (Custom ''hset'', [keyname] @ concat (map (\<lambda>kv. [fst kv, snd kv]) flds))"

definition hset :: "'r redis_client \<Rightarrow> string \<Rightarrow> (string \<times> string) list \<Rightarrow> ('r service, int) eff" where
  "hset rc key_name flds = with_connection rc (Inr (-1)) (\<lambda>inst. hset_inst rc inst key_name flds)"

definition hdel :: "'r redis_client \<Rightarrow> string \<Rightarrow> string list \<Rightarrow> ('r service, int) eff" where
  "hdel rc key_name fieldsname = with_connection rc (Inr (-1)) (\<lambda>inst. rc_int rc inst (HDel key_name fieldsname, []))"

definition del_keys :: "'r redis_client \<Rightarrow> string list \<Rightarrow> ('r service, int) eff" where
  "del_keys rc keysname = with_connection rc (Inr (-1)) (\<lambda>inst. rc_int rc inst (Del keysname, []))"

definition cmd :: "'r redis_client \<Rightarrow> 'a \<Rightarrow> (nat \<Rightarrow> command \<Rightarrow> ('r, 'a) eff) \<Rightarrow> string \<Rightarrow> string list \<Rightarrow> ('r service, 'a) eff" where
  "cmd rc dv exec name args = with_connection rc (Inr dv) (\<lambda>inst. exec inst (Custom name, args))"

section \<open>The queue over Redis\<close>

text \<open>\<open>RedisToBulkString\<close> and \<open>value({})\<close>: another type is a bad cast, a null bulk string is empty.\<close>

fun bulk_strings :: "string option option list \<Rightarrow> exn + string list" where
  "bulk_strings [] = Inr []"
| "bulk_strings (x # xs) =
     (case x of
        None \<Rightarrow> Inl (StdExn Bad_cast ''std::bad_cast'')
      | Some b \<Rightarrow> sum_bind (bulk_strings xs) (\<lambda>ss. Inr ((case b of None \<Rightarrow> [] | Some s \<Rightarrow> s) # ss)))"

definition rq_push :: "'r redis_client \<Rightarrow> string \<Rightarrow> string \<Rightarrow> string \<Rightarrow> ('r service, unit) eff" where
  "rq_push rc aliasname queue data s =
     (case rpush rc (aliasname @ queue, data) s of (r, s') \<Rightarrow> (sum_bind r (\<lambda>n. Inr ()), s'))"

definition rq_pushToLater :: "'r redis_client \<Rightarrow> string \<Rightarrow> string \<Rightarrow> string \<Rightarrow> int \<Rightarrow> ('r service, unit) eff" where
  "rq_pushToLater rc aliasname queue data timep =
     with_connection rc (Inl (StdExn Runtime_error ''Redis connection failed'')) (\<lambda>inst r.
       case rc_int rc inst (Custom ''zadd'', [aliasname @ queue @ '':later'', string_of_int timep, data]) r of
         (x, r1) \<Rightarrow> (sum_bind x (\<lambda>n. if n = 0 then Inl (StdExn Runtime_error ''Job not added'') else Inr ()), r1))"

definition rq_getFullQueue :: "'r redis_client \<Rightarrow> string \<Rightarrow> ('r service, string list) eff" where
  "rq_getFullQueue rc queue =
     with_connection rc (Inr []) (\<lambda>inst r.
       case rc_array rc inst (Custom ''lrange'', [queue, ''0'', ''9999999'']) r of
         (x, r1) \<Rightarrow> (sum_bind x (\<lambda>resp. case resp of None \<Rightarrow> Inl null_value | Some xs \<Rightarrow> bulk_strings xs), r1))"

definition popScript :: string where
  "popScript =
     [CHR 0x0A] @ ''local expired = redis.call('' @ [CHR 0x27] @ ''zrangebyscore'' @ [CHR 0x27] @ '', KEYS[1], '' @
     [CHR 0x27] @ ''-inf'' @ [CHR 0x27] @ '', ARGV[1], '' @ [CHR 0x27] @ ''LIMIT'' @ [CHR 0x27] @ '', 0, 1)'' @
     [CHR 0x0A, CHR 0x0A] @ ''if (expired ~= nil) and #expired > 0 then'' @
     [CHR 0x0A] @ ''    redis.call('' @ [CHR 0x27] @ ''zremrangebyrank'' @ [CHR 0x27] @ '', KEYS[1], 0, 0)'' @
     [CHR 0x0A] @ ''end'' @ [CHR 0x0A, CHR 0x0A] @ ''return expired'' @ [CHR 0x0A]"

definition pop_later :: "'r redis_client \<Rightarrow> nat \<Rightarrow> string \<Rightarrow> int \<Rightarrow> ('r, string option) eff" where
  "pop_later rc inst laterQueue now r =
     (case svc_eval (rc_array rc) inst popScript [laterQueue] [string_of_int now] r of
        (Inl e, r1) \<Rightarrow> (Inl e, r1)
      | (Inr None, r1) \<Rightarrow> (Inr None, r1)
      | (Inr (Some xs), r1) \<Rightarrow> (if xs = [] then Inr None else elem_bulk xs 0, r1))"

definition rq_pop :: "'r redis_client \<Rightarrow> string \<Rightarrow> int \<Rightarrow> string \<Rightarrow> int \<Rightarrow> ('r service, string option) eff" where
  "rq_pop rc aliasname now queue timeout =
     with_connection rc (Inr None) (\<lambda>inst r.
       let defaultQueue = aliasname @ queue in
       case blpop_inst rc inst [defaultQueue] timeout r of
         (Inl e, r1) \<Rightarrow> (Inl e, r1)
       | (Inr (Some kv), r1) \<Rightarrow> (Inr (Some (snd kv)), r1)
       | (Inr None, r1) \<Rightarrow> pop_later rc inst (defaultQueue @ '':later'') now r1)"

definition rq_getName :: string where
  "rq_getName = ''redis''"

text \<open>\<open>isConnected\<close> dereferences what \<open>get_connection\<close> returns, borrowed or not: \<open>None\<close> is the null
  pointer.\<close>

definition rq_isConnected :: "'r redis_client \<Rightarrow> ('r service, bool option) eff" where
  "rq_isConnected rc = with_connection rc (Inr None) (\<lambda>inst r. (Inr (Some (rc_isConnected rc inst r)), r))"

definition rq_getPersistentData :: "'r redis_client \<Rightarrow> string \<Rightarrow> string \<Rightarrow> ('r service, datamap_t) eff" where
  "rq_getPersistentData rc aliasname name = hgetall rc (aliasname @ name)"

definition rq_getPersistentDataField :: "'r redis_client \<Rightarrow> string \<Rightarrow> string \<Rightarrow> string \<Rightarrow> ('r service, string option) eff" where
  "rq_getPersistentDataField rc aliasname name field = hget rc None (rc_bulk rc) (aliasname @ name) field"

definition rq_setPersistentData :: "'r redis_client \<Rightarrow> string \<Rightarrow> string \<Rightarrow> (string \<times> string) list \<Rightarrow> ('r service, unit) eff" where
  "rq_setPersistentData rc aliasname name flds s =
     (case hset rc (aliasname @ name) flds s of (r, s') \<Rightarrow> (sum_bind r (\<lambda>n. Inr ()), s'))"

definition rq_delPersistentData :: "'r redis_client \<Rightarrow> string \<Rightarrow> string \<Rightarrow> ('r service, unit) eff" where
  "rq_delPersistentData rc aliasname name s =
     (case del_keys rc [aliasname @ name] s of (r, s') \<Rightarrow> (sum_bind r (\<lambda>n. Inr ()), s'))"

definition rq_expire :: "'r redis_client \<Rightarrow> string \<Rightarrow> string \<Rightarrow> int \<Rightarrow> ('r service, bool) eff" where
  "rq_expire rc aliasname name seconds s =
     (case cmd rc 0 (rc_int rc) ''expire'' [aliasname @ name, string_of_int seconds] s of
        (r, s') \<Rightarrow> (sum_bind r (\<lambda>n. Inr (n \<noteq> 0)), s'))"

definition rq_ttl :: "'r redis_client \<Rightarrow> string \<Rightarrow> string \<Rightarrow> ('r service, int) eff" where
  "rq_ttl rc aliasname name = cmd rc 0 (rc_int rc) ''ttl'' [aliasname @ name]"

section \<open>The cache\<close>

definition cache_prefix :: string where
  "cache_prefix = ''apicache:''"

text \<open>\<open>originalFn\<close> runs while the connection is held; what it does outside the service is part of \<open>'r\<close>.\<close>

definition getAndOrSetCache :: "'r redis_client \<Rightarrow> string \<Rightarrow> ('r, string) eff \<Rightarrow> int \<Rightarrow> ('r service, string) eff" where
  "getAndOrSetCache rc name originalFn key_expire s =
     (case get_connection rc s of
        (Inl e, s1) \<Rightarrow> (Inl e, s1)
      | (Inr b, s1) \<Rightarrow>
          if \<not> bobject b then
            (case originalFn (sv_redis s1) of (r, r1) \<Rightarrow> (r, return_to b (s1\<lparr>sv_redis := r1\<rparr>)))
          else
            (let inst = the (bpos b); alias = multi_concat [cache_prefix, name];
                 body = (\<lambda>r.
                   case get_cache_inst (rc_bulk rc) inst alias r of
                     (Inl e, r1) \<Rightarrow> (Inl e, r1)
                   | (Inr (Some v), r1) \<Rightarrow> (Inr v, r1)
                   | (Inr None, r1) \<Rightarrow>
                       (case originalFn r1 of
                          (Inl e, r2) \<Rightarrow> (Inl e, r2)
                        | (Inr result, r2) \<Rightarrow>
                            (case set_inst (rc_str rc) inst alias result key_expire r2 of
                               (Inl e, r3) \<Rightarrow> (Inl e, r3)
                             | (Inr ok, r3) \<Rightarrow> (Inr result, r3))))
             in (case body (sv_redis s1) of (x, r') \<Rightarrow> (x, return_to b (s1\<lparr>sv_redis := r'\<rparr>)))))"

section \<open>Sorted sets and scripts\<close>

text \<open>
  What Redis documents of the two sorted-set commands of the pop script, on the members of every key in
  the order of their scores. A score is a double: integers up to \<open>2 ^ 53\<close> are exact. A script may only
  touch the keys it was given; any other command or argument is \<open>None\<close>, of which nothing is relied on.
\<close>

definition exact :: "int \<Rightarrow> bool" where
  "exact t \<longleftrightarrow> \<bar>t\<bar> \<le> 2 ^ 53"

definition read_score :: "string \<Rightarrow> int" where
  "read_score s = (let (neg, t) = read_sign s; n = int (nat_of_digits (takeWhile is_digit t)) in if neg then - n else n)"

lemma read_score_string [simp]: "read_score (string_of_int i) = i"
proof (cases "i < 0")
  case True
  have d: "\<forall>c \<in> set (string_of_nat (nat (- i))). is_digit c" by (rule string_of_nat_digits)
  have "read_sign (string_of_int i) = (True, string_of_nat (nat (- i)))"
    using True by (simp add: string_of_int_def read_sign_def is_space_def byte_def)
  with True show ?thesis by (simp add: read_score_def takeWhile_digits [OF d])
next
  case False
  have d: "\<forall>c \<in> set (string_of_nat (nat i)). is_digit c" by (rule string_of_nat_digits)
  from False show ?thesis
    by (simp add: read_score_def string_of_int_def read_sign_digits [OF d] takeWhile_digits [OF d])
qed

lemma read_score_nat [simp]: "read_score (string_of_nat n) = int n"
  using read_score_string [of "int n"] by (simp add: string_of_int_def)

definition int_arg :: "string \<Rightarrow> int option" where
  "int_arg a = (if a = string_of_int (read_score a) then Some (read_score a) else None)"

lemma int_arg_string [simp]: "int_arg (string_of_int i) = Some i"
  by (simp add: int_arg_def)

text \<open>\<open>ZRANGEBYSCORE key -inf max\<close>, with \<open>LIMIT offset count\<close>: a negative count is no limit.\<close>

definition zset_limit :: "int \<Rightarrow> int \<Rightarrow> 'a list \<Rightarrow> 'a list" where
  "zset_limit off cnt xs = (if off < 0 then [] else let ys = drop (nat off) xs in if cnt < 0 then ys else take (nat cnt) ys)"

definition range_by_score :: "string list \<Rightarrow> (string \<times> int) list \<Rightarrow> string list option" where
  "range_by_score args zs =
     (case args of
        lo # hi # limit \<Rightarrow>
          (case int_arg hi of
             Some h \<Rightarrow>
               if lo = ''-inf'' \<and> (exact h \<or> zs = []) then
                 (let range = map fst (filter (\<lambda>m. snd m \<le> h) zs) in
                  case limit of
                    [] \<Rightarrow> Some range
                  | [w, off, cnt] \<Rightarrow>
                      if w = ''LIMIT'' then
                        (case (int_arg off, int_arg cnt) of (Some o', Some c) \<Rightarrow> Some (zset_limit o' c range) | _ \<Rightarrow> None)
                      else None
                  | _ \<Rightarrow> None)
               else None
           | None \<Rightarrow> None)
      | _ \<Rightarrow> None)"

text \<open>\<open>ZREMRANGEBYRANK key start stop\<close> removes the members of these ranks, the bounds included;
  a negative rank counts from the end. It answers how many went.\<close>

definition rank_of :: "'a list \<Rightarrow> int \<Rightarrow> int" where
  "rank_of zs i = (if i < 0 then int (length zs) + i else i)"

definition remove_ranks :: "int \<Rightarrow> int \<Rightarrow> 'a list \<Rightarrow> 'a list" where
  "remove_ranks start stop zs =
     (let a = max 0 (rank_of zs start); b = rank_of zs stop in
      if b < a then zs else take (nat a) zs @ drop (nat (b + 1)) zs)"

definition zset_call :: "string list \<Rightarrow> (string \<Rightarrow> (string \<times> int) list) redis_call" where
  "zset_call keys args z =
     (case args of
        name # k # rest \<Rightarrow>
          if k \<notin> set keys then None
          else if name = ''zrangebyscore'' then map_option (\<lambda>ms. (VTab (map VStr ms), z)) (range_by_score rest (z k))
          else if name = ''zremrangebyrank'' then
            (case rest of
               [start, stop] \<Rightarrow>
                 (case (int_arg start, int_arg stop) of
                    (Some a, Some b) \<Rightarrow>
                      let zs = remove_ranks a b (z k) in Some (VNum (int (length (z k)) - int (length zs)), z(k := zs))
                  | _ \<Rightarrow> None)
             | _ \<Rightarrow> None)
          else None
      | _ \<Rightarrow> None)"

text \<open>The text of the pop script, read as Lua.\<close>

lemma popScript_parse:
  "lua_parse popScript = Some
     [SLocal ''expired'' (ECall [EStr ''zrangebyscore'', EIndex (EVar ''KEYS'') (ENum 1), EStr ''-inf'',
        EIndex (EVar ''ARGV'') (ENum 1), EStr ''LIMIT'', ENum 0, ENum 1]),
      SIf (EAnd (ERel ''~='' (EVar ''expired'') ENil) (ERel ''>'' (ELen (EVar ''expired'')) (ENum 0)))
        [SCall (ECall [EStr ''zremrangebyrank'', EIndex (EVar ''KEYS'') (ENum 1), ENum 0, ENum 0])],
      SReturn (EVar ''expired'')]"
  by code_simp

lemma filter_sorted_head:
  "sorted (map snd zs) \<Longrightarrow> take 1 (map fst (filter (\<lambda>m. snd m \<le> h) zs)) =
     (case zs of [] \<Rightarrow> [] | (m, sc) # _ \<Rightarrow> if sc \<le> (h :: int) then [m] else [])"
  by (cases zs) (fastforce simp: filter_empty_conv)+

text \<open>What the script does: the first member of the sorted set, when its score is not above the argument, is
  taken out and returned; otherwise nothing is.\<close>

lemma popScript_run:
  assumes "sorted (map snd (z k))" and "exact now \<or> z k = []"
  shows "run_script (zset_call [k]) popScript [k] [string_of_int now] z =
     (case z k of
        [] \<Rightarrow> Some (VTab [], z)
      | (m, sc) # zs \<Rightarrow> if sc \<le> now then Some (VTab [VStr m], z(k := zs)) else Some (VTab [], z))"
proof -
  have t: "string_of_int 0 = ''0''" "string_of_int 1 = ''1''" by code_simp+
  then have n: "int_arg ''0'' = Some 0" "int_arg ''1'' = Some 1"
    using int_arg_string [of 0] int_arg_string [of 1] by simp_all
  have h: "take (Suc 0) (map fst (filter (\<lambda>m. snd m \<le> now) (z k))) =
      (case z k of [] \<Rightarrow> [] | (m, sc) # _ \<Rightarrow> if sc \<le> now then [m] else [])"
    using filter_sorted_head [OF assms(1), of now] by simp
  have "range_by_score [''-inf'', string_of_int now, ''LIMIT'', ''0'', ''1''] (z k) =
      Some (case z k of [] \<Rightarrow> [] | (m, sc) # _ \<Rightarrow> if sc \<le> now then [m] else [])"
    using assms(2) h by (auto simp: range_by_score_def n Let_def zset_limit_def)
  then show ?thesis
    by (cases "z k")
      (auto simp: run_script_def popScript_parse zset_call_def n t Let_def lua_rel_def truthy_def remove_ranks_def rank_of_def)
qed

section \<open>A small server\<close>

text \<open>The lists, sorted sets and hashes of a server.\<close>

record redis_data =
  rd_lists :: "string \<Rightarrow> string list"
  rd_zsets :: "string \<Rightarrow> (string \<times> int) list"
  rd_hashes :: "string \<Rightarrow> datamap_t option"

text \<open>An instance of the client on which the hypotheses about Redis hold: a server in memory that
  knows the commands the queue sends.\<close>

record mini_redis =
  mr_lists :: "string \<Rightarrow> string list"
  mr_zsets :: "string \<Rightarrow> (string \<times> int) list"
  mr_hashes :: "string \<Rightarrow> (string \<times> string) list"
  mr_up :: bool

definition mini_init :: mini_redis where
  "mini_init = \<lparr>mr_lists = (\<lambda>k. []), mr_zsets = (\<lambda>k. []), mr_hashes = (\<lambda>k. []), mr_up = True\<rparr>"

definition mini_data :: "mini_redis \<Rightarrow> redis_data" where
  "mini_data r = \<lparr>rd_lists = mr_lists r, rd_zsets = mr_zsets r,
     rd_hashes = (\<lambda>k. if mr_hashes r k = [] then None else Some (map_of (mr_hashes r k)))\<rparr>"

definition redis_error :: exn where
  "redis_error = StdExn (Poco_exception ''Redis Exception'') ''Redis Exception''"

fun pair_up :: "string list \<Rightarrow> (string \<times> string) list" where
  "pair_up (k # v # xs) = (k, v) # pair_up xs"
| "pair_up xs = []"

definition mini_array :: "nat \<Rightarrow> command \<Rightarrow> (mini_redis, string option option list option) eff" where
  "mini_array i c r =
     (case c of
        (BLPop [k] t, []) \<Rightarrow>
          (case mr_lists r k of
             [] \<Rightarrow> (Inr None, r)
           | x # xs \<Rightarrow> (Inr (Some [Some (Some k), Some (Some x)]), r\<lparr>mr_lists := (mr_lists r)(k := xs)\<rparr>))
      | (HGetAll k, []) \<Rightarrow>
          (Inr (Some (concat (map (\<lambda>f. [Some (Some f), Some (map_of (mr_hashes r k) f)])
             (remdups (map fst (mr_hashes r k)))))), r)
      | (Custom name, script # n # rest) \<Rightarrow>
          if name = ''eval'' then
            (let nk = nat (read_score n); keys = take nk rest in
             case run_script (zset_call keys) script keys (drop nk rest) (mr_zsets r) of
               Some (VTab vs, z) \<Rightarrow>
                 (case tab_strings vs of
                    Some xs \<Rightarrow> (Inr (Some (map (\<lambda>x. Some (Some x)) xs)), r\<lparr>mr_zsets := z\<rparr>)
                  | None \<Rightarrow> (Inl redis_error, r))
             | _ \<Rightarrow> (Inl redis_error, r))
          else (Inl redis_error, r)
      | _ \<Rightarrow> (Inl redis_error, r))"

definition mini_int :: "nat \<Rightarrow> command \<Rightarrow> (mini_redis, int) eff" where
  "mini_int i c r =
     (case c of
        (RPush k x, []) \<Rightarrow> (Inr (1 + int (length (mr_lists r k))), r\<lparr>mr_lists := (mr_lists r)(k := mr_lists r k @ [x])\<rparr>)
      | (Del [k], []) \<Rightarrow>
          (Inr 1, r\<lparr>mr_lists := (mr_lists r)(k := []), mr_zsets := (mr_zsets r)(k := []), mr_hashes := (mr_hashes r)(k := [])\<rparr>)
      | (Custom name, k # args) \<Rightarrow>
          if name = ''hset'' then
            (Inr (int (length args)), r\<lparr>mr_hashes := (mr_hashes r)(k := rev (pair_up args) @ mr_hashes r k)\<rparr>)
          else if name = ''zadd'' \<and> length args = 2 then
            (Inr 1, r\<lparr>mr_zsets := (mr_zsets r)(k := insort_key snd (args ! 1, read_score (args ! 0)) (mr_zsets r k))\<rparr>)
          else (Inr 0, r)
      | _ \<Rightarrow> (Inl redis_error, r))"

definition mini_bulk :: "nat \<Rightarrow> command \<Rightarrow> (mini_redis, string option) eff" where
  "mini_bulk i c r = (case c of (HGet k f, []) \<Rightarrow> (Inr (map_of (mr_hashes r k) f), r) | _ \<Rightarrow> (Inr None, r))"

definition mini_client :: "mini_redis redis_client" where
  "mini_client = \<lparr>rc_isConnected = (\<lambda>i r. mr_up r), rc_connect = (\<lambda>i h p r. (Inr (), r\<lparr>mr_up := True\<rparr>)),
     rc_int = mini_int, rc_str = (\<lambda>i c r. (Inr ''ERR'', r)),
     rc_bulk = mini_bulk, rc_array = mini_array\<rparr>"

section \<open>Connections are given back\<close>

lemma connect_pool: "sv_pool (snd (connect rc i s)) = sv_pool s"
  by (auto simp: connect_def Let_def split: sum.splits prod.splits)

lemma borrow_alone_spec:
  assumes "pool_ok p"
  shows "case borrow_alone p of (b, p') \<Rightarrow>
     (b = no_object \<and> bits p' = bits p \<and> pool_ok p') \<or> (\<exists>i. b = borrowed_at i \<and> got p i p')"
proof (cases "getValidPos p")
  case (Pair i p')
  with getValidPos_spec [OF assms] show ?thesis
    by (cases i) (auto simp: borrow_alone_def borrow_def)
qed

lemma destroy_got:
  assumes "got p i p'" and "sv_pool s = p'"
  shows "bits (sv_pool (return_to (borrowed_at i) s)) = bits p \<and> pool_ok (sv_pool (return_to (borrowed_at i) s))"
proof -
  have *: "i < length (bits p)" "\<not> bits p ! i" "bits p' = (bits p)[i := True]" "pool_ok p'"
    using assms(1) by (simp_all add: got_def)
  then have "0 < taken (bits p')" by (intro taken_update(3) [of i]) simp_all
  then have "(of_nat (taken (bits p') - 1) :: u64) = of_nat (taken (bits p')) - 1" by (simp add: of_nat_diff)
  then show ?thesis
    using * assms(2) by (simp add: return_to_def destroy_def borrowed_at_def disownBorrowed_def pool_ok_def
        taken_update list_update_same_conv)
qed

lemma get_connection_pool:
  assumes "pool_ok (sv_pool s)" and "get_connection rc s = (r, s')"
  shows "(\<exists>e. r = Inl e \<and> bits (sv_pool s') = bits (sv_pool s) \<and> pool_ok (sv_pool s')) \<or>
     (r = Inr no_object \<and> bits (sv_pool s') = bits (sv_pool s) \<and> pool_ok (sv_pool s')) \<or>
     (\<exists>i. r = Inr (borrowed_at i) \<and> got (sv_pool s) i (sv_pool s'))"
proof -
  obtain b p where b: "borrow_alone (sv_pool s) = (b, p)" by (cases "borrow_alone (sv_pool s)")
  with borrow_alone_spec [OF assms(1)]
  consider (none) "b = no_object" "bits p = bits (sv_pool s)" "pool_ok p"
    | (some) i where "b = borrowed_at i" "got (sv_pool s) i p" by auto
  then show ?thesis
  proof cases
    case none
    with assms(2) b show ?thesis by (auto simp: get_connection_def no_object_def Let_def)
  next
    case (some i)
    obtain c s2 where c: "connect rc i (s\<lparr>sv_pool := p\<rparr>) = (c, s2)" by (cases "connect rc i (s\<lparr>sv_pool := p\<rparr>)")
    then have "sv_pool s2 = p" using connect_pool [of rc i "s\<lparr>sv_pool := p\<rparr>"] by simp
    with c some assms(2) b destroy_got [OF some(2), of s2] show ?thesis
      by (cases c) (auto simp: get_connection_def borrowed_at_def Let_def)
  qed
qed

lemma with_connection_pool:
  assumes "pool_ok (sv_pool s)"
  shows "bits (sv_pool (snd (with_connection rc dflt f s))) = bits (sv_pool s) \<and>
     pool_ok (sv_pool (snd (with_connection rc dflt f s)))"
proof -
  obtain r s1 where c: "get_connection rc s = (r, s1)" by (cases "get_connection rc s")
  from get_connection_pool [OF assms c] show ?thesis
  proof (elim disjE exE conjE)
    fix i assume r: "r = Inr (borrowed_at i)" and g: "got (sv_pool s) i (sv_pool s1)"
    have "bobject (borrowed_at i)" "bpos (borrowed_at i) = Some i" by (simp_all add: borrowed_at_def)
    with c r destroy_got [OF g, of "s1\<lparr>sv_redis := snd (f i (sv_redis s1))\<rparr>"] show ?thesis
      by (cases "f i (sv_redis s1)") (simp add: with_connection_def)
  qed (use c in \<open>simp_all add: with_connection_def no_object_def return_to_def destroy_def\<close>)
qed

text \<open>C20: every call through the service gives its connection back: whatever the command does,
  throws included, and whether or not a client could be borrowed or connected, afterwards the same
  elements of the pool are marked as before and the pool's invariant holds.\<close>

theorem connection_given_back:
  assumes "pool_ok (sv_pool s)"
  shows "bits (sv_pool (snd (with_connection rc dflt f s))) = bits (sv_pool s) \<and>
     pool_ok (sv_pool (snd (with_connection rc dflt f s)))"
  using assms by (rule with_connection_pool)

theorem connection_given_back_witness:
  "bits (sv_pool (snd (with_connection mini_client (Inl ForeignExn) (\<lambda>inst r. (Inl (StdExn Runtime_error ''x'') :: exn + unit, r))
       (new_service_replicas 2 [(''h'', 1)] [] mini_init)))) = bits (sv_pool (new_service_replicas 2 [(''h'', 1)] [] mini_init)) \<and>
   pool_ok (sv_pool (snd (with_connection mini_client (Inl ForeignExn) (\<lambda>inst r. (Inl (StdExn Runtime_error ''x'') :: exn + unit, r))
       (new_service_replicas 2 [(''h'', 1)] [] mini_init))))"
  by (rule connection_given_back) (simp add: new_service_replicas_def pool_ok_def new_pool_def taken_def)

lemma hgetall_fill_pair: "hgetall_fill (Some (Some a) # Some (Some b) # xs) m = hgetall_fill xs (m(a \<mapsto> b))"
  by (simp add: elem_bulk_def)

lemma hgetall_fill_pairs:
  "hgetall_fill (concat (map (\<lambda>kv. [Some (Some (fst kv)), Some (Some (snd kv))]) kvs)) m = Inr (m ++ map_of (rev kvs))"
proof (induction kvs arbitrary: m)
  case (Cons kv kvs)
  have "m(fst kv \<mapsto> snd kv) ++ map_of (rev kvs) = m ++ map_of (rev (kv # kvs))"
    by (cases kv) (simp add: map_add_def fun_eq_iff split: option.split)
  with Cons [of "m(fst kv \<mapsto> snd kv)"] show ?case
    by (simp only: list.map concat.simps append.simps hgetall_fill_pair)
qed simp

lemma length_pairs: "length (concat (map (\<lambda>kv. [f kv, g kv]) kvs)) = 2 * length kvs"
  by (induction kvs) auto

text \<open>The fields of a Redis hash come back as the map they were stored as: the reply of
  \<open>HGETALL\<close>, the flat list of its fields and values, is turned into the map of those pairs.\<close>

theorem hgetall_map_pairs:
  "hgetall_map (Some (concat (map (\<lambda>kv. [Some (Some (fst kv)), Some (Some (snd kv))]) kvs))) = Inr (map_of (rev kvs))"
  by (simp add: hgetall_map_def length_pairs hgetall_fill_pairs)

lemma with_connection_free:
  assumes ok: "pool_ok (sv_pool s)" and free: "\<exists>b \<in> set (bits (sv_pool s)). \<not> b"
    and up: "\<forall>i. rc_isConnected rc i (sv_redis s)"
  obtains i s' where "with_connection rc dflt f s = (fst (f i (sv_redis s)), s')"
    and "sv_redis s' = snd (f i (sv_redis s))"
proof -
  obtain b p where b: "borrow_alone (sv_pool s) = (b, p)" by (cases "borrow_alone (sv_pool s)")
  have "\<not> (\<forall>b \<in> set (bits (sv_pool s)). b)" using free by blast
  then obtain i where i: "b = borrowed_at i"
    using getValidPos_spec [OF ok] b
    by (cases "getValidPos (sv_pool s)"; cases "fst (getValidPos (sv_pool s))") (auto simp: borrow_alone_def borrow_def)
  have "get_connection rc s = (Inr b, s\<lparr>sv_pool := p\<rparr>)"
    using b i up by (simp add: get_connection_def borrowed_at_def connect_def Let_def)
  then show ?thesis
    using i that [of i] by (cases "f i (sv_redis s)") (simp add: with_connection_def borrowed_at_def return_to_def)
qed

text \<open>A wrong password is not noticed twice: when Redis refuses it the client stays connected, and
  \<open>get_connection\<close> hands it out all the same, now and on every later call, since an already
  connected client is not authenticated again.\<close>

theorem wrong_password_unnoticed:
  assumes "borrow_alone (sv_pool s) = (borrowed_at i, p)" and "\<not> rc_isConnected rc i (sv_redis s)"
    and "rc_connect rc i (fst host) (snd host) (sv_redis s) = (Inr (), ra)"
    and "host = replicaList s ! (i mod length (replicaList s))" and "sv_password s \<noteq> []"
    and "rc_str rc i (Custom ''AUTH'', [sv_password s]) ra = (Inr reply, rb)" and "reply \<noteq> ''OK''"
    and "rc_isConnected rc i rb"
  shows "get_connection rc s = (Inr (borrowed_at i), s\<lparr>sv_pool := p, sv_redis := rb\<rparr>) \<and>
     connect rc i (s\<lparr>sv_pool := p\<rparr>) = (Inr False, s\<lparr>sv_pool := p, sv_redis := rb\<rparr>) \<and>
     connect rc i (s\<lparr>sv_pool := p, sv_redis := rb\<rparr>) = (Inr True, s\<lparr>sv_pool := p, sv_redis := rb\<rparr>)"
  using assms by (simp add: get_connection_def connect_def try_connect_def borrowed_at_def Let_def)

definition locked_service :: "mini_redis service" where
  "locked_service = new_service_replicas 1 [(''h'', 6379)] ''secret'' (mini_init\<lparr>mr_up := False\<rparr>)"

theorem wrong_password_unnoticed_witness:
  "get_connection mini_client locked_service =
     (Inr (borrowed_at 0), locked_service\<lparr>sv_pool := snd (borrow_alone (new_pool 1)), sv_redis := mini_init\<rparr>) \<and>
   connect mini_client 0 (locked_service\<lparr>sv_pool := snd (borrow_alone (new_pool 1))\<rparr>) =
     (Inr False, locked_service\<lparr>sv_pool := snd (borrow_alone (new_pool 1)), sv_redis := mini_init\<rparr>) \<and>
   connect mini_client 0 (locked_service\<lparr>sv_pool := snd (borrow_alone (new_pool 1)), sv_redis := mini_init\<rparr>) =
     (Inr True, locked_service\<lparr>sv_pool := snd (borrow_alone (new_pool 1)), sv_redis := mini_init\<rparr>)"
proof (rule wrong_password_unnoticed [where host = "(''h'', 6379)" and reply = "''ERR''" and ra = mini_init])
  have "fst (borrow_alone (new_pool 1)) = borrowed_at 0"
    by (simp add: borrow_alone_def borrow_def getValidPos_def new_pool_def Let_def)
  then show "borrow_alone (sv_pool locked_service) = (borrowed_at 0, snd (borrow_alone (new_pool 1)))"
    by (simp add: locked_service_def new_service_replicas_def prod_eq_iff)
qed (simp_all add: locked_service_def new_service_replicas_def mini_client_def mini_init_def)

end
