(* ===== verification/RedisContract.thy ===== *)
theory RedisContract
  imports Redis WorkerRuns "HOL-Library.Multiset" "HOL-Library.List_Lexorder" "HOL-Library.Char_ord"
begin

text \<open>
  The queue over Redis (src/src/queues/RedisQueue.cpp) as a provider of the contract \<open>job_queue\<close>: what
  Redis documents of the commands the queue sends, the names and times for which the keys of queues,
  delayed sets and records keep apart, the laws of the contract, and the worker running over it.
\<close>

section \<open>What Redis documents\<close>

text \<open>
  \<open>D\<close> reads the data out of a server state. A key holds one type of value, so every law is about a key
  that holds no value of another type. The members of a sorted set come in the order of their scores. Nobody else uses the server, and no expiry time runs out.
\<close>

definition live :: "'r redis_client \<Rightarrow> 'r \<Rightarrow> bool" where
  "live rc r \<longleftrightarrow> (\<forall>i. rc_isConnected rc i r)"

definition is_list_key :: "redis_data \<Rightarrow> string \<Rightarrow> bool" where
  "is_list_key d k \<longleftrightarrow> rd_zsets d k = [] \<and> rd_hashes d k = None"

definition is_zset_key :: "redis_data \<Rightarrow> string \<Rightarrow> bool" where
  "is_zset_key d k \<longleftrightarrow> rd_lists d k = [] \<and> rd_hashes d k = None \<and> sorted (map snd (rd_zsets d k))"

definition is_hash_key :: "redis_data \<Rightarrow> string \<Rightarrow> bool" where
  "is_hash_key d k \<longleftrightarrow> rd_lists d k = [] \<and> rd_zsets d k = []"

definition answers :: "'r redis_client \<Rightarrow> ('r \<Rightarrow> redis_data) \<Rightarrow> ('r, 'a) eff \<Rightarrow> 'r \<Rightarrow> 'a \<Rightarrow> redis_data \<Rightarrow> bool" where
  "answers rc D m r x d \<longleftrightarrow> (\<exists>r'. m r = (Inr x, r') \<and> D r' = d \<and> live rc r')"

definition rpush_doc :: "'r redis_client \<Rightarrow> ('r \<Rightarrow> redis_data) \<Rightarrow> bool" where
  "rpush_doc rc D \<longleftrightarrow> (\<forall>i r k x. live rc r \<longrightarrow> is_list_key (D r) k \<longrightarrow>
     (\<exists>n. answers rc D (rc_int rc i (RPush k x, [])) r n
        ((D r)\<lparr>rd_lists := (rd_lists (D r))(k := rd_lists (D r) k @ [x])\<rparr>)))"

text \<open>\<open>BLPOP\<close> takes the head of a list, or is null when its time is over; without a time it waits on.\<close>

definition blpop_doc :: "'r redis_client \<Rightarrow> ('r \<Rightarrow> redis_data) \<Rightarrow> bool" where
  "blpop_doc rc D \<longleftrightarrow> (\<forall>i r k t. live rc r \<longrightarrow> is_list_key (D r) k \<longrightarrow>
     (case rd_lists (D r) k of
        [] \<Rightarrow> 0 < t \<longrightarrow> answers rc D (rc_array rc i (BLPop [k] t, [])) r None (D r)
      | x # xs \<Rightarrow> answers rc D (rc_array rc i (BLPop [k] t, [])) r (Some [Some (Some k), Some (Some x)])
          ((D r)\<lparr>rd_lists := (rd_lists (D r))(k := xs)\<rparr>)))"

text \<open>\<open>EVAL\<close> runs the script, by the rules of Lua, with what it calls done to the sorted sets of its keys; a
  table of strings it returns is the array reply.\<close>

definition eval_doc :: "'r redis_client \<Rightarrow> ('r \<Rightarrow> redis_data) \<Rightarrow> bool" where
  "eval_doc rc D \<longleftrightarrow> (\<forall>i r script keys args xs z. live rc r \<longrightarrow> (\<forall>k \<in> set keys. is_zset_key (D r) k) \<longrightarrow>
     run_script (zset_call keys) script keys args (rd_zsets (D r)) = Some (VTab (map VStr xs), z) \<longrightarrow>
     answers rc D (rc_array rc i (Custom ''eval'', script # string_of_nat (length keys) # keys @ args)) r
       (Some (map (\<lambda>x. Some (Some x)) xs)) ((D r)\<lparr>rd_zsets := z\<rparr>))"

text \<open>\<open>ZADD\<close> of a new member adds it and nothing else, and says so.\<close>

definition zadd_doc :: "'r redis_client \<Rightarrow> ('r \<Rightarrow> redis_data) \<Rightarrow> bool" where
  "zadd_doc rc D \<longleftrightarrow> (\<forall>i r k t m. live rc r \<longrightarrow> is_zset_key (D r) k \<longrightarrow> exact t \<longrightarrow>
     m \<notin> fst ` set (rd_zsets (D r) k) \<longrightarrow>
     (\<exists>zs. mset zs = add_mset (m, t) (mset (rd_zsets (D r) k)) \<and> sorted (map snd zs) \<and>
        answers rc D (rc_int rc i (Custom ''zadd'', [k, string_of_int t, m])) r 1
          ((D r)\<lparr>rd_zsets := (rd_zsets (D r))(k := zs)\<rparr>)))"

definition hash_fields :: "redis_data \<Rightarrow> string \<Rightarrow> datamap_t" where
  "hash_fields d k = (case rd_hashes d k of None \<Rightarrow> Map.empty | Some m \<Rightarrow> m)"

text \<open>\<open>HSET\<close> needs a field.\<close>

definition hset_doc :: "'r redis_client \<Rightarrow> ('r \<Rightarrow> redis_data) \<Rightarrow> bool" where
  "hset_doc rc D \<longleftrightarrow> (\<forall>i r k kvs. live rc r \<longrightarrow> is_hash_key (D r) k \<longrightarrow> kvs \<noteq> [] \<longrightarrow>
     (\<exists>n. answers rc D (hset_inst rc i k kvs) r n
        ((D r)\<lparr>rd_hashes := (rd_hashes (D r))(k \<mapsto> hash_fields (D r) k ++ map_of (rev kvs))\<rparr>)))"

definition hgetall_doc :: "'r redis_client \<Rightarrow> ('r \<Rightarrow> redis_data) \<Rightarrow> bool" where
  "hgetall_doc rc D \<longleftrightarrow> (\<forall>i r k m. live rc r \<longrightarrow> rd_hashes (D r) k = Some m \<longrightarrow>
     (\<exists>kvs. distinct (map fst kvs) \<and> map_of kvs = m \<and>
        answers rc D (rc_array rc i (HGetAll k, [])) r
          (Some (concat (map (\<lambda>kv. [Some (Some (fst kv)), Some (Some (snd kv))]) kvs))) (D r)))"

definition hget_doc :: "'r redis_client \<Rightarrow> ('r \<Rightarrow> redis_data) \<Rightarrow> bool" where
  "hget_doc rc D \<longleftrightarrow> (\<forall>i r k f m. live rc r \<longrightarrow> rd_hashes (D r) k = Some m \<longrightarrow>
     answers rc D (rc_bulk rc i (HGet k f, [])) r (m f) (D r))"

definition del_doc :: "'r redis_client \<Rightarrow> ('r \<Rightarrow> redis_data) \<Rightarrow> bool" where
  "del_doc rc D \<longleftrightarrow> (\<forall>i r k. live rc r \<longrightarrow> is_hash_key (D r) k \<longrightarrow>
     (\<exists>n. answers rc D (rc_int rc i (Del [k], [])) r n ((D r)\<lparr>rd_hashes := (rd_hashes (D r))(k := None)\<rparr>)))"

definition expire_doc :: "'r redis_client \<Rightarrow> ('r \<Rightarrow> redis_data) \<Rightarrow> bool" where
  "expire_doc rc D \<longleftrightarrow> (\<forall>i r k s. live rc r \<longrightarrow> 0 < s \<longrightarrow>
     (\<exists>n. answers rc D (rc_int rc i (Custom ''expire'', [k, string_of_int s])) r n (D r)))"

definition redis_documented :: "'r redis_client \<Rightarrow> ('r \<Rightarrow> redis_data) \<Rightarrow> bool" where
  "redis_documented rc D \<longleftrightarrow> rpush_doc rc D \<and> blpop_doc rc D \<and> eval_doc rc D \<and> zadd_doc rc D \<and> hset_doc rc D \<and>
     hgetall_doc rc D \<and> hget_doc rc D \<and> del_doc rc D \<and> expire_doc rc D"

lemma redis_documentedD:
  assumes "redis_documented rc D"
  shows "rpush_doc rc D" "blpop_doc rc D" "eval_doc rc D" "zadd_doc rc D" "hset_doc rc D" "hgetall_doc rc D"
    "hget_doc rc D" "del_doc rc D" "expire_doc rc D"
  using assms by (simp_all add: redis_documented_def)

lemma answersI: "m r = (Inr x, r') \<Longrightarrow> D r' = d \<Longrightarrow> live rc r' \<Longrightarrow> answers rc D m r x d"
  by (auto simp: answers_def)

section \<open>The small server keeps the documentation\<close>

lemma live_mini: "live mini_client r \<longleftrightarrow> mr_up r"
  by (simp add: live_def mini_client_def)

lemma pair_up_flat [simp]: "pair_up (concat (map (\<lambda>kv. [fst kv, snd kv]) kvs)) = kvs"
  by (induction kvs) auto

lemma mini_data_sel [simp]:
  "rd_lists (mini_data r) = mr_lists r" "rd_zsets (mini_data r) = mr_zsets r"
  "rd_hashes (mini_data r) k = (if mr_hashes r k = [] then None else Some (map_of (mr_hashes r k)))"
  by (simp_all add: mini_data_def)

lemma mini_data_upd [simp]:
  "mini_data (r\<lparr>mr_lists := l\<rparr>) = (mini_data r)\<lparr>rd_lists := l\<rparr>"
  "mini_data (r\<lparr>mr_zsets := z\<rparr>) = (mini_data r)\<lparr>rd_zsets := z\<rparr>"
  "mini_data (r\<lparr>mr_hashes := (mr_hashes r)(k := kvs)\<rparr>) =
     (mini_data r)\<lparr>rd_hashes := (rd_hashes (mini_data r))(k := if kvs = [] then None else Some (map_of kvs))\<rparr>"
  by (auto simp: mini_data_def fun_eq_iff cong: if_cong)

lemma flat_fields: "concat (map (\<lambda>f. [Some (Some f), Some (m f)]) ks) =
    concat (map (\<lambda>kv. [Some (Some (fst kv)), Some (Some (snd kv))]) (map (\<lambda>f. (f, the (m f))) ks))"
  if "set ks \<subseteq> dom m"
  using that by (induction ks) auto

lemma mini_documented: "redis_documented mini_client mini_data"
  unfolding redis_documented_def
proof (intro conjI)
  show "rpush_doc mini_client mini_data"
    unfolding rpush_doc_def live_mini
    by (auto intro!: answersI exI simp: mini_client_def mini_int_def live_def)
  show "blpop_doc mini_client mini_data"
    unfolding blpop_doc_def live_mini
    by (auto intro!: answersI simp: mini_client_def mini_array_def live_def split: list.split)
  show "eval_doc mini_client mini_data"
    unfolding eval_doc_def live_mini
    by (auto intro!: answersI simp: mini_client_def mini_array_def live_def Let_def)
  show "zadd_doc mini_client mini_data"
    unfolding zadd_doc_def live_mini
  proof (intro allI impI)
    fix i k m and r :: mini_redis and t :: int assume "mr_up r" "is_zset_key (mini_data r) k"
    then show "\<exists>zs. mset zs = add_mset (m, t) (mset (rd_zsets (mini_data r) k)) \<and> sorted (map snd zs) \<and>
        answers mini_client mini_data (rc_int mini_client i (Custom ''zadd'', [k, string_of_int t, m])) r 1
          ((mini_data r)\<lparr>rd_zsets := (rd_zsets (mini_data r))(k := zs)\<rparr>)"
      by (intro exI [of _ "insort_key snd (m, t) (mr_zsets r k)"] conjI)
        (simp_all add: answers_def mini_client_def mini_int_def live_def is_zset_key_def sorted_insort_key)
  qed
  show "hset_doc mini_client mini_data"
    unfolding hset_doc_def live_mini
    by (auto intro!: answersI exI simp: mini_client_def mini_int_def hset_inst_def live_def hash_fields_def
        fun_upd_idem)
  show "hgetall_doc mini_client mini_data"
    unfolding hgetall_doc_def live_mini
  proof (intro allI impI)
    fix i k m and r :: mini_redis assume up: "mr_up r" and m: "rd_hashes (mini_data r) k = Some m"
    let ?ks = "remdups (map fst (mr_hashes r k))"
    have m': "m = map_of (mr_hashes r k)" using m by (simp split: if_splits)
    then have ks: "set ?ks = dom m" by (simp add: dom_map_of_conv_image_fst)
    show "\<exists>kvs. distinct (map fst kvs) \<and> map_of kvs = m \<and>
        answers mini_client mini_data (rc_array mini_client i (HGetAll k, [])) r
          (Some (concat (map (\<lambda>kv. [Some (Some (fst kv)), Some (Some (snd kv))]) kvs))) (mini_data r)"
      using up m' ks flat_fields [of ?ks m]
      by (intro exI [of _ "map (\<lambda>f. (f, the (m f))) ?ks"] conjI answersI map_of_map_keys)
        (auto simp: mini_client_def mini_array_def live_def comp_def)
  qed
  show "hget_doc mini_client mini_data"
    unfolding hget_doc_def live_mini
    by (auto intro!: answersI simp: mini_client_def mini_bulk_def live_def split: if_splits)
  show "del_doc mini_client mini_data"
    unfolding del_doc_def live_mini
    by (auto intro!: answersI exI simp: mini_client_def mini_int_def is_hash_key_def live_def fun_upd_idem)
  show "expire_doc mini_client mini_data"
    unfolding expire_doc_def live_mini
    by (auto intro!: answersI exI simp: mini_client_def mini_int_def live_def)
qed

section \<open>The queue as a provider\<close>

text \<open>
  The virtual functions of \<open>RedisQueue\<close>: \<open>clk\<close> is the \<open>time(nullptr)\<close> a \<open>pop\<close> reads and \<open>ord\<close> the order
  in which an \<open>unordered_map\<close> is walked.
\<close>

definition redis_vtable :: "'r redis_client \<Rightarrow> string \<Rightarrow> ('r service \<Rightarrow> int) \<Rightarrow> (datamap_t \<Rightarrow> (string \<times> string) list) \<Rightarrow>
    'r service generic_queue" where
  "redis_vtable rc aliasname clk ord =
     \<lparr>gq_push = rq_push rc aliasname, gq_pushToLater = rq_pushToLater rc aliasname,
      gq_getFullQueue = rq_getFullQueue rc, gq_pop = (\<lambda>n t s. rq_pop rc aliasname (clk s) n t s),
      gq_getPersistentData = rq_getPersistentData rc aliasname,
      gq_getPersistentDataField = rq_getPersistentDataField rc aliasname,
      gq_setPersistentData = (\<lambda>k d. rq_setPersistentData rc aliasname k (ord d)),
      gq_delPersistentData = rq_delPersistentData rc aliasname, gq_isConnected = rq_isConnected rc,
      gq_expire = rq_expire rc aliasname, gq_ttl = rq_ttl rc aliasname\<rparr>"

definition enumerates :: "(datamap_t \<Rightarrow> (string \<times> string) list) \<Rightarrow> bool" where
  "enumerates ord \<longleftrightarrow> (\<forall>d. finite (dom d) \<longrightarrow> distinct (map fst (ord d)) \<and> map_of (ord d) = d)"

text \<open>
  Queues, delayed sets and records share the keys of the server. They keep apart when a queue is not
  named like a record or like a delayed set and its delayed set is not named like a record. A member of
  a sorted set has one score.
\<close>

definition redis_scope :: qscope where
  "redis_scope =
     \<lparr>sc_queue = (\<lambda>n. \<not> starts_with (n @ '':later'') ''job_instance:'' \<and> \<not> starts_with (rev n) (rev '':later'')),
      sc_key = (\<lambda>k. starts_with k ''job_instance:''), sc_secs = (\<lambda>s. 0 < s), sc_time = exact\<rparr>"

definition separated :: "string \<Rightarrow> redis_data \<Rightarrow> bool" where
  "separated al d \<longleftrightarrow>
     (\<forall>n. sc_queue redis_scope n \<longrightarrow> is_list_key d (al @ n) \<and> is_zset_key d (al @ n @ '':later'') \<and>
        distinct (map fst (rd_zsets d (al @ n @ '':later'')))) \<and>
     (\<forall>k. sc_key redis_scope k \<longrightarrow> is_hash_key d (al @ k))"

definition redis_up :: "'r redis_client \<Rightarrow> ('r \<Rightarrow> redis_data) \<Rightarrow> string \<Rightarrow> 'r service \<Rightarrow> bool" where
  "redis_up rc D al s \<longleftrightarrow> pool_ok (sv_pool s) \<and> (\<exists>b \<in> set (bits (sv_pool s)). \<not> b) \<and> live rc (sv_redis s) \<and>
     separated al (D (sv_redis s))"

definition redis_view :: "('r \<Rightarrow> redis_data) \<Rightarrow> string \<Rightarrow> 'r service \<Rightarrow> qview" where
  "redis_view D al s = (let d = D (sv_redis s) in
     \<lparr>ready = (\<lambda>n. rd_lists d (al @ n)), later = (\<lambda>n. set (rd_zsets d (al @ n @ '':later''))),
      stored = (\<lambda>k. rd_hashes d (al @ k))\<rparr>)"

lemma later_not_queue: "sc_queue redis_scope n \<Longrightarrow> n \<noteq> m @ '':later''"
  by (auto simp: redis_scope_def starts_with_def)

lemma starts_with_mono: "starts_with n p \<Longrightarrow> starts_with (n @ x) p"
  by (auto simp: starts_with_iff)

lemma key_not_queue: "sc_queue redis_scope n \<Longrightarrow> sc_key redis_scope k \<Longrightarrow> n \<noteq> k \<and> n @ '':later'' \<noteq> k"
  using starts_with_mono [of n "''job_instance:''" "'':later''"] by (auto simp: redis_scope_def)

lemma separated_push:
  "separated al d \<Longrightarrow> sc_queue redis_scope n \<Longrightarrow> separated al (d\<lparr>rd_lists := (rd_lists d)(al @ n := xs)\<rparr>)"
  using later_not_queue key_not_queue
  by (fastforce simp: separated_def is_list_key_def is_zset_key_def is_hash_key_def)

lemma separated_later:
  "separated al d \<Longrightarrow> sc_queue redis_scope n \<Longrightarrow> distinct (map fst zs) \<Longrightarrow> sorted (map snd zs) \<Longrightarrow>
   separated al (d\<lparr>rd_zsets := (rd_zsets d)(al @ n @ '':later'' := zs)\<rparr>)"
  using later_not_queue key_not_queue
  by (fastforce simp: separated_def is_list_key_def is_zset_key_def is_hash_key_def)

lemma separated_hash:
  "separated al d \<Longrightarrow> sc_key redis_scope k \<Longrightarrow> separated al (d\<lparr>rd_hashes := (rd_hashes d)(al @ k := h)\<rparr>)"
  using later_not_queue key_not_queue
  by (fastforce simp: separated_def is_list_key_def is_zset_key_def is_hash_key_def)

lemma separated_keys:
  assumes "separated al d"
  shows "sc_queue redis_scope n \<Longrightarrow> is_list_key d (al @ n)" "sc_queue redis_scope n \<Longrightarrow> is_zset_key d (al @ n @ '':later'')"
    "sc_key redis_scope k \<Longrightarrow> is_hash_key d (al @ k)"
    "sc_queue redis_scope n \<Longrightarrow> distinct (map fst (rd_zsets d (al @ n @ '':later'')))"
  using assms by (simp_all add: separated_def)

text \<open>A call through the service with a free client: the command runs, its connection is given back.\<close>

lemma with_connection_up:
  assumes up: "redis_up rc D al s" and cmd: "\<And>i. \<exists>x d. answers rc D (f i) (sv_redis s) x d \<and> P x d \<and> separated al d"
  obtains x s' where "with_connection rc dflt f s = (Inr x, s')" and "P x (D (sv_redis s'))" and "redis_up rc D al s'"
proof -
  have ok: "pool_ok (sv_pool s)" and free: "\<exists>b \<in> set (bits (sv_pool s)). \<not> b" and lv: "\<forall>i. rc_isConnected rc i (sv_redis s)"
    using up by (simp_all add: redis_up_def live_def)
  obtain i s' where run: "with_connection rc dflt f s = (fst (f i (sv_redis s)), s')" "sv_redis s' = snd (f i (sv_redis s))"
    using with_connection_free [OF ok free lv] by blast
  have pool: "bits (sv_pool s') = bits (sv_pool s)" "pool_ok (sv_pool s')"
    using with_connection_pool [OF ok, of rc dflt f] run(1) by simp_all
  obtain x d r' where x: "P x d" "separated al d" "f i (sv_redis s) = (Inr x, r')" "D r' = d" "live rc r'"
    using cmd [of i] by (auto simp: answers_def)
  with run pool free that [of x s'] show ?thesis by (simp add: redis_up_def)
qed

lemma redis_viewI:
  "D (sv_redis s') = (D (sv_redis s))\<lparr>rd_lists := (rd_lists (D (sv_redis s)))(al @ n := xs)\<rparr> \<Longrightarrow>
     redis_view D al s' = (redis_view D al s)\<lparr>ready := (ready (redis_view D al s))(n := xs)\<rparr>"
  "D (sv_redis s') = (D (sv_redis s))\<lparr>rd_zsets := (rd_zsets (D (sv_redis s)))(al @ n @ '':later'' := zs)\<rparr> \<Longrightarrow>
     redis_view D al s' = (redis_view D al s)\<lparr>later := (later (redis_view D al s))(n := set zs)\<rparr>"
  "D (sv_redis s') = (D (sv_redis s))\<lparr>rd_hashes := (rd_hashes (D (sv_redis s)))(al @ k := h)\<rparr> \<Longrightarrow>
     redis_view D al s' = (redis_view D al s)\<lparr>stored := (stored (redis_view D al s))(k := h)\<rparr>"
  "D (sv_redis s') = D (sv_redis s) \<Longrightarrow> redis_view D al s' = redis_view D al s"
  by (simp_all add: redis_view_def Let_def fun_eq_iff)

lemma redis_view_sel:
  "ready (redis_view D al s) n = rd_lists (D (sv_redis s)) (al @ n)"
  "later (redis_view D al s) n = set (rd_zsets (D (sv_redis s)) (al @ n @ '':later''))"
  "stored (redis_view D al s) k = rd_hashes (D (sv_redis s)) (al @ k)"
  by (simp_all add: redis_view_def Let_def)

lemma redis_up_keys:
  assumes "redis_up rc D al s"
  shows "live rc (sv_redis s)" "separated al (D (sv_redis s))"
  using assms by (simp_all add: redis_up_def)

lemma redis_push:
  assumes doc: "redis_documented rc D" and up: "redis_up rc D al s" and n: "sc_queue redis_scope n"
  obtains s' where "rq_push rc al n j s = (Inr (), s')" and "redis_up rc D al s'"
    and "redis_view D al s' = v_push n j (redis_view D al s)"
proof -
  let ?d = "(D (sv_redis s))\<lparr>rd_lists := (rd_lists (D (sv_redis s)))(al @ n := rd_lists (D (sv_redis s)) (al @ n) @ [j])\<rparr>"
  note keys = redis_up_keys [OF up]
  have "\<exists>x. answers rc D (rpush_inst rc i (al @ n, j)) (sv_redis s) x ?d" for i
    using redis_documentedD(1) [OF doc] keys(1) separated_keys(1) [OF keys(2) n]
    by (simp add: rpush_doc_def rpush_inst_def)
  with separated_push [OF keys(2) n]
  have cmd: "\<exists>x d. answers rc D (rpush_inst rc i (al @ n, j)) (sv_redis s) x d \<and> d = ?d \<and> separated al d" for i
    by blast
  obtain x s' where "rpush rc (al @ n, j) s = (Inr x, s')" "D (sv_redis s') = ?d" "redis_up rc D al s'"
    unfolding rpush_def by (rule with_connection_up [OF up cmd])
  with that [of s'] redis_viewI(1) [of D s' s] show ?thesis
    by (simp add: rq_push_def v_push_def redis_view_sel)
qed

lemma zadd_answers:
  assumes "answers rc D (rc_int rc i c) r 1 d"
  shows "answers rc D (\<lambda>r. case rc_int rc i c r of
     (x, r1) \<Rightarrow> (sum_bind x (\<lambda>n. if n = 0 then Inl e else Inr ()), r1)) r () d"
  using assms by (auto simp: answers_def)

lemma distinct_fst_mset:
  assumes "mset zs = add_mset (x, y) (mset xs)"
  shows "distinct (map fst zs) \<longleftrightarrow> x \<notin> fst ` set xs \<and> distinct (map fst xs)"
proof -
  have "mset (map fst zs) = mset (map fst ((x, y) # xs))" using assms by simp
  then have "distinct (map fst zs) \<longleftrightarrow> distinct (map fst ((x, y) # xs))" by (rule mset_eq_imp_distinct_iff)
  then show ?thesis by simp
qed

lemma redis_later:
  assumes doc: "redis_documented rc D" and up: "redis_up rc D al s" and n: "sc_queue redis_scope n"
    and t: "sc_time redis_scope t" and new: "\<forall>t'. (j, t') \<notin> later (redis_view D al s) n"
  obtains s' where "rq_pushToLater rc al n j t s = (Inr (), s')" and "redis_up rc D al s'"
    and "redis_view D al s' = v_later n j t (redis_view D al s)"
proof -
  let ?k = "al @ n @ '':later''" and ?d = "D (sv_redis s)"
  let ?P = "\<lambda>(x :: unit) d. \<exists>zs. d = ?d\<lparr>rd_zsets := (rd_zsets ?d)(?k := zs)\<rparr> \<and> set zs = insert (j, t) (set (rd_zsets ?d ?k))"
  note keys = redis_up_keys [OF up]
  have "j \<notin> fst ` set (rd_zsets ?d ?k)" "exact t" using new t by (auto simp: redis_view_sel redis_scope_def)
  then have z: "\<exists>zs. mset zs = add_mset (j, t) (mset (rd_zsets ?d ?k)) \<and> sorted (map snd zs) \<and>
      answers rc D (rc_int rc i (Custom ''zadd'', [?k, string_of_int t, j])) (sv_redis s) 1
        (?d\<lparr>rd_zsets := (rd_zsets ?d)(?k := zs)\<rparr>)" for i
    using redis_documentedD(4) [OF doc] keys(1) separated_keys(2) [OF keys(2) n] by (simp add: zadd_doc_def)
  have cmd: "\<exists>x d. answers rc D (\<lambda>r. case rc_int rc i (Custom ''zadd'', [?k, string_of_int t, j]) r of
         (x, r1) \<Rightarrow> (sum_bind x (\<lambda>n. if n = 0 then Inl (StdExn Runtime_error ''Job not added'') else Inr ()), r1))
       (sv_redis s) x d \<and> ?P x d \<and> separated al d" for i
  proof -
    from z [of i] obtain zs where zs: "mset zs = add_mset (j, t) (mset (rd_zsets ?d ?k))" "sorted (map snd zs)"
        "answers rc D (rc_int rc i (Custom ''zadd'', [?k, string_of_int t, j])) (sv_redis s) 1
          (?d\<lparr>rd_zsets := (rd_zsets ?d)(?k := zs)\<rparr>)" by blast
    have "set_mset (mset zs) = set_mset (add_mset (j, t) (mset (rd_zsets ?d ?k)))" using zs(1) by simp
    then have "set zs = insert (j, t) (set (rd_zsets ?d ?k))" by simp
    moreover have "distinct (map fst zs)"
      using separated_keys(4) [OF keys(2) n] \<open>j \<notin> fst ` set (rd_zsets ?d ?k)\<close> by (simp add: distinct_fst_mset [OF zs(1)])
    ultimately show ?thesis
      by (intro exI conjI) (rule zadd_answers [OF zs(3)], rule refl, assumption, rule separated_later [OF keys(2) n _ zs(2)])
  qed
  obtain x s' where s': "rq_pushToLater rc al n j t s = (Inr x, s')" "?P x (D (sv_redis s'))" "redis_up rc D al s'"
    unfolding rq_pushToLater_def by (rule with_connection_up [OF up cmd])
  then obtain zs where zs: "D (sv_redis s') = ?d\<lparr>rd_zsets := (rd_zsets ?d)(?k := zs)\<rparr>"
      "set zs = insert (j, t) (set (rd_zsets ?d ?k))" by blast
  with that [of s'] s' redis_viewI(2) [OF zs(1)] show ?thesis by (simp add: v_later_def redis_view_sel)
qed

text \<open>What a pop takes from the data: the head of the list, else the first delayed member that is due.\<close>

definition popped :: "redis_data \<Rightarrow> string \<Rightarrow> string \<Rightarrow> int \<Rightarrow> string option \<times> redis_data" where
  "popped d k l now =
     (case rd_lists d k of
        x # xs \<Rightarrow> (Some x, d\<lparr>rd_lists := (rd_lists d)(k := xs)\<rparr>)
      | [] \<Rightarrow> (case rd_zsets d l of
                 [] \<Rightarrow> (None, d)
               | (m, sc) # zs \<Rightarrow>
                   if sc \<le> now then (Some m, d\<lparr>rd_zsets := (rd_zsets d)(l := zs)\<rparr>) else (None, d)))"

lemma popScript_answers:
  assumes doc: "redis_documented rc D" and "live rc r" and l: "is_zset_key (D r) l" and now: "rd_zsets (D r) l = [] \<or> exact now"
  shows "case rd_zsets (D r) l of
     [] \<Rightarrow> answers rc D (svc_eval (rc_array rc) i popScript [l] [string_of_int now]) r (Some []) (D r)
   | (m, sc) # zs \<Rightarrow>
       answers rc D (svc_eval (rc_array rc) i popScript [l] [string_of_int now]) r (Some (if sc \<le> now then [Some (Some m)] else []))
         (if sc \<le> now then (D r)\<lparr>rd_zsets := (rd_zsets (D r))(l := zs)\<rparr> else D r)"
proof -
  have "answers rc D (svc_eval (rc_array rc) i popScript [l] [string_of_int now]) r
      (Some (map (\<lambda>x. Some (Some x)) xs)) ((D r)\<lparr>rd_zsets := z\<rparr>)"
    if "run_script (zset_call [l]) popScript [l] [string_of_int now] (rd_zsets (D r)) = Some (VTab (map VStr xs), z)" for xs z
    using redis_documentedD(3) [OF doc, unfolded eval_doc_def, rule_format, of r "[l]" popScript "[string_of_int now]" xs z i]
      that assms(2) l by (simp add: svc_eval_def)
  from this [of "[]"] this [of "[fst (hd (rd_zsets (D r) l))]"] show ?thesis
    using popScript_run [of "rd_zsets (D r)" l now] l now by (auto simp: is_zset_key_def split: list.splits if_splits)
qed

lemma pop_later_answers:
  assumes doc: "redis_documented rc D" and "live rc r" and "is_zset_key (D r) l" and "rd_zsets (D r) l = [] \<or> exact now"
    and "rd_lists (D r) k = []"
  shows "answers rc D (pop_later rc i l now) r (fst (popped (D r) k l now)) (snd (popped (D r) k l now))"
  using popScript_answers [OF assms(1-4), of i] assms(5)
  by (auto simp: popped_def answers_def pop_later_def elem_bulk_def split: list.splits if_splits)

lemma pop_answers:
  assumes doc: "redis_documented rc D" and lv: "live rc r" and k: "is_list_key (D r) k" and l: "is_zset_key (D r) l"
    and wait: "rd_lists (D r) k \<noteq> [] \<or> 0 < t" and now: "rd_lists (D r) k \<noteq> [] \<or> rd_zsets (D r) l = [] \<or> exact now"
  shows "answers rc D (\<lambda>r. case blpop_inst rc i [k] t r of
         (Inl e, r1) \<Rightarrow> (Inl e, r1)
       | (Inr (Some kv), r1) \<Rightarrow> (Inr (Some (snd kv)), r1)
       | (Inr None, r1) \<Rightarrow> pop_later rc i l now r1) r (fst (popped (D r) k l now)) (snd (popped (D r) k l now))"
proof (cases "rd_lists (D r) k")
  case (Cons x xs)
  then show ?thesis
    using redis_documentedD(2) [OF doc, unfolded blpop_doc_def, rule_format, OF lv k, where i = i and t = t]
    by (auto simp: answers_def popped_def blpop_inst_def elem_bulk_def nullable_value_def)
next
  case Nil
  then obtain r1 where r1: "rc_array rc i (BLPop [k] t, []) r = (Inr None, r1)" "D r1 = D r" "live rc r1"
    using redis_documentedD(2) [OF doc, unfolded blpop_doc_def, rule_format, OF lv k, where i = i and t = t] wait
    by (auto simp: answers_def)
  then show ?thesis
    using pop_later_answers [OF doc, where r = r1 and l = l and now = now and k = k and i = i] l now Nil by (simp add: answers_def blpop_inst_def)
qed

lemma separated_popped:
  assumes "separated al d" and "sc_queue redis_scope n"
  shows "separated al (snd (popped d (al @ n) (al @ n @ '':later'') now))"
  using assms separated_keys(2,4) [OF assms] by (auto simp: popped_def is_zset_key_def intro!: separated_push separated_later split: list.split)

lemma redis_pop:
  assumes doc: "redis_documented rc D" and up: "redis_up rc D al s" and n: "sc_queue redis_scope n"
    and "rd_lists (D (sv_redis s)) (al @ n) \<noteq> [] \<or> 0 < t"
    and "rd_lists (D (sv_redis s)) (al @ n) \<noteq> [] \<or> rd_zsets (D (sv_redis s)) (al @ n @ '':later'') = [] \<or> exact now"
  shows "\<exists>s'. rq_pop rc al now n t s = (Inr (fst (popped (D (sv_redis s)) (al @ n) (al @ n @ '':later'') now)), s') \<and>
     D (sv_redis s') = snd (popped (D (sv_redis s)) (al @ n) (al @ n @ '':later'') now) \<and> redis_up rc D al s'"
proof -
  let ?p = "popped (D (sv_redis s)) (al @ n) (al @ n @ '':later'') now"
  note keys = redis_up_keys [OF up]
  note ans = pop_answers [OF doc keys(1) separated_keys(1) [OF keys(2) n] separated_keys(2) [OF keys(2) n] assms(4,5)]
  have cmd: "\<exists>x d. answers rc D (\<lambda>r. case blpop_inst rc i [al @ n] t r of
         (Inl e, r1) \<Rightarrow> (Inl e, r1)
       | (Inr (Some kv), r1) \<Rightarrow> (Inr (Some (snd kv)), r1)
       | (Inr None, r1) \<Rightarrow> pop_later rc i (al @ n @ '':later'') now r1) (sv_redis s) x d \<and> (x, d) = ?p \<and> separated al d" for i
    by (intro exI conjI) (rule ans, simp, rule separated_popped [OF keys(2) n])
  obtain x s' where "rq_pop rc al now n t s = (Inr x, s')" "(x, D (sv_redis s')) = ?p" "redis_up rc D al s'"
    unfolding rq_pop_def Let_def append_assoc by (rule with_connection_up [OF up cmd])
  then show ?thesis by (metis fst_conv snd_conv)
qed

lemma hash_reply:
  assumes "distinct (map fst kvs)"
  shows "hgetall_map (Some (concat (map (\<lambda>kv. [Some (Some (fst kv)), Some (Some (snd kv))]) kvs))) = Inr (map_of kvs)"
proof -
  have "map_of (rev kvs) = map_of kvs" using assms by (intro map_of_inject_set [THEN iffD2]) (simp_all add: rev_map [symmetric])
  then show ?thesis by (simp add: hgetall_map_pairs)
qed

lemma redis_get:
  assumes doc: "redis_documented rc D" and up: "redis_up rc D al s" and d: "stored (redis_view D al s) j = Some m"
  obtains s' where "rq_getPersistentData rc al j s = (Inr m, s')" and "redis_up rc D al s'"
    and "redis_view D al s' = redis_view D al s"
proof -
  note keys = redis_up_keys [OF up]
  have h: "rd_hashes (D (sv_redis s)) (al @ j) = Some m" using d by (simp add: redis_view_sel)
  have "answers rc D (\<lambda>r. hgetall_inst rc i (al @ j) r) (sv_redis s) m (D (sv_redis s))" for i
  proof -
    obtain kvs where "distinct (map fst kvs)" "map_of kvs = m" "answers rc D (rc_array rc i (HGetAll (al @ j), [])) (sv_redis s)
        (Some (concat (map (\<lambda>kv. [Some (Some (fst kv)), Some (Some (snd kv))]) kvs))) (D (sv_redis s))"
      using redis_documentedD(6) [OF doc, unfolded hgetall_doc_def] keys(1) h by blast
    then show ?thesis using hash_reply [of kvs] by (auto simp: answers_def hgetall_inst_def)
  qed
  then have cmd: "\<exists>x d. answers rc D (\<lambda>r. hgetall_inst rc i (al @ j) r) (sv_redis s) x d \<and> (x = m \<and> d = D (sv_redis s)) \<and>
      separated al d" for i using keys(2) by blast
  obtain x s' where "hgetall rc (al @ j) s = (Inr x, s')" "x = m \<and> D (sv_redis s') = D (sv_redis s)" "redis_up rc D al s'"
    unfolding hgetall_def by (rule with_connection_up [OF up cmd])
  with that [of s'] redis_viewI(4) [of D s' s] show ?thesis by (simp add: rq_getPersistentData_def)
qed

lemma redis_field:
  assumes doc: "redis_documented rc D" and up: "redis_up rc D al s" and d: "stored (redis_view D al s) j = Some m"
  obtains s' where "rq_getPersistentDataField rc al j f s = (Inr (m f), s')" and "redis_up rc D al s'"
    and "redis_view D al s' = redis_view D al s"
proof -
  note keys = redis_up_keys [OF up]
  have "rd_hashes (D (sv_redis s)) (al @ j) = Some m" using d by (simp add: redis_view_sel)
  then have "answers rc D (rc_bulk rc i (HGet (al @ j) f, [])) (sv_redis s) (m f) (D (sv_redis s))" for i
    using redis_documentedD(7) [OF doc, unfolded hget_doc_def] keys(1) by blast
  then have cmd: "\<exists>x d. answers rc D (rc_bulk rc i (HGet (al @ j) f, [])) (sv_redis s) x d \<and> (x = m f \<and> d = D (sv_redis s)) \<and>
      separated al d" for i using keys(2) by blast
  obtain x s' where "hget rc None (rc_bulk rc) (al @ j) f s = (Inr x, s')" "x = m f \<and> D (sv_redis s') = D (sv_redis s)"
      "redis_up rc D al s'"
    unfolding hget_def by (rule with_connection_up [OF up cmd])
  with that [of s'] redis_viewI(4) [of D s' s] show ?thesis by (simp add: rq_getPersistentDataField_def)
qed

lemma redis_set:
  assumes doc: "redis_documented rc D" and up: "redis_up rc D al s" and j: "sc_key redis_scope j"
    and ord: "enumerates ord" and d: "finite (dom d)" "d \<noteq> Map.empty"
  obtains s' where "rq_setPersistentData rc al j (ord d) s = (Inr (), s')" and "redis_up rc D al s'"
    and "redis_view D al s' = v_set j d (redis_view D al s)"
proof -
  note keys = redis_up_keys [OF up]
  let ?D = "D (sv_redis s)"
  let ?d = "?D\<lparr>rd_hashes := (rd_hashes ?D)(al @ j \<mapsto> hash_fields ?D (al @ j) ++ d)\<rparr>"
  have o: "distinct (map fst (ord d))" "map_of (ord d) = d" using ord d by (simp_all add: enumerates_def)
  then have "map_of (rev (ord d)) = d"
    using map_of_inject_set [of "rev (ord d)" "ord d"] by (simp add: rev_map [symmetric])
  moreover have "ord d \<noteq> []" using o d by auto
  ultimately have "\<exists>n. answers rc D (hset_inst rc i (al @ j) (ord d)) (sv_redis s) n ?d" for i
    using redis_documentedD(5) [OF doc, unfolded hset_doc_def] keys(1) separated_keys(3) [OF keys(2) j] by metis
  then have cmd: "\<exists>x e. answers rc D (hset_inst rc i (al @ j) (ord d)) (sv_redis s) x e \<and> e = ?d \<and> separated al e" for i
    using separated_hash [OF keys(2) j] by blast
  obtain x s' where "hset rc (al @ j) (ord d) s = (Inr x, s')" "D (sv_redis s') = ?d" "redis_up rc D al s'"
    unfolding hset_def by (rule with_connection_up [OF up cmd])
  with that [of s'] redis_viewI(3) [of D s' s] show ?thesis
    by (simp add: rq_setPersistentData_def v_set_def redis_view_sel hash_fields_def)
qed

lemma redis_del:
  assumes doc: "redis_documented rc D" and up: "redis_up rc D al s" and j: "sc_key redis_scope j"
  obtains s' where "rq_delPersistentData rc al j s = (Inr (), s')" and "redis_up rc D al s'"
    and "redis_view D al s' = v_del j (redis_view D al s)"
proof -
  note keys = redis_up_keys [OF up]
  let ?d = "(D (sv_redis s))\<lparr>rd_hashes := (rd_hashes (D (sv_redis s)))(al @ j := None)\<rparr>"
  have "\<exists>n. answers rc D (rc_int rc i (Del [al @ j], [])) (sv_redis s) n ?d" for i
    using redis_documentedD(8) [OF doc, unfolded del_doc_def] keys(1) separated_keys(3) [OF keys(2) j] by blast
  then have cmd: "\<exists>x e. answers rc D (rc_int rc i (Del [al @ j], [])) (sv_redis s) x e \<and> e = ?d \<and> separated al e" for i
    using separated_hash [OF keys(2) j] by blast
  obtain x s' where "del_keys rc [al @ j] s = (Inr x, s')" "D (sv_redis s') = ?d" "redis_up rc D al s'"
    unfolding del_keys_def by (rule with_connection_up [OF up cmd])
  with that [of s'] redis_viewI(3) [of D s' s] show ?thesis by (simp add: rq_delPersistentData_def v_del_def)
qed

lemma redis_expire:
  assumes doc: "redis_documented rc D" and up: "redis_up rc D al s" and t: "0 < t"
  obtains b s' where "rq_expire rc al j t s = (Inr b, s')" and "redis_up rc D al s'"
    and "redis_view D al s' = redis_view D al s"
proof -
  note keys = redis_up_keys [OF up]
  have cmd: "\<exists>x d. answers rc D (rc_int rc i (Custom ''expire'', [al @ j, string_of_int t])) (sv_redis s) x d \<and>
      d = D (sv_redis s) \<and> separated al d" for i
    using redis_documentedD(9) [OF doc, unfolded expire_doc_def] keys t by blast
  obtain x s' where "cmd rc 0 (rc_int rc) ''expire'' [al @ j, string_of_int t] s = (Inr x, s')"
      "D (sv_redis s') = D (sv_redis s)" "redis_up rc D al s'"
    unfolding cmd_def by (rule with_connection_up [OF up cmd])
  with that [of "x \<noteq> 0" s'] redis_viewI(4) [of D s' s] show ?thesis by (simp add: rq_expire_def)
qed

section \<open>The contract\<close>

lemma redis_vtable_sel [simp]:
  "gq_push (redis_vtable rc al clk ord) = rq_push rc al"
  "gq_pushToLater (redis_vtable rc al clk ord) = rq_pushToLater rc al"
  "gq_pop (redis_vtable rc al clk ord) n t s = rq_pop rc al (clk s) n t s"
  "gq_getPersistentData (redis_vtable rc al clk ord) = rq_getPersistentData rc al"
  "gq_getPersistentDataField (redis_vtable rc al clk ord) = rq_getPersistentDataField rc al"
  "gq_setPersistentData (redis_vtable rc al clk ord) k d = rq_setPersistentData rc al k (ord d)"
  "gq_delPersistentData (redis_vtable rc al clk ord) = rq_delPersistentData rc al"
  "gq_expire (redis_vtable rc al clk ord) = rq_expire rc al"
  by (simp_all add: redis_vtable_def)

lemma redis_job_queue:
  assumes doc: "redis_documented rc D" and ord: "enumerates ord"
  shows "job_queue (redis_vtable rc al clk ord) (redis_up rc D al) (redis_view D al) redis_scope"
proof
  fix s :: "'a service" and n j js and t :: int
  assume up: "redis_up rc D al s" and n: "sc_queue redis_scope n" and r: "ready (redis_view D al s) n = j # js"
  then have l: "rd_lists (D (sv_redis s)) (al @ n) = j # js" by (simp add: redis_view_sel)
  have "rd_lists (D (sv_redis s)) (al @ n) \<noteq> [] \<or> 0 < t"
      "rd_lists (D (sv_redis s)) (al @ n) \<noteq> [] \<or> rd_zsets (D (sv_redis s)) (al @ n @ '':later'') = [] \<or> exact (clk s)"
    using l by simp_all
  from redis_pop [OF doc up n this] obtain s' where "rq_pop rc al (clk s) n t s = (Inr (Some j), s')" "redis_up rc D al s'"
      "D (sv_redis s') = (D (sv_redis s))\<lparr>rd_lists := (rd_lists (D (sv_redis s)))(al @ n := js)\<rparr>"
    by (simp add: popped_def l) blast
  with redis_viewI(1) [of D s' s al n js]
  show "\<exists>q'. gq_pop (redis_vtable rc al clk ord) n t s = (Inr (Some j), q') \<and> redis_up rc D al q' \<and>
      redis_view D al q' = (redis_view D al s)\<lparr>ready := (ready (redis_view D al s))(n := js)\<rparr>"
    by simp
next
  fix s :: "'a service" and n and t :: int
  assume up: "redis_up rc D al s" and n: "sc_queue redis_scope n" and t: "sc_secs redis_scope t"
    and r: "ready (redis_view D al s) n = []" "later (redis_view D al s) n = {}"
  then have l: "rd_lists (D (sv_redis s)) (al @ n) = []" "rd_zsets (D (sv_redis s)) (al @ n @ '':later'') = []" "0 < t"
    by (simp_all add: redis_view_sel redis_scope_def)
  then have "rd_lists (D (sv_redis s)) (al @ n) \<noteq> [] \<or> 0 < t"
      "rd_lists (D (sv_redis s)) (al @ n) \<noteq> [] \<or> rd_zsets (D (sv_redis s)) (al @ n @ '':later'') = [] \<or> exact (clk s)"
    by simp_all
  from redis_pop [OF doc up n this] obtain s' where "rq_pop rc al (clk s) n t s = (Inr None, s')" "redis_up rc D al s'"
      "D (sv_redis s') = D (sv_redis s)"
    by (simp add: popped_def l) blast
  with redis_viewI(4) [of D s' s al]
  show "\<exists>q'. gq_pop (redis_vtable rc al clk ord) n t s = (Inr None, q') \<and> redis_up rc D al q' \<and>
      redis_view D al q' = redis_view D al s"
    by simp
next
  fix s :: "'a service" and n j
  assume "redis_up rc D al s" "sc_queue redis_scope n"
  from redis_push [OF doc this, of j] show "\<exists>q'. gq_push (redis_vtable rc al clk ord) n j s = (Inr (), q') \<and>
      redis_up rc D al q' \<and> redis_view D al q' = v_push n j (redis_view D al s)" by auto
next
  fix s :: "'a service" and n j t
  assume "redis_up rc D al s" "sc_queue redis_scope n" "sc_time redis_scope t" "\<forall>t'. (j, t') \<notin> later (redis_view D al s) n"
  from redis_later [OF doc this] show "\<exists>q'. gq_pushToLater (redis_vtable rc al clk ord) n j t s = (Inr (), q') \<and>
      redis_up rc D al q' \<and> redis_view D al q' = v_later n j t (redis_view D al s)" by auto
next
  fix s :: "'a service" and j d
  assume "redis_up rc D al s" "stored (redis_view D al s) j = Some d"
  from redis_get [OF doc this] show "\<exists>q'. gq_getPersistentData (redis_vtable rc al clk ord) j s = (Inr d, q') \<and>
      redis_up rc D al q' \<and> redis_view D al q' = redis_view D al s" by auto
next
  fix s :: "'a service" and j d f
  assume "redis_up rc D al s" "stored (redis_view D al s) j = Some d"
  from redis_field [OF doc this, of f] show "\<exists>q'. gq_getPersistentDataField (redis_vtable rc al clk ord) j f s = (Inr (d f), q') \<and>
      redis_up rc D al q' \<and> redis_view D al q' = redis_view D al s" by auto
next
  fix s :: "'a service" and j and d :: datamap_t
  assume "redis_up rc D al s" "sc_key redis_scope j" "finite (dom d)" "d \<noteq> Map.empty"
  from redis_set [OF doc this(1,2) ord this(3,4)] show "\<exists>q'. gq_setPersistentData (redis_vtable rc al clk ord) j d s = (Inr (), q') \<and>
      redis_up rc D al q' \<and> redis_view D al q' = v_set j d (redis_view D al s)" by auto
next
  fix s :: "'a service" and j
  assume "redis_up rc D al s" "sc_key redis_scope j"
  from redis_del [OF doc this] show "\<exists>q'. gq_delPersistentData (redis_vtable rc al clk ord) j s = (Inr (), q') \<and>
      redis_up rc D al q' \<and> redis_view D al q' = v_del j (redis_view D al s)" by auto
next
  fix s :: "'a service" and j and t :: int
  assume up: "redis_up rc D al s" and "sc_secs redis_scope t"
  then have "0 < t" by (simp add: redis_scope_def)
  from redis_expire [OF doc up this, of j] show "\<exists>b q'. gq_expire (redis_vtable rc al clk ord) j t s = (Inr b, q') \<and> redis_up rc D al q' \<and>
      redis_view D al q' = redis_view D al s"
    by simp blast
qed

lemma redis_delayed_queue:
  assumes doc: "redis_documented rc D" and ord: "enumerates ord"
  shows "delayed_queue (redis_vtable rc al clk ord) (redis_up rc D al) (redis_view D al) redis_scope clk"
proof (rule delayed_queue.intro [OF redis_job_queue [OF doc ord]], rule delayed_queue_axioms.intro)
  fix s :: "'a service" and n and t :: int
  assume up: "redis_up rc D al s" and n: "sc_queue redis_scope n" and t: "sc_secs redis_scope t"
    and now: "sc_time redis_scope (clk s)" and r: "ready (redis_view D al s) n = []"
  let ?z = "rd_zsets (D (sv_redis s)) (al @ n @ '':later'')"
  have l: "rd_lists (D (sv_redis s)) (al @ n) = []" using r by (simp add: redis_view_sel)
  have "rd_lists (D (sv_redis s)) (al @ n) \<noteq> [] \<or> 0 < t" "rd_lists (D (sv_redis s)) (al @ n) \<noteq> [] \<or> ?z = [] \<or> exact (clk s)"
    using t now by (simp_all add: redis_scope_def)
  from redis_pop [OF doc up n this] obtain s' where
      s': "rq_pop rc al (clk s) n t s = (Inr (fst (popped (D (sv_redis s)) (al @ n) (al @ n @ '':later'') (clk s))), s')"
      "D (sv_redis s') = snd (popped (D (sv_redis s)) (al @ n) (al @ n @ '':later'') (clk s))" "redis_up rc D al s'" by blast
  have dist: "distinct (map fst ?z)" using separated_keys(4) [OF redis_up_keys(2) [OF up] n] .
  show "\<exists>x s'. gq_pop (redis_vtable rc al clk ord) n t s = (Inr x, s') \<and> redis_up rc D al s' \<and>
      (case x of
         None \<Rightarrow> redis_view D al s' = redis_view D al s
       | Some j \<Rightarrow> \<exists>sc. (j, sc) \<in> later (redis_view D al s) n \<and> sc \<le> clk s \<and>
           redis_view D al s' = (redis_view D al s)\<lparr>later := (later (redis_view D al s))(n := later (redis_view D al s) n - {(j, sc)})\<rparr>)"
  proof (cases "?z = [] \<or> \<not> snd (hd ?z) \<le> clk s")
    case True
    then have "popped (D (sv_redis s)) (al @ n) (al @ n @ '':later'') (clk s) = (None, D (sv_redis s))"
      using l by (auto simp: popped_def split: list.split)
    with s' redis_viewI(4) [of D s' s al] show ?thesis by simp
  next
    case False
    then obtain j sc zs where z: "?z = (j, sc) # zs" "sc \<le> clk s" by (cases ?z) auto
    then have p: "popped (D (sv_redis s)) (al @ n) (al @ n @ '':later'') (clk s) =
        (Some j, (D (sv_redis s))\<lparr>rd_zsets := (rd_zsets (D (sv_redis s)))(al @ n @ '':later'' := zs)\<rparr>)"
      using l by (simp add: popped_def)
    have "j \<notin> fst ` set zs" using dist z by simp
    then have "(j, sc) \<notin> set zs" by (metis fst_conv image_eqI)
    then have zs: "set zs = later (redis_view D al s) n - {(j, sc)}" using z by (auto simp: redis_view_sel)
    have "D (sv_redis s') = (D (sv_redis s))\<lparr>rd_zsets := (rd_zsets (D (sv_redis s)))(al @ n @ '':later'' := zs)\<rparr>"
      using s'(2) p by simp
    from redis_viewI(2) [OF this] have v: "redis_view D al s' = (redis_view D al s)
        \<lparr>later := (later (redis_view D al s))(n := later (redis_view D al s) n - {(j, sc)})\<rparr>" unfolding zs .
    have "(j, sc) \<in> later (redis_view D al s) n" using z by (simp add: redis_view_sel)
    then show ?thesis
      using s'(1,3) p v z(2) by (intro exI [of _ "Some j"] exI [of _ s'] conjI) (simp_all, blast)
  qed
qed

section \<open>The order of popping\<close>

lemma popped_earliest:
  assumes "sorted (map snd (rd_zsets d l))" and "rd_lists d k = []"
  shows "case fst (popped d k l now) of
     None \<Rightarrow> \<forall>(m, sc) \<in> set (rd_zsets d l). now < sc
   | Some m \<Rightarrow> \<exists>sc. (m, sc) \<in> set (rd_zsets d l) \<and> sc \<le> now \<and> (\<forall>(m', sc') \<in> set (rd_zsets d l). sc \<le> sc')"
  using assms by (cases "rd_zsets d l") (fastforce simp: popped_def)+

text \<open>C19: over a Redis server that runs scripts by the rules of Lua and keeps the documentation of the
  commands, a pop gives and takes what the data says: the oldest entry that waits in the queue; only when
  none waits, the first entry of the delayed set, taken out of it, if its time has come; and otherwise
  nothing. Nothing else of the server's data changes. A delayed entry that comes out has the least time
  of the set, and none comes out only when the time of every one is still to come.\<close>

theorem redis_pop_order:
  assumes "redis_documented rc D" and "redis_up rc D al s" and "sc_queue redis_scope queue"
    and "0 < timeout" and "exact now"
  shows "\<exists>s'. rq_pop rc al now queue timeout s =
       (Inr (fst (popped (D (sv_redis s)) (al @ queue) (al @ queue @ '':later'') now)), s') \<and>
     D (sv_redis s') = snd (popped (D (sv_redis s)) (al @ queue) (al @ queue @ '':later'') now) \<and> redis_up rc D al s' \<and>
     (rd_lists (D (sv_redis s)) (al @ queue) = [] \<longrightarrow>
        (case fst (popped (D (sv_redis s)) (al @ queue) (al @ queue @ '':later'') now) of
           None \<Rightarrow> \<forall>(m, sc) \<in> set (rd_zsets (D (sv_redis s)) (al @ queue @ '':later'')). now < sc
         | Some m \<Rightarrow> \<exists>sc. (m, sc) \<in> set (rd_zsets (D (sv_redis s)) (al @ queue @ '':later'')) \<and> sc \<le> now \<and>
             (\<forall>(m', sc') \<in> set (rd_zsets (D (sv_redis s)) (al @ queue @ '':later'')). sc \<le> sc')))"
proof -
  have "sorted (map snd (rd_zsets (D (sv_redis s)) (al @ queue @ '':later'')))"
    using separated_keys(2) [OF redis_up_keys(2) [OF assms(2)] assms(3)] by (simp add: is_zset_key_def)
  note popped_earliest [OF this, of "al @ queue" now]
  moreover note redis_pop [OF assms(1-3), of timeout now] assms(4,5)
  ultimately show ?thesis by simp
qed

definition mini_service :: "mini_redis service" where
  "mini_service = new_service_replicas 1 [(''h'', 6379)] []
     (mini_init\<lparr>mr_zsets := (\<lambda>k. if k = ''q:later'' then [(''job'', 50)] else [])\<rparr>)"

definition empty_service :: "mini_redis service" where
  "empty_service = new_service_replicas 1 [(''h'', 6379)] [] mini_init"

lemma queue_q: "sc_queue redis_scope ''q''"
  by (simp add: redis_scope_def starts_with_def)

lemma empty_up: "redis_up mini_client mini_data al empty_service"
  by (auto simp: redis_up_def empty_service_def new_service_replicas_def pool_ok_def new_pool_def taken_def live_mini mini_init_def
      separated_def is_list_key_def is_zset_key_def is_hash_key_def intro: exI [of _ False])

lemma mini_up: "redis_up mini_client mini_data [] mini_service"
proof -
  have "redis_up mini_client mini_data [] empty_service" by (rule empty_up)
  moreover have "mini_data (sv_redis mini_service) = (mini_data (sv_redis empty_service))
      \<lparr>rd_zsets := (rd_zsets (mini_data (sv_redis empty_service)))([] @ ''q'' @ '':later'' := [(''job'', 50)])\<rparr>"
    by (simp add: mini_service_def empty_service_def new_service_replicas_def mini_init_def mini_data_def fun_eq_iff)
  ultimately show ?thesis
    using separated_later [OF _ queue_q, of "[]" "mini_data (sv_redis empty_service)" "[(''job'', 50)]"]
    by (simp add: redis_up_def) (simp add: mini_service_def empty_service_def new_service_replicas_def live_mini mini_init_def)
qed

theorem redis_pop_order_witness:
  "\<exists>s'. rq_pop mini_client [] 60 ''q'' 1 mini_service =
       (Inr (fst (popped (mini_data (sv_redis mini_service)) ([] @ ''q'') ([] @ ''q'' @ '':later'') 60)), s') \<and>
     mini_data (sv_redis s') = snd (popped (mini_data (sv_redis mini_service)) ([] @ ''q'') ([] @ ''q'' @ '':later'') 60) \<and>
     redis_up mini_client mini_data [] s' \<and>
     (rd_lists (mini_data (sv_redis mini_service)) ([] @ ''q'') = [] \<longrightarrow>
        (case fst (popped (mini_data (sv_redis mini_service)) ([] @ ''q'') ([] @ ''q'' @ '':later'') 60) of
           None \<Rightarrow> \<forall>(m, sc) \<in> set (rd_zsets (mini_data (sv_redis mini_service)) ([] @ ''q'' @ '':later'')). 60 < sc
         | Some m \<Rightarrow> \<exists>sc. (m, sc) \<in> set (rd_zsets (mini_data (sv_redis mini_service)) ([] @ ''q'' @ '':later'')) \<and> sc \<le> 60 \<and>
             (\<forall>(m', sc') \<in> set (rd_zsets (mini_data (sv_redis mini_service)) ([] @ ''q'' @ '':later'')). sc \<le> sc')))"
  by (rule redis_pop_order [OF mini_documented mini_up queue_q]) (simp_all add: exact_def)

section \<open>The worker over Redis\<close>

text \<open>The worker keeps its promise over Redis as well: a job pushed through the Redis queue that
  throws on every run is attempted exactly \<open>maxtries\<close> times and then leaves its list on the server,
  where its record stays with the payload it was pushed with. The server is any that keeps Redis's
  documentation, with some free connection; the queue is named apart from records and delayed sets.\<close>

theorem redis_failing_job_runs_maxtries_times:
  fixes env :: "('r service, 'p) worker_env" and w :: "'r service worker"
  assumes redis: "redis_documented rc D" "enumerates ord"
    and env: "we_vtable env = redis_vtable rc al clk ord" "same_world env envs" "poco_documented (we_poco env)"
    and cls: "we_joblist env typeName = Some cls" "always_throws cls" "restores_counters cls j"
      "cls_getName cls j \<noteq> []"
    and json: "reads_back (we_poco env) (pushed_payload typeName cls j uuid)"
    and w: "running w" "\<not> forkToHandle w" "metricsCallback w" "0 < jobLogExpireSeconds w" "0 < queueTimeout w"
    and q: "redis_up rc D al (wk_queue w)" "sc_queue redis_scope queue"
      "rd_lists (D (sv_redis (wk_queue w))) (al @ queue) = []"
      "rd_zsets (D (sv_redis (wk_queue w))) (al @ queue @ '':later'') = []"
      "rd_hashes (D (sv_redis (wk_queue w))) (al @ job_key uuid) = None"
    and m: "maxtries j \<noteq> 0" "unat (maxtries j) \<le> length envs"
  shows "\<exists>w1 w2 d. wk_push env w queue typeName cls j 0 uuid now = (Inr uuid, w1) \<and>
     loop envs w1 queue = (Ret (), w2) \<and>
     rd_lists (D (sv_redis (wk_queue w2))) (al @ queue) = [] \<and>
     started_count w2 = started_count w + unat (maxtries j) \<and>
     rd_hashes (D (sv_redis (wk_queue w2))) (al @ job_key uuid) = Some d \<and>
     Inr (the (d ''payload'')) = JsonToString (we_poco env) (JObj (pushed_payload typeName cls j uuid)) \<and>
     last (events w2) = JobRemoved queue (cls_getName cls j) uuid errorremove (maxtries j - 1)"
proof -
  have "sc_key redis_scope (job_key uuid)" by (simp add: redis_scope_def job_key_def starts_with_def)
  then show ?thesis
    using job_queue.push_then_fail [OF redis_job_queue [OF redis, of al clk] env cls json w(1-3), of queue now] w(4,5) q m
    by (simp add: redis_view_sel) (simp add: redis_scope_def)
qed

definition field_order :: "datamap_t \<Rightarrow> (string \<times> string) list" where
  "field_order d = map (\<lambda>k. (k, the (d k))) (sorted_list_of_set (dom d))"

lemma field_order_enumerates: "enumerates field_order"
  by (auto simp: enumerates_def field_order_def comp_def map_of_map_keys)

definition redis_env :: "(mini_redis service, unit) worker_env" where
  "redis_env = \<lparr>we_vtable = redis_vtable mini_client ''app:'' (\<lambda>s. 60) field_order, we_poco = sample_poco,
     we_joblist = [''Boom'' \<mapsto> failing_class], we_file = ''JobsHandler.cpp'', we_tmpdir = Inr ''/tmp'',
     we_can_open = (\<lambda>n. True), we_fork = 0, we_wait = (\<lambda>pid. (exited, 0)), we_now = 100, we_steady_now = 5,
     we_started = (\<lambda>q c u t. 7)\<rparr>"

definition redis_worker :: "mini_redis service worker" where
  "redis_worker = setMetricsCallback True (new_worker empty_service)"

theorem redis_failing_job_runs_maxtries_times_witness:
  "\<exists>w1 w2 d. wk_push redis_env redis_worker ''q'' ''Boom'' failing_class (new_job ()) 0 ''u1'' 9 = (Inr ''u1'', w1) \<and>
     loop (replicate 5 redis_env) w1 ''q'' = (Ret (), w2) \<and>
     rd_lists (mini_data (sv_redis (wk_queue w2))) (''app:'' @ ''q'') = [] \<and>
     started_count w2 = started_count redis_worker + unat (maxtries (new_job ())) \<and>
     rd_hashes (mini_data (sv_redis (wk_queue w2))) (''app:'' @ job_key ''u1'') = Some d \<and>
     Inr (the (d ''payload'')) = JsonToString (we_poco redis_env)
       (JObj (pushed_payload ''Boom'' failing_class (new_job ()) ''u1'')) \<and>
     last (events w2) = JobRemoved ''q'' (cls_getName failing_class (new_job ())) ''u1'' errorremove
       (maxtries (new_job ()) - 1)"
  by (rule redis_failing_job_runs_maxtries_times [OF mini_documented field_order_enumerates])
    (use sample_restores sample_poco_documented sample_always_throws sample_reads_back empty_up queue_q in
      \<open>simp_all add: redis_env_def same_world_def sample_json_def redis_worker_def new_worker_def
        setMetricsCallback_def new_job_def empty_service_def new_service_replicas_def mini_init_def\<close>)

end
