(* ===== verification/WebSocketFrame.thy ===== *)
theory WebSocketFrame
  imports Prelude
begin

text \<open>
  The frame reader of the WebSocket endpoint (src/src/WebSocket/WebSocketHandler.hpp and .cpp):
  \<open>frame::receiveData\<close> as a byte driven state machine and \<open>onInput\<close>, which hands complete frames
  to the message callback. A failed \<open>assert\<close> is the outcome \<open>WAbort\<close>, a throw of
  \<open>payload.resize\<close> is \<open>WThrow\<close>; the argument \<open>alloc\<close> says which sizes can be allocated.
\<close>

section \<open>State\<close>

record ws_frame =
  wf_flags :: int
  wf_lenByte :: int
  wf_size :: u64
  wf_mask :: string
  readingState :: nat
  wf_payload :: string
  bufferPos :: nat
  bufferTmp :: string
  useMask :: bool

definition new_frame :: ws_frame where
  "new_frame = \<lparr>wf_flags = 0, wf_lenByte = 0, wf_size = 0, wf_mask = replicate 4 (CHR 0x00), readingState = 0,
     wf_payload = [], bufferPos = 0, bufferTmp = replicate 16 (CHR 0x00), useMask = False\<rparr>"

datatype 'a ws = WOk 'a | WAbort | WThrow exn

section \<open>Receiving\<close>

definition xor_char :: "char \<Rightarrow> char \<Rightarrow> char" where
  "xor_char a b = char_of (xor (byte a) (byte b))"

text \<open>The value of big endian bytes in memory, as \<open>be16toh\<close> and \<open>be64toh\<close> read them.\<close>

definition be_value :: "string \<Rightarrow> nat" where
  "be_value bs = foldl (\<lambda>a b. 256 * a + byte b) 0 bs"

text \<open>The new state after one turn of the loop, whether it took the byte, and \<open>done\<close>.\<close>

definition length_byte :: "char \<Rightarrow> ws_frame \<Rightarrow> ws_frame" where
  "length_byte c fr =
     (let fr1 = fr\<lparr>bufferTmp := (bufferTmp fr)[bufferPos fr := c], bufferPos := bufferPos fr + 1\<rparr> in
      if bufferPos fr1 = 8 \<and> wf_size fr1 = 127 then
        fr1\<lparr>wf_size := of_nat (be_value (take 8 (bufferTmp fr1))), readingState := readingState fr + 1, bufferPos := 0\<rparr>
      else if bufferPos fr1 = 2 \<and> wf_size fr1 = 126 then
        fr1\<lparr>wf_size := of_nat (be_value (take 2 (bufferTmp fr1))), readingState := readingState fr + 1, bufferPos := 0\<rparr>
      else fr1)"

definition mask_byte :: "char \<Rightarrow> ws_frame \<Rightarrow> ws_frame" where
  "mask_byte c fr =
     (let fr1 = fr\<lparr>bufferTmp := (bufferTmp fr)[bufferPos fr := c], bufferPos := bufferPos fr + 1\<rparr> in
      if bufferPos fr1 = 4 then fr1\<lparr>wf_mask := take 4 (bufferTmp fr1), readingState := readingState fr + 1, bufferPos := 0\<rparr>
      else fr1)"

definition resize :: "string \<Rightarrow> nat \<Rightarrow> string" where
  "resize s n = take n s @ replicate (n - length s) (CHR 0x00)"

definition frame_step :: "(u64 \<Rightarrow> bool) \<Rightarrow> char \<Rightarrow> ws_frame \<Rightarrow> (ws_frame \<times> bool \<times> bool) ws" where
  "frame_step alloc c fr =
     (if readingState fr = 0 then WOk (fr\<lparr>wf_flags := int (byte c), readingState := 1\<rparr>, True, False)
      else if readingState fr = 1 then
        WOk (fr\<lparr>wf_lenByte := int (byte c), useMask := byte c \<ge> 128, wf_size := of_nat (byte c mod 128),
               readingState := 2, bufferPos := 0\<rparr>, True, False)
      else if readingState fr = 2 then
        (if wf_size fr = 126 \<or> wf_size fr = 127 then WOk (length_byte c fr, True, False)
         else WOk (fr\<lparr>readingState := 3, bufferPos := 0\<rparr>, False, False))
      else if readingState fr = 3 then
        (if useMask fr then WOk (mask_byte c fr, True, False)
         else WOk (fr\<lparr>readingState := 4\<rparr>, False, False))
      else if readingState fr = 4 then
        (if alloc (wf_size fr)
         then WOk (fr\<lparr>wf_payload := resize (wf_payload fr) (unat (wf_size fr)), readingState := 5, bufferPos := 0\<rparr>,
                   False, False)
         else WThrow (StdExn Length_error ''basic_string::_M_replace_aux''))
      else
        (if unat (wf_size fr) \<noteq> length (wf_payload fr) \<or> length (wf_payload fr) \<le> bufferPos fr then WAbort
         else (let fr1 = fr\<lparr>wf_payload := (wf_payload fr)[bufferPos fr := c], bufferPos := bufferPos fr + 1\<rparr>
               in WOk (fr1, True, bufferPos fr1 = unat (wf_size fr)))))"

lemma frame_step_silent:
  assumes "frame_step alloc c fr = WOk (fr', False, d)"
  shows "readingState fr < 5 \<and> readingState fr' = Suc (readingState fr) \<and> \<not> d"
  using assms by (auto simp: frame_step_def Let_def split: if_splits)

function recv_loop :: "(u64 \<Rightarrow> bool) \<Rightarrow> ws_frame \<Rightarrow> nat \<Rightarrow> string \<Rightarrow> (ws_frame \<times> nat \<times> bool) ws" where
  "recv_loop alloc fr off [] = WOk (fr, off, False)"
| "recv_loop alloc fr off (c # cs) =
     (case frame_step alloc c fr of
        WOk (fr', True, True) \<Rightarrow> WOk (fr', off + 1, True)
      | WOk (fr', True, False) \<Rightarrow> recv_loop alloc fr' (off + 1) cs
      | WOk (fr', False, True) \<Rightarrow> WOk (fr', off, True)
      | WOk (fr', False, False) \<Rightarrow> recv_loop alloc fr' off (c # cs)
      | WAbort \<Rightarrow> WAbort
      | WThrow e \<Rightarrow> WThrow e)"
  by pat_completeness auto
termination
  by (relation "measure (\<lambda>(alloc, fr, off, cs). 6 * length cs + (5 - readingState fr))")
    (auto dest: frame_step_silent)

declare recv_loop.simps(2) [simp del]

definition unmask :: "ws_frame \<Rightarrow> ws_frame" where
  "unmask fr = (if useMask fr
     then fr\<lparr>wf_payload := map (\<lambda>i. xor_char (wf_payload fr ! i) (wf_mask fr ! (i mod 4))) [0..<length (wf_payload fr)]\<rparr>
     else fr)"

definition receiveData :: "(u64 \<Rightarrow> bool) \<Rightarrow> ws_frame \<Rightarrow> string \<Rightarrow> (ws_frame \<times> nat \<times> bool) ws" where
  "receiveData alloc fr buffer =
     (case recv_loop alloc fr 0 buffer of
        WOk (fr', off, True) \<Rightarrow> WOk (unmask (fr'\<lparr>readingState := 0, bufferPos := 0\<rparr>), off, True)
      | r \<Rightarrow> r)"

text \<open>\<open>onInput\<close>: the frames given to \<open>onMessage\<close> so far, the frame state, and \<open>inBufferOffset\<close>,
  which each turn overwrites with the count of bytes the last call took. \<open>None\<close> is a run that
  never returns.\<close>

partial_function (option) onInput_loop ::
  "(u64 \<Rightarrow> bool) \<Rightarrow> string \<Rightarrow> ws_frame \<Rightarrow> ws_frame list \<Rightarrow> nat \<Rightarrow> (ws_frame \<times> ws_frame list) ws option" where
  "onInput_loop alloc buffer fr msgs inBufferOffset =
     (case receiveData alloc fr (drop inBufferOffset buffer) of
        WOk (fr1, off, done) \<Rightarrow>
          (if \<not> done then Some (WOk (fr1, msgs))
           else if off < length buffer
           then onInput_loop alloc buffer (fr1\<lparr>wf_flags := 0, wf_lenByte := 0\<rparr>) (msgs @ [fr1]) off
           else Some (WOk (fr1\<lparr>wf_flags := 0, wf_lenByte := 0\<rparr>, msgs @ [fr1])))
      | WAbort \<Rightarrow> Some WAbort
      | WThrow e \<Rightarrow> Some (WThrow e))"

definition onInput :: "(u64 \<Rightarrow> bool) \<Rightarrow> ws_frame \<Rightarrow> string \<Rightarrow> (ws_frame \<times> ws_frame list) ws option" where
  "onInput alloc fr buffer = onInput_loop alloc buffer fr [] 0"

section \<open>Chunks\<close>

lemma recv_loop_Cons:
  "frame_step alloc c fr = WOk (fr', True, True) \<Longrightarrow> recv_loop alloc fr off (c # cs) = WOk (fr', off + 1, True)"
  "frame_step alloc c fr = WOk (fr', True, False) \<Longrightarrow> recv_loop alloc fr off (c # cs) = recv_loop alloc fr' (off + 1) cs"
  "frame_step alloc c fr = WOk (fr', False, False) \<Longrightarrow> recv_loop alloc fr off (c # cs) = recv_loop alloc fr' off (c # cs)"
  "frame_step alloc c fr = WAbort \<Longrightarrow> recv_loop alloc fr off (c # cs) = WAbort"
  "frame_step alloc c fr = WThrow e \<Longrightarrow> recv_loop alloc fr off (c # cs) = WThrow e"
  by (simp_all add: recv_loop.simps(2) [of alloc fr off])

lemma frame_step_cases:
  obtains (last) fr' where "frame_step alloc c fr = WOk (fr', True, True)"
  | (took) fr' where "frame_step alloc c fr = WOk (fr', True, False)"
  | (silent) fr' where "frame_step alloc c fr = WOk (fr', False, False)"
  | (abort) "frame_step alloc c fr = WAbort"
  | (throw) e where "frame_step alloc c fr = WThrow e"
proof (cases "frame_step alloc c fr")
  case (WOk x)
  obtain fr' consumed d where "x = (fr', consumed, d)" by (cases x)
  with WOk that(1-3) frame_step_silent [of alloc c fr fr' d] show ?thesis by (cases consumed; cases d) auto
qed (use that in auto)

lemma recv_induct [case_names Nil Cons]:
  assumes "\<And>fr off. P fr off []"
    and "\<And>fr off c cs. (\<And>fr'. frame_step alloc c fr = WOk (fr', True, False) \<Longrightarrow> P fr' (off + 1) cs) \<Longrightarrow>
      (\<And>fr'. frame_step alloc c fr = WOk (fr', False, False) \<Longrightarrow> P fr' off (c # cs)) \<Longrightarrow> P fr off (c # cs)"
  shows "P fr off cs"
proof (induction "6 * length cs + (5 - readingState fr)" arbitrary: fr off cs rule: less_induct)
  case less
  show ?case
  proof (cases cs)
    case Nil
    then show ?thesis using assms(1) by simp
  next
    case (Cons c cs')
    show ?thesis
      unfolding Cons
    proof (rule assms(2))
      fix fr' assume "frame_step alloc c fr = WOk (fr', True, False)"
      show "P fr' (off + 1) cs'" by (rule less) (simp add: Cons)
    next
      fix fr' assume "frame_step alloc c fr = WOk (fr', False, False)"
      then show "P fr' off (c # cs')" by (intro less) (auto simp: Cons dest: frame_step_silent)
    qed
  qed
qed

lemma recv_loop_off:
  "recv_loop alloc fr (k + off) cs =
     (case recv_loop alloc fr off cs of WOk (fr', n, d) \<Rightarrow> WOk (fr', k + n, d) | WAbort \<Rightarrow> WAbort | WThrow e \<Rightarrow> WThrow e)"
proof (induction fr off cs rule: recv_induct [where alloc = alloc])
  case (Cons fr off c cs)
  show ?case
  proof (cases rule: frame_step_cases [of alloc c fr])
    case (took fr')
    with Cons(1) [OF took] show ?thesis by (simp add: recv_loop_Cons)
  next
    case (silent fr')
    with Cons(2) [OF silent] show ?thesis by (simp add: recv_loop_Cons(3) [OF silent])
  qed (simp_all add: recv_loop_Cons)
qed simp

lemma recv_loop_open_all: "recv_loop alloc fr off cs = WOk (fr', n, False) \<Longrightarrow> n = off + length cs"
proof (induction fr off cs arbitrary: fr' rule: recv_induct [where alloc = alloc])
  case (Cons fr off c cs)
  show ?case
  proof (cases rule: frame_step_cases [of alloc c fr])
    case (took fr1)
    with Cons show ?thesis by (auto simp: recv_loop_Cons)
  next
    case (silent fr1)
    with Cons show ?thesis by (simp add: recv_loop_Cons(3) [OF silent])
  qed (use Cons in \<open>simp_all add: recv_loop_Cons\<close>)
qed simp

lemma recv_loop_append:
  "recv_loop alloc fr off (a @ b) =
     (case recv_loop alloc fr off a of
        WOk (fr', n, d) \<Rightarrow> if d then WOk (fr', n, d) else recv_loop alloc fr' n b
      | WAbort \<Rightarrow> WAbort | WThrow e \<Rightarrow> WThrow e)"
proof (induction fr off a rule: recv_induct [where alloc = alloc])
  case (Cons fr off c cs)
  show ?case
  proof (cases rule: frame_step_cases [of alloc c fr])
    case (took fr1)
    with Cons(1) [OF took] show ?thesis by (simp add: recv_loop_Cons)
  next
    case (silent fr1)
    with Cons(2) [OF silent] show ?thesis by (simp add: recv_loop_Cons(3) [OF silent])
  qed (simp_all add: recv_loop_Cons)
qed simp

text \<open>C15: how the bytes of a connection are cut into buffers does not matter to the frame reader:
  after a first buffer that ends inside a frame, reading the second one finishes with the same
  frame, or the same failure, as reading both as one buffer, and takes the same number of bytes.\<close>

theorem receiveData_chunks:
  assumes "receiveData alloc fr a = WOk (fr1, n, False)"
  shows "n = length a \<and> receiveData alloc fr (a @ b) =
     (case receiveData alloc fr1 b of WOk (fr2, k, d) \<Rightarrow> WOk (fr2, length a + k, d) | r \<Rightarrow> r)"
proof -
  have a: "recv_loop alloc fr 0 a = WOk (fr1, n, False)"
    using assms by (auto simp: receiveData_def split: ws.splits prod.splits bool.splits)
  then have n: "n = length a" by (auto dest: recv_loop_open_all)
  have "recv_loop alloc fr 0 (a @ b) = recv_loop alloc fr1 (length a + 0) b"
    using a n by (simp add: recv_loop_append)
  also have "\<dots> = (case recv_loop alloc fr1 0 b of WOk (fr', n, d) \<Rightarrow> WOk (fr', length a + n, d)
      | WAbort \<Rightarrow> WAbort | WThrow e \<Rightarrow> WThrow e)" by (rule recv_loop_off)
  finally show ?thesis
    using n by (auto simp: receiveData_def split: ws.splits prod.splits bool.splits)
qed

section \<open>Reading back an encoded frame\<close>

text \<open>The frames of RFC 6455: the flag byte, the mask bit and payload length in its three forms, the
  mask when there is one, and the masked payload.\<close>

fun be_bytes :: "nat \<Rightarrow> nat \<Rightarrow> string" where
  "be_bytes 0 n = []"
| "be_bytes (Suc k) n = be_bytes k (n div 256) @ [char_of (n mod 256)]"

definition length_field :: "bool \<Rightarrow> nat \<Rightarrow> string" where
  "length_field masked n =
     (let m = (if masked then 128 else 0) in
      if n < 126 then [char_of (m + n)]
      else if n < 65536 then char_of (m + 126) # be_bytes 2 n
      else char_of (m + 127) # be_bytes 8 n)"

definition mask_with :: "string \<Rightarrow> string \<Rightarrow> string" where
  "mask_with k payload = map (\<lambda>i. xor_char (payload ! i) (k ! (i mod 4))) [0..<length payload]"

definition encode_frame :: "nat \<Rightarrow> string option \<Rightarrow> string \<Rightarrow> string" where
  "encode_frame flags mopt payload =
     char_of flags # length_field (mopt \<noteq> None) (length payload) @
     (case mopt of None \<Rightarrow> payload | Some k \<Rightarrow> k @ mask_with k payload)"

lemma be_value_snoc: "be_value (bs @ [c]) = 256 * be_value bs + byte c"
  by (simp add: be_value_def)

lemma byte_char_of_mod [simp]: "byte (char_of (n :: nat)) = n mod 256"
  by (simp add: byte_def)

lemma be_value_bytes: "n < 256 ^ k \<Longrightarrow> be_value (be_bytes k n) = n"
proof (induction k arbitrary: n)
  case 0
  then show ?case by (simp add: be_value_def)
next
  case (Suc k)
  then have "n div 256 < 256 ^ k" by (simp add: less_mult_imp_div_less mult.commute)
  with Suc.IH show ?case by (simp add: be_value_snoc)
qed

lemma length_be_bytes [simp]: "length (be_bytes k n) = k"
  by (induction k arbitrary: n) auto

lemma xor_bound:
  assumes "(a :: nat) < 256" and "b < 256"
  shows "xor a b < 256"
proof -
  have "take_bit 8 a = a" "take_bit 8 b = b" using assms by (simp_all add: take_bit_nat_eq_self)
  then have "xor a b = take_bit 8 (xor a b)" by (simp add: take_bit_xor)
  then show ?thesis using take_bit_nat_less_exp [of 8 "xor a b"] by simp
qed

lemma xor_char_xor [simp]: "xor_char (xor_char a b) b = a"
proof -
  have self: "xor (xor (byte a) (byte b)) (byte b) = byte a" by (simp add: xor.assoc)
  have "xor (byte a) (byte b) < 256" by (rule xor_bound) simp_all
  then have "byte (xor_char (xor_char a b) b) = byte a" by (simp add: xor_char_def self)
  then show ?thesis by simp
qed

lemma recv_payload:
  assumes "cs \<noteq> []" and "readingState fr = 5" and "unat (wf_size fr) = length (wf_payload fr)"
    and "bufferPos fr + length cs = length (wf_payload fr)"
  shows "recv_loop alloc fr off cs =
     WOk (fr\<lparr>wf_payload := take (bufferPos fr) (wf_payload fr) @ cs, bufferPos := length (wf_payload fr)\<rparr>,
       off + length cs, True)"
  using assms
proof (induction cs arbitrary: fr off)
  case Nil
  then show ?case by simp
next
  case (Cons c cs)
  let ?fr = "fr\<lparr>wf_payload := (wf_payload fr)[bufferPos fr := c], bufferPos := bufferPos fr + 1\<rparr>"
  have lt: "bufferPos fr < length (wf_payload fr)" using Cons.prems by simp
  have step: "frame_step alloc c fr = WOk (?fr, True, cs = [])"
    using Cons.prems lt by (cases cs) (auto simp: frame_step_def Let_def)
  have upd: "take (Suc (bufferPos fr)) ((wf_payload fr)[bufferPos fr := c]) = take (bufferPos fr) (wf_payload fr) @ [c]"
    using lt by (simp add: take_Suc_conv_app_nth)
  show ?case
  proof (cases "cs = []")
    case True
    with Cons.prems have "Suc (bufferPos fr) = length (wf_payload fr)" by simp
    with upd have "(wf_payload fr)[bufferPos fr := c] = take (bufferPos fr) (wf_payload fr) @ [c]" by simp
    with True step Cons.prems show ?thesis by (simp add: recv_loop_Cons)
  next
    case False
    with step have "recv_loop alloc fr off (c # cs) = recv_loop alloc ?fr (off + 1) cs"
      by (simp add: recv_loop_Cons)
    also have "\<dots> = WOk (?fr\<lparr>wf_payload := take (bufferPos ?fr) (wf_payload ?fr) @ cs, bufferPos := length (wf_payload ?fr)\<rparr>,
        off + 1 + length cs, True)"
      by (rule Cons.IH [OF False]) (use Cons.prems in simp_all)
    finally show ?thesis using upd by simp
  qed
qed

text \<open>The header: from the flag byte to the point where the mask starts.\<close>

lemma recv_flags_len:
  assumes "readingState fr = 0" and "flags < 256" and "m + l < 256" and "l < 128" and "m = 0 \<or> m = 128"
  shows "recv_loop alloc fr off (char_of flags # char_of (m + l) # cs) =
     recv_loop alloc (fr\<lparr>wf_flags := int flags, wf_lenByte := int (m + l), useMask := (m = 128),
        wf_size := of_nat l, readingState := 2, bufferPos := 0\<rparr>) (off + 2) cs"
proof -
  have a: "frame_step alloc (char_of flags) fr = WOk (fr\<lparr>wf_flags := int flags, readingState := 1\<rparr>, True, False)"
    using assms by (simp add: frame_step_def)
  have "frame_step alloc (char_of (m + l)) (fr\<lparr>wf_flags := int flags, readingState := 1\<rparr>) =
      WOk (fr\<lparr>wf_flags := int flags, wf_lenByte := int (m + l), useMask := (m = 128),
        wf_size := of_nat l, readingState := 2, bufferPos := 0\<rparr>, True, False)"
    using assms by (auto simp: frame_step_def)
  with a show ?thesis by (simp add: recv_loop_Cons)
qed

definition at_mask :: "ws_frame \<Rightarrow> nat \<Rightarrow> bool \<Rightarrow> nat \<Rightarrow> ws_frame \<Rightarrow> bool" where
  "at_mask fr flags masked n fr' \<longleftrightarrow> readingState fr' = 3 \<and> bufferPos fr' = 0 \<and> useMask fr' = masked \<and>
     wf_flags fr' = int flags \<and> wf_size fr' = of_nat n \<and> length (bufferTmp fr') = 16 \<and>
     wf_payload fr' = wf_payload fr"

lemma recv_ext:
  assumes "bs \<noteq> []" and "readingState fr = 2" and "wf_size fr = 126 \<and> k = 2 \<or> wf_size fr = 127 \<and> k = 8"
    and "bufferPos fr + length bs = k" and "length (bufferTmp fr) = 16"
  shows "recv_loop alloc fr off (bs @ cs) =
     recv_loop alloc (fr\<lparr>bufferTmp := take (bufferPos fr) (bufferTmp fr) @ bs @ drop k (bufferTmp fr),
        wf_size := of_nat (be_value (take (bufferPos fr) (bufferTmp fr) @ bs)), readingState := 3, bufferPos := 0\<rparr>)
       (off + length bs) cs"
  using assms
proof (induction bs arbitrary: fr off)
  case Nil
  then show ?case by simp
next
  case (Cons c bs)
  let ?f = "fr\<lparr>bufferTmp := (bufferTmp fr)[bufferPos fr := c], bufferPos := bufferPos fr + 1\<rparr>"
  have lt: "bufferPos fr < k" "k \<le> 8" using Cons.prems by auto
  have upd: "take (Suc (bufferPos fr)) ((bufferTmp fr)[bufferPos fr := c]) = take (bufferPos fr) (bufferTmp fr) @ [c]"
    using lt Cons.prems by (simp add: take_Suc_conv_app_nth)
  have rest: "drop k ((bufferTmp fr)[bufferPos fr := c]) = drop k (bufferTmp fr)"
    using lt by simp
  show ?case
  proof (cases "bs = []")
    case True
    with Cons.prems have k: "Suc (bufferPos fr) = k" by simp
    have split: "(bufferTmp fr)[bufferPos fr := c] = take (bufferPos fr) (bufferTmp fr) @ c # drop k (bufferTmp fr)"
      using upd rest k append_take_drop_id [of k "(bufferTmp fr)[bufferPos fr := c]"] by simp
    have "frame_step alloc c fr = WOk (fr\<lparr>bufferTmp := take (bufferPos fr) (bufferTmp fr) @ [c] @ drop k (bufferTmp fr),
        wf_size := of_nat (be_value (take (bufferPos fr) (bufferTmp fr) @ [c])), readingState := 3, bufferPos := 0\<rparr>, True, False)"
      using Cons.prems(2,3) k upd by (auto simp: frame_step_def length_byte_def Let_def split)
    with True show ?thesis by (simp add: recv_loop_Cons)
  next
    case False
    have "Suc (bufferPos fr) \<noteq> k" using False Cons.prems by (cases bs) auto
    then have "frame_step alloc c fr = WOk (?f, True, False)"
      using Cons.prems(2-4) lt by (auto simp: frame_step_def length_byte_def Let_def)
    then have "recv_loop alloc fr off ((c # bs) @ cs) = recv_loop alloc ?f (off + 1) (bs @ cs)"
      by (simp add: recv_loop_Cons)
    also have "\<dots> = recv_loop alloc (?f\<lparr>bufferTmp := take (bufferPos ?f) (bufferTmp ?f) @ bs @ drop k (bufferTmp ?f),
        wf_size := of_nat (be_value (take (bufferPos ?f) (bufferTmp ?f) @ bs)), readingState := 3, bufferPos := 0\<rparr>)
       (off + 1 + length bs) cs"
      by (rule Cons.IH [OF False]) (use Cons.prems in simp_all)
    finally show ?thesis using upd rest by simp
  qed
qed

lemma recv_header:
  assumes fr: "readingState fr = 0" "length (bufferTmp fr) = 16" and "flags < 256" and n: "n < 2 ^ 64"
    and cs: "cs \<noteq> []"
  obtains fr' where "recv_loop alloc fr off (char_of flags # length_field masked n @ cs) =
      recv_loop alloc fr' (off + 1 + length (length_field masked n)) cs"
    and "at_mask fr flags masked n fr'"
proof -
  let ?m = "if masked then 128 else 0 :: nat"
  define fr2 where "fr2 l = fr\<lparr>wf_flags := int flags, wf_lenByte := int (?m + l), useMask := masked,
      wf_size := of_nat l, readingState := 2, bufferPos := 0\<rparr>" for l
  have start: "recv_loop alloc fr off (char_of flags # char_of (?m + l) # xs) = recv_loop alloc (fr2 l) (off + 2) xs"
    if "l < 128" for l xs
    using recv_flags_len [OF fr(1) \<open>flags < 256\<close>, of ?m l] that by (simp add: fr2_def)
  consider (small) "n < 126" | (mid) "126 \<le> n" "n < 65536" | (big) "65536 \<le> n" by linarith
  then show ?thesis
  proof cases
    case small
    obtain d ds where cs': "cs = d # ds" using cs by (cases cs) auto
    have "(of_nat n :: u64) \<noteq> 126" "(of_nat n :: u64) \<noteq> 127"
      using small by (auto simp: word_unat_eq_iff unat_of_nat)
    then have "frame_step alloc d (fr2 n) = WOk ((fr2 n)\<lparr>readingState := 3, bufferPos := 0\<rparr>, False, False)"
      by (simp add: frame_step_def fr2_def)
    then have "recv_loop alloc (fr2 n) (off + 2) cs = recv_loop alloc ((fr2 n)\<lparr>readingState := 3, bufferPos := 0\<rparr>) (off + 2) cs"
      by (simp add: cs' recv_loop_Cons(3))
    with start [of n cs] small that [of "(fr2 n)\<lparr>readingState := 3, bufferPos := 0\<rparr>"] fr
    show ?thesis by (simp add: length_field_def fr2_def at_mask_def)
  next
    case mid
    have ne: "be_bytes 2 n \<noteq> []" using length_be_bytes [of 2 n] by (metis list.size(3) numeral_neq_zero)
    have val: "be_value (be_bytes 2 n) = n" using be_value_bytes [of n 2] mid by simp
    define f2 where "f2 = (fr2 126)\<lparr>bufferTmp := be_bytes 2 n @ drop 2 (bufferTmp fr), wf_size := of_nat n,
        readingState := 3, bufferPos := 0\<rparr>"
    have "recv_loop alloc (fr2 126) (off + 2) (be_bytes 2 n @ cs) = recv_loop alloc f2 (off + 2 + 2) cs"
      using recv_ext [OF ne, of "fr2 126" 2] val fr by (simp add: fr2_def f2_def)
    then have run: "recv_loop alloc fr off (char_of flags # char_of (?m + 126) # be_bytes 2 n @ cs) =
        recv_loop alloc f2 (off + 2 + 2) cs" using start [of 126 "be_bytes 2 n @ cs"] by simp
    have len: "off + 1 + length (length_field masked n) = off + 2 + 2"
      and fld: "length_field masked n = char_of (?m + 126) # be_bytes 2 n"
      using mid by (simp_all add: length_field_def)
    show ?thesis
    proof (rule that [of f2])
      show "recv_loop alloc fr off (char_of flags # length_field masked n @ cs) =
          recv_loop alloc f2 (off + 1 + length (length_field masked n)) cs"
        using run unfolding len by (simp only: fld append_Cons)
      show "at_mask fr flags masked n f2" using fr by (simp add: fr2_def at_mask_def f2_def)
    qed
  next
    case big
    have ne: "be_bytes 8 n \<noteq> []" using length_be_bytes [of 8 n] by (metis list.size(3) numeral_neq_zero)
    have val: "be_value (be_bytes 8 n) = n" using be_value_bytes [of n 8] n by simp
    define f2 where "f2 = (fr2 127)\<lparr>bufferTmp := be_bytes 8 n @ drop 8 (bufferTmp fr), wf_size := of_nat n,
        readingState := 3, bufferPos := 0\<rparr>"
    have "recv_loop alloc (fr2 127) (off + 2) (be_bytes 8 n @ cs) = recv_loop alloc f2 (off + 2 + 8) cs"
      using recv_ext [OF ne, of "fr2 127" 8] val fr by (simp add: fr2_def f2_def)
    then have run: "recv_loop alloc fr off (char_of flags # char_of (?m + 127) # be_bytes 8 n @ cs) =
        recv_loop alloc f2 (off + 2 + 8) cs" using start [of 127 "be_bytes 8 n @ cs"] by simp
    have len: "off + 1 + length (length_field masked n) = off + 2 + 8"
      and fld: "length_field masked n = char_of (?m + 127) # be_bytes 8 n"
      using big by (simp_all add: length_field_def)
    show ?thesis
    proof (rule that [of f2])
      show "recv_loop alloc fr off (char_of flags # length_field masked n @ cs) =
          recv_loop alloc f2 (off + 1 + length (length_field masked n)) cs"
        using run unfolding len by (simp only: fld append_Cons)
      show "at_mask fr flags masked n f2" using fr by (simp add: fr2_def at_mask_def f2_def)
    qed
  qed
qed

lemma length_resize [simp]: "length (resize s n) = n"
  by (simp add: resize_def)

lemma length_mask_with [simp]: "length (mask_with k p) = length p"
  by (simp add: mask_with_def)

lemma mask_with_twice [simp]: "mask_with k (mask_with k p) = p"
  by (rule nth_equalityI) (simp_all add: mask_with_def)

lemma unmask_masked: "useMask fr \<Longrightarrow> wf_mask fr = k \<Longrightarrow> unmask fr = fr\<lparr>wf_payload := mask_with k (wf_payload fr)\<rparr>"
  by (simp add: unmask_def mask_with_def)

lemma recv_from_4:
  assumes "readingState fr = 4" and "wf_size fr = of_nat (length p)" and "length p < 2 ^ 64" and "p \<noteq> []"
    and "alloc (of_nat (length p))"
  shows "recv_loop alloc fr off p =
     WOk (fr\<lparr>wf_payload := p, readingState := 5, bufferPos := length p\<rparr>, off + length p, True)"
proof -
  obtain c cs where p: "p = c # cs" using assms(4) by (cases p) auto
  have size: "unat (wf_size fr) = length p" using assms(2,3) by (simp add: unat_of_nat)
  let ?f = "fr\<lparr>wf_payload := resize (wf_payload fr) (length p), readingState := 5, bufferPos := 0\<rparr>"
  have "frame_step alloc c fr = WOk (?f, False, False)"
    using assms size by (simp add: frame_step_def)
  then have "recv_loop alloc fr off p = recv_loop alloc ?f off p" by (simp add: p recv_loop_Cons(3))
  also have "\<dots> = WOk (?f\<lparr>wf_payload := take (bufferPos ?f) (wf_payload ?f) @ p, bufferPos := length (wf_payload ?f)\<rparr>,
      off + length p, True)"
    by (rule recv_payload) (use assms size in simp_all)
  finally show ?thesis by simp
qed

lemma recv_mask:
  assumes "at_mask fr0 flags True n fr" and "length k = 4"
  shows "\<exists>t. length t = 16 \<and> recv_loop alloc fr off (k @ cs) =
     recv_loop alloc (fr\<lparr>bufferTmp := t, wf_mask := k, readingState := 4, bufferPos := 0\<rparr>) (off + 4) cs"
proof -
  obtain a b c d where k: "k = [a, b, c, d]"
    using assms(2) by (auto simp: length_Suc_conv numeral_eq_Suc)
  have "length (bufferTmp fr) = 16" using assms(1) by (simp add: at_mask_def)
  then obtain t0 t1 t2 t3 ts where t: "bufferTmp fr = t0 # t1 # t2 # t3 # ts"
    by (auto simp: length_Suc_conv numeral_eq_Suc)
  define f where "f i tmp = fr\<lparr>bufferTmp := tmp, bufferPos := i\<rparr>" for i tmp
  have a: "readingState (f i tmp) = 3" "useMask (f i tmp)" "bufferTmp (f i tmp) = tmp" "bufferPos (f i tmp) = i" for i tmp
    using assms(1) by (simp_all add: f_def at_mask_def)
  have 0: "fr = f 0 (t0 # t1 # t2 # t3 # ts)" using assms(1) t by (simp add: f_def at_mask_def)
  have upd: "(f i tmp)\<lparr>bufferTmp := tmp', bufferPos := i'\<rparr> = f i' tmp'" for i tmp i' tmp'
    by (simp add: f_def)
  have s1: "frame_step alloc a (f 0 (t0 # t1 # t2 # t3 # ts)) = WOk (f 1 (a # t1 # t2 # t3 # ts), True, False)"
    using a by (simp add: frame_step_def mask_byte_def Let_def upd)
  have s2: "frame_step alloc b (f 1 (a # t1 # t2 # t3 # ts)) = WOk (f 2 (a # b # t2 # t3 # ts), True, False)"
    using a by (simp add: frame_step_def mask_byte_def Let_def upd numeral_2_eq_2)
  have s3: "frame_step alloc c (f 2 (a # b # t2 # t3 # ts)) = WOk (f 3 (a # b # c # t3 # ts), True, False)"
    using a by (simp add: frame_step_def mask_byte_def Let_def upd numeral_2_eq_2 numeral_3_eq_3)
  have s4: "frame_step alloc d (f 3 (a # b # c # t3 # ts)) =
      WOk (fr\<lparr>bufferTmp := a # b # c # d # ts, wf_mask := k, readingState := 4, bufferPos := 0\<rparr>, True, False)"
    using a by (simp add: frame_step_def mask_byte_def Let_def upd k numeral_3_eq_3) (simp add: f_def)
  have "recv_loop alloc (f 0 (t0 # t1 # t2 # t3 # ts)) off (k @ cs) =
      recv_loop alloc (fr\<lparr>bufferTmp := a # b # c # d # ts, wf_mask := k, readingState := 4, bufferPos := 0\<rparr>)
        (off + 1 + 1 + 1 + 1) cs"
    by (simp only: k append.simps recv_loop_Cons(2) [OF s1] recv_loop_Cons(2) [OF s2] recv_loop_Cons(2) [OF s3]
        recv_loop_Cons(2) [OF s4])
  moreover have "length (a # b # c # d # ts) = 16" using \<open>length (bufferTmp fr) = 16\<close> t by simp
  ultimately show ?thesis using 0 by (intro exI [of _ "a # b # c # d # ts"]) (simp add: numeral_eq_Suc)
qed

definition frame_ready :: "ws_frame \<Rightarrow> bool" where
  "frame_ready fr \<longleftrightarrow> readingState fr = 0 \<and> length (bufferTmp fr) = 16"

definition sendable :: "(u64 \<Rightarrow> bool) \<Rightarrow> nat \<Rightarrow> string option \<Rightarrow> string \<Rightarrow> bool" where
  "sendable alloc flags mopt p \<longleftrightarrow> flags < 256 \<and> p \<noteq> [] \<and> length p < 2 ^ 64 \<and> alloc (of_nat (length p)) \<and>
     (case mopt of None \<Rightarrow> True | Some k \<Rightarrow> length k = 4)"

lemma receive_encoded:
  assumes fr: "readingState fr = 0" "length (bufferTmp fr) = 16" and "flags < 256"
    and p: "p \<noteq> []" "length p < 2 ^ 64" "alloc (of_nat (length p))"
    and mk: "case mopt of None \<Rightarrow> True | Some k \<Rightarrow> length k = 4"
  shows "\<exists>fr'. receiveData alloc fr (encode_frame flags mopt p @ rest) =
       WOk (fr', length (encode_frame flags mopt p), True) \<and>
     wf_payload fr' = p \<and> wf_flags fr' = int flags \<and> readingState fr' = 0 \<and> length (bufferTmp fr') = 16"
proof -
  let ?n = "length p" and ?masked = "mopt \<noteq> None"
  define body where "body = (case mopt of None \<Rightarrow> p | Some k \<Rightarrow> k @ mask_with k p)"
  have "body \<noteq> []"
    using p mk mask_with_twice [of _ p] by (auto simp: body_def split: option.splits)
  then obtain fr1 where h: "recv_loop alloc fr 0 (char_of flags # length_field ?masked ?n @ body) =
      recv_loop alloc fr1 (0 + 1 + length (length_field ?masked ?n)) body" and am: "at_mask fr flags ?masked ?n fr1"
    using recv_header [OF fr \<open>flags < 256\<close> p(2)] by blast
  let ?o = "0 + 1 + length (length_field ?masked ?n)"
  have enc: "encode_frame flags mopt p = char_of flags # length_field ?masked ?n @ body"
    by (simp add: encode_frame_def body_def)
  have "\<exists>fr2. recv_loop alloc fr1 ?o body = WOk (fr2, length (encode_frame flags mopt p), True) \<and>
      wf_payload (unmask (fr2\<lparr>readingState := 0, bufferPos := 0\<rparr>)) = p \<and> wf_flags fr2 = int flags \<and> length (bufferTmp fr2) = 16"
  proof (cases mopt)
    case None
    let ?f = "fr1\<lparr>readingState := 4\<rparr>"
    obtain c cs where c: "p = c # cs" using p(1) by (cases p) auto
    have "frame_step alloc c fr1 = WOk (?f, False, False)"
      using am None by (simp add: frame_step_def at_mask_def)
    then have "recv_loop alloc fr1 ?o body = recv_loop alloc ?f ?o p"
      by (simp add: body_def None c recv_loop_Cons(3))
    also have "\<dots> = WOk (?f\<lparr>wf_payload := p, readingState := 5, bufferPos := length p\<rparr>, ?o + length p, True)"
      by (rule recv_from_4) (use am p in \<open>simp_all add: at_mask_def\<close>)
    finally show ?thesis using am None by (simp add: encode_frame_def body_def at_mask_def unmask_def)
  next
    case (Some k)
    have am': "at_mask fr flags True ?n fr1" and k: "length k = 4" using am mk Some by simp_all
    let ?q = "mask_with k p"
    obtain t where lt: "length t = 16" and t: "recv_loop alloc fr1 ?o (k @ ?q) =
        recv_loop alloc (fr1\<lparr>bufferTmp := t, wf_mask := k, readingState := 4, bufferPos := 0\<rparr>) (?o + 4) ?q"
      using recv_mask [OF am' k] by blast
    let ?f = "fr1\<lparr>bufferTmp := t, wf_mask := k, readingState := 4, bufferPos := 0\<rparr>"
    have "?q \<noteq> []" using p(1) length_mask_with [of k p] by (metis length_0_conv)
    then have "recv_loop alloc ?f (?o + 4) ?q =
        WOk (?f\<lparr>wf_payload := ?q, readingState := 5, bufferPos := length ?q\<rparr>, ?o + 4 + length ?q, True)"
      by (intro recv_from_4) (use am' p in \<open>simp_all add: at_mask_def\<close>)
    with t lt show ?thesis using am' k Some by (simp add: encode_frame_def body_def at_mask_def unmask_masked)
  qed
  then obtain fr2 where fr2: "recv_loop alloc fr 0 (encode_frame flags mopt p) =
        WOk (fr2, length (encode_frame flags mopt p), True)"
      "wf_payload (unmask (fr2\<lparr>readingState := 0, bufferPos := 0\<rparr>)) = p" "wf_flags fr2 = int flags"
      "length (bufferTmp fr2) = 16"
    using h by (auto simp: enc)
  have "recv_loop alloc fr 0 (encode_frame flags mopt p @ rest) =
      WOk (fr2, length (encode_frame flags mopt p), True)"
    using fr2(1) by (simp add: recv_loop_append)
  with fr2 show ?thesis by (auto simp: receiveData_def unmask_def)
qed

text \<open>C14: every frame RFC 6455 can carry with a payload that is not empty is read back, in all three
  length forms, masked or not: the reader takes exactly the bytes of the frame, whatever follows
  them, and ends with the flags and the unmasked payload, ready for the next frame.\<close>

theorem receiveData_roundtrip:
  assumes "frame_ready fr" and "sendable alloc flags mopt p"
  shows "\<exists>fr'. receiveData alloc fr (encode_frame flags mopt p @ rest) =
       WOk (fr', length (encode_frame flags mopt p), True) \<and>
     wf_payload fr' = p \<and> wf_flags fr' = int flags \<and> frame_ready fr'"
  using receive_encoded [of fr flags p alloc mopt rest] assms by (simp add: frame_ready_def sendable_def)

theorem receiveData_roundtrip_witness:
  "\<exists>fr'. receiveData (\<lambda>n. n < 1000) new_frame (encode_frame 129 (Some ''abcd'') ''Hi'' @ ''x'') =
       WOk (fr', length (encode_frame 129 (Some ''abcd'') ''Hi''), True) \<and>
     wf_payload fr' = ''Hi'' \<and> wf_flags fr' = int 129 \<and> frame_ready fr'"
  by (rule receiveData_roundtrip) (simp_all add: new_frame_def frame_ready_def sendable_def)

theorem receiveData_chunks_witness:
  "2 = length [CHR 0x81, CHR 0x02] \<and> receiveData (\<lambda>n. True) new_frame ([CHR 0x81, CHR 0x02] @ ''Hi'') =
     (case receiveData (\<lambda>n. True) (new_frame\<lparr>wf_flags := 129, wf_lenByte := 2, wf_size := 2, readingState := 2\<rparr>) ''Hi'' of
        WOk (fr2, k, d) \<Rightarrow> WOk (fr2, length [CHR 0x81, CHR 0x02] + k, d) | r \<Rightarrow> r)"
  by (rule receiveData_chunks)
    (simp add: receiveData_def new_frame_def recv_loop.simps(2) frame_step_def byte_def)

section \<open>Delivery\<close>

lemma receive_sendable:
  assumes "frame_ready fr" and "sendable alloc flags mopt p"
  obtains fr' where "receiveData alloc fr (encode_frame flags mopt p) =
      WOk (fr', length (encode_frame flags mopt p), True)"
    and "wf_payload fr' = p" and "wf_flags fr' = int flags" and "frame_ready fr'"
  using receive_encoded [of fr flags p alloc mopt "[]"] assms that by (auto simp: frame_ready_def sendable_def)

text \<open>The frame reader stays within the buffer, so a frame that ends with the last byte of \<open>b\<close> is open after \<open>a\<close>.\<close>

lemma recv_loop_bound: "recv_loop alloc fr off cs = WOk (fr', n, d) \<Longrightarrow> n \<le> off + length cs"
proof (induction fr off cs arbitrary: fr' rule: recv_induct [where alloc = alloc])
  case (Cons fr off c cs)
  show ?case
  proof (cases rule: frame_step_cases [of alloc c fr])
    case (took fr1)
    with Cons show ?thesis by (fastforce simp: recv_loop_Cons)
  next
    case (silent fr1)
    with Cons show ?thesis by (simp add: recv_loop_Cons(3) [OF silent])
  qed (use Cons in \<open>simp_all add: recv_loop_Cons\<close>)
qed simp

lemma receive_split:
  assumes "receiveData alloc fr (a @ b) = WOk (fr2, length (a @ b), True)" and "b \<noteq> []"
  obtains fr1 where "receiveData alloc fr a = WOk (fr1, length a, False)"
    and "receiveData alloc fr1 b = WOk (fr2, length b, True)"
proof -
  obtain fr' where w: "recv_loop alloc fr 0 (a @ b) = WOk (fr', length (a @ b), True)"
      and fr2: "fr2 = unmask (fr'\<lparr>readingState := 0, bufferPos := 0\<rparr>)"
    using assms(1) by (auto simp: receiveData_def split: ws.splits prod.splits bool.splits)
  obtain fr1 n d where a: "recv_loop alloc fr 0 a = WOk (fr1, n, d)"
    using w by (auto simp: recv_loop_append split: ws.splits prod.splits)
  have "\<not> d"
  proof
    assume d
    with w a have "n = length (a @ b)" by (simp add: recv_loop_append)
    with recv_loop_bound [OF a] assms(2) show False by simp
  qed
  with a have n: "n = length a" by (auto dest: recv_loop_open_all)
  have "recv_loop alloc fr1 (length a + 0) b = WOk (fr', length (a @ b), True)"
    using w a \<open>\<not> d\<close> n by (simp add: recv_loop_append)
  then have "recv_loop alloc fr1 0 b = WOk (fr', length b, True)"
    unfolding recv_loop_off by (auto split: ws.splits prod.splits)
  with fr2 a \<open>\<not> d\<close> n show ?thesis by (intro that [of fr1]) (simp_all add: receiveData_def)
qed

text \<open>A frame that arrives in a buffer of its own is given to the callback exactly once, with its
  flags and payload, and the reader is ready for the next buffer.\<close>

theorem onInput_single:
  assumes "frame_ready fr" and "sendable alloc flags mopt p"
  shows "\<exists>fr' msg. onInput alloc fr (encode_frame flags mopt p) = Some (WOk (fr', [msg])) \<and>
     wf_payload msg = p \<and> wf_flags msg = int flags \<and> frame_ready fr'"
proof -
  obtain fr1 where "receiveData alloc fr (encode_frame flags mopt p) =
      WOk (fr1, length (encode_frame flags mopt p), True)" "wf_payload fr1 = p" "wf_flags fr1 = int flags" "frame_ready fr1"
    using receive_sendable [OF assms] .
  then show ?thesis
    by (simp add: onInput_def onInput_loop.simps [of alloc _ fr] frame_ready_def)
qed

theorem onInput_single_witness:
  "\<exists>fr' msg. onInput (\<lambda>n. True) new_frame (encode_frame 130 None ''data'') = Some (WOk (fr', [msg])) \<and>
     wf_payload msg = ''data'' \<and> wf_flags msg = int 130 \<and> frame_ready fr'"
  by (rule onInput_single) (simp_all add: frame_ready_def new_frame_def sendable_def)

definition stuck_at :: "string \<Rightarrow> nat \<Rightarrow> string option \<Rightarrow> string \<Rightarrow> (u64 \<Rightarrow> bool) \<Rightarrow> string \<Rightarrow> ws_frame \<Rightarrow> nat \<Rightarrow> bool" where
  "stuck_at a flags mopt p alloc buffer fr off \<longleftrightarrow> buffer = a @ encode_frame flags mopt p \<and> off = length a \<and>
     frame_ready fr \<and> sendable alloc flags mopt p \<and> length a = length (encode_frame flags mopt p)"

lemma onInput_loop_stuck:
  assumes "onInput_loop alloc buffer fr msgs off = Some y"
  shows "\<not> stuck_at a flags mopt p alloc buffer fr off"
proof (rule onInput_loop.raw_induct
    [where P = "\<lambda>alloc buffer fr msgs off y. \<not> stuck_at a flags mopt p alloc buffer fr off", OF _ assms])
  fix rec alloc buffer fr msgs off y
  assume ih: "\<And>alloc buffer fr msgs off y. rec alloc buffer fr msgs off = Some y \<Longrightarrow>
      \<not> stuck_at a flags mopt p alloc buffer fr off"
    and run: "(case receiveData alloc fr (drop off buffer) of
        WOk (fr1, off, done) \<Rightarrow>
          if \<not> done then Some (WOk (fr1, msgs))
          else if off < length buffer
          then rec alloc buffer (fr1\<lparr>wf_flags := 0, wf_lenByte := 0\<rparr>) (msgs @ [fr1]) off
          else Some (WOk (fr1\<lparr>wf_flags := 0, wf_lenByte := 0\<rparr>, msgs @ [fr1]))
      | WAbort \<Rightarrow> Some WAbort | WThrow e \<Rightarrow> Some (WThrow e)) = Some y"
  let ?L = "length (encode_frame flags mopt p)"
  show "\<not> stuck_at a flags mopt p alloc buffer fr off"
  proof
    assume *: "stuck_at a flags mopt p alloc buffer fr off"
    then obtain fr1 where r: "receiveData alloc fr (encode_frame flags mopt p) = WOk (fr1, ?L, True)"
        and rdy: "frame_ready fr1"
      using receive_sendable [of fr alloc flags mopt p] by (auto simp: stuck_at_def)
    have "0 < ?L" by (simp add: encode_frame_def)
    with run r * have "rec alloc buffer (fr1\<lparr>wf_flags := 0, wf_lenByte := 0\<rparr>) (msgs @ [fr1]) ?L = Some y"
      by (simp add: stuck_at_def)
    from ih [OF this] * rdy show False by (simp add: stuck_at_def frame_ready_def)
  qed
qed

text \<open>C16: two frames of the same length that arrive in one buffer are never finished with: \<open>onInput\<close>
  replaces its position by the length of the last frame instead of adding it, so after the first
  frame it reads the second one again and again and does not return.\<close>

theorem onInput_two_frames_diverges:
  assumes "frame_ready fr" and "sendable alloc f1 m1 p1" and "sendable alloc f2 m2 p2"
    and "length (encode_frame f1 m1 p1) = length (encode_frame f2 m2 p2)"
  shows "onInput alloc fr (encode_frame f1 m1 p1 @ encode_frame f2 m2 p2) = None"
proof (cases "onInput alloc fr (encode_frame f1 m1 p1 @ encode_frame f2 m2 p2)")
  case (Some y)
  let ?a = "encode_frame f1 m1 p1" and ?b = "encode_frame f2 m2 p2"
  obtain fr1 where r: "receiveData alloc fr (?a @ ?b) = WOk (fr1, length ?a, True)" and "frame_ready fr1"
    using receive_encoded [of fr f1 p1 alloc m1 ?b] assms(1,2) by (auto simp: frame_ready_def sendable_def)
  have rdy: "frame_ready (fr1\<lparr>wf_flags := 0, wf_lenByte := 0\<rparr>)" using \<open>frame_ready fr1\<close> by (simp add: frame_ready_def)
  have "0 < length ?b" by (simp add: encode_frame_def)
  with Some r have "onInput_loop alloc (?a @ ?b) (fr1\<lparr>wf_flags := 0, wf_lenByte := 0\<rparr>) [fr1] (length ?a) = Some y"
    by (simp add: onInput_def onInput_loop.simps [of alloc _ fr])
  from onInput_loop_stuck [OF this, of ?a f2 m2 p2] rdy assms(3,4) show ?thesis by (simp add: stuck_at_def)
qed

theorem onInput_two_frames_diverges_witness:
  "onInput (\<lambda>n. True) new_frame (encode_frame 129 None ''one'' @ encode_frame 129 None ''two'') = None"
  by (rule onInput_two_frames_diverges)
    (simp_all add: frame_ready_def new_frame_def sendable_def encode_frame_def length_field_def)

text \<open>A frame without payload (a plain close, ping or pong) stays open, and the next byte on the
  connection runs into \<open>assert(bufferPos < payload.size())\<close>: the process aborts, or without
  assertions writes behind the payload.\<close>

theorem empty_frame_aborts:
  assumes "frame_ready fr" and "flags < 256" and "alloc 0"
  shows "receiveData alloc fr (encode_frame flags None [] @ c # cs) = WAbort"
proof -
  let ?f = "fr\<lparr>wf_flags := int flags, wf_lenByte := int (0 + 0), useMask := (0 = (128 :: nat)),
      wf_size := of_nat 0, readingState := 2, bufferPos := 0\<rparr>"
  have "recv_loop alloc fr 0 (encode_frame flags None [] @ c # cs) = recv_loop alloc ?f (0 + 2) (c # cs)"
    using recv_flags_len [of fr flags 0 0 alloc 0 "c # cs"] assms
    by (simp add: frame_ready_def encode_frame_def length_field_def)
  also have "\<dots> = WAbort"
  proof -
    have 2: "frame_step alloc c ?f = WOk (?f\<lparr>readingState := 3, bufferPos := 0\<rparr>, False, False)"
      by (simp add: frame_step_def)
    have 3: "frame_step alloc c (?f\<lparr>readingState := 3, bufferPos := 0\<rparr>) =
        WOk (?f\<lparr>readingState := 4, bufferPos := 0\<rparr>, False, False)"
      by (simp add: frame_step_def)
    have 4: "frame_step alloc c (?f\<lparr>readingState := 4, bufferPos := 0\<rparr>) =
        WOk (?f\<lparr>wf_payload := [], readingState := 5, bufferPos := 0\<rparr>, False, False)"
      using assms(3) by (simp add: frame_step_def resize_def)
    have 5: "frame_step alloc c (?f\<lparr>wf_payload := [], readingState := 5, bufferPos := 0\<rparr>) = WAbort"
      by (simp add: frame_step_def)
    show ?thesis
      by (simp only: recv_loop_Cons(3) [OF 2] recv_loop_Cons(3) [OF 3] recv_loop_Cons(3) [OF 4] recv_loop_Cons(4) [OF 5])
  qed
  finally show ?thesis by (simp add: receiveData_def)
qed

theorem empty_frame_aborts_witness:
  "receiveData (\<lambda>n. True) new_frame (encode_frame 137 None [] @ CHR 0x81 # []) = WAbort"
  by (rule empty_frame_aborts) (simp_all add: frame_ready_def new_frame_def)

end
