(* ===== verification/Validators.thy ===== *)
theory Validators
  imports PocoJsonStringify Strutils
begin

text \<open>
  Input validation: the validator classes (src/src/utils/InputValidators.hpp and .cpp), the driver
  \<open>ControllerInputValidator\<close>, its modifying twin \<open>ControllerInputModifier\<close>, and \<open>Validator\<close>
  (src/src/utils/Validator.hpp and .cpp). A validator is its \<open>validate\<close>: from the field name and
  the value to an empty \<open>Var\<close> or a message, or a throw. Texts are UTF-8 bytes.
\<close>

section \<open>Regular expressions\<close>

datatype rx = Zero | One | Cls "char \<Rightarrow> bool" | Alt rx rx | Seq rx rx | Star rx

fun nullable :: "rx \<Rightarrow> bool" where
  "nullable Zero = False"
| "nullable One = True"
| "nullable (Cls p) = False"
| "nullable (Alt r s) = (nullable r \<or> nullable s)"
| "nullable (Seq r s) = (nullable r \<and> nullable s)"
| "nullable (Star r) = True"

fun deriv :: "char \<Rightarrow> rx \<Rightarrow> rx" where
  "deriv c Zero = Zero"
| "deriv c One = Zero"
| "deriv c (Cls p) = (if p c then One else Zero)"
| "deriv c (Alt r s) = Alt (deriv c r) (deriv c s)"
| "deriv c (Seq r s) = (if nullable r then Alt (Seq (deriv c r) s) (deriv c s) else Seq (deriv c r) s)"
| "deriv c (Star r) = Seq (deriv c r) (Star r)"

definition regex_match :: "rx \<Rightarrow> string \<Rightarrow> bool" where
  "regex_match r s = nullable (fold deriv s r)"

inductive lang :: "rx \<Rightarrow> string \<Rightarrow> bool" where
  "lang One []"
| "p c \<Longrightarrow> lang (Cls p) [c]"
| "lang r s \<Longrightarrow> lang (Alt r r') s"
| "lang r' s \<Longrightarrow> lang (Alt r r') s"
| "lang r s \<Longrightarrow> lang r' s' \<Longrightarrow> lang (Seq r r') (s @ s')"
| "lang (Star r) []"
| "lang r s \<Longrightarrow> lang (Star r) s' \<Longrightarrow> lang (Star r) (s @ s')"

inductive_cases lang_ZeroE [elim!]: "lang Zero s"
inductive_cases lang_OneE [elim!]: "lang One s"
inductive_cases lang_ClsE [elim!]: "lang (Cls p) s"
inductive_cases lang_AltE [elim!]: "lang (Alt r r') s"
inductive_cases lang_SeqE [elim!]: "lang (Seq r r') s"

lemma nullable_lang: "nullable r \<longleftrightarrow> lang r []"
proof (induction r)
  case (Seq r s)
  then show ?case by (auto intro: lang.intros(5) [of r "[]" s "[]", simplified])
qed (auto intro: lang.intros)

lemma lang_Star_Cons:
  "lang (Star r) s \<Longrightarrow> s = c # t \<Longrightarrow> \<exists>a b. t = a @ b \<and> lang r (c # a) \<and> lang (Star r) b"
proof (induction "Star r" s arbitrary: t rule: lang.induct)
  case (7 s s')
  then show ?case by (cases s) auto
qed auto

lemma deriv_lang: "lang (deriv c r) s \<longleftrightarrow> lang r (c # s)"
proof (induction r arbitrary: s)
  case (Cls p)
  then show ?case by (auto intro: lang.intros split: if_splits)
next
  case (Alt r1 r2)
  then show ?case by (auto intro: lang.intros)
next
  case (Seq r1 r2)
  show ?case
  proof
    assume "lang (deriv c (Seq r1 r2)) s"
    then show "lang (Seq r1 r2) (c # s)"
      using lang.intros(5) [of r1 "[]" r2 "c # s"] Seq nullable_lang [of r1]
      by (auto split: if_splits intro: lang.intros(5) [of r1 "c # _", simplified])
  next
    assume "lang (Seq r1 r2) (c # s)"
    then obtain a b where ab: "c # s = a @ b" "lang r1 a" "lang r2 b" by auto
    show "lang (deriv c (Seq r1 r2)) s"
    proof (cases a)
      case Nil
      with ab Seq nullable_lang [of r1] show ?thesis by (auto intro: lang.intros)
    next
      case (Cons x a')
      with ab Seq have "lang (Seq (deriv c r1) r2) s" by (auto intro: lang.intros)
      then show ?thesis by (auto intro: lang.intros)
    qed
  qed
next
  case (Star r)
  show ?case
  proof
    assume "lang (deriv c (Star r)) s"
    then show "lang (Star r) (c # s)"
      using Star lang.intros(7) [of r "c # _"] by auto
  next
    assume "lang (Star r) (c # s)"
    from lang_Star_Cons [OF this refl] Star show "lang (deriv c (Star r)) s" by (auto intro: lang.intros)
  qed
qed auto

lemma regex_match_lang: "regex_match r s \<longleftrightarrow> lang r s"
  unfolding regex_match_def
  by (induction s arbitrary: r) (simp_all add: nullable_lang deriv_lang)

section \<open>The validators\<close>

text \<open>
  A field name is a NUL terminated \<open>std::string_view\<close>; \<open>data_of\<close> is the C string its
  \<open>data()\<close> is read as. \<open>accents\<close> writes the UTF-8 bytes of the letters with an acute accent
  or a tilde in the messages.
\<close>

definition data_of :: "string \<Rightarrow> string" where
  "data_of fieldname = takeWhile (\<lambda>c. c \<noteq> CHR 0x00) fieldname"

definition aacute :: string where
  "aacute = [CHR 0xC3, CHR 0xA1]"

definition atilde :: string where
  "atilde = [CHR 0xC3, CHR 0xA3]"

type_synonym check = "string \<Rightarrow> jvar \<Rightarrow> exn + jvar"

record validator =
  v_validate :: check
  v_modify :: "string \<Rightarrow> jvar \<Rightarrow> (jobj, jvar) eff"

text \<open>\<open>validate_and_modify\<close> of all but one class calls \<open>validate\<close>; \<open>operator()\<close> drops the index.\<close>

definition only_check :: "check \<Rightarrow> validator" where
  "only_check f = \<lparr>v_validate = f, v_modify = (\<lambda>fieldname valchk o'. (f fieldname valchk, o'))\<rparr>"

definition validator_call :: "validator \<Rightarrow> string \<Rightarrow> nat \<Rightarrow> jvar \<Rightarrow> exn + jvar" where
  "validator_call v fieldname i valchk = v_validate v fieldname valchk"

subsection \<open>EmailValidator\<close>

definition rng :: "nat \<Rightarrow> nat \<Rightarrow> char \<Rightarrow> bool" where
  "rng a b c \<longleftrightarrow> a \<le> byte c \<and> byte c \<le> b"

definition one_of :: "string \<Rightarrow> char \<Rightarrow> bool" where
  "one_of s c \<longleftrightarrow> c \<in> set s"

definition A_z09 :: "char \<Rightarrow> bool" where
  "A_z09 c \<longleftrightarrow> rng (byte (CHR ''A'')) (byte (CHR ''z'')) c \<or> rng (byte (CHR ''0'')) (byte (CHR ''9'')) c"

definition atext :: "char \<Rightarrow> bool" where
  "atext c \<longleftrightarrow> A_z09 c \<or> one_of ''!#$%&*+/=?^_{|}~-'' c \<or> one_of [CHR 0x27, CHR 0x60] c"

definition Chr :: "char \<Rightarrow> rx" where
  "Chr x = Cls (\<lambda>c. c = x)"

definition Plus :: "rx \<Rightarrow> rx" where
  "Plus r = Seq r (Star r)"

definition Opt :: "rx \<Rightarrow> rx" where
  "Opt r = Alt r One"

definition escaped :: rx where
  "escaped = Seq (Chr CHR 0x5C)
     (Cls (\<lambda>c. rng 0x01 0x09 c \<or> rng 0x0b 0x0b c \<or> rng 0x0c 0x0c c \<or> rng 0x0e 0x7f c))"

definition qtext :: rx where
  "qtext = Cls (\<lambda>c. rng 0x01 0x08 c \<or> rng 0x0b 0x0b c \<or> rng 0x0c 0x0c c \<or> rng 0x0e 0x1f c
     \<or> rng 0x21 0x21 c \<or> rng 0x23 0x5b c \<or> rng 0x5d 0x7f c)"

definition dtext :: rx where
  "dtext = Cls (\<lambda>c. rng 0x01 0x08 c \<or> rng 0x0b 0x0b c \<or> rng 0x0c 0x0c c \<or> rng 0x0e 0x1f c
     \<or> rng 0x21 0x5a c \<or> rng 0x53 0x7f c)"

definition local_part :: rx where
  "local_part = Alt
     (Seq (Plus (Cls atext)) (Star (Seq (Chr CHR ''.'') (Plus (Cls atext)))))
     (Seq (Chr CHR 0x22) (Seq (Star (Alt qtext escaped)) (Chr CHR 0x22)))"

definition dash_label :: rx where
  "dash_label = Seq (Cls A_z09) (Opt (Seq (Star (Cls (\<lambda>c. A_z09 c \<or> c = CHR ''-''))) (Cls A_z09)))"

definition octet :: rx where
  "octet = Alt (Seq (Chr CHR ''2'') (Seq (Chr CHR ''5'') (Cls (rng (byte (CHR ''0'')) (byte (CHR ''5''))))))
     (Alt (Seq (Chr CHR ''2'') (Seq (Cls (rng (byte (CHR ''0'')) (byte (CHR ''4'')))) (Cls is_digit)))
        (Seq (Opt (Cls (one_of ''01''))) (Seq (Cls is_digit) (Opt (Cls is_digit)))))"

definition tagged :: rx where
  "tagged = Seq (Star (Cls (\<lambda>c. A_z09 c \<or> c = CHR ''-''))) (Seq (Cls A_z09)
     (Seq (Chr CHR '':'') (Plus (Alt dtext escaped))))"

definition domain_part :: rx where
  "domain_part = Alt
     (Seq (Plus (Seq dash_label (Chr CHR ''.''))) dash_label)
     (Seq (Chr CHR ''['') (Seq (Seq octet (Chr CHR ''.'')) (Seq (Seq octet (Chr CHR ''.''))
        (Seq (Seq octet (Chr CHR ''.'')) (Seq (Alt octet tagged) (Chr CHR '']''))))))"

definition email_pattern :: rx where
  "email_pattern = Seq local_part (Seq (Chr CHR ''@'') domain_part)"

definition email_fail :: "string \<Rightarrow> jvar" where
  "email_fail fieldname = JStr (data_of fieldname @ '' deve ser um email v'' @ aacute @ ''lido'')"

definition email_validate :: "poco \<Rightarrow> check" where
  "email_validate p fieldname valchk =
     (if isEmpty valchk then Inr JEmpty
      else case p_toString p valchk of
             Inl e \<Rightarrow> Inl e
           | Inr s \<Rightarrow> if \<not> regex_match email_pattern s then Inr (email_fail fieldname) else Inr JEmpty)"

subsection \<open>Integer, required and length\<close>

definition integer_fail :: "string \<Rightarrow> jvar" where
  "integer_fail fieldname = JStr (data_of fieldname @ '' deve ser um inteiro v'' @ aacute @ ''lido'')"

definition integer_validate :: "poco \<Rightarrow> check" where
  "integer_validate p fieldname valchk =
     (if isEmpty valchk then Inr JEmpty
      else case (case p_toString p valchk of Inl e \<Rightarrow> Inl e | Inr s \<Rightarrow> stoll s) of
             Inl e \<Rightarrow> if is_std e then Inr (integer_fail fieldname) else Inl e
           | Inr i \<Rightarrow> Inr JEmpty)"

definition required_fail :: "string \<Rightarrow> jvar" where
  "required_fail fieldname = JStr (data_of fieldname @ '' deve possuir um valor'')"

definition required_validate :: check where
  "required_validate fieldname valchk =
     (if isEmpty valchk then Inr (required_fail fieldname) else Inr JEmpty)"

definition strlen_fail :: "u64 \<Rightarrow> u64 \<Rightarrow> string \<Rightarrow> jvar" where
  "strlen_fail mn mx fieldname =
     JStr (fieldname @ '' deve ter entre '' @ string_of_u64 mn @ '' e '' @ string_of_u64 mx @ '' caracteres'')"

definition strlen_fail_empty :: "string \<Rightarrow> jvar" where
  "strlen_fail_empty fieldname = JStr (fieldname @ '' n'' @ atilde @ ''o pode ser vazio'')"

definition strlen_validate :: "poco \<Rightarrow> u64 \<Rightarrow> u64 \<Rightarrow> check" where
  "strlen_validate p mn mx fieldname valchk =
     (if isEmpty valchk then Inr (strlen_fail mn mx fieldname)
      else case p_toString p valchk of
             Inl e \<Rightarrow> Inl e
           | Inr str \<Rightarrow>
               if str = [] \<and> mn > 0 then Inr (strlen_fail_empty fieldname)
               else if unat mn \<le> length str \<and> length str \<le> unat mx then Inr JEmpty
               else Inr (strlen_fail mn mx fieldname))"

text \<open>Made without limits, it takes one byte to \<open>SIZE_MAX\<close>: every text that is not empty.\<close>

definition strlen_default :: "poco \<Rightarrow> check" where
  "strlen_default p = strlen_validate p 1 (- 1)"

lemma strlen_default_nonempty:
  assumes "p_toString p v = Inr t" and "\<not> isEmpty v" and "length t < 2 ^ 64"
  shows "strlen_default p fieldname v = Inr JEmpty \<longleftrightarrow> t \<noteq> []"
proof -
  have "unat (- 1 :: u64) = 2 ^ 64 - 1" by (simp add: unsigned_minus_1_eq_mask mask_eq_exp_minus_1)
  then show ?thesis using assms by (cases t) (auto simp: strlen_default_def strlen_validate_def strlen_fail_empty_def)
qed

subsection \<open>Membership and default\<close>

text \<open>
  \<open>InArrayValidator\<close> over any container. \<open>eq\<close> is Poco's comparison of an element with a \<open>Var\<close>,
  which converts the \<open>Var\<close> and may throw; \<open>conv\<close> is \<open>convert\<close>.
\<close>

datatype in_item = ItemStr string | ItemView string | ItemNum string

fun item_convert :: "in_item \<Rightarrow> string" where
  "item_convert (ItemNum t) = t"
| "item_convert (ItemStr s) = s"
| "item_convert (ItemView s) = data_of s"

fun find_item :: "(in_item \<Rightarrow> jvar \<Rightarrow> exn + bool) \<Rightarrow> in_item list \<Rightarrow> jvar \<Rightarrow> exn + bool" where
  "find_item eq [] v = Inr False"
| "find_item eq (x # xs) v =
     (case eq x v of Inl e \<Rightarrow> Inl e | Inr b \<Rightarrow> if b then Inr True else find_item eq xs v)"

definition inarray_fail :: "in_item list \<Rightarrow> string \<Rightarrow> jvar" where
  "inarray_fail xs fieldname =
     JStr (data_of fieldname @ '' deve ser um dos seguintes itens: ['' @ join (map item_convert xs) '', '' @ '']'')"

definition inarray_validate ::
  "(in_item \<Rightarrow> jvar \<Rightarrow> exn + bool) \<Rightarrow> in_item list \<Rightarrow> bool \<Rightarrow> check" where
  "inarray_validate eq xs empty_pass fieldname valchk =
     (if empty_pass \<and> isEmpty valchk then Inr (inarray_fail xs fieldname)
      else case find_item eq xs valchk of
             Inl e \<Rightarrow> if is_std e then Inr (inarray_fail xs fieldname) else Inl e
           | Inr found \<Rightarrow> if \<not> found then Inr (inarray_fail xs fieldname) else Inr JEmpty)"

definition default_validate :: check where
  "default_validate fieldname valchk = Inr JEmpty"

definition default_modify :: "jvar \<Rightarrow> string \<Rightarrow> jvar \<Rightarrow> (jobj, jvar) eff" where
  "default_modify default_value fieldname valchk jsondata =
     (if isEmpty valchk then (Inr JEmpty, obj_set (data_of fieldname) default_value jsondata)
      else (Inr JEmpty, jsondata))"

definition default_validator :: "jvar \<Rightarrow> validator" where
  "default_validator default_value = \<lparr>v_validate = default_validate, v_modify = default_modify default_value\<rparr>"

subsection \<open>OrValidator\<close>

fun or_rules :: "check list \<Rightarrow> string \<Rightarrow> jvar \<Rightarrow> bool \<Rightarrow> jvar list option
    \<Rightarrow> exn + bool \<times> jvar list option" where
  "or_rules [] fieldname valchk success info = Inr (success, info)"
| "or_rules (r # rs) fieldname valchk success info =
     (if success then or_rules rs fieldname valchk success info
      else case r fieldname valchk of
             Inl e \<Rightarrow> Inl e
           | Inr valres \<Rightarrow>
               if isEmpty valres then or_rules rs fieldname valchk True info
               else or_rules rs fieldname valchk False
                      (Some ((case info of None \<Rightarrow> [] | Some a \<Rightarrow> a) @ [valres])))"

definition or_message :: string where
  "or_message = ''Valor inv'' @ aacute @ ''lido, deve atender uma das regras a seguir:''"

definition or_fail_message :: "string \<Rightarrow> string" where
  "or_fail_message fieldname = data_of fieldname @ '' deve possuir um valor''"

definition or_validate :: "check list \<Rightarrow> check" where
  "or_validate rules fieldname valchk =
     (case or_rules rules fieldname valchk False None of
        Inl e \<Rightarrow> Inl e
      | Inr (success, info) \<Rightarrow>
          if \<not> success
          then Inr (JObj (obj_set ''regras'' (case info of None \<Rightarrow> JNullArr | Some a \<Rightarrow> JArr a)
                      (obj_set ''mensagem'' (JStr or_message) [])))
          else Inr JEmpty)"

section \<open>ControllerInputValidator\<close>

text \<open>
  The driver. \<open>parameters\<close> is an \<open>Object::Ptr\<close> and may be null; the five texts are public
  members with defaults. \<open>get_response\<close> stores the pointer \<open>resobj\<close> in the response; here the
  response holds its value at that call.
\<close>

record civ =
  parameters :: "jobj option"
  resultadofinal :: "jobj option"
  resobj :: "jobj option"
  validation_failed :: bool
  RESULT :: string
  SUCCESS :: string
  MESSAGE :: string
  DEFAULT_MESSAGE :: string
  UNKNOWN_FIELD :: string

definition new_civ :: "jobj option \<Rightarrow> civ" where
  "new_civ inputvalues =
     \<lparr>parameters = inputvalues, resultadofinal = None, resobj = None, validation_failed = False,
      RESULT = ''resultado'', SUCCESS = ''sucesso'', MESSAGE = ''mensagem'',
      DEFAULT_MESSAGE = ''Falha na valida'' @ [CHR 0xC3, CHR 0xA7] @ atilde @ ''o de um ou mais campos'',
      UNKNOWN_FIELD = ''N'' @ atilde @ ''o '' @ [CHR 0xC3, CHR 0xA9] @ '' um par'' @ [CHR 0xC3, CHR 0xA2]
        @ ''metro reconhecido''\<rparr>"

definition push_validation_msg :: "jvar \<Rightarrow> jvar list \<Rightarrow> jvar list" where
  "push_validation_msg var data = (if isEmpty var then data else data @ [var])"

definition push_val_list :: "string \<Rightarrow> jvar list \<Rightarrow> civ \<Rightarrow> civ" where
  "push_val_list fieldname arr c =
     (if arr = [] then c
      else c\<lparr>resultadofinal := Some (case resultadofinal c of
                None \<Rightarrow> obj_set (MESSAGE c) (JStr (DEFAULT_MESSAGE c)) (obj_set (SUCCESS c) (JBool False) [])
              | Some r \<Rightarrow> r),
             validation_failed := True,
             resobj := Some (obj_set (data_of fieldname) (JArr arr)
               (case resobj c of None \<Rightarrow> [] | Some r \<Rightarrow> r))\<rparr>)"

fun run_checks :: "check list \<Rightarrow> string \<Rightarrow> jvar \<Rightarrow> jvar list \<Rightarrow> exn + jvar list" where
  "run_checks [] fieldname data result = Inr result"
| "run_checks (v # vs) fieldname data result =
     (case v fieldname data of
        Inl e \<Rightarrow> Inl e
      | Inr m \<Rightarrow> run_checks vs fieldname data (push_validation_msg m result))"

definition validate_input :: "string \<Rightarrow> check list \<Rightarrow> (civ, bool) eff" where
  "validate_input fieldname args c =
     (case deref (parameters c) of
        Inl e \<Rightarrow> (Inl e, c)
      | Inr ps \<Rightarrow>
          (case run_checks args fieldname (obj_get ps (data_of fieldname)) [] of
             Inl e \<Rightarrow> (Inl e, c)
           | Inr result \<Rightarrow> (Inr (result \<noteq> []), push_val_list fieldname result c)))"

definition validate_input_custom :: "string \<Rightarrow> check list \<Rightarrow> (civ, bool) eff" where
  "validate_input_custom nm data = validate_input nm data"

definition find_values_not_in_list :: "string list \<Rightarrow> (civ, unit) eff" where
  "find_values_not_in_list valid c =
     (case deref (parameters c) of
        Inl e \<Rightarrow> (Inl e, c)
      | Inr ps \<Rightarrow>
          (Inr (), fold (\<lambda>(key, v) c. if key \<notin> set valid
                                  then push_val_list key [JStr (UNKNOWN_FIELD c)] c else c) ps c))"

fun validate_all :: "(string \<times> check list) list \<Rightarrow> bool \<Rightarrow> (civ, bool) eff" where
  "validate_all [] result c = (Inr result, c)"
| "validate_all ((nm, vs) # r) result c =
     (case validate_input_custom nm vs c of
        (Inl e, c') \<Rightarrow> (Inl e, c')
      | (Inr failed, c') \<Rightarrow> validate_all r (result \<or> failed) c')"

definition full_validation :: "(string \<times> check list) list \<Rightarrow> (civ, bool) eff" where
  "full_validation args c =
     (case validate_all args False c of
        (Inl e, c') \<Rightarrow> (Inl e, c')
      | (Inr result, c') \<Rightarrow>
          (case find_values_not_in_list (map fst args) c' of
             (Inl e, c'') \<Rightarrow> (Inl e, c'')
           | (Inr u, c'') \<Rightarrow> (Inr result, c'')))"

definition get_response :: "civ \<Rightarrow> jobj option \<times> civ" where
  "get_response c =
     (case resultadofinal c of
        None \<Rightarrow> (None, c)
      | Some r \<Rightarrow>
          (let r' = obj_set (RESULT c) (case resobj c of None \<Rightarrow> JNullObj | Some x \<Rightarrow> JObj x) r
           in (Some r', c\<lparr>resultadofinal := Some r'\<rparr>)))"

definition get_only_messages :: "civ \<Rightarrow> jobj option" where
  "get_only_messages c = resobj c"

definition get_parameters :: "civ \<Rightarrow> jobj option" where
  "get_parameters c = parameters c"

section \<open>Nested documents\<close>

text \<open>\<open>validatefn\<close> of \<open>ObjectValidator\<close> works on a fresh driver over the object.\<close>

definition object_fail :: "string \<Rightarrow> jvar" where
  "object_fail fieldname = JStr (data_of fieldname @ '' deve ser um objeto'')"

definition object_validate :: "(string \<Rightarrow> (civ, unit) eff) \<Rightarrow> check" where
  "object_validate validatefn fieldname valchk =
     (if isEmpty valchk then Inr JEmpty
      else case extract_obj valchk of
             Inl e \<Rightarrow> if is_std e then Inr (object_fail fieldname) else Inl e
           | Inr None \<Rightarrow> Inr (object_fail fieldname)
           | Inr (Some ptr) \<Rightarrow>
               (case validatefn fieldname (new_civ (Some ptr)) of
                  (Inl e, inputval) \<Rightarrow> Inl e
                | (Inr u, inputval) \<Rightarrow>
                    (case get_only_messages inputval of
                       None \<Rightarrow> Inr JEmpty
                     | Some responsedata \<Rightarrow> Inr (JObj responsedata))))"

definition object_validator :: "(string \<Rightarrow> (civ, unit) eff) \<Rightarrow> validator" where
  "object_validator validatefn = \<lparr>v_validate = object_validate validatefn,
     v_modify = (\<lambda>fieldname valchk jsondata. (object_validate validatefn fieldname valchk, jsondata))\<rparr>"

text \<open>The loop of \<open>ArrayValidator\<close>: index, the object nobody reads, and the last result.\<close>

fun array_loop :: "(string \<Rightarrow> nat \<Rightarrow> jvar \<Rightarrow> exn + jvar) \<Rightarrow> string \<Rightarrow> jvar list \<Rightarrow>
    nat \<times> jobj option \<times> jvar \<Rightarrow> exn + nat \<times> jobj option \<times> jvar" where
  "array_loop validatefn fieldname [] st = Inr st"
| "array_loop validatefn fieldname (data # ds) (index, temporaryObject, res) =
     (case validatefn fieldname index data of
        Inl e \<Rightarrow> Inl e
      | Inr res' \<Rightarrow>
          array_loop validatefn fieldname ds
            (index + 1,
             if isEmpty res'
             then Some (obj_set (string_of_nat index) res'
                          (case temporaryObject of None \<Rightarrow> [] | Some t \<Rightarrow> t))
             else temporaryObject,
             res'))"

definition array_fail :: "string \<Rightarrow> jvar" where
  "array_fail fieldname = JStr (data_of fieldname @ '' deve ser um array'')"

definition array_validate :: "(string \<Rightarrow> nat \<Rightarrow> jvar \<Rightarrow> exn + jvar) \<Rightarrow> check" where
  "array_validate validatefn fieldname valchk =
     (if isEmpty valchk then Inr JEmpty
      else case extract_arr valchk of
             Inl e \<Rightarrow> if is_std e then Inr (array_fail fieldname) else Inl e
           | Inr None \<Rightarrow> Inr (array_fail fieldname)
           | Inr (Some ptr) \<Rightarrow>
               (case array_loop validatefn fieldname ptr (0, None, JEmpty) of
                  Inl e \<Rightarrow> Inl e
                | Inr (index, temporaryObject, resultadoValidacao) \<Rightarrow> Inr resultadoValidacao))"

definition array_validator :: "(string \<Rightarrow> nat \<Rightarrow> jvar \<Rightarrow> exn + jvar) \<Rightarrow> validator" where
  "array_validator validatefn = \<lparr>v_validate = array_validate validatefn,
     v_modify = (\<lambda>fieldname valchk jsondata. (array_validate validatefn fieldname valchk, jsondata))\<rparr>"

section \<open>ControllerInputModifier\<close>

text \<open>
  The twin that lets the validators change the input. \<open>opt\<close> is the conversion of a validator's
  \<open>Var\<close> to the \<open>std::optional<std::string>\<close> its \<open>push_validation_msg\<close> takes.
\<close>

record cim =
  cim_parameters :: "jobj option"
  cim_resultadofinal :: "jobj option"
  cim_resobj :: "jobj option"
  cim_failed :: bool

definition new_cim :: "jobj option \<Rightarrow> cim" where
  "new_cim inputvalues =
     \<lparr>cim_parameters = inputvalues, cim_resultadofinal = None, cim_resobj = None, cim_failed = False\<rparr>"

definition cim_push_validation_msg :: "string option \<Rightarrow> jvar list \<Rightarrow> jvar list" where
  "cim_push_validation_msg str data = (case str of None \<Rightarrow> data | Some m \<Rightarrow> data @ [JStr m])"

definition cim_message :: string where
  "cim_message = ''Falha na valida'' @ [CHR 0xC3, CHR 0xA7] @ atilde @ ''o de um ou mais campos''"

definition cim_push_val_list :: "string \<Rightarrow> jvar list \<Rightarrow> cim \<Rightarrow> cim" where
  "cim_push_val_list fieldname arr c =
     (if arr = [] then c
      else c\<lparr>cim_resultadofinal := Some (case cim_resultadofinal c of
                None \<Rightarrow> obj_set ''mensagem'' (JStr cim_message) (obj_set ''sucesso'' (JBool False) [])
              | Some r \<Rightarrow> r),
             cim_failed := True,
             cim_resobj := Some (obj_set (data_of fieldname) (JArr arr)
               (case cim_resobj c of None \<Rightarrow> [] | Some r \<Rightarrow> r))\<rparr>)"

fun run_modifiers :: "(jvar \<Rightarrow> exn + string option) \<Rightarrow> validator list \<Rightarrow> string \<Rightarrow> jvar \<Rightarrow> jvar list
    \<Rightarrow> (jobj, jvar list) eff" where
  "run_modifiers opt [] fieldname data result ps = (Inr result, ps)"
| "run_modifiers opt (v # vs) fieldname data result ps =
     (case v_modify v fieldname data ps of
        (Inl e, ps') \<Rightarrow> (Inl e, ps')
      | (Inr m, ps') \<Rightarrow>
          (case opt m of
             Inl e \<Rightarrow> (Inl e, ps')
           | Inr str \<Rightarrow> run_modifiers opt vs fieldname data (cim_push_validation_msg str result) ps'))"

definition cim_validate_input ::
  "(jvar \<Rightarrow> exn + string option) \<Rightarrow> string \<Rightarrow> validator list \<Rightarrow> (cim, bool) eff" where
  "cim_validate_input opt fieldname args c =
     (case deref (cim_parameters c) of
        Inl e \<Rightarrow> (Inl e, c)
      | Inr ps \<Rightarrow>
          (case run_modifiers opt args fieldname (obj_get ps (data_of fieldname)) [] ps of
             (Inl e, ps') \<Rightarrow> (Inl e, c\<lparr>cim_parameters := Some ps'\<rparr>)
           | (Inr result, ps') \<Rightarrow>
               (Inr (result \<noteq> []),
                cim_push_val_list fieldname result (c\<lparr>cim_parameters := Some ps'\<rparr>))))"

definition cim_get_response :: "cim \<Rightarrow> jobj option \<times> cim" where
  "cim_get_response c =
     (case cim_resultadofinal c of
        None \<Rightarrow> (None, c)
      | Some r \<Rightarrow>
          (let r' = obj_set ''resultado'' (case cim_resobj c of None \<Rightarrow> JNullObj | Some x \<Rightarrow> JObj x) r
           in (Some r', c\<lparr>cim_resultadofinal := Some r'\<rparr>)))"

section \<open>Validator\<close>

text \<open>\<open>ValidatorException\<close> carries a message; \<open>StdExn Validator_exception msg\<close> is one.\<close>

definition validator_to_json :: "string \<Rightarrow> jobj" where
  "validator_to_json msg = obj_set ''mensagem'' (JStr (data_of msg)) (obj_set ''sucesso'' (JBool False) [])"

definition parse_json_from_string :: "poco \<Rightarrow> string \<Rightarrow> exn + jobj option" where
  "parse_json_from_string p str =
     (case p_parse p str of Inl e \<Rightarrow> Inl e | Inr jsonvar \<Rightarrow> extract_obj jsonvar)"

definition request_to_json :: "poco \<Rightarrow> string \<Rightarrow> u64 \<Rightarrow> u64 \<Rightarrow> exn + jobj option" where
  "request_to_json p body minsize maxsize =
     (if length body < unat minsize
      then Inl (StdExn Validator_exception ''Input data is small than expected'')
      else if length body > unat maxsize
      then Inl (StdExn Validator_exception ''Input data is larger than expected'')
      else parse_json_from_string p body)"

definition CheckSQL :: "string \<Rightarrow> bool" where
  "CheckSQL sql \<longleftrightarrow>
     list_all (\<lambda>str. find_sub str sql = None)
       [''%'', ''/'', ''union'', ''|'', ''&'', ''^'', ''#'', ''/*'', ''*/'']"

definition CheckParameter :: "string \<Rightarrow> bool" where
  "CheckParameter parameter \<longleftrightarrow>
     list_all (\<lambda>str. find_sub str parameter = None)
       [''and'', ''*'', ''='', '' '', ''%0a'', ''%'', ''/'', ''union'', ''|'', ''&'', ''^'', ''#'', ''/*'', ''*/'']"

text \<open>
  \<open>WebInputValidator::validate\<close>: the optional callback, then the answer. The second component is
  the document sent with code 400, if any.
\<close>

definition web_validate ::
  "(civ, unit) eff option \<Rightarrow> civ \<Rightarrow> (exn + bool) \<times> jobj option \<times> civ" where
  "web_validate fn_obj inputValidator =
     (case (case fn_obj of None \<Rightarrow> (Inr (), inputValidator) | Some f \<Rightarrow> f inputValidator) of
        (Inl e, c) \<Rightarrow> (Inl e, None, c)
      | (Inr u, c) \<Rightarrow>
          (case get_response c of
             (None, c') \<Rightarrow> (Inr True, None, c')
           | (Some responsedata, c') \<Rightarrow> (Inr False, Some responsedata, c')))"

section \<open>What a full validation reports\<close>

definition messages_of :: "civ \<Rightarrow> string \<rightharpoonup> jvar" where
  "messages_of c = (case resobj c of None \<Rightarrow> Map.empty | Some r \<Rightarrow> map_of r)"

definition civ_ok :: "civ \<Rightarrow> bool" where
  "civ_ok c \<longleftrightarrow> (resultadofinal c = None \<longleftrightarrow> messages_of c = Map.empty)"

text \<open>Rules that never throw, and the messages they have for a field.\<close>

definition sure :: "(string \<Rightarrow> jvar \<Rightarrow> jvar) \<Rightarrow> check" where
  "sure g fieldname valchk = Inr (g fieldname valchk)"

definition sure_fields :: "(string \<times> (string \<Rightarrow> jvar \<Rightarrow> jvar) list) list \<Rightarrow> (string \<times> check list) list" where
  "sure_fields fs = map (\<lambda>(n, gs). (n, map sure gs)) fs"

definition complaints :: "(string \<Rightarrow> jvar \<Rightarrow> jvar) list \<Rightarrow> string \<Rightarrow> jvar \<Rightarrow> jvar list" where
  "complaints gs n v = filter (\<lambda>m. \<not> isEmpty m) (map (\<lambda>g. g n v) gs)"

definition report :: "(string \<times> (string \<Rightarrow> jvar \<Rightarrow> jvar) list) list \<Rightarrow> jobj \<Rightarrow> string \<rightharpoonup> jvar" where
  "report fs o' f =
     (case map_of fs f of
        Some gs \<Rightarrow> (case complaints gs f (obj_get o' f) of [] \<Rightarrow> None | ms \<Rightarrow> Some (JArr ms))
      | None \<Rightarrow> if obj_has o' f then Some (JArr [JStr (UNKNOWN_FIELD (new_civ None))]) else None)"

lemma data_of_plain: "CHR 0x00 \<notin> set s \<Longrightarrow> data_of s = s"
  by (auto simp: data_of_def takeWhile_eq_all_conv)

lemma run_checks_sure: "run_checks (map sure gs) n v acc = Inr (acc @ complaints gs n v)"
  by (induction gs arbitrary: acc) (auto simp: sure_def complaints_def push_validation_msg_def)

lemma push_val_list_frame [simp]:
  "parameters (push_val_list f arr c) = parameters c"
  "UNKNOWN_FIELD (push_val_list f arr c) = UNKNOWN_FIELD c"
  by (simp_all add: push_val_list_def)

lemma messages_push_val_list:
  "messages_of (push_val_list f arr c) =
     (if arr = [] then messages_of c else (messages_of c)(data_of f \<mapsto> JArr arr))"
  by (auto simp: messages_of_def push_val_list_def split: option.split)

lemma civ_ok_push_val_list: "civ_ok c \<Longrightarrow> civ_ok (push_val_list f arr c)"
  by (auto simp: civ_ok_def push_val_list_def messages_of_def)

lemma messages_new_civ [simp]: "messages_of (new_civ p) = Map.empty"
  by (simp add: messages_of_def new_civ_def)

lemma civ_ok_new_civ: "civ_ok (new_civ p)"
  by (simp add: civ_ok_def) (simp add: new_civ_def)

lemma validate_input_sure:
  assumes "parameters c = Some o'" and "CHR 0x00 \<notin> set n"
  shows "validate_input n (map sure gs) c =
    (Inr (complaints gs n (obj_get o' n) \<noteq> []), push_val_list n (complaints gs n (obj_get o' n)) c)"
  using assms by (simp add: validate_input_def deref_def run_checks_sure data_of_plain)

lemma validate_all_sure:
  assumes "parameters c = Some o'" and "distinct (map fst fs)" and "\<forall>n \<in> set (map fst fs). CHR 0x00 \<notin> set n"
  shows "\<exists>c'. validate_all (sure_fields fs) r c =
      (Inr (r \<or> (\<exists>(n, gs) \<in> set fs. complaints gs n (obj_get o' n) \<noteq> [])), c') \<and>
    parameters c' = Some o' \<and> UNKNOWN_FIELD c' = UNKNOWN_FIELD c \<and> (civ_ok c \<longrightarrow> civ_ok c') \<and>
    (\<forall>f. messages_of c' f = (case map_of fs f of
        Some gs \<Rightarrow> (case complaints gs f (obj_get o' f) of [] \<Rightarrow> messages_of c f | ms \<Rightarrow> Some (JArr ms))
      | None \<Rightarrow> messages_of c f))"
  using assms
proof (induction fs arbitrary: r c)
  case Nil
  then show ?case by (simp add: sure_fields_def)
next
  case (Cons e fs)
  obtain n gs where e: "e = (n, gs)" by (cases e)
  define ms where "ms = complaints gs n (obj_get o' n)"
  define d where "d = push_val_list n ms c"
  have n0: "CHR 0x00 \<notin> set n" using Cons.prems e by simp
  have d: "parameters d = Some o'" "UNKNOWN_FIELD d = UNKNOWN_FIELD c" "civ_ok c \<longrightarrow> civ_ok d"
    "messages_of d = (if ms = [] then messages_of c else (messages_of c)(n \<mapsto> JArr ms))"
    using Cons.prems n0
    by (simp_all add: d_def civ_ok_push_val_list messages_push_val_list data_of_plain)
  have step: "validate_all (sure_fields (e # fs)) r c = validate_all (sure_fields fs) (r \<or> ms \<noteq> []) d"
    using validate_input_sure [OF Cons.prems(1) n0, of gs]
    by (simp add: sure_fields_def e validate_input_custom_def ms_def d_def)
  have "distinct (map fst fs)" "\<forall>n \<in> set (map fst fs). CHR 0x00 \<notin> set n" using Cons.prems by auto
  from Cons.IH [OF d(1) this, of "r \<or> ms \<noteq> []"] obtain c' where
    c': "validate_all (sure_fields fs) (r \<or> ms \<noteq> []) d =
      (Inr ((r \<or> ms \<noteq> []) \<or> (\<exists>(n, gs) \<in> set fs. complaints gs n (obj_get o' n) \<noteq> [])), c')"
      "parameters c' = Some o'" "UNKNOWN_FIELD c' = UNKNOWN_FIELD d" "civ_ok d \<longrightarrow> civ_ok c'"
    and m: "\<And>f. messages_of c' f = (case map_of fs f of
        Some gs \<Rightarrow> (case complaints gs f (obj_get o' f) of [] \<Rightarrow> messages_of d f | ms \<Rightarrow> Some (JArr ms))
      | None \<Rightarrow> messages_of d f)" by blast
  have fresh: "map_of fs n = None"
    using Cons.prems(2) e by (force simp: map_of_eq_None_iff)
  have "messages_of c' f = (case map_of (e # fs) f of
        Some gs \<Rightarrow> (case complaints gs f (obj_get o' f) of [] \<Rightarrow> messages_of c f | ms \<Rightarrow> Some (JArr ms))
      | None \<Rightarrow> messages_of c f)" for f
    using m [of f] d(4) fresh by (cases "f = n") (auto simp: e ms_def split: list.split option.split)
  with step c' d show ?case by (intro exI [of _ c']) (auto simp: e ms_def)
qed

lemma find_values_fold:
  assumes "\<forall>(k, v) \<in> set ps. CHR 0x00 \<notin> set k" and "civ_ok c"
  shows "let c' = fold (\<lambda>(key, v) c. if key \<notin> V then push_val_list key [JStr (UNKNOWN_FIELD c)] c else c) ps c
    in civ_ok c' \<and> messages_of c' =
      (\<lambda>f. if f \<in> fst ` set ps \<and> f \<notin> V then Some (JArr [JStr (UNKNOWN_FIELD c)]) else messages_of c f)"
  using assms
proof (induction ps arbitrary: c)
  case Nil
  then show ?case by simp
next
  case (Cons e ps)
  obtain k v where e: "e = (k, v)" by (cases e)
  show ?case
  proof (cases "k \<in> V")
    case True
    with Cons show ?thesis by (auto simp: e Let_def fun_eq_iff)
  next
    case False
    have "civ_ok (push_val_list k [JStr (UNKNOWN_FIELD c)] c)"
      using Cons.prems by (simp add: civ_ok_push_val_list)
    from Cons.IH [OF _ this] Cons.prems False show ?thesis
      by (auto simp: e Let_def fun_eq_iff messages_push_val_list data_of_plain)
  qed
qed

text \<open>C21: what a client learns from a full validation: over distinct rule names and a document of
  plain keys, the messages are exactly, for every named field, the complaints of its rules in order
  and, for every other field of the document, that it is unknown; there is a response exactly when
  something is reported. The boolean result only tells whether a named field failed: a document
  whose one fault is an unknown field is answered with \<open>False\<close>, "no problem found".\<close>

theorem full_validation_report:
  assumes "distinct (map fst fs)" and "\<forall>n \<in> set (map fst fs). CHR 0x00 \<notin> set n"
    and "\<forall>(k, v) \<in> set o'. CHR 0x00 \<notin> set k"
  shows "\<exists>c. full_validation (sure_fields fs) (new_civ (Some o')) =
      (Inr (\<exists>(n, gs) \<in> set fs. complaints gs n (obj_get o' n) \<noteq> []), c) \<and>
    messages_of c = report fs o' \<and>
    (fst (get_response c) = None \<longleftrightarrow> report fs o' = Map.empty)"
proof -
  have "parameters (new_civ (Some o')) = Some o'" by (simp add: new_civ_def)
  from validate_all_sure [OF this assms(1,2), of False, unfolded messages_new_civ] civ_ok_new_civ obtain c' where
    c': "validate_all (sure_fields fs) False (new_civ (Some o')) =
      (Inr (\<exists>(n, gs) \<in> set fs. complaints gs n (obj_get o' n) \<noteq> []), c')"
      "parameters c' = Some o'" "UNKNOWN_FIELD c' = UNKNOWN_FIELD (new_civ (Some o'))" "civ_ok c'"
    and m: "\<And>f. messages_of c' f = (case map_of fs f of
        Some gs \<Rightarrow> (case complaints gs f (obj_get o' f) of [] \<Rightarrow> None | ms \<Rightarrow> Some (JArr ms))
      | None \<Rightarrow> None)"
    by (simp add: simp_thms) blast
  define c where "c = fold (\<lambda>(key, v) c. if key \<notin> fst ` set fs
      then push_val_list key [JStr (UNKNOWN_FIELD c)] c else c) o' c'"
  have c: "civ_ok c" "messages_of c =
      (\<lambda>f. if f \<in> fst ` set o' \<and> f \<notin> fst ` set fs then Some (JArr [JStr (UNKNOWN_FIELD c')]) else messages_of c' f)"
    using find_values_fold [OF assms(3) c'(4), of "fst ` set fs"] by (simp_all add: c_def Let_def)
  have u: "UNKNOWN_FIELD c' = UNKNOWN_FIELD (new_civ None)" using c'(3) by (simp add: new_civ_def)
  have msg: "messages_of c = report fs o'"
  proof
    fix f
    have "map_of fs f = None \<longleftrightarrow> f \<notin> fst ` set fs" "obj_has o' f \<longleftrightarrow> f \<in> fst ` set o'"
      by (simp_all add: obj_has_def map_of_eq_None_iff)
    then show "messages_of c f = report fs o' f"
      by (auto simp: c(2) m u report_def split: option.split)
  qed
  have "map fst (sure_fields fs) = map fst fs" by (auto simp: sure_fields_def)
  then have "find_values_not_in_list (map fst (sure_fields fs)) c' = (Inr (), c)"
    using c'(2) by (simp add: find_values_not_in_list_def deref_def c_def)
  then have "full_validation (sure_fields fs) (new_civ (Some o')) =
      (Inr (\<exists>(n, gs) \<in> set fs. complaints gs n (obj_get o' n) \<noteq> []), c)"
    using c'(1) by (simp add: full_validation_def)
  moreover have "fst (get_response c) = None \<longleftrightarrow> messages_of c = Map.empty"
    using c(1) by (auto simp: get_response_def civ_ok_def Let_def split: option.split)
  ultimately show ?thesis using msg by auto
qed

definition need :: "string \<Rightarrow> jvar \<Rightarrow> jvar" where
  "need n v = (if isEmpty v then required_fail n else JEmpty)"

theorem full_validation_report_witness:
  "(\<exists>c. full_validation (sure_fields [(''a'', [need])]) (new_civ (Some [(''a'', JInt 1), (''b'', JInt 2)])) =
     (Inr False, c) \<and> messages_of c ''b'' \<noteq> None \<and> fst (get_response c) \<noteq> None)"
proof -
  have "report [(''a'', [need])] [(''a'', JInt 1), (''b'', JInt 2)] ''b'' \<noteq> None"
    by (simp add: report_def obj_has_def)
  moreover have "\<not> (\<exists>(n, gs) \<in> set [(''a'', [need])].
      complaints gs n (obj_get [(''a'', JInt 1), (''b'', JInt 2)] n) \<noteq> [])"
    by (simp add: complaints_def need_def obj_get_def)
  ultimately show ?thesis
    using full_validation_report [of "[(''a'', [need])]" "[(''a'', JInt 1), (''b'', JInt 2)]"] by force
qed

section \<open>Alternatives and arrays\<close>

lemma or_rules_success: "or_rules rs n v True info = Inr (True, info)"
  by (induction rs) auto

lemma or_rules_pass:
  "\<exists>g \<in> set gs. isEmpty (g n v) \<Longrightarrow> \<exists>x. or_rules (map sure gs) n v False info = Inr (True, x)"
  by (induction gs arbitrary: info) (auto simp: sure_def or_rules_success)

lemma or_rules_fail:
  "\<forall>g \<in> set gs. \<not> isEmpty (g n v) \<Longrightarrow>
     or_rules (map sure gs) n v False info = Inr (False, if gs = [] then info
        else Some ((case info of None \<Rightarrow> [] | Some a \<Rightarrow> a) @ map (\<lambda>g. g n v) gs))"
  by (induction gs arbitrary: info) (simp_all add: sure_def)

text \<open>An alternative of rules passes exactly when one of them passes, and otherwise answers with
  the complaint of every rule, in the order of the rules.\<close>

theorem or_validate_any:
  assumes "gs \<noteq> []"
  shows "or_validate (map sure gs) n v =
    Inr (if \<exists>g \<in> set gs. isEmpty (g n v) then JEmpty
         else JObj [(''mensagem'', JStr or_message), (''regras'', JArr (map (\<lambda>g. g n v) gs))])"
proof (cases "\<exists>g \<in> set gs. isEmpty (g n v)")
  case True
  with or_rules_pass [OF True, of None] show ?thesis by (auto simp: or_validate_def)
next
  case False
  then have "or_rules (map sure gs) n v False None = Inr (False, Some (map (\<lambda>g. g n v) gs))"
    using or_rules_fail [of gs n v None] assms by simp
  with False show ?thesis by (simp add: or_validate_def obj_set.simps byte_def)
qed

theorem or_validate_any_witness:
  "or_validate (map sure [need, \<lambda>n v. JStr ''no'']) ''f'' JEmpty =
     Inr (JObj [(''mensagem'', JStr or_message), (''regras'', JArr [required_fail ''f'', JStr ''no''])])"
  by (subst or_validate_any) (simp_all add: need_def required_fail_def)

lemma array_loop_last:
  "array_loop (\<lambda>n i v. Inr (g n i v)) n xs (i, t, r) = Inr (i + length xs, t', r') \<Longrightarrow>
   xs \<noteq> [] \<Longrightarrow> r' = g n (i + length xs - 1) (last xs)"
proof (induction xs arbitrary: i t r)
  case (Cons x xs)
  show ?case
  proof (cases "xs = []")
    case False
    with Cons.prems show ?thesis
      using Cons.IH [of "Suc i" _ "g n i x"] by simp
  qed (use Cons.prems in simp)
qed simp

lemma array_loop_ends: "\<exists>t' r'. array_loop (\<lambda>n i v. Inr (g n i v)) n xs (i, t, r) = Inr (i + length xs, t', r')"
proof (induction xs arbitrary: i t r)
  case (Cons x xs)
  then show ?case using Cons.IH [of "Suc i"] by simp
qed simp

text \<open>The verdict on an array is the callback's verdict on its last element alone: whatever the
  callback answered for the elements before it, the array passes when the last one does. The
  callback "this element is wrong, at this index" the tests use rejects a wrong element only in the
  last place.\<close>

theorem array_validate_last:
  assumes "xs \<noteq> []"
  shows "array_validate (\<lambda>n i v. Inr (g n i v)) n (JArr xs) = Inr (g n (length xs - 1) (last xs))"
proof -
  obtain t' r' where r: "array_loop (\<lambda>n i v. Inr (g n i v)) n xs (0, None, JEmpty) = Inr (length xs, t', r')"
    using array_loop_ends [of g n xs 0 None JEmpty] by auto
  with array_loop_last [of g n xs 0 None JEmpty t' r'] assms show ?thesis
    by (simp add: array_validate_def)
qed

theorem array_validate_last_witness:
  "array_validate (\<lambda>n i v. Inr (if v = JStr ''teste'' then JEmpty else JStr n)) ''f''
     (JArr [JStr ''wrong'', JStr ''teste'']) = Inr JEmpty"
  by (subst array_validate_last [where g = "\<lambda>n i v. if v = JStr ''teste'' then JEmpty else JStr n"]) simp_all

section \<open>The e-mail pattern\<close>

lemma lang_Chr [simp]: "lang (Chr x) s \<longleftrightarrow> s = [x]"
  by (auto simp: Chr_def intro: lang.intros)

lemma lang_Cls [simp]: "lang (Cls p) s \<longleftrightarrow> (\<exists>c. s = [c] \<and> p c)"
  by (auto intro: lang.intros)

lemma lang_Seq: "lang (Seq r t) s \<longleftrightarrow> (\<exists>a b. s = a @ b \<and> lang r a \<and> lang t b)"
  by (auto intro: lang.intros)

lemma lang_Alt: "lang (Alt r t) s \<longleftrightarrow> lang r s \<or> lang t s"
  by (auto intro: lang.intros)

lemma lang_One: "lang One s \<longleftrightarrow> s = []"
  by (auto intro: lang.intros)

lemma lang_StarI: "\<forall>x \<in> set xs. lang r x \<Longrightarrow> lang (Star r) (concat xs)"
  by (induction xs) (auto intro: lang.intros)

lemma lang_Star_Cls: "\<forall>c \<in> set s. p c \<Longrightarrow> lang (Star (Cls p)) s"
  using lang_StarI [of "map (\<lambda>c. [c]) s" "Cls p"] by auto

lemma lang_Plus_Cls: "s \<noteq> [] \<Longrightarrow> \<forall>c \<in> set s. p c \<Longrightarrow> lang (Plus (Cls p)) s"
  using lang.intros(5) [of "Cls p" "[hd s]" "Star (Cls p)" "tl s"] lang_Star_Cls [of "tl s" p]
  by (cases s) (simp_all add: Plus_def)

lemma lang_label:
  assumes "s \<noteq> []" and "\<forall>c \<in> set s. A_z09 c"
  shows "lang dash_label s"
proof -
  obtain c r where s: "s = c # r" using assms(1) by (cases s) auto
  have "lang (Opt (Seq (Star (Cls (\<lambda>c. A_z09 c \<or> c = CHR ''-''))) (Cls A_z09))) r"
  proof (cases r rule: rev_cases)
    case Nil
    then show ?thesis by (simp add: Opt_def lang_Alt lang_One)
  next
    case (snoc m x)
    with assms s have "lang (Star (Cls (\<lambda>c. A_z09 c \<or> c = CHR ''-''))) m" "lang (Cls A_z09) [x]"
      by (auto intro!: lang_Star_Cls)
    with snoc show ?thesis by (auto simp: Opt_def lang_Alt intro: lang.intros(5))
  qed
  with assms s show ?thesis
    using lang.intros(5) [of "Cls A_z09" "[c]" _ r] by (simp add: dash_label_def)
qed

lemma join_snoc_dots: "join (xs @ [y]) d = concat (map (\<lambda>x. x @ d) xs) @ y"
  by (induction xs) (simp_all add: join_Cons)

lemma join_heads: "join (x # xs) d = x @ concat (map (\<lambda>x. d @ x) xs)"
  by (induction xs arbitrary: x) (simp_all add: join_Cons)

lemma lang_local:
  assumes "xs \<noteq> []" and "\<forall>a \<in> set xs. a \<noteq> [] \<and> (\<forall>c \<in> set a. atext c)"
  shows "lang local_part (join xs ''.'')"
proof -
  obtain a r where xs: "xs = a # r" using assms(1) by (cases xs) auto
  have "lang (Plus (Cls atext)) a" using assms xs by (intro lang_Plus_Cls) auto
  moreover have "lang (Star (Seq (Chr CHR ''.'') (Plus (Cls atext)))) (concat (map (\<lambda>x. ''.'' @ x) r))"
    using assms xs by (intro lang_StarI) (auto intro!: lang.intros(5) [of _ "''.''", simplified] lang_Plus_Cls)
  ultimately show ?thesis
    by (auto simp: local_part_def lang_Alt xs join_heads intro: lang.intros(5))
qed

lemma lang_domain:
  assumes "2 \<le> length ls" and "\<forall>a \<in> set ls. a \<noteq> [] \<and> (\<forall>c \<in> set a. A_z09 c)"
  shows "lang domain_part (join ls ''.'')"
proof -
  obtain x xs y where ls: "ls = (x # xs) @ [y]"
    using assms(1) by (cases ls; cases "tl ls" rule: rev_cases) auto
  let ?D = "Seq dash_label (Chr CHR ''.'')"
  have D: "lang ?D (l @ ''.'')" if "l \<in> set ls" for l
    using that assms(2) by (intro lang.intros(5) lang_label) auto
  have "lang (Star ?D) (concat (map (\<lambda>l. l @ ''.'') xs))"
    using D ls by (intro lang_StarI) auto
  then have "lang (Plus ?D) ((x @ ''.'') @ concat (map (\<lambda>l. l @ ''.'') xs))"
    unfolding Plus_def using D ls by (intro lang.intros(5) [of ?D "x @ ''.''" "Star ?D"]) auto
  moreover have "lang dash_label y" using assms(2) ls by (intro lang_label) auto
  ultimately have "lang (Seq (Plus ?D) dash_label) (((x @ ''.'') @ concat (map (\<lambda>l. l @ ''.'') xs)) @ y)"
    by (rule lang.intros(5))
  then show ?thesis
    using join_snoc_dots [of "x # xs" y "''.''"] by (simp add: domain_part_def lang_Alt ls)
qed

lemma local_nonempty: "lang local_part s \<Longrightarrow> s \<noteq> []"
  by (auto simp: local_part_def lang_Alt lang_Seq Plus_def)

lemma domain_dot: "lang domain_part s \<Longrightarrow> CHR ''.'' \<in> set s"
  by (auto simp: domain_part_def lang_Alt lang_Seq Plus_def)

text \<open>The e-mail rule accepts every plain address (atoms joined by dots, an at sign, at least two
  labels joined by dots), and whatever it accepts has a local part that is not empty, an at sign and
  a dot after it. The ranges \<open>A-z\<close> of the pattern make \<open>[\<close>, \<open>]\<close>, \<open>^\<close> and the backslash letters.\<close>

theorem email_validate_shape:
  assumes "poco_documented p"
  shows "(\<forall>xs ls. xs \<noteq> [] \<longrightarrow> (\<forall>a \<in> set xs. a \<noteq> [] \<and> (\<forall>c \<in> set a. atext c)) \<longrightarrow>
        2 \<le> length ls \<longrightarrow> (\<forall>a \<in> set ls. a \<noteq> [] \<and> (\<forall>c \<in> set a. A_z09 c)) \<longrightarrow>
        email_validate p n (JStr (join xs ''.'' @ ''@'' @ join ls ''.'')) = Inr JEmpty) \<and>
    (\<forall>s. email_validate p n (JStr s) = Inr JEmpty \<longrightarrow>
        (\<exists>a b. s = a @ ''@'' @ b \<and> a \<noteq> [] \<and> CHR ''.'' \<in> set b))"
proof -
  have v: "email_validate p n (JStr s) = Inr JEmpty \<longleftrightarrow> lang email_pattern s" for s
    using assms by (simp add: email_validate_def poco_documented_def regex_match_lang email_fail_def)
  have "lang email_pattern (join xs ''.'' @ ''@'' @ join ls ''.'')"
    if "xs \<noteq> []" "\<forall>a \<in> set xs. a \<noteq> [] \<and> (\<forall>c \<in> set a. atext c)"
      "2 \<le> length ls" "\<forall>a \<in> set ls. a \<noteq> [] \<and> (\<forall>c \<in> set a. A_z09 c)" for xs ls
    unfolding email_pattern_def using that
    by (intro lang.intros(5) lang_local lang_domain) simp_all
  moreover have "\<exists>a b. s = a @ ''@'' @ b \<and> a \<noteq> [] \<and> CHR ''.'' \<in> set b" if "lang email_pattern s" for s
    using that local_nonempty domain_dot by (auto simp: email_pattern_def lang_Seq) blast
  ultimately show ?thesis unfolding v by blast
qed

theorem email_validate_shape_witness:
  "email_validate hex_poco ''f'' (JStr ''a.b@c[.d'') = Inr JEmpty"
proof -
  have "email_validate hex_poco ''f'' (JStr (join [''a'', ''b''] ''.'' @ ''@'' @ join [''c['', ''d''] ''.'')) = Inr JEmpty"
    using email_validate_shape [OF hex_poco_documented, of "''f''"]
    by (auto simp: atext_def A_z09_def rng_def byte_def)
  then show ?thesis by (simp add: join_def)
qed

end
