(* ===== verification/StructParser.thy ===== *)
theory StructParser
  imports Json "HOL-Library.Sublist" "HOL-Library.Multiset"
begin

text \<open>
  The parser that fills C++ structures from JSON events (src/src/JSON/StructParser.hpp and the
  macros of src/src/JSON/StructParserMacros.hpp). A C++ type is a \<open>jty\<close>, an object of it a \<open>dval\<close>, a
  pointer \<open>ptrdata\<close> into the structure being filled the path to the place it points to. A
  \<open>StructFiller\<close> is the type it is a template instance of and its pointer. Poco's parser calls the
  handler with the events of a document; \<open>conv\<close> is \<open>Poco::Dynamic::VarHolder::convert\<close> and
  \<open>typeid_name\<close> the compiler's name of a type.
\<close>

section \<open>Types, values and pointers\<close>

datatype prim = PInt | PUnsigned | PInt64 | PUInt64 | PString | PDouble | PBool

datatype scalar =
  SInt int | SUnsigned nat | SInt64 int | SUInt64 nat | SStr string | SDouble string | SBool bool

fun scalar_type :: "scalar \<Rightarrow> prim" where
  "scalar_type (SInt v) = PInt"
| "scalar_type (SUnsigned v) = PUnsigned"
| "scalar_type (SInt64 v) = PInt64"
| "scalar_type (SUInt64 v) = PUInt64"
| "scalar_type (SStr v) = PString"
| "scalar_type (SDouble v) = PDouble"
| "scalar_type (SBool v) = PBool"

text \<open>\<open>std::to_string\<close> of a value, as the string filler stores it; a double carries its text.\<close>

fun scalar_text :: "scalar \<Rightarrow> string" where
  "scalar_text (SInt v) = string_of_int v"
| "scalar_text (SUnsigned v) = string_of_nat v"
| "scalar_text (SInt64 v) = string_of_int v"
| "scalar_text (SUInt64 v) = string_of_nat v"
| "scalar_text (SStr v) = v"
| "scalar_text (SDouble v) = v"
| "scalar_text (SBool b) = string_of_int (if b then 1 else 0)"

datatype jty = TyPrim prim | TyVec jty | TyMap jty | TyStruct string "(string \<times> jty) list"

datatype dval = VPrim scalar | VVec "dval list" | VMap "(string \<times> dval) list" | VStruct "(string \<times> dval) list"

datatype ptr_step = Fld string | Idx nat | At string

type_synonym pointer = "ptr_step list"

text \<open>A value initialised object.\<close>

fun default_prim :: "prim \<Rightarrow> scalar" where
  "default_prim PInt = SInt 0"
| "default_prim PUnsigned = SUnsigned 0"
| "default_prim PInt64 = SInt64 0"
| "default_prim PUInt64 = SUInt64 0"
| "default_prim PString = SStr []"
| "default_prim PDouble = SDouble ''0.000000''"
| "default_prim PBool = SBool False"

primrec default_val :: "jty \<Rightarrow> dval" where
  "default_val (TyPrim p) = VPrim (default_prim p)"
| "default_val (TyVec t) = VVec []"
| "default_val (TyMap t) = VMap []"
| "default_val (TyStruct n fs) = VStruct (map (map_prod id default_val) fs)"

fun child :: "dval \<Rightarrow> ptr_step \<Rightarrow> dval option" where
  "child (VStruct fs) (Fld n) = map_of fs n"
| "child (VVec xs) (Idx i) = (if i < length xs then Some (xs ! i) else None)"
| "child (VMap m) (At k) = map_of m k"
| "child v s = None"

fun assoc_put :: "string \<Rightarrow> dval \<Rightarrow> (string \<times> dval) list \<Rightarrow> (string \<times> dval) list" where
  "assoc_put k w [] = []"
| "assoc_put k w ((k', v) # r) = (if k = k' then (k', w) # r else (k', v) # assoc_put k w r)"

fun put_child :: "ptr_step \<Rightarrow> dval \<Rightarrow> dval \<Rightarrow> dval" where
  "put_child (Fld n) w (VStruct fs) = VStruct (assoc_put n w fs)"
| "put_child (Idx i) w (VVec xs) = VVec (xs[i := w])"
| "put_child (At k) w (VMap m) = VMap (assoc_put k w m)"
| "put_child s w v = v"

fun load :: "dval \<Rightarrow> pointer \<Rightarrow> dval option" where
  "load v [] = Some v"
| "load v (s # p) = (case child v s of None \<Rightarrow> None | Some w \<Rightarrow> load w p)"

fun store :: "pointer \<Rightarrow> dval \<Rightarrow> dval \<Rightarrow> dval" where
  "store [] new v = new"
| "store (s # p) new v = (case child v s of None \<Rightarrow> v | Some w \<Rightarrow> put_child s (store p new w) v)"

section \<open>Field tables\<close>

text \<open>\<open>ctexppairsort\<close>: exchange sort by name (\<open>compare\<close> orders bytes), and the linear search of \<open>FieldList::find\<close>.\<close>

definition swap_if :: "nat \<Rightarrow> nat \<Rightarrow> (string \<times> 'a) list \<Rightarrow> (string \<times> 'a) list" where
  "swap_if i j xs = (if string_less (fst (xs ! j)) (fst (xs ! i)) then xs[i := xs ! j, j := xs ! i] else xs)"

definition ctexppairsort :: "(string \<times> 'a) list \<Rightarrow> (string \<times> 'a) list" where
  "ctexppairsort xs =
     fold (\<lambda>i ys. fold (swap_if i) [i + 1..<length xs] ys) [0..<length xs] xs"

definition compileTimeSort :: "(string \<times> 'a) list \<Rightarrow> (string \<times> 'a) list" where
  "compileTimeSort xs = ctexppairsort xs"

fun find_from :: "string \<Rightarrow> (string \<times> 'a) list \<Rightarrow> 'a option" where
  "find_from k [] = None"
| "find_from k ((n, x) # r) = (if n = k then Some x else find_from k r)"

definition find_field :: "(string \<times> 'a) list \<Rightarrow> string \<Rightarrow> 'a option" where
  "find_field fs k = find_from k (compileTimeSort fs)"

section \<open>Fillers\<close>

record sp_env =
  conv :: "prim \<Rightarrow> scalar \<Rightarrow> exn + scalar"
  typeid_name :: "jty \<Rightarrow> string"

definition rt_error :: "string \<Rightarrow> exn" where
  "rt_error m = StdExn Runtime_error m"

definition unknown_type :: "sp_env \<Rightarrow> jty \<Rightarrow> exn" where
  "unknown_type env t = rt_error (''Unknown type '' @ typeid_name env t)"

text \<open>\<open>startObjectFor\<close> and \<open>startArrayFor\<close>: the types they are specialised for.\<close>

fun startObjectFor :: "sp_env \<Rightarrow> jty \<Rightarrow> exn + jty" where
  "startObjectFor env (TyStruct n fs) = Inr (TyStruct n fs)"
| "startObjectFor env (TyMap t) = Inr (TyMap t)"
| "startObjectFor env t = Inl (unknown_type env t)"

fun startArrayFor :: "sp_env \<Rightarrow> jty \<Rightarrow> exn + jty" where
  "startArrayFor env (TyVec t) = Inr (TyVec t)"
| "startArrayFor env t = Inl (unknown_type env t)"

fun setField :: "sp_env \<Rightarrow> jty \<Rightarrow> scalar \<Rightarrow> exn + dval" where
  "setField env (TyPrim q) s =
     (if scalar_type s = q then Inr (VPrim s)
      else case conv env q s of Inl e \<Rightarrow> Inl e | Inr s' \<Rightarrow> Inr (VPrim s'))"
| "setField env (TyVec t) s = Inl (rt_error ''Unavailable'')"
| "setField env (TyMap t) s = Inl (rt_error ''Unavailable'')"
| "setField env (TyStruct n fs) s = Inl (rt_error (''Unavailable for '' @ n))"

text \<open>\<open>emplace_data\<close>: a value of another type is converted into an element already appended.\<close>

definition emplace_data :: "sp_env \<Rightarrow> jty \<Rightarrow> scalar \<Rightarrow> dval list \<Rightarrow> (exn + unit) \<times> dval list" where
  "emplace_data env t s xs =
     (case setField env t s of
        Inl e \<Rightarrow> (Inl e, xs @ [default_val t])
      | Inr v \<Rightarrow> (Inr (), xs @ [v]))"

text \<open>\<open>unordered_map::emplace\<close> keeps the value of a key that is present.\<close>

definition map_emplace :: "string \<Rightarrow> dval \<Rightarrow> (string \<times> dval) list \<Rightarrow> (string \<times> dval) list" where
  "map_emplace k v m = (case map_of m k of None \<Rightarrow> m @ [(k, v)] | Some w \<Rightarrow> m)"

definition invalid_key :: "string \<Rightarrow> exn" where
  "invalid_key k = rt_error (''invalid key '' @ k)"

definition inconvesible :: exn where
  "inconvesible = rt_error ''inconvesible''"

text \<open>
  The virtual functions of each \<open>Filter\<close> class on the object it points to. The first component is what
  the call throws or, for a start, the place and type of the new filler; the second is the object
  after it. A type without a class of its own gets the primary template, which always throws.
\<close>

definition unknown_filter :: "sp_env \<Rightarrow> jty \<Rightarrow> 'v \<Rightarrow> (exn + 'a) \<times> 'v" where
  [simp]: "unknown_filter env t v = (Inl (unknown_type env t), v)"

subsection \<open>Strings\<close>

definition string_reset :: dval where
  [simp]: "string_reset = VPrim (SStr [])"

definition string_inconvesible :: "'v \<Rightarrow> (exn + 'a) \<times> 'v" where
  [simp]: "string_inconvesible v = (Inl inconvesible, v)"

definition string_null :: "'v \<Rightarrow> (exn + unit) \<times> 'v" where
  [simp]: "string_null v = (Inr (), v)"

definition string_value :: "scalar \<Rightarrow> (exn + unit) \<times> dval" where
  [simp]: "string_value s = (Inr (), VPrim (SStr (scalar_text s)))"

subsection \<open>Vectors\<close>

definition vec_reset :: dval where
  [simp]: "vec_reset = VVec []"

definition vec_set :: "sp_env \<Rightarrow> jty \<Rightarrow> scalar \<Rightarrow> dval list \<Rightarrow> (exn + unit) \<times> dval" where
  [simp]: "vec_set env t s xs = map_prod id VVec (emplace_data env t s xs)"

definition vec_startObject :: "sp_env \<Rightarrow> jty \<Rightarrow> dval list \<Rightarrow> (exn + ptr_step \<times> jty) \<times> dval" where
  [simp]: "vec_startObject env t xs =
     (map_sum id (\<lambda>t'. (Idx (length xs), t')) (startObjectFor env t), VVec (xs @ [default_val t]))"

definition vec_startArray :: "sp_env \<Rightarrow> jty \<Rightarrow> dval list \<Rightarrow> (exn + ptr_step \<times> jty) \<times> dval" where
  [simp]: "vec_startArray env t xs =
     (map_sum id (\<lambda>t'. (Idx (length xs), t')) (startArrayFor env t), VVec (xs @ [default_val t]))"

definition vec_inconvesible :: "'v \<Rightarrow> (exn + 'a) \<times> 'v" where
  [simp]: "vec_inconvesible v = (Inl inconvesible, v)"

definition vec_null :: "jty \<Rightarrow> dval list \<Rightarrow> (exn + unit) \<times> dval" where
  [simp]: "vec_null t xs = (Inr (), VVec (xs @ [default_val t]))"

text \<open>The seven overloads of \<open>value\<close> hand their argument to \<open>set\<close>.\<close>

definition vec_value :: "sp_env \<Rightarrow> jty \<Rightarrow> scalar \<Rightarrow> dval list \<Rightarrow> (exn + unit) \<times> dval" where
  [simp]: "vec_value env t s xs = vec_set env t s xs"

subsection \<open>Maps\<close>

definition map_reset :: dval where
  [simp]: "map_reset = VMap []"

text \<open>\<open>move_data\<close> makes the value before the entry.\<close>

definition move_data :: "sp_env \<Rightarrow> jty \<Rightarrow> scalar \<Rightarrow> exn + dval" where
  [simp]: "move_data env t s = setField env t s"

definition map_set :: "sp_env \<Rightarrow> jty \<Rightarrow> string \<Rightarrow> scalar \<Rightarrow> (string \<times> dval) list \<Rightarrow> (exn + unit) \<times> dval" where
  [simp]: "map_set env t key s m =
     (case move_data env t s of
        Inl e \<Rightarrow> (Inl e, VMap m)
      | Inr w \<Rightarrow> (Inr (), VMap (map_emplace key w m)))"

definition map_startObject :: "sp_env \<Rightarrow> jty \<Rightarrow> string \<Rightarrow> (string \<times> dval) list \<Rightarrow> (exn + ptr_step \<times> jty) \<times> dval" where
  [simp]: "map_startObject env t key m =
     (map_sum id (\<lambda>t'. (At key, t')) (startObjectFor env t), VMap (map_emplace key (default_val t) m))"

definition map_startArray :: "sp_env \<Rightarrow> jty \<Rightarrow> string \<Rightarrow> (string \<times> dval) list \<Rightarrow> (exn + ptr_step \<times> jty) \<times> dval" where
  [simp]: "map_startArray env t key m =
     (map_sum id (\<lambda>t'. (At key, t')) (startArrayFor env t), VMap (map_emplace key (default_val t) m))"

definition map_inconvesible :: "'v \<Rightarrow> (exn + 'a) \<times> 'v" where
  [simp]: "map_inconvesible v = (Inl inconvesible, v)"

definition map_null :: "jty \<Rightarrow> string \<Rightarrow> (string \<times> dval) list \<Rightarrow> (exn + unit) \<times> dval" where
  [simp]: "map_null t key m = (Inr (), VMap (map_emplace key (default_val t) m))"

definition map_value :: "sp_env \<Rightarrow> jty \<Rightarrow> string \<Rightarrow> scalar \<Rightarrow> (string \<times> dval) list \<Rightarrow> (exn + unit) \<times> dval" where
  [simp]: "map_value env t key s m = map_set env t key s m"

subsection \<open>Structures\<close>

text \<open>The three functions a field's entry of the table has: \<open>MAKE_SET_FN\<close>, \<open>MAKE_ARRAY_FN\<close>, \<open>MAKE_OBJECT_FN\<close>.\<close>

definition make_set_fn :: "sp_env \<Rightarrow> jty \<Rightarrow> scalar \<Rightarrow> exn + dval" where
  [simp]: "make_set_fn env t s = setField env t s"

definition make_array_fn :: "sp_env \<Rightarrow> jty \<Rightarrow> exn + jty" where
  [simp]: "make_array_fn env t = startArrayFor env t"

definition realMakeObjectFor :: "sp_env \<Rightarrow> jty \<Rightarrow> exn + jty" where
  [simp]: "realMakeObjectFor env t = startObjectFor env t"

definition make_object_fn :: "sp_env \<Rightarrow> jty \<Rightarrow> exn + jty" where
  [simp]: "make_object_fn env t = realMakeObjectFor env t"

definition setHolder ::
  "sp_env \<Rightarrow> (string \<times> jty) list \<Rightarrow> string \<Rightarrow> scalar \<Rightarrow> (string \<times> dval) list \<Rightarrow> (exn + unit) \<times> dval" where
  [simp]: "setHolder env fs k s vs =
     (case find_field fs k of
        None \<Rightarrow> (Inl (invalid_key k), VStruct vs)
      | Some t \<Rightarrow>
          (case make_set_fn env t s of
             Inl e \<Rightarrow> (Inl e, VStruct vs)
           | Inr w \<Rightarrow> (Inr (), VStruct (assoc_put k w vs))))"

definition struct_startObject ::
  "sp_env \<Rightarrow> (string \<times> jty) list \<Rightarrow> string \<Rightarrow> (string \<times> dval) list \<Rightarrow> (exn + ptr_step \<times> jty) \<times> dval" where
  [simp]: "struct_startObject env fs key vs =
     (case find_field fs key of
        None \<Rightarrow> (Inl (invalid_key key), VStruct vs)
      | Some t \<Rightarrow> (map_sum id (\<lambda>t'. (Fld key, t')) (make_object_fn env t), VStruct vs))"

definition struct_startArray ::
  "sp_env \<Rightarrow> (string \<times> jty) list \<Rightarrow> string \<Rightarrow> (string \<times> dval) list \<Rightarrow> (exn + ptr_step \<times> jty) \<times> dval" where
  [simp]: "struct_startArray env fs key vs =
     (case find_field fs key of
        None \<Rightarrow> (Inl (invalid_key key), VStruct vs)
      | Some t \<Rightarrow> (map_sum id (\<lambda>t'. (Fld key, t')) (make_array_fn env t), VStruct vs))"

text \<open>\<open>reset\<close>, \<open>endObject\<close>, \<open>endArray\<close>, \<open>key\<close> and \<open>null\<close> do nothing.\<close>

definition struct_ignore :: "'v \<Rightarrow> (exn + unit) \<times> 'v" where
  [simp]: "struct_ignore v = (Inr (), v)"

definition struct_value ::
  "sp_env \<Rightarrow> (string \<times> jty) list \<Rightarrow> string \<Rightarrow> scalar \<Rightarrow> (string \<times> dval) list \<Rightarrow> (exn + unit) \<times> dval" where
  [simp]: "struct_value env fs key s vs = setHolder env fs key s vs"

subsection \<open>Virtual calls\<close>

fun fill_startObject :: "sp_env \<Rightarrow> jty \<Rightarrow> string \<Rightarrow> dval \<Rightarrow> (exn + ptr_step \<times> jty) \<times> dval" where
  "fill_startObject env (TyStruct n fs) key (VStruct vs) = struct_startObject env fs key vs"
| "fill_startObject env (TyVec t) key (VVec xs) = vec_startObject env t xs"
| "fill_startObject env (TyMap t) key (VMap m) = map_startObject env t key m"
| "fill_startObject env (TyPrim PString) key v = string_inconvesible v"
| "fill_startObject env t key v = unknown_filter env t v"

fun fill_startArray :: "sp_env \<Rightarrow> jty \<Rightarrow> string \<Rightarrow> dval \<Rightarrow> (exn + ptr_step \<times> jty) \<times> dval" where
  "fill_startArray env (TyStruct n fs) key (VStruct vs) = struct_startArray env fs key vs"
| "fill_startArray env (TyVec t) key (VVec xs) = vec_startArray env t xs"
| "fill_startArray env (TyMap t) key (VMap m) = map_startArray env t key m"
| "fill_startArray env (TyPrim PString) key v = string_inconvesible v"
| "fill_startArray env t key v = unknown_filter env t v"

fun fill_value :: "sp_env \<Rightarrow> jty \<Rightarrow> string \<Rightarrow> scalar \<Rightarrow> dval \<Rightarrow> (exn + unit) \<times> dval" where
  "fill_value env (TyStruct n fs) key s (VStruct vs) = struct_value env fs key s vs"
| "fill_value env (TyVec t) key s (VVec xs) = vec_value env t s xs"
| "fill_value env (TyMap t) key s (VMap m) = map_value env t key s m"
| "fill_value env (TyPrim PString) key s v = string_value s"
| "fill_value env t key s v = unknown_filter env t v"

fun fill_null :: "sp_env \<Rightarrow> jty \<Rightarrow> string \<Rightarrow> dval \<Rightarrow> (exn + unit) \<times> dval" where
  "fill_null env (TyStruct n fs) key v = struct_ignore v"
| "fill_null env (TyVec t) key (VVec xs) = vec_null t xs"
| "fill_null env (TyMap t) key (VMap m) = map_null t key m"
| "fill_null env (TyPrim PString) key v = string_null v"
| "fill_null env t key v = unknown_filter env t v"

text \<open>\<open>reset\<close>, and the end and key calls, which the parser never makes: it keeps keys itself and ends
  an object by going back to the filler below.\<close>

fun fill_reset :: "sp_env \<Rightarrow> jty \<Rightarrow> dval \<Rightarrow> (exn + unit) \<times> dval" where
  "fill_reset env (TyStruct n fs) v = struct_ignore v"
| "fill_reset env (TyVec t) v = (Inr (), vec_reset)"
| "fill_reset env (TyMap t) v = (Inr (), map_reset)"
| "fill_reset env (TyPrim PString) v = (Inr (), string_reset)"
| "fill_reset env t v = unknown_filter env t v"

fun fill_end_or_key :: "sp_env \<Rightarrow> jty \<Rightarrow> dval \<Rightarrow> (exn + unit) \<times> dval" where
  "fill_end_or_key env (TyStruct n fs) v = struct_ignore v"
| "fill_end_or_key env (TyVec t) v = vec_inconvesible v"
| "fill_end_or_key env (TyMap t) v = map_inconvesible v"
| "fill_end_or_key env (TyPrim PString) v = string_inconvesible v"
| "fill_end_or_key env t v = unknown_filter env t v"

text \<open>What the two starts share, with the maker of the new filler as an argument.\<close>

fun fill_start ::
  "(jty \<Rightarrow> exn + jty) \<Rightarrow> sp_env \<Rightarrow> jty \<Rightarrow> string \<Rightarrow> dval \<Rightarrow> (exn + ptr_step \<times> jty) \<times> dval" where
  "fill_start maker env (TyStruct n fs) key (VStruct vs) =
     (case find_field fs key of
        None \<Rightarrow> (Inl (invalid_key key), VStruct vs)
      | Some t \<Rightarrow> (map_sum id (\<lambda>t'. (Fld key, t')) (maker t), VStruct vs))"
| "fill_start maker env (TyVec t) key (VVec xs) =
     (map_sum id (\<lambda>t'. (Idx (length xs), t')) (maker t), VVec (xs @ [default_val t]))"
| "fill_start maker env (TyMap t) key (VMap m) =
     (map_sum id (\<lambda>t'. (At key, t')) (maker t), VMap (map_emplace key (default_val t) m))"
| "fill_start maker env (TyPrim PString) key v = (Inl inconvesible, v)"
| "fill_start maker env t key v = (Inl (unknown_type env t), v)"

lemma fill_startObject_start: "fill_startObject env = fill_start (startObjectFor env) env"
proof (intro ext)
  show "fill_startObject env t key v = fill_start (startObjectFor env) env t key v" for t key v
    by (cases "(env, t, key, v)" rule: fill_startObject.cases) (simp_all split: option.split)
qed

lemma fill_startArray_start: "fill_startArray env = fill_start (startArrayFor env) env"
proof (intro ext)
  show "fill_startArray env t key v = fill_start (startArrayFor env) env t key v" for t key v
    by (cases "(env, t, key, v)" rule: fill_startArray.cases) (simp_all split: option.split)
qed

section \<open>The event handler\<close>

record parser =
  currentKey :: string
  current :: "jty \<times> pointer"
  stack :: "(jty \<times> pointer) list"
  target :: dval

definition new_parser :: "jty \<Rightarrow> dval \<Rightarrow> parser" where
  "new_parser t v = \<lparr>currentKey = [], current = (t, []), stack = [], target = v\<rparr>"

text \<open>A call of the current filler; \<open>ForeignExn\<close> stands for an access through a dangling pointer.\<close>

definition on_current :: "(jty \<Rightarrow> string \<Rightarrow> dval \<Rightarrow> (exn + 'a) \<times> dval) \<Rightarrow> (parser, 'a) eff" where
  "on_current f st =
     (case current st of (t, p) \<Rightarrow>
        (case load (target st) p of
           None \<Rightarrow> (Inl ForeignExn, st)
         | Some v \<Rightarrow> (case f t (currentKey st) v of (r, v') \<Rightarrow> (r, st\<lparr>target := store p v' (target st)\<rparr>))))"

definition enter :: "ptr_step \<times> jty \<Rightarrow> (parser, unit) eff" where
  "enter = (\<lambda>(s, t) st.
     (Inr (), st\<lparr>stack := current st # stack st, current := (t, snd (current st) @ [s])\<rparr>))"

definition sp_startObject :: "sp_env \<Rightarrow> (parser, unit) eff" where
  "sp_startObject env st =
     (if currentKey st = [] then (Inr (), st) else bind (on_current (fill_startObject env)) enter st)"

definition sp_startArray :: "sp_env \<Rightarrow> (parser, unit) eff" where
  "sp_startArray env st =
     (if currentKey st = [] then (Inr (), st) else bind (on_current (fill_startArray env)) enter st)"

definition sp_endObject :: "(parser, unit) eff" where
  "sp_endObject st =
     (case stack st of [] \<Rightarrow> (Inr (), st) | f # fs \<Rightarrow> (Inr (), st\<lparr>current := f, stack := fs\<rparr>))"

definition sp_endArray :: "(parser, unit) eff" where
  "sp_endArray st =
     (case stack st of [] \<Rightarrow> (Inr (), st) | f # fs \<Rightarrow> (Inr (), st\<lparr>current := f, stack := fs\<rparr>))"

definition sp_key :: "string \<Rightarrow> (parser, unit) eff" where
  "sp_key k st = (Inr (), st\<lparr>currentKey := k\<rparr>)"

definition sp_value :: "sp_env \<Rightarrow> scalar \<Rightarrow> (parser, unit) eff" where
  "sp_value env s = on_current (\<lambda>t key. fill_value env t key s)"

definition sp_null :: "(parser, unit) eff" where
  "sp_null st = (Inr (), st)"

datatype event = EStartObject | EEndObject | EStartArray | EEndArray | EKey string | EValue scalar | ENull

fun handle_event :: "sp_env \<Rightarrow> event \<Rightarrow> (parser, unit) eff" where
  "handle_event env EStartObject = sp_startObject env"
| "handle_event env EEndObject = sp_endObject"
| "handle_event env EStartArray = sp_startArray env"
| "handle_event env EEndArray = sp_endArray"
| "handle_event env (EKey k) = sp_key k"
| "handle_event env (EValue s) = sp_value env s"
| "handle_event env ENull = sp_null"

fun feed :: "sp_env \<Rightarrow> event list \<Rightarrow> (parser, unit) eff" where
  "feed env [] st = (Inr (), st)"
| "feed env (e # es) st = bind (handle_event env e) (\<lambda>u. feed env es) st"

section \<open>Documents\<close>

datatype jdoc = DNull | DScalar scalar | DObj "(string \<times> jdoc) list" | DArr "jdoc list"

text \<open>
  The calls Poco's parser makes for a document. A \<open>DScalar\<close> is a value in the kind the parser delivers
  it in, whatever the kind of the member it is meant for: a small number comes as an \<open>int\<close>, also for an
  unsigned or a 64 bit member. \<open>poco_delivers\<close> below is what the handler's comments say of the kind.
\<close>

primrec events :: "jdoc \<Rightarrow> event list" where
  "events DNull = [ENull]"
| "events (DScalar s) = [EValue s]"
| "events (DObj kvs) = EStartObject # concat (map (\<lambda>(k, es). EKey k # es) (map (map_prod id events) kvs)) @ [EEndObject]"
| "events (DArr ds) = EStartArray # concat (map events ds) @ [EEndArray]"

section \<open>Filling as a function of the document\<close>

text \<open>
  The reference: how a document changes the object a filler points to. \<open>decode_elem\<close> is one element
  of the container, \<open>decode_obj\<close> and \<open>decode_arr\<close> the elements of an object or array in turn.
\<close>

function (sequential) decode_elem :: "sp_env \<Rightarrow> jty \<Rightarrow> dval \<Rightarrow> string \<Rightarrow> jdoc \<Rightarrow> exn + dval"
  and decode_obj :: "sp_env \<Rightarrow> jty \<Rightarrow> dval \<Rightarrow> (string \<times> jdoc) list \<Rightarrow> exn + dval"
  and decode_arr :: "sp_env \<Rightarrow> jty \<Rightarrow> dval \<Rightarrow> string \<Rightarrow> jdoc list \<Rightarrow> exn + dval"
where
  "decode_elem env t v key DNull = Inr v"
| "decode_elem env t v key (DScalar s) =
     (case fill_value env t key s v of (Inl e, v') \<Rightarrow> Inl e | (Inr u, v') \<Rightarrow> Inr v')"
| "decode_elem env t v key (DObj kvs) =
     (case fill_startObject env t key v of
        (Inl e, v') \<Rightarrow> Inl e
      | (Inr (s, t'), v') \<Rightarrow>
          (case child v' s of
             None \<Rightarrow> Inl ForeignExn
           | Some w \<Rightarrow> (case decode_obj env t' w kvs of
                          Inl e \<Rightarrow> Inl e
                        | Inr w' \<Rightarrow> Inr (put_child s w' v'))))"
| "decode_elem env t v key (DArr ds) =
     (case fill_startArray env t key v of
        (Inl e, v') \<Rightarrow> Inl e
      | (Inr (s, t'), v') \<Rightarrow>
          (case child v' s of
             None \<Rightarrow> Inl ForeignExn
           | Some w \<Rightarrow> (case decode_arr env t' w key ds of
                          Inl e \<Rightarrow> Inl e
                        | Inr w' \<Rightarrow> Inr (put_child s w' v'))))"
| "decode_obj env t v [] = Inr v"
| "decode_obj env t v ((k, d) # r) =
     (case decode_elem env t v k d of Inl e \<Rightarrow> Inl e | Inr v' \<Rightarrow> decode_obj env t v' r)"
| "decode_arr env t v key [] = Inr v"
| "decode_arr env t v key (d # r) =
     (case decode_elem env t v key d of Inl e \<Rightarrow> Inl e | Inr v' \<Rightarrow> decode_arr env t v' key r)"
  by pat_completeness auto
termination
  by (relation "measure (case_sum (\<lambda>(env, t, v, key, d). size d)
       (case_sum (\<lambda>(env, t, v, kvs). size_list (size_prod (\<lambda>_. 0) size) kvs)
          (\<lambda>(env, t, v, key, ds). size_list size ds)))") simp_all

section \<open>Types of objects\<close>

primrec wf_ty :: "jty \<Rightarrow> bool" where
  "wf_ty (TyPrim p) = True"
| "wf_ty (TyVec t) = wf_ty t"
| "wf_ty (TyMap t) = wf_ty t"
| "wf_ty (TyStruct n fs) =
     (distinct (map fst fs) \<and> list_all (\<lambda>(k, b). k \<noteq> [] \<and> b) (map (map_prod id wf_ty) fs))"

primrec has_type :: "jty \<Rightarrow> dval \<Rightarrow> bool" where
  "has_type (TyPrim p) = (\<lambda>v. case v of VPrim s \<Rightarrow> scalar_type s = p | _ \<Rightarrow> False)"
| "has_type (TyVec t) = (\<lambda>v. case v of VVec xs \<Rightarrow> list_all (has_type t) xs | _ \<Rightarrow> False)"
| "has_type (TyMap t) = (\<lambda>v. case v of VMap m \<Rightarrow> list_all (\<lambda>(k, w). has_type t w) m | _ \<Rightarrow> False)"
| "has_type (TyStruct n fs) = (\<lambda>v. case v of
       VStruct vs \<Rightarrow> list_all2 (\<lambda>(k, P) (k', w). k = k' \<and> P w) (map (map_prod id has_type) fs) vs
     | _ \<Rightarrow> False)"

definition conv_typed :: "sp_env \<Rightarrow> bool" where
  "conv_typed env \<longleftrightarrow> (\<forall>q s s'. conv env q s = Inr s' \<longrightarrow> scalar_type s' = q)"

lemma has_type_VecE: "has_type (TyVec t) v \<Longrightarrow> \<exists>xs. v = VVec xs \<and> (\<forall>x \<in> set xs. has_type t x)"
  by (cases v) (auto simp: list_all_iff)

lemma has_type_MapE: "has_type (TyMap t) v \<Longrightarrow> \<exists>m. v = VMap m \<and> (\<forall>(k, x) \<in> set m. has_type t x)"
  by (cases v) (auto simp: list_all_iff)

lemma has_type_StructE: "has_type (TyStruct n fs) v \<Longrightarrow>
    \<exists>vs. v = VStruct vs \<and> list_all2 (\<lambda>(k, t) (k', w). k = k' \<and> has_type t w) fs vs"
  by (cases v) (auto simp: list_all2_map1 split_def map_prod_def)

lemma has_type_Struct: "has_type (TyStruct n fs) (VStruct vs) \<longleftrightarrow>
    list_all2 (\<lambda>(k, t) (k', w). k = k' \<and> has_type t w) fs vs"
  by (auto simp: list_all2_map1 split_def map_prod_def)

lemma default_typed: "has_type t (default_val t)"
proof (induction t)
  case (TyPrim p)
  then show ?case by (cases p) simp_all
next
  case (TyStruct n fs)
  then show ?case
    unfolding default_val.simps has_type_Struct
    by (auto simp: list_all2_map2 split_def snds.simps intro!: list.rel_refl_strong)
qed simp_all

lemma struct_field:
  "list_all2 (\<lambda>(k, t) (k', w). k = k' \<and> has_type t w) fs vs \<Longrightarrow> map_of fs key = Some t \<Longrightarrow>
   \<exists>w. map_of vs key = Some w \<and> has_type t w"
  by (induction fs vs rule: list_all2_induct) (auto split: if_splits)

lemma struct_put:
  "list_all2 (\<lambda>(k, t) (k', w). k = k' \<and> has_type t w) fs vs \<Longrightarrow> map_of fs key = Some t \<Longrightarrow> has_type t w \<Longrightarrow>
   list_all2 (\<lambda>(k, t) (k', w). k = k' \<and> has_type t w) fs (assoc_put key w vs)"
  by (induction fs vs rule: list_all2_induct) (auto split: if_splits)

subsection \<open>The sorted field table\<close>

lemma swap_if_mset [simp]: "i < length xs \<Longrightarrow> j < length xs \<Longrightarrow> mset (swap_if i j xs) = mset xs"
  by (simp add: swap_if_def mset_swap)

lemma swap_if_length [simp]: "length (swap_if i j xs) = length xs"
  by (simp add: swap_if_def)

lemma swap_inner:
  "i < length xs \<Longrightarrow> \<forall>j \<in> set js. j < length xs \<Longrightarrow>
   mset (fold (swap_if i) js xs) = mset xs \<and> length (fold (swap_if i) js xs) = length xs"
  by (induction js arbitrary: xs) simp_all

lemma swap_outer:
  "\<forall>i \<in> set is. i < n \<Longrightarrow> length xs = n \<Longrightarrow>
   mset (fold (\<lambda>i ys. fold (swap_if i) [i + 1..<n] ys) is xs) = mset xs"
proof (induction "is" arbitrary: xs)
  case (Cons i "is")
  then show ?case using swap_inner [of i xs "[i + 1..<n]"] by simp
qed simp

lemma sort_mset: "mset (compileTimeSort xs) = mset xs"
  unfolding compileTimeSort_def ctexppairsort_def by (rule swap_outer) simp_all

lemma find_from_map_of: "find_from k xs = map_of xs k"
  by (induction xs) auto

lemma find_field_map_of:
  assumes "distinct (map fst fs)"
  shows "find_field fs k = map_of fs k"
proof -
  have m: "mset (map fst (compileTimeSort fs)) = mset (map fst fs)" by (simp add: sort_mset)
  then have "distinct (map fst (compileTimeSort fs))" using assms by (metis mset_eq_imp_distinct_iff)
  moreover have "set (compileTimeSort fs) = set fs" by (metis set_mset_mset sort_mset)
  ultimately show ?thesis
    using assms map_of_inject_set [of "compileTimeSort fs" fs] by (simp add: find_field_def find_from_map_of)
qed

subsection \<open>Places\<close>

fun ty_at :: "jty \<Rightarrow> pointer \<Rightarrow> jty option" where
  "ty_at t [] = Some t"
| "ty_at (TyVec t) (Idx i # p) = ty_at t p"
| "ty_at (TyMap t) (At k # p) = ty_at t p"
| "ty_at (TyStruct n fs) (Fld f # p) = (case map_of fs f of None \<Rightarrow> None | Some t \<Rightarrow> ty_at t p)"
| "ty_at t (s # p) = None"

lemma ty_at_Cons: "ty_at t (s # p) = (case ty_at t [s] of None \<Rightarrow> None | Some t' \<Rightarrow> ty_at t' p)"
  by (cases t; cases s) (auto split: option.split)

lemma ty_at_append: "ty_at t (p @ q) = (case ty_at t p of None \<Rightarrow> None | Some t' \<Rightarrow> ty_at t' q)"
proof (induction p arbitrary: t)
  case (Cons s p)
  show ?case using Cons.IH by (auto simp: ty_at_Cons [of t s "p @ q"] ty_at_Cons [of t s p] split: option.split)
qed simp

lemma wf_ty_child: "wf_ty t \<Longrightarrow> ty_at t [s] = Some t' \<Longrightarrow> wf_ty t'"
  by (cases t; cases s) (auto simp: list_all_iff split: option.splits dest!: map_of_SomeD)

lemma map_of_assoc_put: "map_of vs k = Some w \<Longrightarrow> map_of (assoc_put k w' vs) k = Some w'"
  by (induction vs) (auto split: if_splits)

lemma assoc_put_twice: "assoc_put k a (assoc_put k b vs) = assoc_put k a vs"
  by (induction vs) auto

lemma assoc_put_self: "map_of vs k = Some w \<Longrightarrow> assoc_put k w vs = vs"
  by (induction vs) (auto split: if_splits)

lemma child_put: "child v s = Some w \<Longrightarrow> child (put_child s w' v) s = Some w'"
  by (cases v; cases s) (auto simp: map_of_assoc_put split: if_splits)

lemma put_child_twice: "child v s = Some w \<Longrightarrow> put_child s a (put_child s b v) = put_child s a v"
  by (cases v; cases s) (auto simp: assoc_put_twice)

lemma assoc_put_set: "(k', x) \<in> set (assoc_put k w m) \<Longrightarrow> (k', x) \<in> set m \<or> x = w"
  by (induction m) (auto split: if_splits)

lemma child_typed:
  assumes "has_type t v" and "child v s = Some w" and "ty_at t [s] = Some t'"
  shows "has_type t' w"
proof (cases t)
  case (TyStruct n fs)
  obtain vs where vs: "v = VStruct vs" "list_all2 (\<lambda>(k, t) (k', w). k = k' \<and> has_type t w) fs vs"
    using has_type_StructE assms(1) unfolding TyStruct by blast
  obtain f where "s = Fld f" "map_of fs f = Some t'" "map_of vs f = Some w"
    using assms(2,3) vs(1) TyStruct by (cases s) (auto split: option.splits)
  then show ?thesis using struct_field [OF vs(2)] by fastforce
next
  case (TyVec u)
  with assms(1) obtain xs where "v = VVec xs" "\<forall>x \<in> set xs. has_type u x" using has_type_VecE by blast
  with TyVec assms(2,3) show ?thesis by (cases s) (auto split: if_splits)
next
  case (TyMap u)
  with assms(1) obtain m where "v = VMap m" "\<forall>(k, x) \<in> set m. has_type u x" using has_type_MapE by blast
  with TyMap assms(2,3) show ?thesis by (cases s) (auto dest!: map_of_SomeD)
qed (use assms in \<open>cases s; simp\<close>)

lemma put_child_typed:
  assumes "has_type t v" and "ty_at t [s] = Some t'" and "has_type t' w'"
  shows "has_type t (put_child s w' v)"
proof (cases t)
  case (TyStruct n fs)
  obtain vs where vs: "v = VStruct vs" "list_all2 (\<lambda>(k, t) (k', w). k = k' \<and> has_type t w) fs vs"
    using has_type_StructE assms(1) unfolding TyStruct by blast
  obtain f where "s = Fld f" "map_of fs f = Some t'"
    using assms(2) TyStruct by (cases s) (auto split: option.splits)
  with vs show ?thesis
    using struct_put [OF vs(2) _ assms(3)] unfolding TyStruct by (simp only: put_child.simps has_type_Struct)
next
  case (TyVec u)
  with assms(1) obtain xs where "v = VVec xs" "\<forall>x \<in> set xs. has_type u x" using has_type_VecE by blast
  with TyVec assms(2,3) show ?thesis
    by (cases s) (auto simp: list_all_iff dest: set_update_subset_insert [THEN subsetD])
next
  case (TyMap u)
  with assms(1) obtain m where "v = VMap m" "\<forall>(k, x) \<in> set m. has_type u x" using has_type_MapE by blast
  with TyMap assms(2,3) show ?thesis
    by (cases s) (auto simp: list_all_iff dest!: assoc_put_set)
qed (use assms in \<open>cases s; simp\<close>)

lemma load_append: "load v (p @ q) = (case load v p of None \<Rightarrow> None | Some w \<Rightarrow> load w q)"
  by (induction p arbitrary: v) (auto split: option.split)

lemma load_snoc: "load v p = Some u \<Longrightarrow> load v (p @ [s]) = child u s"
  by (simp add: load_append split: option.split)

lemma load_store: "load v p = Some w \<Longrightarrow> load (store p w' v) p = Some w'"
  by (induction p arbitrary: v) (auto simp: child_put split: option.splits)

lemma store_twice: "load v p = Some w \<Longrightarrow> store p a (store p b v) = store p a v"
  by (induction p arbitrary: v) (auto simp: child_put put_child_twice split: option.splits)

lemma store_snoc: "load v p = Some u \<Longrightarrow> child u s = Some x \<Longrightarrow> store (p @ [s]) w v = store p (put_child s w u) v"
  by (induction p arbitrary: v) (auto split: option.splits)

lemma load_typed: "has_type t v \<Longrightarrow> load v p = Some w \<Longrightarrow> ty_at t p = Some t' \<Longrightarrow> has_type t' w"
proof (induction p arbitrary: t v)
  case (Cons s p)
  then show ?case using ty_at_Cons [of t s p] by (auto dest: child_typed split: option.splits)
qed simp

lemma store_typed:
  "has_type t v \<Longrightarrow> load v p = Some w \<Longrightarrow> ty_at t p = Some t' \<Longrightarrow> has_type t' w' \<Longrightarrow> has_type t (store p w' v)"
proof (induction p arbitrary: t v)
  case (Cons s p)
  from Cons.prems obtain u t1 where u: "child v s = Some u" "load u p = Some w"
      "ty_at t [s] = Some t1" "ty_at t1 p = Some t'"
    using ty_at_Cons [of t s p] by (auto split: option.splits)
  then have "has_type t1 (store p w' u)" using Cons child_typed by blast
  with u Cons.prems show ?case by (simp add: put_child_typed)
qed simp

section \<open>Pointers never dangle\<close>

lemma map_emplace_typed:
  "\<forall>(k, x) \<in> set m. has_type t x \<Longrightarrow> has_type t w \<Longrightarrow> has_type (TyMap t) (VMap (map_emplace key w m))"
  by (auto simp: map_emplace_def list_all_iff split: option.split)

lemma map_emplace_child:
  "\<forall>(k, x) \<in> set m. has_type t x \<Longrightarrow> has_type t w \<Longrightarrow> \<exists>x. map_of (map_emplace key w m) key = Some x"
  by (auto simp: map_emplace_def map_of_append map_add_def split: option.split)

lemma fill_start_typed:
  assumes "fill_start maker env t key v = (r, v')" and "has_type t v" and "wf_ty t"
    and mk: "\<And>u u'. maker u = Inr u' \<Longrightarrow> u' = u"
  shows "has_type t v'"
    and "r = Inr (s, t') \<Longrightarrow> ty_at t [s] = Some t' \<and> (\<exists>w. child v' s = Some w)"
proof -
  have "has_type t v' \<and> (r = Inr (s, t') \<longrightarrow> ty_at t [s] = Some t' \<and> (\<exists>w. child v' s = Some w))"
  proof (cases t)
    case (TyPrim p)
    with assms show ?thesis by (cases p) auto
  next
    case (TyVec u)
    with assms(2) obtain xs where xs: "v = VVec xs" "\<forall>x \<in> set xs. has_type u x" using has_type_VecE by blast
    with TyVec assms(1) mk [of u] default_typed [of u] show ?thesis
      by (cases "maker u") (auto simp: list_all_iff)
  next
    case (TyMap u)
    with assms(2) obtain m where m: "v = VMap m" "\<forall>(k, x) \<in> set m. has_type u x" using has_type_MapE by blast
    with TyMap assms(1) mk [of u] map_emplace_typed [OF m(2) default_typed] map_emplace_child [OF m(2) default_typed]
    show ?thesis by (cases "maker u") (auto simp del: has_type.simps)
  next
    case (TyStruct n fs)
    obtain vs where vs: "v = VStruct vs" "list_all2 (\<lambda>(k, t) (k', w). k = k' \<and> has_type t w) fs vs"
      using has_type_StructE assms(2) unfolding TyStruct by blast
    have "find_field fs key = map_of fs key" using assms(3) TyStruct by (simp add: find_field_map_of)
    with vs assms(1,2) TyStruct struct_field [OF vs(2), of key] mk [of "the (map_of fs key)"] show ?thesis
      by (cases "map_of fs key"; cases "maker (the (map_of fs key))") (auto simp del: has_type.simps)
  qed
  then show "has_type t v'" and "r = Inr (s, t') \<Longrightarrow> ty_at t [s] = Some t' \<and> (\<exists>w. child v' s = Some w)"
    by auto
qed

lemma startObjectFor_self: "startObjectFor env u = Inr u' \<Longrightarrow> u' = u"
  by (cases u) auto

lemma startArrayFor_self: "startArrayFor env u = Inr u' \<Longrightarrow> u' = u"
  by (cases u) auto

lemma setField_typed: "conv_typed env \<Longrightarrow> setField env t s = Inr v \<Longrightarrow> has_type t v"
  by (cases t) (auto simp: conv_typed_def split: if_splits sum.splits)

lemma fill_value_typed:
  assumes "fill_value env t key s v = (r, v')" and "has_type t v" and "wf_ty t" and "conv_typed env"
  shows "has_type t v'"
proof (cases t)
  case (TyPrim p)
  with assms show ?thesis by (cases p) auto
next
  case (TyVec u)
  with assms(2) obtain xs where "v = VVec xs" "\<forall>x \<in> set xs. has_type u x" using has_type_VecE by blast
  with TyVec assms(1) setField_typed [OF assms(4), of u s] default_typed [of u] show ?thesis
    by (auto simp: emplace_data_def list_all_iff split: sum.splits)
next
  case (TyMap u)
  with assms(2) obtain m where m: "v = VMap m" "\<forall>(k, x) \<in> set m. has_type u x" using has_type_MapE by blast
  with TyMap assms(1,2) map_emplace_typed [OF m(2) setField_typed [OF assms(4)]] show ?thesis
    by (auto simp del: has_type.simps split: sum.splits)
next
  case (TyStruct n fs)
  obtain vs where vs: "v = VStruct vs" "list_all2 (\<lambda>(k, t) (k', w). k = k' \<and> has_type t w) fs vs"
    using has_type_StructE assms(2) unfolding TyStruct by blast
  have "find_field fs key = map_of fs key" using assms(3) TyStruct by (simp add: find_field_map_of)
  with vs assms(1,2) TyStruct struct_put [OF vs(2) _ setField_typed [OF assms(4)]] show ?thesis
    by (auto simp: has_type_Struct simp del: has_type.simps split: option.splits sum.splits)
qed

definition inside :: "jty \<times> pointer \<Rightarrow> jty \<times> pointer \<Rightarrow> bool" where
  "inside f g \<longleftrightarrow> strict_prefix (snd g) (snd f)"

definition parser_ok :: "jty \<Rightarrow> parser \<Rightarrow> bool" where
  "parser_ok root st \<longleftrightarrow>
     wf_ty root \<and> has_type root (target st) \<and>
     (\<forall>(t, p) \<in> set (current st # stack st).
        ty_at root p = Some t \<and> wf_ty t \<and> load (target st) p \<noteq> None) \<and>
     sorted_wrt inside (current st # stack st)"

lemma load_outer: "prefix q p \<Longrightarrow> load v p \<noteq> None \<Longrightarrow> load v q \<noteq> None"
  by (auto simp: prefix_def load_append split: option.splits)

lemma on_current_ok:
  assumes ok: "parser_ok root st" and c: "current st = (t, p)"
    and f: "\<And>v r v'. f t (currentKey st) v = (r, v') \<Longrightarrow> has_type t v \<Longrightarrow> has_type t v'"
  shows "\<exists>v. load (target st) p = Some v \<and> has_type t v \<and>
    on_current f st = (fst (f t (currentKey st) v), st\<lparr>target := store p (snd (f t (currentKey st) v)) (target st)\<rparr>) \<and>
    parser_ok root (snd (on_current f st))"
proof -
  from ok c obtain v where v: "load (target st) p = Some v" "ty_at root p = Some t" "has_type root (target st)"
    by (auto simp: parser_ok_def)
  then have t: "has_type t v" by (auto intro: load_typed)
  define v' where "v' = snd (f t (currentKey st) v)"
  have t': "has_type t v'" using f t unfolding v'_def by (metis prod.collapse)
  have run: "on_current f st = (fst (f t (currentKey st) v), st\<lparr>target := store p v' (target st)\<rparr>)"
    using v c by (simp add: on_current_def v'_def split: prod.split)
  have pre: "prefix q p" if "(u, q) \<in> set (current st # stack st)" for u q
    using that ok c by (auto simp: parser_ok_def inside_def strict_prefix_def)
  have "load (store p v' (target st)) q \<noteq> None" if "(u, q) \<in> set (current st # stack st)" for u q
    using load_outer [OF pre [OF that]] load_store [OF v(1)] by simp
  then have "parser_ok root (snd (on_current f st))"
    using ok store_typed [OF v(3,1,2) t'] run by (fastforce simp: parser_ok_def)
  with v t run show ?thesis by (auto simp: v'_def)
qed

lemma fill_start_ok:
  assumes ok: "parser_ok root st" and c: "current st = (t, p)"
    and F: "F = fill_start maker env" and mk: "\<And>u u'. maker u = Inr u' \<Longrightarrow> u' = u"
  shows "\<exists>v. load (target st) p = Some v \<and>
    on_current F st = (fst (F t (currentKey st) v), st\<lparr>target := store p (snd (F t (currentKey st) v)) (target st)\<rparr>) \<and>
    parser_ok root (snd (on_current F st)) \<and> parser_ok root (snd (bind (on_current F) enter st)) \<and>
    (\<forall>s t'. fst (F t (currentKey st) v) = Inr (s, t') \<longrightarrow>
       wf_ty t' \<and> (\<exists>w. child (snd (F t (currentKey st) v)) s = Some w))"
proof -
  have wf: "wf_ty t" and at: "ty_at root p = Some t" using ok c by (auto simp: parser_ok_def)
  have typed: "\<And>v r v'. F t (currentKey st) v = (r, v') \<Longrightarrow> has_type t v \<Longrightarrow> has_type t v'"
    unfolding F using fill_start_typed(1) wf mk by blast
  have "\<exists>v. load (target st) p = Some v \<and> has_type t v \<and>
    on_current F st = (fst (F t (currentKey st) v), st\<lparr>target := store p (snd (F t (currentKey st) v)) (target st)\<rparr>) \<and>
    parser_ok root (snd (on_current F st))"
    by (rule on_current_ok [where f = F, OF ok c]) (rule typed)
  then obtain v where v: "load (target st) p = Some v" "has_type t v"
    and run: "on_current F st = (fst (F t (currentKey st) v), st\<lparr>target := store p (snd (F t (currentKey st) v)) (target st)\<rparr>)"
    and ok1: "parser_ok root (snd (on_current F st))" by blast
  define v' where "v' = snd (F t (currentKey st) v)"
  have place: "ty_at t [s] = Some t' \<and> (\<exists>w. child v' s = Some w)" if "fst (F t (currentKey st) v) = Inr (s, t')" for s t'
    using fill_start_typed(2) [of maker env t "currentKey st" v, OF _ v(2) wf mk] that
    unfolding F v'_def by (metis prod.collapse)
  have wf': "wf_ty t'" if "fst (F t (currentKey st) v) = Inr (s, t')" for s t'
    using place [OF that] wf wf_ty_child by blast
  have "parser_ok root (snd (bind (on_current F) enter st))"
  proof (cases "fst (F t (currentKey st) v)")
    case (Inl e)
    then show ?thesis using ok1 run by (simp add: bind_def)
  next
    case (Inr x)
    obtain s t' where x: "x = (s, t')" by (cases x)
    from place [of s t'] Inr x obtain w where w: "ty_at t [s] = Some t'" "child v' s = Some w" by auto
    have "load (store p v' (target st)) (p @ [s]) = Some w"
      using load_store [OF v(1)] w(2) by (simp add: load_snoc)
    moreover have "ty_at root (p @ [s]) = Some t'" using at w(1) by (simp add: ty_at_append)
    moreover have "inside (t', p @ [s]) (t, p)" by (simp add: inside_def strict_prefix_def)
    moreover have "inside (t', p @ [s]) g" if "inside (t, p) g" for g
      using that by (auto simp: inside_def strict_prefix_def prefix_def)
    ultimately show ?thesis
      using ok1 run wf' [of s t'] Inr x c
      by (auto simp: bind_def enter_def parser_ok_def v'_def [symmetric])
  qed
  with v run ok1 place wf' show ?thesis by (auto simp: v'_def)
qed

lemma fill_value_ok:
  assumes ok: "parser_ok root st" and c: "current st = (t, p)" and env: "conv_typed env"
  shows "\<exists>v. load (target st) p = Some v \<and> has_type t v \<and>
    sp_value env s st = (fst (fill_value env t (currentKey st) s v),
      st\<lparr>target := store p (snd (fill_value env t (currentKey st) s v)) (target st)\<rparr>) \<and>
    parser_ok root (snd (sp_value env s st))"
proof -
  have wf: "wf_ty t" using ok c by (auto simp: parser_ok_def)
  show ?thesis unfolding sp_value_def
    by (rule on_current_ok [where f = "\<lambda>t key. fill_value env t key s", OF ok c])
      (rule fill_value_typed [OF _ _ wf env])
qed

lemma pop_ok: "parser_ok root st \<Longrightarrow> stack st = f # fs \<Longrightarrow> parser_ok root (st\<lparr>current := f, stack := fs\<rparr>)"
  by (auto simp: parser_ok_def)

lemma handle_event_ok:
  assumes ok: "parser_ok root st" and env: "conv_typed env"
  shows "parser_ok root (snd (handle_event env e st))"
proof -
  obtain t p where c: "current st = (t, p)" by (cases "current st")
  note o = fill_start_ok [where maker = "startObjectFor env" and env = env, OF ok c refl startObjectFor_self [where env = env]]
  note a = fill_start_ok [where maker = "startArrayFor env" and env = env, OF ok c refl startArrayFor_self [where env = env]]
  show ?thesis
  proof (cases e)
    case EStartObject
    have "parser_ok root (snd (bind (on_current (fill_startObject env)) enter st))"
      using o unfolding fill_startObject_start by blast
    with ok show ?thesis unfolding EStartObject by (simp only: handle_event.simps sp_startObject_def snd_conv simp_thms split: if_split)
  next
    case EStartArray
    have "parser_ok root (snd (bind (on_current (fill_startArray env)) enter st))"
      using a unfolding fill_startArray_start by blast
    with ok show ?thesis unfolding EStartArray by (simp only: handle_event.simps sp_startArray_def snd_conv simp_thms split: if_split)
  next
    case (EValue s)
    then show ?thesis using fill_value_ok [OF ok c env] by auto
  next
    case (EKey k)
    then show ?thesis using ok by (simp add: sp_key_def parser_ok_def)
  qed (use ok in \<open>auto simp: sp_endObject_def sp_endArray_def sp_null_def intro: pop_ok split: list.split\<close>)
qed

lemma feed_ok: "parser_ok root st \<Longrightarrow> conv_typed env \<Longrightarrow> parser_ok root (snd (feed env es st))"
proof (induction es arbitrary: st)
  case (Cons e es)
  then show ?case
    using handle_event_ok [OF Cons.prems, of e]
    by (cases "handle_event env e st"; cases "fst (handle_event env e st)") (auto simp: bind_def)
qed simp

lemma new_parser_ok: "wf_ty root \<Longrightarrow> has_type root v \<Longrightarrow> parser_ok root (new_parser root v)"
  by (simp add: parser_ok_def new_parser_def)

text \<open>C24: whatever events arrive, well nested or not, also after an error: the structure keeps its
  type, every filler points to a live place of its own type, and the fillers on the stack point
  strictly outward. A vector grows only where the current filler points, so no pointer on the stack
  is into an element a reallocation could move.\<close>

theorem fillers_never_dangle:
  assumes "wf_ty root" and "has_type root v" and "conv_typed env"
  shows "let st = snd (feed env es (new_parser root v)) in
    has_type root (target st) \<and>
    (\<forall>(t, p) \<in> set (current st # stack st).
       \<exists>w. load (target st) p = Some w \<and> has_type t w \<and> prefix p (snd (current st))) \<and>
    distinct (map snd (current st # stack st))"
proof -
  define st where "st = snd (feed env es (new_parser root v))"
  have ok: "parser_ok root st" unfolding st_def by (rule feed_ok [OF new_parser_ok]) (use assms in auto)
  have "\<exists>w. load (target st) p = Some w \<and> has_type t w \<and> prefix p (snd (current st))"
    if "(t, p) \<in> set (current st # stack st)" for t p
  proof -
    from that ok obtain w where w: "load (target st) p = Some w" "ty_at root p = Some t" "has_type root (target st)"
      by (auto simp: parser_ok_def)
    then have "has_type t w" by (auto intro: load_typed)
    moreover have "prefix p (snd (current st))"
      using that ok by (auto simp: parser_ok_def inside_def strict_prefix_def)
    ultimately show ?thesis using w by blast
  qed
  moreover have "distinct (map snd (f # fs))" if "sorted_wrt inside (f # fs)" for f fs
    using that by (induction fs arbitrary: f) (auto simp: inside_def)
  then have "distinct (map snd (current st # stack st))" using ok unfolding parser_ok_def by blast
  moreover have "has_type root (target st)" using ok by (simp add: parser_ok_def)
  ultimately show ?thesis unfolding Let_def st_def [symmetric] by blast
qed

section \<open>The events of a document fill the structure\<close>

primrec keys_ok :: "jdoc \<Rightarrow> bool" where
  "keys_ok DNull = True"
| "keys_ok (DScalar s) = True"
| "keys_ok (DObj kvs) = list_all (\<lambda>(k, b). k \<noteq> [] \<and> b) (map (map_prod id keys_ok) kvs)"
| "keys_ok (DArr ds) = list_all (\<lambda>b. b) (map keys_ok ds)"

definition obj_events :: "(string \<times> jdoc) list \<Rightarrow> event list" where
  "obj_events kvs = concat (map (\<lambda>(k, d). EKey k # events d) kvs)"

definition arr_events :: "jdoc list \<Rightarrow> event list" where
  "arr_events ds = concat (map events ds)"

lemma events_obj: "events (DObj kvs) = EStartObject # obj_events kvs @ [EEndObject]"
  by (simp add: obj_events_def) (rule arg_cong [of _ _ concat], auto)

lemma events_arr: "events (DArr ds) = EStartArray # arr_events ds @ [EEndArray]"
  by (simp add: arr_events_def)

lemma feed_append: "feed env (a @ b) st = bind (feed env a) (\<lambda>u. feed env b) st"
proof (induction a arbitrary: st)
  case (Cons e a)
  then show ?case by (cases "handle_event env e st") (auto simp: bind_def split: sum.split)
qed (simp add: bind_def)

text \<open>\<open>fills env es st p res\<close>: fed to \<open>st\<close>, the events leave \<open>res\<close> at the place \<open>p\<close> and the fillers
  as they were, or throw what \<open>res\<close> says.\<close>

definition fills :: "sp_env \<Rightarrow> event list \<Rightarrow> parser \<Rightarrow> pointer \<Rightarrow> exn + dval \<Rightarrow> bool" where
  "fills env es st p res =
     (case res of
        Inl e \<Rightarrow> (\<exists>st'. feed env es st = (Inl e, st'))
      | Inr v \<Rightarrow> (\<exists>k. k \<noteq> [] \<and> feed env es st = (Inr (), st\<lparr>currentKey := k, target := store p v (target st)\<rparr>)))"

lemma fills_append:
  assumes "fills env a st p (Inr v)" and "load (target st) p = Some u"
    and "\<And>k. k \<noteq> [] \<Longrightarrow> feed env a st = (Inr (), st\<lparr>currentKey := k, target := store p v (target st)\<rparr>) \<Longrightarrow>
           fills env b (st\<lparr>currentKey := k, target := store p v (target st)\<rparr>) p res"
  shows "fills env (a @ b) st p res"
proof -
  from assms(1) obtain k where k: "k \<noteq> []"
      "feed env a st = (Inr (), st\<lparr>currentKey := k, target := store p v (target st)\<rparr>)"
    by (auto simp: fills_def)
  from assms(3) [OF this] show ?thesis
    by (auto simp: fills_def feed_append bind_def k store_twice [OF assms(2)] split: sum.splits)
qed

text \<open>A nested document: the start event enters a place, the end event leaves it.\<close>

lemma fills_nested:
  assumes ok: "parser_ok root st" and c: "current st = (t, p)" and v: "load (target st) p = Some v"
    and k: "currentKey st \<noteq> []"
    and F: "F = fill_start maker env" and mk: "\<And>u u'. maker u = Inr u' \<Longrightarrow> u' = u"
    and start: "handle_event env a = (\<lambda>st. if currentKey st = [] then (Inr (), st) else bind (on_current F) enter st)"
    and stop: "handle_event env z = sp_endObject"
    and body: "\<And>s t' v' w st'. F t (currentKey st) v = (Inr (s, t'), v') \<Longrightarrow> child v' s = Some w \<Longrightarrow>
       parser_ok root st' \<Longrightarrow> current st' = (t', p @ [s]) \<Longrightarrow> load (target st') (p @ [s]) = Some w \<Longrightarrow>
       currentKey st' = currentKey st \<Longrightarrow> fills env es st' (p @ [s]) (res t' w)"
  shows "fills env (a # es @ [z]) st p
    (case F t (currentKey st) v of
        (Inl e, v') \<Rightarrow> Inl e
      | (Inr (s, t'), v') \<Rightarrow>
          (case child v' s of
             None \<Rightarrow> Inl ForeignExn
           | Some w \<Rightarrow> (case res t' w of Inl e \<Rightarrow> Inl e | Inr w' \<Rightarrow> Inr (put_child s w' v'))))"
proof -
  obtain r v' where r: "F t (currentKey st) v = (r, v')" by (cases "F t (currentKey st) v")
  from fill_start_ok [OF ok c F mk] v r have
    run: "on_current F st = (r, st\<lparr>target := store p v' (target st)\<rparr>)"
    and ok2: "parser_ok root (snd (bind (on_current F) enter st))"
    and place: "\<And>s t'. r = Inr (s, t') \<Longrightarrow> \<exists>w. child v' s = Some w" by auto
  show ?thesis
  proof (cases r)
    case (Inl e)
    then show ?thesis using run k start r by (simp add: fills_def bind_def)
  next
    case (Inr x)
    obtain s t' where x: "x = (s, t')" by (cases x)
    with place Inr obtain w where w: "child v' s = Some w" by blast
    let ?T = "store p v' (target st)"
    define st2 where "st2 = st\<lparr>target := ?T, stack := (t, p) # stack st, current := (t', p @ [s])\<rparr>"
    have b: "bind (on_current F) enter st = (Inr (), st2)"
      using run Inr x c by (simp add: bind_def enter_def st2_def)
    have l2: "load ?T p = Some v'" by (rule load_store [OF v])
    have "fills env es st2 (p @ [s]) (res t' w)"
    proof (rule body)
      show "F t (currentKey st) v = (Inr (s, t'), v')" using r Inr x by simp
      show "parser_ok root st2" using ok2 b by simp
      show "load (target st2) (p @ [s]) = Some w" using l2 w by (simp add: load_snoc st2_def)
    qed (simp_all add: st2_def w)
    then show ?thesis
      using r Inr x w k b start stop c
      by (auto simp: fills_def bind_def feed_append sp_endObject_def st2_def store_snoc [OF l2 w]
          store_twice [OF v] split: sum.splits)
  qed
qed

lemma same_key_value:
  "k = key \<or> (\<exists>u. t = TyVec u) \<Longrightarrow> has_type t v \<Longrightarrow> fill_value env t k s v = fill_value env t key s v"
  by (auto dest!: has_type_VecE simp del: has_type.simps)

lemma same_key_start:
  "k = key \<or> (\<exists>u. t = TyVec u) \<Longrightarrow> has_type t v \<Longrightarrow> fill_start maker env t k v = fill_start maker env t key v"
  by (auto dest!: has_type_VecE simp del: has_type.simps)

lemma startArrayFor_vec: "startArrayFor env u = Inr u' \<Longrightarrow> \<exists>x. u' = TyVec x"
  by (cases u) auto

lemma fill_start_array_vec: "fst (fill_startArray env t key v) = Inr (s, t') \<Longrightarrow> \<exists>x. t' = TyVec x"
proof -
  assume "fst (fill_startArray env t key v) = Inr (s, t')"
  then obtain u where "startArrayFor env u = Inr t'"
    unfolding fill_startArray_start
    by (cases "(startArrayFor env, env, t, key, v)" rule: fill_start.cases)
      (auto simp: map_sum_def split: option.splits sum.splits)
  then show ?thesis by (rule startArrayFor_vec)
qed

lemma fills_scalar:
  assumes ok: "parser_ok root st" and c: "current st = (t, p)" and v: "load (target st) p = Some v"
    and env: "conv_typed env" and k: "currentKey st \<noteq> []"
  shows "fills env [EValue s] st p
    (case fill_value env t (currentKey st) s v of (Inl e, v') \<Rightarrow> Inl e | (Inr u, v') \<Rightarrow> Inr v')"
  using fill_value_ok [OF ok c env, of s] v k
  by (cases "fill_value env t (currentKey st) s v")
    (auto simp: fills_def bind_def intro!: exI [of _ "currentKey st"] split: sum.split)

lemma current_typed:
  "parser_ok root st \<Longrightarrow> current st = (t, p) \<Longrightarrow> load (target st) p = Some v \<Longrightarrow> has_type t v"
  by (auto simp: parser_ok_def intro: load_typed)

lemma store_self: "load v p = Some w \<Longrightarrow> store p w v = v"
proof (induction p arbitrary: v)
  case (Cons s p)
  then show ?case by (cases v; cases s) (auto simp: assoc_put_self split: option.splits if_splits)
qed simp

lemma feed_fills:
  shows "parser_ok root st \<Longrightarrow> conv_typed env \<Longrightarrow> current st = (t, p) \<Longrightarrow> load (target st) p = Some v \<Longrightarrow>
      currentKey st \<noteq> [] \<Longrightarrow> currentKey st = key \<or> (\<exists>u. t = TyVec u) \<Longrightarrow> keys_ok d \<Longrightarrow>
      fills env (events d) st p (decode_elem env t v key d)"
    and "parser_ok root st \<Longrightarrow> conv_typed env \<Longrightarrow> current st = (t, p) \<Longrightarrow> load (target st) p = Some v \<Longrightarrow>
      currentKey st \<noteq> [] \<Longrightarrow> keys_ok (DObj kvs) \<Longrightarrow> fills env (obj_events kvs) st p (decode_obj env t v kvs)"
    and "parser_ok root st \<Longrightarrow> conv_typed env \<Longrightarrow> current st = (t, p) \<Longrightarrow> load (target st) p = Some v \<Longrightarrow>
      currentKey st \<noteq> [] \<Longrightarrow> (\<exists>u. t = TyVec u) \<Longrightarrow> keys_ok (DArr ds) \<Longrightarrow>
      fills env (arr_events ds) st p (decode_arr env t v key ds)"
proof (induction env t v key d and env t v kvs and env t v key ds
    arbitrary: st p and st p and st p rule: decode_elem_decode_obj_decode_arr.induct)
  case (1 env t v key)
  then show ?case
    by (auto simp: fills_def bind_def sp_null_def store_self intro!: exI [of _ "currentKey st"])
next
  case (2 env t v key s)
  have "fill_value env t (currentKey st) s v = fill_value env t key s v"
    using same_key_value [OF 2(6) current_typed [OF 2(1,3,4)]] .
  with fills_scalar [OF 2(1,3,4,2,5), of s] show ?case by simp
next
  case (3 env t v key kvs)
  have same: "fill_startObject env t (currentKey st) v = fill_startObject env t key v"
    unfolding fill_startObject_start using same_key_start [OF "3.prems"(6) current_typed [OF "3.prems"(1,3,4)]] .
  have body: "fills env (obj_events kvs) st' (p @ [s]) (decode_obj env t' w kvs)"
    if "fill_startObject env t (currentKey st) v = (Inr (s, t'), v')" "child v' s = Some w"
      "parser_ok root st'" "current st' = (t', p @ [s])" "load (target st') (p @ [s]) = Some w"
      "currentKey st' = currentKey st" for s t' v' w st'
    using "3.IH" [of "Inr (s, t')" v' "(s, t')" s t' w] that "3.prems" same by fastforce
  have start: "handle_event env EStartObject =
      (\<lambda>st. if currentKey st = [] then (Inr (), st) else bind (on_current (fill_startObject env)) enter st)"
    by (rule ext) (simp only: handle_event.simps sp_startObject_def)
  have stop: "handle_event env EEndObject = sp_endObject"
    by (rule ext) (simp only: handle_event.simps sp_endObject_def sp_endArray_def)
  show ?case
    unfolding events_obj decode_elem.simps same [symmetric]
    by (rule fills_nested [OF "3.prems"(1,3,4,5) fill_startObject_start _ start stop], erule startObjectFor_self, rule body)
next
  case (4 env t v key ds)
  have same: "fill_startArray env t (currentKey st) v = fill_startArray env t key v"
    unfolding fill_startArray_start using same_key_start [OF "4.prems"(6) current_typed [OF "4.prems"(1,3,4)]] .
  have body: "fills env (arr_events ds) st' (p @ [s]) (decode_arr env t' w key ds)"
    if "fill_startArray env t (currentKey st) v = (Inr (s, t'), v')" "child v' s = Some w"
      "parser_ok root st'" "current st' = (t', p @ [s])" "load (target st') (p @ [s]) = Some w"
      "currentKey st' = currentKey st" for s t' v' w st'
    using "4.IH" [of "Inr (s, t')" v' "(s, t')" s t' w] that "4.prems" same
      fill_start_array_vec [of env t "currentKey st" v s t'] by fastforce
  have start: "handle_event env EStartArray =
      (\<lambda>st. if currentKey st = [] then (Inr (), st) else bind (on_current (fill_startArray env)) enter st)"
    by (rule ext) (simp only: handle_event.simps sp_startArray_def)
  have stop: "handle_event env EEndArray = sp_endObject"
    by (rule ext) (simp only: handle_event.simps sp_endObject_def sp_endArray_def)
  show ?case
    unfolding events_arr decode_elem.simps same [symmetric]
    by (rule fills_nested [OF "4.prems"(1,3,4,5) fill_startArray_start _ start stop], erule startArrayFor_self, rule body)
next
  case (5 env t v)
  then show ?case
    by (auto simp: fills_def obj_events_def store_self intro!: exI [of _ "currentKey st"])
next
  case (6 env t v k d r)
  let ?st = "st\<lparr>currentKey := k\<rparr>"
  have ok: "parser_ok root ?st" using "6.prems"(1) by (simp add: parser_ok_def)
  have d: "fills env (events d) ?st p (decode_elem env t v k d)"
    using "6.IH"(1) [of ?st p] ok "6.prems" by auto
  have key: "fills env (EKey k # es) st p res = fills env es ?st p res" for es res
    by (simp add: fills_def bind_def sp_key_def split: sum.split)
  have "obj_events ((k, d) # r) = EKey k # events d @ obj_events r" by (simp add: obj_events_def)
  show ?case
  proof (cases "decode_elem env t v k d")
    case (Inl e)
    with d show ?thesis unfolding \<open>obj_events _ = _\<close> key
      by (auto simp: fills_def feed_append bind_def)
  next
    case (Inr v')
    have l: "load (target ?st) p = Some v" using "6.prems"(4) by simp
    have "fills env (events d @ obj_events r) ?st p (decode_obj env t v' r)"
    proof (rule fills_append [OF _ l])
      show "fills env (events d) ?st p (Inr v')" using d Inr by simp
      fix k2 assume k2: "k2 \<noteq> []"
        and run: "feed env (events d) ?st = (Inr (), ?st\<lparr>currentKey := k2, target := store p v' (target ?st)\<rparr>)"
      have "parser_ok root (snd (feed env (events d) ?st))" using feed_ok [OF ok "6.prems"(2)] .
      then show "fills env (obj_events r) (?st\<lparr>currentKey := k2, target := store p v' (target ?st)\<rparr>) p
          (decode_obj env t v' r)"
        using "6.prems" k2 load_store [OF l] Inr unfolding run by (intro "6.IH"(2)) auto
    qed
    with Inr show ?thesis unfolding \<open>obj_events _ = _\<close> key by simp
  qed
next
  case (7 env t v key)
  then show ?case
    by (auto simp: fills_def arr_events_def store_self intro!: exI [of _ "currentKey st"])
next
  case (8 env t v key d r)
  have d: "fills env (events d) st p (decode_elem env t v key d)"
    using "8.IH"(1) [of st p] "8.prems" by auto
  have es: "arr_events (d # r) = events d @ arr_events r" by (simp add: arr_events_def)
  show ?case
  proof (cases "decode_elem env t v key d")
    case (Inl e)
    with d show ?thesis unfolding es by (auto simp: fills_def feed_append bind_def)
  next
    case (Inr v')
    have "fills env (events d @ arr_events r) st p (decode_arr env t v' key r)"
    proof (rule fills_append [OF _ "8.prems"(4)])
      show "fills env (events d) st p (Inr v')" using d Inr by simp
      fix k2 assume k2: "k2 \<noteq> []"
        and run: "feed env (events d) st = (Inr (), st\<lparr>currentKey := k2, target := store p v' (target st)\<rparr>)"
      have "parser_ok root (snd (feed env (events d) st))" using feed_ok [OF "8.prems"(1,2)] .
      then show "fills env (arr_events r) (st\<lparr>currentKey := k2, target := store p v' (target st)\<rparr>) p
          (decode_arr env t v' key r)"
        using "8.prems" k2 load_store [OF "8.prems"(4)] Inr unfolding run by (intro "8.IH"(2)) auto
    qed
    with Inr show ?thesis unfolding es by simp
  qed
qed

lemma parser_decodes_aux:
  assumes "wf_ty root" and "has_type root v" and "conv_typed env" and "keys_ok (DObj kvs)"
  shows "case decode_obj env root v kvs of
      Inl e \<Rightarrow> fst (feed env (events (DObj kvs)) (new_parser root v)) = Inl e
    | Inr v' \<Rightarrow> \<exists>k. feed env (events (DObj kvs)) (new_parser root v) =
        (Inr (), \<lparr>currentKey = k, current = (root, []), stack = [], target = v'\<rparr>)"
proof -
  let ?st = "new_parser root v" let ?st1 = "?st\<lparr>currentKey := ''k''\<rparr>"
  have st1: "parser_ok root ?st1" using new_parser_ok [OF assms(1,2)] by (simp add: parser_ok_def)
  have f: "fills env (obj_events kvs) ?st1 [] (decode_obj env root v kvs)"
    by (rule feed_fills(2) [OF st1 assms(3)]) (use assms(4) in \<open>simp_all add: new_parser_def\<close>)
  have "feed env (events (DObj kvs)) ?st = bind (feed env (obj_events kvs)) (\<lambda>u. feed env [EEndObject]) ?st"
    unfolding events_obj by (simp add: bind_def sp_startObject_def new_parser_def feed_append)
  moreover have "feed env (obj_events kvs) ?st = (if kvs = [] then (Inr (), ?st) else feed env (obj_events kvs) ?st1)"
    by (cases kvs) (auto simp: obj_events_def bind_def sp_key_def new_parser_def)
  ultimately show ?thesis
    using f by (auto simp: fills_def bind_def sp_endObject_def new_parser_def obj_events_def split: sum.splits)
qed

text \<open>C23: the event handler computes the reference reading: fed the events of an object whose keys are
  not empty, a fresh parser ends with the structure \<open>decode_obj\<close> gives and its fillers as at the
  start, or throws what \<open>decode_obj\<close> throws. (An empty key breaks this: its value is not entered but
  its end still pops a filler, and \<open>null\<close> is never passed on, so a null in an array leaves no
  element.)\<close>

theorem parser_decodes:
  assumes "wf_ty root" and "has_type root v" and "conv_typed env" and "keys_ok (DObj kvs)"
  shows "case decode_obj env root v kvs of
      Inl e \<Rightarrow> fst (feed env (events (DObj kvs)) (new_parser root v)) = Inl e
    | Inr v' \<Rightarrow> \<exists>k. feed env (events (DObj kvs)) (new_parser root v) =
        (Inr (), \<lparr>currentKey = k, current = (root, []), stack = [], target = v'\<rparr>)"
  using parser_decodes_aux [OF assms] .

section \<open>Reading back what a structure is written as\<close>

text \<open>
  Writing drops the kind of a number: \<open>dl s\<close> is the value as the parser delivers it for the text \<open>s\<close> is
  written as. The handler's comments say that an integer comes as an \<open>int\<close> when it fits and as
  unsigned only when it does not. Poco's conversions between integer kinds are exact on a value that
  fits the target and raise otherwise.
\<close>

fun scalar_int :: "scalar \<Rightarrow> int option" where
  "scalar_int (SInt v) = Some v"
| "scalar_int (SUnsigned v) = Some (int v)"
| "scalar_int (SInt64 v) = Some v"
| "scalar_int (SUInt64 v) = Some (int v)"
| "scalar_int s = None"

fun fits :: "prim \<Rightarrow> int \<Rightarrow> bool" where
  "fits PInt n = (- (2 ^ 31) \<le> n \<and> n < 2 ^ 31)"
| "fits PUnsigned n = (0 \<le> n \<and> n < 2 ^ 32)"
| "fits PInt64 n = (- (2 ^ 63) \<le> n \<and> n < 2 ^ 63)"
| "fits PUInt64 n = (0 \<le> n \<and> n < 2 ^ 64)"
| "fits q n = False"

definition in_range :: "scalar \<Rightarrow> bool" where
  "in_range s = (case scalar_int s of None \<Rightarrow> True | Some n \<Rightarrow> fits (scalar_type s) n)"

definition poco_delivers :: "(scalar \<Rightarrow> scalar) \<Rightarrow> bool" where
  "poco_delivers dl \<longleftrightarrow>
     (\<forall>s. case scalar_int s of
            None \<Rightarrow> dl s = s
          | Some n \<Rightarrow> scalar_int (dl s) = Some n \<and> (scalar_type (dl s) = PInt \<longleftrightarrow> fits PInt n))"

definition conv_exact :: "sp_env \<Rightarrow> bool" where
  "conv_exact env \<longleftrightarrow>
     (\<forall>q s n. scalar_int s = Some n \<and> fits q n \<longrightarrow>
        (\<exists>s'. conv env q s = Inr s' \<and> scalar_type s' = q \<and> scalar_int s' = Some n))"

lemma scalar_int_inj: "scalar_int s = Some n \<Longrightarrow> scalar_int s' = Some n \<Longrightarrow> scalar_type s = scalar_type s' \<Longrightarrow> s = s'"
  by (cases s; cases s') auto

definition leaf_back :: "sp_env \<Rightarrow> (scalar \<Rightarrow> scalar) \<Rightarrow> scalar \<Rightarrow> bool" where
  "leaf_back env dl s \<longleftrightarrow> setField env (TyPrim (scalar_type s)) (dl s) = Inr (VPrim s)"

lemma leaf_back_id: "leaf_back env id s"
  by (simp add: leaf_back_def)

lemma leaf_back_delivered:
  assumes "poco_delivers dl" and "conv_exact env" and "in_range s"
  shows "leaf_back env dl s"
proof -
  have d: "case scalar_int s of None \<Rightarrow> dl s = s
      | Some n \<Rightarrow> scalar_int (dl s) = Some n \<and> (scalar_type (dl s) = PInt \<longleftrightarrow> fits PInt n)"
    using assms(1) unfolding poco_delivers_def by (rule spec)
  show ?thesis
  proof (cases "scalar_int s")
    case None
    with d show ?thesis by (simp add: leaf_back_def)
  next
    case (Some n)
    with d have "scalar_int (dl s) = Some n" by simp
    moreover have "fits (scalar_type s) n" using assms(3) Some by (simp add: in_range_def)
    moreover from calculation obtain s' where "conv env (scalar_type s) (dl s) = Inr s'"
        "scalar_type s' = scalar_type s" "scalar_int s' = Some n"
      using assms(2) unfolding conv_exact_def by blast
    ultimately show ?thesis
      using scalar_int_inj [of s' n s] scalar_int_inj [of "dl s" n s] Some by (simp add: leaf_back_def)
  qed
qed

primrec encode :: "(scalar \<Rightarrow> scalar) \<Rightarrow> dval \<Rightarrow> jdoc" where
  "encode dl (VPrim s) = DScalar (dl s)"
| "encode dl (VVec xs) = DArr (map (encode dl) xs)"
| "encode dl (VMap m) = DObj (map (map_prod id (encode dl)) m)"
| "encode dl (VStruct vs) = DObj (map (map_prod id (encode dl)) vs)"

primrec all_leaves :: "(scalar \<Rightarrow> bool) \<Rightarrow> dval \<Rightarrow> bool" where
  "all_leaves P (VPrim s) = P s"
| "all_leaves P (VVec xs) = list_all (\<lambda>b. b) (map (all_leaves P) xs)"
| "all_leaves P (VMap m) = list_all snd (map (map_prod id (all_leaves P)) m)"
| "all_leaves P (VStruct vs) = list_all snd (map (map_prod id (all_leaves P)) vs)"

lemma all_leaves_mono: "all_leaves P w \<Longrightarrow> (\<And>s. P s \<Longrightarrow> Q s) \<Longrightarrow> all_leaves Q w"
  by (induction w) (fastforce simp: list_all_iff)+

lemma all_leavesI: "(\<And>s. P s) \<Longrightarrow> all_leaves P w"
  by (induction w) (fastforce simp: list_all_iff)+

text \<open>Maps have distinct keys, and none is empty.\<close>

primrec plain_keys :: "dval \<Rightarrow> bool" where
  "plain_keys (VPrim s) = True"
| "plain_keys (VVec xs) = list_all (\<lambda>b. b) (map plain_keys xs)"
| "plain_keys (VMap m) = (distinct (map fst m) \<and> list_all (\<lambda>(k, b). k \<noteq> [] \<and> b) (map (map_prod id plain_keys) m))"
| "plain_keys (VStruct vs) = list_all (\<lambda>(k, b). k \<noteq> [] \<and> b) (map (map_prod id plain_keys) vs)"

definition slot :: "sp_env \<Rightarrow> jty \<Rightarrow> dval \<Rightarrow> string \<Rightarrow> jty \<Rightarrow> ptr_step \<Rightarrow> dval \<Rightarrow> bool" where
  "slot env ct cv key t s v1 \<longleftrightarrow>
     (\<forall>maker. fill_start maker env ct key cv = (map_sum id (\<lambda>t'. (s, t')) (maker t), v1)) \<and>
     child v1 s = Some (default_val t) \<and>
     (\<forall>x w. setField env t x = Inr w \<longrightarrow> fill_value env ct key x cv = (Inr (), put_child s w v1))"

lemma slot_vec: "slot env (TyVec t) (VVec xs) key t (Idx (length xs)) (VVec (xs @ [default_val t]))"
  by (simp add: slot_def emplace_data_def)

lemma assoc_put_snoc: "map_of m k = None \<Longrightarrow> assoc_put k w (m @ [(k, x)]) = m @ [(k, w)]"
  by (induction m) (auto split: if_splits)

lemma slot_map:
  "map_of m key = None \<Longrightarrow> slot env (TyMap t) (VMap m) key t (At key) (VMap (m @ [(key, default_val t)]))"
  by (simp add: slot_def map_emplace_def assoc_put_snoc map_add_def)

lemma slot_struct:
  "distinct (map fst fs) \<Longrightarrow> map_of fs key = Some t \<Longrightarrow> map_of vs key = Some (default_val t) \<Longrightarrow>
   slot env (TyStruct n fs) (VStruct vs) key t (Fld key) (VStruct vs)"
  by (simp add: slot_def find_field_map_of)

fun inner_decodes :: "sp_env \<Rightarrow> (scalar \<Rightarrow> scalar) \<Rightarrow> jty \<Rightarrow> dval \<Rightarrow> bool" where
  "inner_decodes env dl t (VPrim s) = leaf_back env dl s"
| "inner_decodes env dl t (VVec xs) = (\<forall>key. decode_arr env t (default_val t) key (map (encode dl) xs) = Inr (VVec xs))"
| "inner_decodes env dl t (VMap m) = (decode_obj env t (default_val t) (map (map_prod id (encode dl)) m) = Inr (VMap m))"
| "inner_decodes env dl t (VStruct vs) =
     (decode_obj env t (default_val t) (map (map_prod id (encode dl)) vs) = Inr (VStruct vs))"

lemma slot_decodes:
  assumes "slot env ct cv key t s v1" and "has_type t w" and "inner_decodes env dl t w"
  shows "decode_elem env ct cv key (encode dl w) = Inr (put_child s w v1)"
proof (cases w)
  case (VPrim x)
  with assms(2) have t: "t = TyPrim (scalar_type x)" by (cases t) auto
  have "setField env t (dl x) = Inr w" using assms(3) unfolding VPrim t by (simp add: leaf_back_def)
  then have "fill_value env ct key (dl x) cv = (Inr (), put_child s w v1)"
    using assms(1) unfolding slot_def by blast
  then show ?thesis unfolding VPrim by simp
qed (use assms in \<open>cases t; auto simp: slot_def fill_startObject_start fill_startArray_start\<close>)+

lemma decodes_vec:
  "\<forall>x \<in> set xs. has_type t x \<and> inner_decodes env dl t x \<Longrightarrow>
   decode_arr env (TyVec t) (VVec ys) key (map (encode dl) xs) = Inr (VVec (ys @ xs))"
proof (induction xs arbitrary: ys)
  case (Cons x xs)
  then show ?case using slot_decodes [OF slot_vec, of t x env dl ys key] by simp
qed simp

lemma decodes_map:
  "\<forall>(k, x) \<in> set m. has_type t x \<and> inner_decodes env dl t x \<Longrightarrow> distinct (map fst (m0 @ m)) \<Longrightarrow>
   decode_obj env (TyMap t) (VMap m0) (map (map_prod id (encode dl)) m) = Inr (VMap (m0 @ m))"
proof (induction m arbitrary: m0)
  case (Cons e m)
  obtain k x where e: "e = (k, x)" by (cases e)
  with Cons.prems have "map_of m0 k = None" by (auto simp: map_of_eq_None_iff)
  with Cons e show ?case
    using slot_decodes [OF slot_map, of m0 k t x env dl] by (simp add: assoc_put_snoc)
qed simp

lemma assoc_put_middle: "k \<notin> fst ` set d \<Longrightarrow> assoc_put k w (d @ (k, x) # r) = d @ (k, w) # r"
  by (induction d) auto

lemma map_of_middle: "k \<notin> fst ` set d \<Longrightarrow> map_of (d @ (k, x) # r) k = Some x"
  by (induction d) auto

lemma decodes_struct:
  "list_all2 (\<lambda>(k, t) (k', x). k = k' \<and> has_type t x \<and> inner_decodes env dl t x) fs2 vs2 \<Longrightarrow>
   distinct (map fst (fs1 @ fs2)) \<Longrightarrow> map fst d1 = map fst fs1 \<Longrightarrow>
   decode_obj env (TyStruct n (fs1 @ fs2)) (VStruct (d1 @ map (map_prod id default_val) fs2))
     (map (map_prod id (encode dl)) vs2) = Inr (VStruct (d1 @ vs2))"
proof (induction fs2 vs2 arbitrary: fs1 d1 rule: list_all2_induct)
  case (Cons f fs2 e vs2)
  obtain k t x where e: "f = (k, t)" "e = (k, x)" "has_type t x" "inner_decodes env dl t x"
    using Cons.hyps(1) by (cases f; cases e) auto
  have "fst ` set d1 = fst ` set fs1" using Cons.prems(2) by (metis set_map)
  with Cons.prems e have k: "k \<notin> fst ` set d1" "k \<notin> fst ` set fs1" by auto
  let ?vs = "d1 @ map (map_prod id default_val) (f # fs2)"
  have "map_of (fs1 @ f # fs2) k = Some t" "map_of ?vs k = Some (default_val t)"
    using map_of_middle [OF k(2)] map_of_middle [OF k(1)] e by (simp_all del: map_of_append)
  with Cons.prems(1) have "slot env (TyStruct n (fs1 @ f # fs2)) (VStruct ?vs) k t (Fld k) (VStruct ?vs)"
    by (intro slot_struct)
  then have "decode_elem env (TyStruct n (fs1 @ f # fs2)) (VStruct ?vs) k (encode dl x) =
      Inr (VStruct ((d1 @ [(k, x)]) @ map (map_prod id default_val) fs2))"
    using slot_decodes [OF _ e(3,4)] k e by (simp add: assoc_put_middle)
  moreover have "decode_obj env (TyStruct n ((fs1 @ [f]) @ fs2))
      (VStruct ((d1 @ [(k, x)]) @ map (map_prod id default_val) fs2)) (map (map_prod id (encode dl)) vs2) =
      Inr (VStruct ((d1 @ [(k, x)]) @ vs2))"
    using Cons.prems e by (intro Cons.IH) simp_all
  ultimately show ?case by (simp add: e id_def)
qed simp

lemma encode_decodes: "has_type t w \<Longrightarrow> wf_ty t \<Longrightarrow> plain_keys w \<Longrightarrow> all_leaves (leaf_back env dl) w \<Longrightarrow> inner_decodes env dl t w"
proof (induction w arbitrary: t)
  case (VVec xs)
  then obtain u where t: "t = TyVec u" by (cases t) auto
  with VVec show ?case by (auto simp: list_all_iff intro: decodes_vec [where ys = "[]", simplified])
next
  case (VMap m)
  then obtain u where t: "t = TyMap u" by (cases t) auto
  have "\<forall>(k, x) \<in> set m. has_type u x \<and> inner_decodes env dl u x"
    using VMap t by (fastforce simp: list_all_iff)
  from decodes_map [OF this, of "[]"] VMap.prems t show ?case by simp
next
  case (VStruct vs)
  then obtain n fs where t: "t = TyStruct n fs" by (cases t) auto
  have l: "list_all2 (\<lambda>(k, t) (k', w). k = k' \<and> has_type t w) fs vs"
    using VStruct.prems(1) unfolding t has_type_Struct .
  have "list_all2 (\<lambda>(k, t) (k', x). k = k' \<and> has_type t x \<and> inner_decodes env dl t x) fs vs"
  proof (rule list.rel_mono_strong [OF l])
    fix f e
    assume fe: "f \<in> set fs" "e \<in> set vs" "(case f of (k, t) \<Rightarrow> (\<lambda>(k', w). k = k' \<and> has_type t w)) e"
    obtain k t' x where e: "f = (k, t')" "e = (k, x)" "has_type t' x" using fe(3) by (cases f; cases e) auto
    have "wf_ty t'" "plain_keys x" "all_leaves (leaf_back env dl) x"
      using VStruct.prems(2,3,4) fe e t by (auto simp: list_all_iff)
    moreover have "x \<in> Basic_BNFs.snds e" using e by (simp add: snds.simps)
    ultimately show "(case f of (k, t) \<Rightarrow> (\<lambda>(k', x). k = k' \<and> has_type t x \<and> inner_decodes env dl t x)) e"
      using VStruct.IH [OF fe(2)] e by simp
  qed
  from decodes_struct [OF this, of "[]" "[]"] VStruct.prems t show ?case by simp
qed simp

lemma plain_keys_ok: "plain_keys w \<Longrightarrow> keys_ok (encode dl w)"
  by (induction w) (fastforce simp: list_all_iff)+

lemma struct_roundtrip_aux:
  assumes "wf_ty root" and "has_type root w" and "plain_keys w" and "conv_typed env"
    and "\<And>xs. w \<noteq> VVec xs" and "\<And>s. w \<noteq> VPrim s" and "all_leaves (leaf_back env dl) w"
  shows "\<exists>k. feed env (events (encode dl w)) (new_parser root (default_val root)) =
      (Inr (), \<lparr>currentKey = k, current = (root, []), stack = [], target = w\<rparr>)"
proof -
  have i: "inner_decodes env dl root w" by (rule encode_decodes [OF assms(2,1,3,7)])
  have k: "keys_ok (encode dl w)" by (rule plain_keys_ok [OF assms(3)])
  obtain kvs where kvs: "encode dl w = DObj kvs" "decode_obj env root (default_val root) kvs = Inr w"
    using i assms(5,6) by (cases w) auto
  from parser_decodes_aux [OF assms(1) default_typed assms(4), of kvs] k kvs show ?thesis by simp
qed

text \<open>C22: a structure comes back from the JSON it is written as: for every well formed structure or map
  type and every object of the type with proper keys, parsing the object's document into a fresh object
  succeeds and gives the object. That holds of any conversion when every value is delivered in the kind
  of its member, and also when the parser picks the kind of an integer by its size, whatever the
  member's kind, if conversions between integer kinds are exact on values that fit and the integers of
  the object fit their kinds.\<close>

theorem struct_roundtrip:
  assumes "wf_ty root" and "has_type root w" and "plain_keys w" and "conv_typed env"
    and "\<And>xs. w \<noteq> VVec xs" and "\<And>s. w \<noteq> VPrim s"
  shows "(\<exists>k. feed env (events (encode id w)) (new_parser root (default_val root)) =
        (Inr (), \<lparr>currentKey = k, current = (root, []), stack = [], target = w\<rparr>)) \<and>
    (\<forall>dl. poco_delivers dl \<and> conv_exact env \<and> all_leaves in_range w \<longrightarrow>
      (\<exists>k. feed env (events (encode dl w)) (new_parser root (default_val root)) =
        (Inr (), \<lparr>currentKey = k, current = (root, []), stack = [], target = w\<rparr>)))"
proof (intro conjI allI impI; (elim conjE)?)
  show "\<exists>k. feed env (events (encode id w)) (new_parser root (default_val root)) =
      (Inr (), \<lparr>currentKey = k, current = (root, []), stack = [], target = w\<rparr>)"
    by (rule struct_roundtrip_aux [OF assms all_leavesI [OF leaf_back_id]])
  fix dl assume "poco_delivers dl" and "conv_exact env" and "all_leaves in_range w"
  then have "all_leaves (leaf_back env dl) w"
    by (blast intro: all_leaves_mono leaf_back_delivered)
  then show "\<exists>k. feed env (events (encode dl w)) (new_parser root (default_val root)) =
      (Inr (), \<lparr>currentKey = k, current = (root, []), stack = [], target = w\<rparr>)"
    by (rule struct_roundtrip_aux [OF assms])
qed

fun int_scalar :: "prim \<Rightarrow> int \<Rightarrow> scalar" where
  "int_scalar PInt n = SInt n"
| "int_scalar PUnsigned n = SUnsigned (nat n)"
| "int_scalar PInt64 n = SInt64 n"
| "int_scalar PUInt64 n = SUInt64 (nat n)"
| "int_scalar q n = default_prim q"

definition exact_env :: sp_env where
  "exact_env = \<lparr>conv = (\<lambda>q s. case scalar_int s of
       None \<Rightarrow> Inl (rt_error ''conversion'')
     | Some n \<Rightarrow> if fits q n then Inr (int_scalar q n) else Inl (rt_error ''range'')), typeid_name = (\<lambda>t. ''T'')\<rparr>"

definition by_size :: "scalar \<Rightarrow> scalar" where
  "by_size s = (case scalar_int s of
       None \<Rightarrow> s
     | Some n \<Rightarrow> if fits PInt n then SInt n else if 0 \<le> n then SUInt64 (nat n) else SInt64 n)"

definition person :: jty where
  "person = TyStruct ''Person'' [(''name'', TyPrim PString), (''age'', TyPrim PUnsigned), (''tags'', TyVec (TyPrim PString))]"

definition people :: jty where
  "people = TyStruct ''People'' [(''list'', TyVec person), (''by'', TyMap person)]"

definition someone :: dval where
  "someone = VStruct [(''name'', VPrim (SStr ''Ana'')), (''age'', VPrim (SUnsigned 7)), (''tags'', VVec [VPrim (SStr ''x'')])]"

definition some_people :: dval where
  "some_people = VStruct [(''list'', VVec [someone, someone]), (''by'', VMap [(''a'', someone)])]"

lemma people_wf: "wf_ty people"
  by (simp add: people_def person_def)

lemma exact_env_typed: "conv_typed exact_env"
proof -
  have "fits q n \<Longrightarrow> scalar_type (int_scalar q n) = q" for q n by (cases q) auto
  then show ?thesis by (auto simp: conv_typed_def exact_env_def split: option.splits if_splits)
qed

lemma exact_env_exact: "conv_exact exact_env"
proof -
  have "fits q n \<Longrightarrow> scalar_type (int_scalar q n) = q \<and> scalar_int (int_scalar q n) = Some n" for q n
    by (cases q) auto
  then show ?thesis by (auto simp: conv_exact_def exact_env_def)
qed

lemma by_size_delivers: "poco_delivers by_size"
  unfolding poco_delivers_def
proof
  fix s show "case scalar_int s of None \<Rightarrow> by_size s = s
    | Some n \<Rightarrow> scalar_int (by_size s) = Some n \<and> (scalar_type (by_size s) = PInt \<longleftrightarrow> fits PInt n)"
    by (auto simp: by_size_def simp del: fits.simps split: option.splits)
qed

text \<open>The unsigned 7 of the structure is delivered as an \<open>int\<close> and converted.\<close>

theorem struct_roundtrip_witness:
  "by_size (SUnsigned 7) = SInt 7 \<and>
   (\<exists>k. feed exact_env (events (encode by_size some_people)) (new_parser people (default_val people)) =
      (Inr (), \<lparr>currentKey = k, current = (people, []), stack = [], target = some_people\<rparr>))"
proof -
  have "all_leaves in_range some_people"
    by (simp add: some_people_def someone_def in_range_def)
  moreover have "wf_ty people" "has_type people some_people" "plain_keys some_people"
    by (simp_all add: people_def person_def some_people_def someone_def)
  ultimately show ?thesis
    using struct_roundtrip [of people some_people exact_env] exact_env_typed exact_env_exact by_size_delivers
    by (simp add: by_size_def some_people_def)
qed

theorem parser_decodes_witness:
  "fst (feed exact_env (events (DObj [(''list'', DScalar (SInt 1))])) (new_parser people (default_val people))) =
     Inl (rt_error ''Unavailable'')"
proof -
  have "decode_obj exact_env people (default_val people) [(''list'', DScalar (SInt 1))] = Inl (rt_error ''Unavailable'')"
    using find_field_map_of [of "[(''list'', TyVec person), (''by'', TyMap person)]" "''list''"]
    by (simp add: people_def)
  with parser_decodes [OF people_wf default_typed exact_env_typed, of "[(''list'', DScalar (SInt 1))]"]
  show ?thesis by simp
qed

theorem fillers_never_dangle_witness:
  "has_type people (target (snd (feed exact_env
     [EStartObject, EKey ''list'', EStartArray, EStartObject, EEndArray, EEndObject, EEndObject, EValue (SBool True)]
     (new_parser people (default_val people)))))"
  using fillers_never_dangle [OF people_wf default_typed exact_env_typed] unfolding Let_def by blast

end
