(* ===== verification/WebControllers.thy ===== *)
theory WebControllers
  imports Validators
begin

text \<open>
  The HTTP side: the controller base class (src/src/WebInterface/CController.cpp), the route wrapper
  (src/src/WebInterface/httpwrappers.hpp, JsonResponse.hpp), the storage controller
  (src/src/WebControllers/CStorageController.cpp) with the \<open>Last-Modified\<close> header
  (src/src/PistacheCustomHttpHeaders/LastModified.hpp), and \<open>Storage\<close>. Pistache is a parameter: a
  request is what the code reads of it, a \<open>ResponseWriter\<close> the list of the answers sent with it.
\<close>

section \<open>Requests and answers\<close>

record request =
  rq_body :: string
  rq_raw_header :: "string \<Rightarrow> string option"
  rq_host :: string
  rq_port :: nat
  rq_param :: "string \<Rightarrow> string option"
  rq_get :: bool
  rq_authorization :: "string option"
  rq_accept :: "string list option"

type_synonym answer = "nat \<times> string \<times> string"

record http_writer =
  wr_sent :: "answer list"
  wr_mime :: string
  wr_stream :: "(nat \<times> string) option"

definition new_writer :: http_writer where
  "new_writer = \<lparr>wr_sent = [], wr_mime = [], wr_stream = None\<rparr>"

definition wr_send :: "nat \<Rightarrow> string \<Rightarrow> string \<Rightarrow> http_writer \<Rightarrow> http_writer" where
  "wr_send code body mime w = w\<lparr>wr_sent := wr_sent w @ [(code, body, mime)]\<rparr>"

definition JSON_RETURN :: string where
  "JSON_RETURN = ''application/json''"

text \<open>What the code uses of Poco::Crypto beside the documents.\<close>

record web_env =
  wv_poco :: poco
  wv_sha512 :: "string \<Rightarrow> string"
  wv_digestFromHex :: "string \<Rightarrow> exn + string"

record controller =
  min_json_body_size :: u64
  max_json_body_size :: u64
  defaulthashfield :: string
  habilita_hash_input_json :: bool

definition new_controller :: controller where
  "new_controller = \<lparr>min_json_body_size = 0, max_json_body_size = 4 * 1024, defaulthashfield = ''_hash'',
     habilita_hash_input_json = False\<rparr>"

definition enableInputHashCheck :: "bool \<Rightarrow> controller \<Rightarrow> controller" where
  "enableInputHashCheck enable c = c\<lparr>habilita_hash_input_json := enable\<rparr>"

section \<open>CController\<close>

definition returnPocoJson :: "poco \<Rightarrow> nat \<Rightarrow> jobj \<Rightarrow> (http_writer, unit) eff" where
  "returnPocoJson p code json w =
     (case JsonToString p (JObj json) of
        Inl e \<Rightarrow> (Inl e, w)
      | Inr s \<Rightarrow> (Inr (), wr_send code s JSON_RETURN w))"

definition ctl_Send :: "poco \<Rightarrow> nat \<Rightarrow> jobj \<Rightarrow> (http_writer, unit) eff" where
  "ctl_Send p code json w =
     (case stringify p default_opts (JObj json) of
        Inl e \<Rightarrow> (Inl e, w)
      | Inr s \<Rightarrow> (Inr (), wr_send code s JSON_RETURN w))"

definition default_json_return :: "bool \<Rightarrow> string \<Rightarrow> jobj" where
  "default_json_return success msg = obj_set ''mensagem'' (JStr msg) (obj_set ''sucesso'' (JBool success) [])"

definition default_json_return_uuid :: "bool \<Rightarrow> string \<Rightarrow> string \<Rightarrow> jobj" where
  "default_json_return_uuid success msg uuid =
     obj_set ''req_uuid'' (JOther uuid) (obj_set ''mensagem'' (JStr msg) (obj_set ''sucesso'' (JBool success) []))"

definition default_json_return_as_str :: "(jobj \<Rightarrow> string) \<Rightarrow> bool \<Rightarrow> string \<Rightarrow> string" where
  "default_json_return_as_str pr success msg = pr (default_json_return success msg)"

definition get_ip_host_from_header :: "request \<Rightarrow> string \<times> string" where
  "get_ip_host_from_header rq =
     ((case rq_raw_header rq ''X-Real-IP'' of None \<Rightarrow> [] | Some v \<Rightarrow> v),
      (case rq_raw_header rq ''Host'' of None \<Rightarrow> [] | Some v \<Rightarrow> v))"

text \<open>\<open>std::string::find_first_of\<close>: the first position holding any of the characters of the set.\<close>

fun find_first_of :: "string \<Rightarrow> string \<Rightarrow> nat option" where
  "find_first_of cs [] = None"
| "find_first_of cs (c # s) = (if c \<in> set cs then Some 0 else map_option Suc (find_first_of cs s))"

definition get_ip_host_from_request :: "request \<Rightarrow> string \<times> string" where
  "get_ip_host_from_request rq =
     (let pistachehost = rq_host rq; pistacheport = rq_port rq; result = get_ip_host_from_header rq in
      if fst result \<noteq> [] \<and> (pistachehost = [] \<or> find_first_of ''127.'' pistachehost = Some 0) then result
      else (pistachehost @ '':'' @ string_of_nat pistacheport, snd result))"

definition throw_json_http_exception :: "poco \<Rightarrow> nat \<Rightarrow> bool \<Rightarrow> string \<Rightarrow> (http_writer, 'a) eff" where
  "throw_json_http_exception p code success msg w =
     (case returnPocoJson p code (default_json_return success msg) (w\<lparr>wr_mime := JSON_RETURN\<rparr>) of
        (Inl e, w') \<Rightarrow> (Inl e, w')
      | (Inr u, w') \<Rightarrow> (Inl (StdExn Invalid_argument []), w'))"

definition throw_http_exception :: "nat \<Rightarrow> string \<Rightarrow> exn" where
  "throw_http_exception code fullreturndata = StdExn (Http_error code) fullreturndata"

fun hash_input :: "poco \<Rightarrow> string \<Rightarrow> jobj \<Rightarrow> string \<Rightarrow> exn + string" where
  "hash_input p ignorefield [] acc = Inr acc"
| "hash_input p ignorefield ((k, v) # r) acc =
     (if k = ignorefield then hash_input p ignorefield r acc
      else case p_toString p v of Inl e \<Rightarrow> Inl e | Inr s \<Rightarrow> hash_input p ignorefield r (acc @ s))"

definition hash_json :: "web_env \<Rightarrow> jobj \<Rightarrow> string \<Rightarrow> exn + string" where
  "hash_json env param ignorefield =
     (case hash_input (wv_poco env) ignorefield param [] of
        Inl e \<Rightarrow> Inl e
      | Inr s \<Rightarrow> Inr (wv_sha512 env s))"

definition hash_json_cmp :: "web_env \<Rightarrow> jobj \<Rightarrow> string \<Rightarrow> exn + bool" where
  "hash_json_cmp env param hashfield =
     (case hash_json env param hashfield of
        Inl e \<Rightarrow> Inl e
      | Inr target' \<Rightarrow>
          (case (case getValue (p_toString (wv_poco env)) param hashfield of
                   Inl e \<Rightarrow> Inl e
                 | Inr h \<Rightarrow> wv_digestFromHex env h) of
             Inl e \<Rightarrow> Inl (StdExn Runtime_error
                 (''Houve um problema em identificar o formato do campo '' @ hashfield))
           | Inr source \<Rightarrow> Inr (target' = source)))"

definition msg_no_hash :: "string \<Rightarrow> string" where
  "msg_no_hash f = ''Campo de hash '' @ [CHR 0x22] @ f @ [CHR 0x22] @ '' n'' @ atilde @ ''o est'' @ aacute
     @ '' presente no json''"

definition msg_bad_hash :: string where
  "msg_bad_hash = ''Hash dos dados '' @ [CHR 0xC3, CHR 0xA9] @ '' inv'' @ aacute @ ''lida''"

fun is_crypto :: "exn \<Rightarrow> bool" where
  "is_crypto (StdExn Crypto_exception w) = True"
| "is_crypto e = False"

text \<open>
  The throw for a hash that differs is inside the \<open>try\<close> block: the handlers below it catch the
  \<open>std::invalid_argument\<close> it ends with.
\<close>

definition valida_hash_request :: "web_env \<Rightarrow> controller \<Rightarrow> jobj option \<Rightarrow> (http_writer, bool) eff" where
  "valida_hash_request env c param w =
     (case deref param of
        Inl e \<Rightarrow> (Inl e, w)
      | Inr o' \<Rightarrow>
          if \<not> obj_has o' (defaulthashfield c)
          then throw_json_http_exception (wv_poco env) 400 False (msg_no_hash (defaulthashfield c)) w
          else
            (case (case hash_json_cmp env o' (defaulthashfield c) of
                     Inl e \<Rightarrow> (Inl e, w)
                   | Inr same \<Rightarrow>
                       if \<not> same then throw_json_http_exception (wv_poco env) 400 False msg_bad_hash w
                       else (Inr (), w)) of
               (Inr u, w') \<Rightarrow> (Inr True, w')
             | (Inl e, w') \<Rightarrow>
                 if is_crypto e
                 then throw_json_http_exception (wv_poco env) 400 False ''Houve um problema com ao testar a hash'' w'
                 else if is_std e then throw_json_http_exception (wv_poco env) 400 False (exn_what e) w'
                 else (Inl e, w')))"

fun is_validator_exception :: "exn \<Rightarrow> bool" where
  "is_validator_exception (StdExn Validator_exception w) = True"
| "is_validator_exception e = False"

definition input_json :: "web_env \<Rightarrow> controller \<Rightarrow> request \<Rightarrow> (http_writer, jobj option) eff" where
  "input_json env c rq w =
     (case (case request_to_json (wv_poco env) (rq_body rq) (min_json_body_size c) (max_json_body_size c) of
              Inl e \<Rightarrow> (Inl e, w)
            | Inr inputdata \<Rightarrow>
                if habilita_hash_input_json c
                then (case valida_hash_request env c inputdata w of
                        (Inl e, w') \<Rightarrow> (Inl e, w')
                      | (Inr valid, w') \<Rightarrow> if \<not> valid then (Inr None, w') else (Inr inputdata, w'))
                else (Inr inputdata, w)) of
        (Inr r, w') \<Rightarrow> (Inr r, w')
      | (Inl e, w') \<Rightarrow>
          if is_validator_exception e
          then (case returnPocoJson (wv_poco env) 400 (validator_to_json (exn_what e)) w' of
                  (Inl e', w'') \<Rightarrow> (Inl e', w'')
                | (Inr u, w'') \<Rightarrow> (Inr None, w''))
          else if is_std e
          then throw_json_http_exception (wv_poco env) 400 False ''Falha de leitura do Json'' w'
          else (Inl e, w'))"

definition get_auth :: "poco \<Rightarrow> request \<Rightarrow> (http_writer, string option) eff" where
  "get_auth p rq w =
     (case rq_authorization rq of
        None \<Rightarrow>
          (case returnPocoJson p 400 (default_json_return False ''Falta header Authorization com sua chave'') w of
             (Inl e, w') \<Rightarrow> (Inl e, w') | (Inr u, w') \<Rightarrow> (Inr None, w'))
      | Some v \<Rightarrow>
          if v = []
          then (case returnPocoJson p 400
                    (default_json_return False (''ID de acesso est'' @ aacute @ '' vazio'')) w of
                  (Inl e, w') \<Rightarrow> (Inl e, w') | (Inr u, w') \<Rightarrow> (Inr None, w'))
          else (Inr (Some v), w))"

text \<open>\<open>file\<close> is the content of the file, none when it cannot be opened: \<open>tellg\<close> is then -1.\<close>

definition response_file :: "string option \<Rightarrow> (http_writer, bool) eff" where
  "response_file fcontent w =
     (case fcontent of
        None \<Rightarrow> (Inr True, w\<lparr>wr_mime := ''application/ext+zip'', wr_stream := Some (2 ^ 64 - 1, [])\<rparr>)
      | Some bytes \<Rightarrow>
          (Inr True, w\<lparr>wr_mime := ''application/ext+zip'', wr_stream := Some (length bytes, bytes)\<rparr>))"

text \<open>\<open>response_stream\<close> does the same with a stream that is open already.\<close>

definition response_stream :: "string \<Rightarrow> (http_writer, bool) eff" where
  "response_stream inputstream = response_file (Some inputstream)"

definition should_response_html :: "request \<Rightarrow> bool" where
  "should_response_html rq =
     (case rq_accept rq of
        None \<Rightarrow> True
      | Some media \<Rightarrow> fold (\<lambda>sub show'. show' \<or> sub = ''html'') media False)"

section \<open>Route wrapper\<close>

text \<open>
  \<open>Resp\<close> is a status and a pointer to the shared writer; a callback gets a copy of it. \<open>accept\<close> is
  \<open>headers().get("Accept")\<close> of Pistache, which throws when there is none. An empty
  \<open>unique_ptr\<close> returned by a callback is dereferenced: \<open>None\<close>.
\<close>

record http_resp =
  RouteStatus :: nat
  response :: http_writer

definition resp_status :: "nat \<Rightarrow> http_resp \<Rightarrow> http_resp" where
  "resp_status val r = r\<lparr>RouteStatus := val\<rparr>"

definition resp_send :: "string \<Rightarrow> string \<Rightarrow> http_resp \<Rightarrow> http_resp" where
  "resp_send body mime r = r\<lparr>response := wr_send (RouteStatus r) body mime (response r)\<rparr>"

definition resp_send_code :: "nat \<Rightarrow> string \<Rightarrow> string \<Rightarrow> http_resp \<Rightarrow> http_resp" where
  "resp_send_code status body mime r = r\<lparr>RouteStatus := status, response := wr_send status body mime (response r)\<rparr>"

datatype via_return =
  ExceptionResponse string
| RawStringResponse string nat string
| JsonResponse "jobj option" nat

definition exception_body :: string where
  "exception_body = ''{'' @ [CHR 0x22] @ ''message'' @ [CHR 0x22] @ '': '' @ [CHR 0x22] @ ''exception''
     @ [CHR 0x22] @ ''}''"

definition json_sendResponse :: "(jobj \<Rightarrow> exn + string) \<Rightarrow> jobj option \<Rightarrow> nat \<Rightarrow> (http_resp, unit) eff" where
  "json_sendResponse strf respData retCode resp =
     (case respData of
        None \<Rightarrow> (Inr (), resp_send_code retCode ''{}'' JSON_RETURN resp)
      | Some o' \<Rightarrow>
          (Inr (), resp_send_code retCode (case strf o' of Inl e \<Rightarrow> ''{}'' | Inr s \<Rightarrow> s) JSON_RETURN resp))"

fun sendResponse :: "(jobj \<Rightarrow> exn + string) \<Rightarrow> (exn + bool) \<Rightarrow> via_return \<Rightarrow> (http_resp, unit) eff" where
  "sendResponse strf accept (ExceptionResponse t) r =
     (case accept of
        Inl e \<Rightarrow> (Inl e, r)
      | Inr present \<Rightarrow>
          if present then (Inr (), resp_send_code 500 exception_body JSON_RETURN r)
          else (Inr (), resp_send_code 500 t [] r))"
| "sendResponse strf accept (RawStringResponse t code mime) r = (Inr (), resp_send_code code t mime r)"
| "sendResponse strf accept (JsonResponse respData code) r = json_sendResponse strf respData code r"

datatype route_fn =
  NoReturn "((http_resp, unit) eff) option"
| ViaReturn "((http_resp, via_return option) eff) option"

definition on_copy :: "(http_resp, 'a) eff \<Rightarrow> (http_resp, 'a) eff" where
  "on_copy f r = (case f r of (x, r') \<Rightarrow> (x, r\<lparr>response := response r'\<rparr>))"

definition router_call ::
  "(jobj \<Rightarrow> exn + string) \<Rightarrow> (exn + bool) \<Rightarrow> route_fn \<Rightarrow> (http_resp, unit) eff" where
  "router_call strf accept func r =
     (case func of
        NoReturn None \<Rightarrow> (Inr (), r)
      | NoReturn (Some f) \<Rightarrow> on_copy f r
      | ViaReturn None \<Rightarrow> (Inr (), r)
      | ViaReturn (Some f) \<Rightarrow>
          (case on_copy f r of
             (Inl e, r') \<Rightarrow> (Inl e, r')
           | (Inr None, r') \<Rightarrow> (Inl ForeignExn, r')
           | (Inr (Some v), r') \<Rightarrow> on_copy (sendResponse strf accept v) r'))"

definition router_operator ::
  "(jobj \<Rightarrow> exn + string) \<Rightarrow> (exn + bool) \<Rightarrow> route_fn \<Rightarrow> http_writer \<Rightarrow> (exn + unit) \<times> http_writer" where
  "router_operator strf accept func w =
     (case router_call strf accept func \<lparr>RouteStatus = 200, response = w\<rparr> of
        (Inr u, r) \<Rightarrow> (Inr (), response r)
      | (Inl e, r) \<Rightarrow>
          if is_std e
          then (case on_copy (sendResponse strf accept (ExceptionResponse (exn_what e))) r of
                  (x, r') \<Rightarrow> (x, response r'))
          else (Inl e, response r))"

section \<open>Stored files\<close>

text \<open>
  The file system as the code asks it. Times are nanoseconds of the file clock; \<open>fs_clocks i\<close> is what
  the i-th call of \<open>timeCast\<close> in the request reads from the clock of files and from that of the system
  (each call reads both anew), \<open>fs_http_date\<close> is \<open>strftime\<close> of \<open>gmtime_r\<close> (none
  when it fails), \<open>fs_parse_date\<close> is \<open>std::get_time\<close> and \<open>mktime\<close>, \<open>fs_timezone\<close> the C global.
\<close>

record fs_env =
  fs_canonical :: "string \<Rightarrow> exn + string"
  fs_absolute :: "string \<Rightarrow> exn + string"
  fs_exists :: "string \<Rightarrow> bool"
  fs_last_write :: "string \<Rightarrow> exn + int"
  fs_size :: "string \<Rightarrow> exn + nat"
  fs_clocks :: "nat \<Rightarrow> int \<times> int"
  fs_timezone :: int
  fs_http_date :: "int \<Rightarrow> string option"
  fs_parse_date :: "string \<Rightarrow> int"

text \<open>\<open>operator/\<close> of paths: an absolute right side replaces the left one.\<close>

definition path_join :: "string \<Rightarrow> string \<Rightarrow> string" where
  "path_join a b =
     (if b \<noteq> [] \<and> hd b = CHR ''/'' then b
      else if a = [] \<or> last a = CHR ''/'' then a @ b
      else a @ ''/'' @ b)"

definition not_found :: exn where
  "not_found = StdExn (Http_error 404) []"

definition bad_request :: exn where
  "bad_request = StdExn (Http_error 400) []"

definition getFilePath :: "fs_env \<Rightarrow> string \<Rightarrow> request \<Rightarrow> exn + string" where
  "getFilePath fs storageDirectory rq =
     (case rq_param rq '':fileName'' of
        None \<Rightarrow> Inl not_found
      | Some fileNameStr \<Rightarrow>
          if fileNameStr = [] then Inl not_found
          else if hd fileNameStr = CHR ''.'' then Inr []
          else
            (case sum_bind (fs_canonical fs storageDirectory) (fs_absolute fs) of
               Inl e \<Rightarrow> Inl e
             | Inr absStorage \<Rightarrow>
                 (case sum_bind (fs_canonical fs (path_join absStorage fileNameStr)) (fs_absolute fs) of
                    Inl e \<Rightarrow> Inl not_found
                  | Inr fullName \<Rightarrow>
                      if \<not> fs_exists fs fullName then Inl not_found
                      else if find_sub absStorage fullName \<noteq> Some 0 then Inl bad_request
                      else Inr fullName)))"

definition trunc_div :: "int \<Rightarrow> int \<Rightarrow> int" where
  "trunc_div a b = (if 0 \<le> a then a div b else - ((- a) div b))"

definition timeCast :: "int \<times> int \<Rightarrow> int \<Rightarrow> int" where
  "timeCast now timePoint = trunc_div (timePoint - fst now + snd now) (10 ^ 9)"

definition format_date :: "fs_env \<Rightarrow> int \<Rightarrow> string" where
  "format_date fs cftime = (case fs_http_date fs cftime of None \<Rightarrow> [] | Some s \<Rightarrow> s)"

definition getTimeFromStr :: "fs_env \<Rightarrow> string \<Rightarrow> int" where
  "getTimeFromStr fs dateTime = fs_parse_date fs dateTime"

text \<open>The header object is its text \<open>formatedDate\<close>; \<open>parseRaw\<close> adds to it.\<close>

definition lm_parseRaw :: "string \<Rightarrow> string \<Rightarrow> string" where
  "lm_parseRaw str formatedDate = formatedDate @ str"

definition lm_write :: "string \<Rightarrow> string \<Rightarrow> string" where
  "lm_write formatedDate os = (if formatedDate = [] then os else os @ formatedDate)"

definition lm_getTimeT :: "fs_env \<Rightarrow> string \<Rightarrow> int" where
  "lm_getTimeT fs formatedDate = getTimeFromStr fs formatedDate"

definition lm_of_point :: "fs_env \<Rightarrow> int \<times> int \<Rightarrow> int \<Rightarrow> string" where
  "lm_of_point fs now timePoint = format_date fs (timeCast now timePoint)"

datatype file_reply = NotModified | ServeFile string string | HeadOnly nat string

definition request_file :: "fs_env \<Rightarrow> string \<Rightarrow> request \<Rightarrow> exn + file_reply" where
  "request_file fs storageDirectory rq =
     (case getFilePath fs storageDirectory rq of
        Inl e \<Rightarrow> Inl e
      | Inr fullName \<Rightarrow>
          if fullName = [] then Inl not_found
          else
            (case fs_last_write fs fullName of
               Inl e \<Rightarrow> Inl e
             | Inr lastWriteTime \<Rightarrow>
                 (let lastWriteTimeGmt = timeCast (fs_clocks fs 0) lastWriteTime + fs_timezone fs;
                      modified = lm_of_point fs (fs_clocks fs 1) lastWriteTime
                  in if (case rq_raw_header rq ''If-Modified-Since'' of
                           None \<Rightarrow> False
                         | Some d \<Rightarrow> lastWriteTimeGmt \<le> getTimeFromStr fs d)
                     then Inr NotModified
                     else if rq_get rq then Inr (ServeFile fullName modified)
                     else (case fs_size fs fullName of
                             Inl e \<Rightarrow> Inl e
                           | Inr n \<Rightarrow> Inr (HeadOnly n modified)))))"

text \<open>
  \<open>Storage\<close>: \<open>can_open\<close> and \<open>complete\<close> are what the system answers to opening the file and to
  writing it; a partial write leaves the bytes \<open>complete\<close> says.
\<close>

type_synonym files = "string \<rightharpoonup> string"

definition storage_put ::
  "(string \<Rightarrow> bool) \<Rightarrow> (string \<Rightarrow> nat option) \<Rightarrow> string \<Rightarrow> string \<Rightarrow> files \<Rightarrow> bool \<times> files" where
  "storage_put can_open short path contents fs =
     (if \<not> can_open path then (False, fs)
      else case short path of
             None \<Rightarrow> (True, fs(path \<mapsto> contents))
           | Some n \<Rightarrow> (False, fs(path \<mapsto> take n contents)))"

definition publicPath :: string where
  "publicPath = ''./storage/public''"

definition buildPublicPath :: "string \<Rightarrow> string" where
  "buildPublicPath nm = path_join publicPath nm"

definition putPublicly ::
  "(string \<Rightarrow> bool) \<Rightarrow> (string \<Rightarrow> nat option) \<Rightarrow> string \<Rightarrow> string \<Rightarrow> files \<Rightarrow> string \<times> files" where
  "putPublicly can_open short nm contents fs =
     (case storage_put can_open short (buildPublicPath nm) contents fs of
        (ok, fs') \<Rightarrow> (if \<not> ok then [] else buildPublicPath nm, fs'))"

text \<open>The overloads for a vector of bytes.\<close>

definition bytes_text :: "u8 list \<Rightarrow> string" where
  "bytes_text contents = map (\<lambda>b. char_of (unat b)) contents"

definition storage_put_bytes ::
  "(string \<Rightarrow> bool) \<Rightarrow> (string \<Rightarrow> nat option) \<Rightarrow> string \<Rightarrow> u8 list \<Rightarrow> files \<Rightarrow> bool \<times> files" where
  "storage_put_bytes can_open short path contents fs =
     (if \<not> can_open path then (False, fs)
      else case short path of
             None \<Rightarrow> (True, fs(path \<mapsto> bytes_text contents))
           | Some n \<Rightarrow> (False, fs(path \<mapsto> bytes_text (take n contents))))"

definition putPublicly_bytes ::
  "(string \<Rightarrow> bool) \<Rightarrow> (string \<Rightarrow> nat option) \<Rightarrow> string \<Rightarrow> u8 list \<Rightarrow> files \<Rightarrow> string \<times> files" where
  "putPublicly_bytes can_open short nm contents fs =
     (case storage_put_bytes can_open short (buildPublicPath nm) contents fs of
        (ok, fs') \<Rightarrow> (if \<not> ok then [] else buildPublicPath nm, fs'))"

lemma storage_put_bytes_text: "storage_put_bytes can_open short path contents fs = storage_put can_open short path (bytes_text contents) fs"
  by (simp add: storage_put_bytes_def storage_put_def bytes_text_def take_map split: option.split)

definition filename_of :: "string \<Rightarrow> string" where
  "filename_of path = rev (takeWhile (\<lambda>c. c \<noteq> CHR ''/'') (rev path))"

definition uriFromPublic :: "string \<Rightarrow> string" where
  "uriFromPublic path = ''/storage/public/'' @ filename_of path"

section \<open>Conditional requests\<close>

lemma request_file_conditional:
  assumes "getFilePath fs dir rq = Inr p" and "p \<noteq> []" and "fs_last_write fs p = Inr lw"
    and "rq_raw_header rq ''If-Modified-Since'' = Some d"
  shows "request_file fs dir rq = Inr NotModified \<longleftrightarrow>
    timeCast (fs_clocks fs 0) lw + fs_timezone fs \<le> getTimeFromStr fs d"
  using assms by (auto simp: request_file_def Let_def split: sum.splits)

lemma request_file_served:
  assumes "request_file fs dir rq = Inr (ServeFile p d)"
  obtains lw where "getFilePath fs dir rq = Inr p" and "p \<noteq> []" and "fs_last_write fs p = Inr lw" and "d = lm_of_point fs (fs_clocks fs 1) lw"
  using assms by (auto simp: request_file_def Let_def split: sum.splits if_splits)

lemma getFilePath_cong:
  assumes "rq_param rq' = rq_param rq"
  shows "getFilePath (fs\<lparr>fs_clocks := c, fs_last_write := l\<rparr>) dir rq' = getFilePath fs dir rq"
proof -
  let ?fs = "fs\<lparr>fs_clocks := c, fs_last_write := l\<rparr>"
  have "fs_canonical ?fs = fs_canonical fs" "fs_absolute ?fs = fs_absolute fs" "fs_exists ?fs = fs_exists fs" by simp_all
  then show ?thesis unfolding getFilePath_def assms by (simp only:)
qed

lemma timeCast_gap: "snd now - fst now = snd now' - fst now' \<Longrightarrow> timeCast now t = timeCast now' t"
  unfolding timeCast_def by (rule arg_cong [where f = "\<lambda>x. trunc_div x (10 ^ 9)"]) simp

text \<open>C25: a client that sends the date of an answer back is told that nothing changed exactly as long as the file was
  not written in a later second. Each time is taken with the clocks as its own call of \<open>timeCast\<close> reads them; where the
  clock of the system is as far ahead of that of files in the deciding call as it was when the date was made, that is the
  comparison of the two writing times on one clock. The dates read back as \<open>mktime\<close> reads them, as local time, which the
  code makes up for by \<open>timezone\<close>; the date does not matter to which file it is.\<close>

theorem conditional_get:
  assumes date: "\<forall>t s. fs_http_date fs t = Some s \<longrightarrow> fs_parse_date fs s = t + fs_timezone fs"
    and first: "request_file fs dir rq = Inr (ServeFile p d)" and "d \<noteq> []"
    and "rq_param rq' = rq_param rq" and "rq_raw_header rq' ''If-Modified-Since'' = Some d"
    and "fs_last_write fs p = Inr lw" and "written p = Inr lw'"
  shows "(request_file (fs\<lparr>fs_clocks := later, fs_last_write := written\<rparr>) dir rq' = Inr NotModified \<longleftrightarrow>
        timeCast (later 0) lw' \<le> timeCast (fs_clocks fs 1) lw) \<and>
    (snd (later 0) - fst (later 0) = snd (fs_clocks fs 1) - fst (fs_clocks fs 1) \<longrightarrow>
      (request_file (fs\<lparr>fs_clocks := later, fs_last_write := written\<rparr>) dir rq' = Inr NotModified \<longleftrightarrow>
        timeCast (fs_clocks fs 1) lw' \<le> timeCast (fs_clocks fs 1) lw))"
proof -
  let ?fs = "fs\<lparr>fs_clocks := later, fs_last_write := written\<rparr>"
  have p: "getFilePath fs dir rq = Inr p" "p \<noteq> []" "d = lm_of_point fs (fs_clocks fs 1) lw"
    using request_file_served [OF first] assms(6) by auto
  have "getFilePath ?fs dir rq' = Inr p" using getFilePath_cong [OF assms(4)] p(1) by simp
  moreover have "fs_http_date fs (timeCast (fs_clocks fs 1) lw) = Some d"
    using p(3) assms(3) by (auto simp: lm_of_point_def format_date_def split: option.splits)
  ultimately have "request_file ?fs dir rq' = Inr NotModified \<longleftrightarrow> timeCast (later 0) lw' \<le> timeCast (fs_clocks fs 1) lw"
    using request_file_conditional [of ?fs dir rq' p lw' d] p(2) assms(5,7) date by (simp add: getTimeFromStr_def)
  then show ?thesis using timeCast_gap [of "later 0" "fs_clocks fs 1" lw'] by (intro conjI impI) simp_all
qed

definition day_fs :: fs_env where
  "day_fs = \<lparr>fs_canonical = Inr, fs_absolute = Inr, fs_exists = (\<lambda>p. True), fs_last_write = (\<lambda>p. Inr 5000000000), fs_size = (\<lambda>p. Inr 0),
     fs_clocks = (\<lambda>i. (int i, int i)), fs_timezone = 10800,
     fs_http_date = (\<lambda>t. if t < 0 then None else Some (CHR ''T'' # replicate (nat t) (CHR ''s''))),
     fs_parse_date = (\<lambda>s. int (length s) - 1 + 10800)\<rparr>"

definition get_request :: "string option \<Rightarrow> request" where
  "get_request since = \<lparr>rq_body = [], rq_raw_header = (\<lambda>h. if h = ''If-Modified-Since'' then since else None), rq_host = ''::1'',
     rq_port = 80, rq_param = (\<lambda>k. Some ''note''), rq_get = True, rq_authorization = None, rq_accept = None\<rparr>"

theorem conditional_get_witness:
  "request_file day_fs ''/srv'' (get_request None) = Inr (ServeFile ''/srv/note'' ''Tsssss'') \<and>
   request_file (day_fs\<lparr>fs_clocks := (\<lambda>i. (7, 7)), fs_last_write := (\<lambda>p. Inr 5900000000)\<rparr>) ''/srv'' (get_request (Some ''Tsssss'')) =
     Inr NotModified \<and>
   request_file (day_fs\<lparr>fs_clocks := (\<lambda>i. (7, 7)), fs_last_write := (\<lambda>p. Inr 6000000000)\<rparr>) ''/srv'' (get_request (Some ''Tsssss'')) \<noteq>
     Inr NotModified"
proof -
  have first: "request_file day_fs ''/srv'' (get_request None) = Inr (ServeFile ''/srv/note'' ''Tsssss'')"
    by code_simp
  have date: "\<forall>t s. fs_http_date day_fs t = Some s \<longrightarrow> fs_parse_date day_fs s = t + fs_timezone day_fs"
    by (auto simp: day_fs_def)
  have "(request_file (day_fs\<lparr>fs_clocks := (\<lambda>i. (7, 7)), fs_last_write := (\<lambda>p. Inr l)\<rparr>) ''/srv'' (get_request (Some ''Tsssss'')) =
      Inr NotModified) = (timeCast (7, 7) l \<le> timeCast (1, 1) 5000000000)" for l
    using conditional_get [OF date first, of "get_request (Some ''Tsssss'')" 5000000000 "\<lambda>p. Inr l" l "\<lambda>i. (7, 7)"]
    by (simp add: get_request_def) (simp add: day_fs_def)
  from this [of 5900000000] this [of 6000000000] show ?thesis
    using first by (simp add: timeCast_def trunc_div_def)
qed

text \<open>
  The two clocks are read one after the other, so the distance between them is not the same in each call:
  a file that is not written at all is sent again when the deciding call reads a system clock one nanosecond
  further ahead and the writing time is the last of its second.\<close>

lemma unchanged_file_sent_again:
  "request_file (day_fs\<lparr>fs_last_write := (\<lambda>p. Inr 5999999999)\<rparr>) ''/srv'' (get_request None) =
     Inr (ServeFile ''/srv/note'' ''Tsssss'') \<and>
   request_file (day_fs\<lparr>fs_last_write := (\<lambda>p. Inr 5999999999), fs_clocks := (\<lambda>i. (7, 8))\<rparr>) ''/srv''
       (get_request (Some ''Tsssss'')) =
     Inr (ServeFile ''/srv/note'' ''Tssssss'')"
  by code_simp

section \<open>Whose address is it\<close>

text \<open>Any client whose address begins with 1, 2, 7 or a dot chooses the address the application
  sees: \<open>find_first_of\<close> asks for one of the characters of \<open>127.\<close>, not for the prefix, so the
  \<open>X-Real-IP\<close> header such a client sends is taken as that of a local proxy. From other addresses the
  header is ignored and the address and port of the connection are used.\<close>

theorem real_ip_spoofing:
  assumes "rq_raw_header rq ''X-Real-IP'' = Some claimed" and "claimed \<noteq> []"
    and "rq_host rq = c # host"
  shows "fst (get_ip_host_from_request rq) =
    (if c \<in> set ''127.'' then claimed else (c # host) @ '':'' @ string_of_nat (rq_port rq))"
  using assms by (auto simp: get_ip_host_from_request_def get_ip_host_from_header_def Let_def)

definition sample_request :: "string \<Rightarrow> string \<Rightarrow> request" where
  "sample_request body host = \<lparr>rq_body = body,
     rq_raw_header = [''X-Real-IP'' \<mapsto> ''127.0.0.1''], rq_host = host, rq_port = 4711,
     rq_param = [''f'' \<mapsto> ''x'', '':fileName'' \<mapsto> ''note''], rq_get = True, rq_authorization = None, rq_accept = None\<rparr>"

theorem real_ip_spoofing_witness:
  "fst (get_ip_host_from_request (sample_request [] ''203.0.113.9'')) = ''127.0.0.1''"
  by (subst real_ip_spoofing [where c = "CHR ''2''"]) (simp_all add: sample_request_def)

section \<open>The hash of a request\<close>

definition text_values :: "string \<Rightarrow> jobj \<Rightarrow> string list" where
  "text_values ign o' = map (\<lambda>(k, v). case v of JStr s \<Rightarrow> s | _ \<Rightarrow> []) (filter (\<lambda>(k, v). k \<noteq> ign) o')"

definition all_text :: "jobj \<Rightarrow> bool" where
  "all_text o' \<longleftrightarrow> (\<forall>(k, v) \<in> set o'. \<exists>s. v = JStr s)"

lemma hash_input_text:
  "poco_documented p \<Longrightarrow> all_text o' \<Longrightarrow> hash_input p ign o' acc = Inr (acc @ concat (text_values ign o'))"
proof (induction o' arbitrary: acc)
  case (Cons e o')
  then show ?case by (cases e) (auto simp: all_text_def text_values_def poco_documented_def)
qed (simp add: text_values_def)

text \<open>The hash of a request covers the values run together and nothing else: two documents of text
  fields have the same hash as soon as their values, in key order, concatenate to the same text, so
  characters can be moved from a field to its neighbour, fields renamed in order or merged, and a
  correct \<open>_hash\<close> stays correct.\<close>

theorem hash_ignores_boundaries:
  assumes "poco_documented (wv_poco env)" and "all_text o1" and "all_text o2"
    and "concat (text_values f o1) = concat (text_values f o2)" and "obj_get o1 f = obj_get o2 f"
  shows "hash_json env o1 f = hash_json env o2 f \<and> hash_json_cmp env o1 f = hash_json_cmp env o2 f"
  using assms hash_input_text [of "wv_poco env"]
  by (simp add: hash_json_def hash_json_cmp_def getValue_def)

definition plain_env :: web_env where
  "plain_env = \<lparr>wv_poco = hex_poco, wv_sha512 = (\<lambda>s. s), wv_digestFromHex = Inr\<rparr>"

theorem hash_ignores_boundaries_witness:
  "hash_json_cmp plain_env [(''_hash'', JStr ''1005''), (''amount'', JStr ''1''), (''user'', JStr ''005'')] ''_hash'' = Inr True \<and>
   hash_json_cmp plain_env [(''_hash'', JStr ''1005''), (''amount'', JStr ''100''), (''user'', JStr ''5'')] ''_hash'' = Inr True"
proof -
  have "hash_json_cmp plain_env [(''_hash'', JStr ''1005''), (''amount'', JStr ''1''), (''user'', JStr ''005'')] ''_hash'' = Inr True"
    by (simp add: hash_json_cmp_def hash_json_def plain_env_def getValue_def obj_get_def hex_poco_def)
  with hash_ignores_boundaries [of plain_env "[(''_hash'', JStr ''1005''), (''amount'', JStr ''1''), (''user'', JStr ''005'')]"
      "[(''_hash'', JStr ''1005''), (''amount'', JStr ''100''), (''user'', JStr ''5'')]" "''_hash''"]
  show ?thesis by (simp add: plain_env_def hex_poco_documented all_text_def text_values_def obj_get_def)
qed

section \<open>Answers to a wrong hash\<close>

definition json_answer :: "poco \<Rightarrow> string \<Rightarrow> answer" where
  "json_answer p msg = (400, (case JsonToString p (JObj (default_json_return False msg)) of Inr s \<Rightarrow> s | Inl e \<Rightarrow> []), JSON_RETURN)"

definition printable :: "poco \<Rightarrow> bool" where
  "printable p \<longleftrightarrow> (\<forall>msg. \<exists>s. JsonToString p (JObj (default_json_return False msg)) = Inr s)"

lemma throw_json_sends:
  assumes "printable p"
  shows "throw_json_http_exception p 400 False msg w =
    (Inl (StdExn Invalid_argument []), w\<lparr>wr_mime := JSON_RETURN, wr_sent := wr_sent w @ [json_answer p msg]\<rparr>)"
proof -
  obtain s where "JsonToString p (JObj (default_json_return False msg)) = Inr s"
    using assms by (auto simp: printable_def)
  then show ?thesis
    by (simp add: throw_json_http_exception_def returnPocoJson_def wr_send_def json_answer_def)
qed

text \<open>A request whose hash is wrong is answered three times over: with the message about the hash,
  with an empty message by the handler that catches the exception of the first answer, and with
  "Falha de leitura do Json" by the handler of \<open>input_json\<close>; then the exception leaves the
  controller.\<close>

theorem wrong_hash_answered_thrice:
  assumes "printable (wv_poco env)" and "habilita_hash_input_json c"
    and "request_to_json (wv_poco env) (rq_body rq) (min_json_body_size c) (max_json_body_size c) = Inr (Some o')"
    and "obj_has o' (defaulthashfield c)" and "hash_json_cmp env o' (defaulthashfield c) = Inr False"
  shows "\<exists>w'. input_json env c rq w = (Inl (StdExn Invalid_argument []), w') \<and>
    wr_sent w' = wr_sent w @ [json_answer (wv_poco env) msg_bad_hash, json_answer (wv_poco env) [],
      json_answer (wv_poco env) ''Falha de leitura do Json'']"
  using assms by (simp add: input_json_def valida_hash_request_def deref_def throw_json_sends [OF assms(1)])

definition wrong_hash_env :: web_env where
  "wrong_hash_env = plain_env\<lparr>wv_poco := hex_poco\<lparr>
     p_parse := (\<lambda>s. Inr (JObj [(''_hash'', JStr ''0''), (''a'', JStr s)])),
     p_toString := (\<lambda>v. case v of JBool b \<Rightarrow> Inr (if b then ''true'' else ''false'') | _ \<Rightarrow> p_toString hex_poco v)\<rparr>\<rparr>"

lemma wrong_hash_printable: "printable (wv_poco wrong_hash_env)"
  by (simp add: printable_def default_json_return_def obj_set.simps byte_def JsonToString_def wrong_hash_env_def)

theorem wrong_hash_answered_thrice_witness:
  "\<exists>w'. input_json wrong_hash_env (enableInputHashCheck True new_controller) (sample_request ''1'' ''::1'') new_writer =
       (Inl (StdExn Invalid_argument []), w') \<and> length (wr_sent w') = 3"
proof -
  let ?c = "enableInputHashCheck True new_controller"
  let ?o = "[(''_hash'', JStr ''0''), (''a'', JStr ''1'')]"
  have "request_to_json (wv_poco wrong_hash_env) ''1'' (min_json_body_size ?c) (max_json_body_size ?c) = Inr (Some ?o)"
    by (simp add: request_to_json_def parse_json_from_string_def wrong_hash_env_def enableInputHashCheck_def new_controller_def)
  moreover have "hash_json_cmp wrong_hash_env ?o ''_hash'' = Inr False"
    by (simp add: hash_json_cmp_def hash_json_def wrong_hash_env_def plain_env_def getValue_def obj_get_def hex_poco_def)
  ultimately show ?thesis
    using wrong_hash_answered_thrice [OF wrong_hash_printable, of ?c "sample_request ''1'' ''::1''" ?o new_writer]
    by (auto simp: enableInputHashCheck_def new_controller_def sample_request_def obj_has_def new_writer_def)
qed

section \<open>Which files are served\<close>

lemma find_sub_at_start: "find_sub d p = Some 0 \<longleftrightarrow> starts_with p d"
  by (cases p) (auto simp: starts_with_def)

text \<open>The storage controller serves a file exactly when its canonical path exists and begins with
  the text of the storage directory's canonical path. No separator is asked for after the prefix, so
  a link to \<open>/srv/public-old/x\<close> is inside \<open>/srv/public\<close>.\<close>

theorem getFilePath_prefix:
  assumes "fs_canonical fs dir = Inr d0" and "fs_absolute fs d0 = Inr d"
  shows "getFilePath fs dir rq = Inr p \<and> p \<noteq> [] \<longleftrightarrow>
    (\<exists>nm q. rq_param rq '':fileName'' = Some nm \<and> nm \<noteq> [] \<and> hd nm \<noteq> CHR ''.'' \<and>
       fs_canonical fs (path_join d nm) = Inr q \<and> fs_absolute fs q = Inr p \<and>
       fs_exists fs p \<and> (\<exists>rest. p = d @ rest) \<and> p \<noteq> [])"
proof (cases "rq_param rq '':fileName''")
  case None
  then show ?thesis by (simp add: getFilePath_def)
next
  case (Some nm)
  show ?thesis
  proof (cases "fs_canonical fs (path_join d nm)")
    case (Inl e)
    with Some assms show ?thesis by (auto simp: getFilePath_def)
  next
    case (Inr q)
    with Some assms show ?thesis
      by (cases "fs_absolute fs q") (auto simp: getFilePath_def find_sub_at_start starts_with_iff)
  qed
qed

definition link_fs :: fs_env where
  "link_fs = \<lparr>fs_canonical = (\<lambda>p. Inr (if p = ''/srv/public/note'' then ''/srv/public-old/x'' else p)),
     fs_absolute = Inr, fs_exists = (\<lambda>p. True), fs_last_write = (\<lambda>p. Inr 0), fs_size = (\<lambda>p. Inr 0),
     fs_clocks = (\<lambda>i. (int i, int i)), fs_timezone = 0, fs_http_date = (\<lambda>t. None), fs_parse_date = (\<lambda>s. 0)\<rparr>"

theorem getFilePath_prefix_witness:
  "getFilePath link_fs ''/srv/public'' (sample_request [] []) = Inr ''/srv/public-old/x''"
proof -
  have "fs_canonical link_fs ''/srv/public'' = Inr ''/srv/public''" "fs_absolute link_fs ''/srv/public'' = Inr ''/srv/public''"
    by (simp_all add: link_fs_def)
  from getFilePath_prefix [OF this, of "sample_request [] []" "''/srv/public-old/x''"] show ?thesis
    by (simp add: link_fs_def sample_request_def path_join_def)
qed

end
