(* ===== verification/Database.thy ===== *)
theory Database
  imports PocoJsonStringify Lexing
begin

text \<open>
  SQL text (src/src/Database/CSql.hpp). The MySQL connector's \<open>escapeString\<close> of a connection is a parameter (none for a
  null connection).
\<close>

section \<open>Building statements\<close>

type_synonym mysql_conn = "(string \<Rightarrow> string) option"

definition null_resource :: exn where
  "null_resource = StdExn Invalid_argument ''Resource is null''"

definition sql_escape :: "mysql_conn \<Rightarrow> string \<Rightarrow> bool \<Rightarrow> exn + string" where
  "sql_escape conn val null_if_empty =
     (case conn of
        None \<Rightarrow> Inl null_resource
      | Some esc \<Rightarrow> if null_if_empty \<and> val = [] then Inr ''NULL'' else Inr (esc val))"

definition esc_add_q :: "mysql_conn \<Rightarrow> string \<Rightarrow> bool \<Rightarrow> exn + string" where
  "esc_add_q conn val null_if_empty =
     (case conn of
        None \<Rightarrow> Inl null_resource
      | Some esc \<Rightarrow>
          if null_if_empty \<and> val = [] then Inr ''NULL''
          else Inr ([CHR 0x27] @ esc val @ [CHR 0x27]))"

definition escape_add_qwith_unhex :: "mysql_conn \<Rightarrow> string \<Rightarrow> bool \<Rightarrow> exn + string" where
  "escape_add_qwith_unhex conn val null_if_empty =
     (case conn of
        None \<Rightarrow> Inl null_resource
      | Some esc \<Rightarrow>
          if null_if_empty \<and> val = [] then Inr ''NULL''
          else Inr (''UNHEX('' @ [CHR 0x27] @ esc val @ [CHR 0x27] @ '')''))"

definition sql_date_add_now_seconds :: "int \<Rightarrow> string" where
  "sql_date_add_now_seconds secs = ''DATE_ADD(NOW(), INTERVAL '' @ string_of_int secs @ '' SECOND)''"

text \<open>The clocks count nanoseconds; a cast to seconds truncates. \<open>mysql\<close> tells whether a connection is one of MySQL.\<close>

definition time_point_to_seconds :: "int \<Rightarrow> int \<Rightarrow> int" where
  "time_point_to_seconds now timeval =
     (if now \<le> timeval then (timeval - now) div 1000000000 else - ((now - timeval) div 1000000000))"

definition mysql_cast :: "('c \<Rightarrow> bool) \<Rightarrow> 'c option \<Rightarrow> exn + 'c" where
  "mysql_cast mysql conn =
     (case conn of
        None \<Rightarrow> Inl (StdExn Bad_cast ''std::bad_cast'')
      | Some c \<Rightarrow> if mysql c then Inr c else Inl (StdExn Bad_cast ''std::bad_cast''))"

text \<open>The text of a value of the builder: \<open>CSql::argToString\<close>.\<close>

datatype sql_arg = SBool bool | SText string | SExn exn | SInt int

fun sql_argToString :: "sql_arg \<Rightarrow> string" where
  "sql_argToString (SBool b) = (if b then ''true'' else ''false'')"
| "sql_argToString (SText s) = s"
| "sql_argToString (SExn e) = exn_what e"
| "sql_argToString (SInt i) = string_of_int i"

text \<open>The loops of the builders: a comma before every element but the first.\<close>

fun comma_loop :: "bool \<Rightarrow> string list \<Rightarrow> string \<Rightarrow> string" where
  "comma_loop firstList [] fullquery = fullquery"
| "comma_loop firstList (x # xs) fullquery =
     comma_loop False xs ((if \<not> firstList then fullquery @ '', '' else fullquery) @ x)"

definition build_generic_insert_query :: "string \<Rightarrow> string \<Rightarrow> (string \<times> string) list \<Rightarrow> string" where
  "build_generic_insert_query fullquery table_name fielddata =
     (let q1 = ((fullquery @ ''INSERT INTO '') @ table_name) @ ''('';
          q2 = comma_loop True (map fst fielddata) q1 @ '') VALUES (''
      in comma_loop True (map snd fielddata) q2 @ '')'')"

definition append_comma_separed_fields :: "string \<Rightarrow> jobj \<Rightarrow> string" where
  "append_comma_separed_fields fullquery fielddata = comma_loop True (map fst fielddata) fullquery"

text \<open>The space the builder reserves; \<open>var_size\<close> is \<open>Var::size\<close>.\<close>

definition get_insert_query_size :: "(jvar \<Rightarrow> nat) \<Rightarrow> (jvar \<Rightarrow> bool) \<Rightarrow> string \<Rightarrow> jobj \<Rightarrow> nat" where
  "get_insert_query_size var_size isString table_name fielddata =
     (let fieldListSize = sum_list (map (\<lambda>(k, v). length k + 2) fielddata);
          fieldDataSize = sum_list (map (\<lambda>(k, v). var_size v + (if isString v then 4 else 2)) fielddata)
      in 26 + length table_name + fieldListSize + fieldDataSize)"

text \<open>\<open>numeric\<close> is \<open>isNumeric\<close> of a \<open>Var\<close>.\<close>

fun append_comma_separed_values ::
  "(jvar \<Rightarrow> bool) \<Rightarrow> poco \<Rightarrow> mysql_conn \<Rightarrow> bool \<Rightarrow> jobj \<Rightarrow> string \<Rightarrow> exn + string" where
  "append_comma_separed_values numeric p conn firstList [] fullquery = Inr fullquery"
| "append_comma_separed_values numeric p conn firstList ((k, v) # r) fullquery =
     (let q = (if \<not> firstList then fullquery @ '', '' else fullquery) in
      case p_toString p v of
        Inl e \<Rightarrow> Inl e
      | Inr t \<Rightarrow>
          (case (if numeric v then Inr t else esc_add_q conn t False) of
             Inl e \<Rightarrow> Inl e
           | Inr s \<Rightarrow> append_comma_separed_values numeric p conn False r (q @ s)))"

definition build_generic_insert_query_json ::
  "(jvar \<Rightarrow> bool) \<Rightarrow> poco \<Rightarrow> mysql_conn \<Rightarrow> string \<Rightarrow> string \<Rightarrow> jobj \<Rightarrow> exn + string" where
  "build_generic_insert_query_json numeric p mscon fullquery table_name fielddata =
     (let q1 = ((fullquery @ ''INSERT INTO '') @ table_name) @ ''('';
          q2 = append_comma_separed_fields q1 fielddata @ '') VALUES (''
      in case append_comma_separed_values numeric p mscon True fielddata q2 of
           Inl e \<Rightarrow> Inl e
         | Inr q3 \<Rightarrow> Inr (q3 @ '')''))"

text \<open>\<open>get_last_inserted_id\<close>: the rows of \<open>SELECT LAST_INSERT_ID() as id;\<close>.\<close>

definition get_last_inserted_id :: "u64 list \<Rightarrow> u64" where
  "get_last_inserted_id rows = (case rows of [] \<Rightarrow> 0 | i # r \<Rightarrow> i)"

text \<open>
  Times: \<open>local_time\<close> is \<open>localtime_r\<close> and \<open>strftime\<close>. The microseconds of a time before the epoch
  are negative, as \<open>%\<close> truncates.
\<close>

definition micro_part :: "int \<Rightarrow> int" where
  "micro_part mks = (if 0 \<le> mks then mks mod 1000000 else - ((- mks) mod 1000000))"

definition high_precision_time_to_str :: "(string \<Rightarrow> int \<Rightarrow> string) \<Rightarrow> int \<Rightarrow> int \<Rightarrow> string" where
  "high_precision_time_to_str local_time timet mks =
     (let str = local_time ''%Y/%m/%d %H:%M:%S.'' timet; mksecstr = string_of_int (micro_part mks)
      in (if length mksecstr < 6 then str @ replicate (6 - length mksecstr) (CHR ''0'') else str) @ mksecstr)"

definition system_time_to_str :: "(string \<Rightarrow> int \<Rightarrow> string) \<Rightarrow> int option \<Rightarrow> string" where
  "system_time_to_str local_time timeval =
     (case timeval of None \<Rightarrow> [] | Some t \<Rightarrow> local_time ''%Y/%m/%d %H:%M:%S'' t)"

definition string_to_system_clock :: "(string \<Rightarrow> int) \<Rightarrow> string \<Rightarrow> int option" where
  "string_to_system_clock get_time str = (if str = [] then None else Some (get_time str))"

section \<open>The statement means the document\<close>

text \<open>
  A reader of MySQL string literals: \<open>read_body\<close> starts after the opening quote and gives the text and what follows the closing quote.
\<close>

fun read_body :: "string \<Rightarrow> (string \<times> string) option" where
  "read_body [] = None"
| "read_body [c] = (if c = CHR 0x27 then Some ([], []) else None)"
| "read_body (c # d # s) =
     (if c = CHR 0x27
      then (if d = CHR 0x27 then map_option (map_prod ((#) d) id) (read_body s) else Some ([], d # s))
      else if c = CHR 0x5C then map_option (map_prod ((#) (unesc_char d)) id) (read_body s)
      else map_option (map_prod ((#) c) id) (read_body (d # s)))"

fun read_values :: "nat \<Rightarrow> string \<Rightarrow> string list option" where
  "read_values 0 s = None"
| "read_values (Suc n) [] = None"
| "read_values (Suc n) (q # s) =
     (if q \<noteq> CHR 0x27 then None
      else case read_body s of
             None \<Rightarrow> None
           | Some (x, r) \<Rightarrow>
               if r = '')'' then Some [x]
               else if take 2 r = '', '' then map_option ((#) x) (read_values n (drop 2 r))
               else None)"

lemma read_body_plain:
  "c \<noteq> CHR 0x27 \<Longrightarrow> c \<noteq> CHR 0x5C \<Longrightarrow> s \<noteq> [] \<Longrightarrow> read_body (c # s) = map_option (map_prod ((#) c) id) (read_body s)"
  by (cases s) auto

interpretation mysql: escaping esc_char read_body "CHR 0x27" "\<lambda>rest. rest = [] \<or> hd rest \<noteq> CHR 0x27"
proof
  show "t \<noteq> [] \<Longrightarrow> read_body (esc_char c @ t) = map_option (map_prod ((#) c) id) (read_body t)" for c t
    by (auto simp: esc_char_def unesc_char_def read_body_plain)
  show "rest = [] \<or> hd rest \<noteq> CHR 0x27 \<Longrightarrow> read_body (CHR 0x27 # rest) = Some ([], rest)" for rest
    by (cases rest) auto
qed simp

lemma read_body_escape:
  "rest = [] \<or> hd rest \<noteq> CHR 0x27 \<Longrightarrow> read_body (mysql_escape s @ CHR 0x27 # rest) = Some (s, rest)"
  unfolding mysql_escape_def by (rule mysql.reads_back_text)

fun text_of :: "jvar \<Rightarrow> string" where
  "text_of (JStr s) = s"
| "text_of v = []"

definition text_document :: "jobj \<Rightarrow> bool" where
  "text_document o' \<longleftrightarrow> (\<forall>(k, v) \<in> set o'. \<exists>s. v = JStr s)"

definition literals :: "string list \<Rightarrow> string" where
  "literals ts = comma_loop True (map (\<lambda>t. [CHR 0x27] @ mysql_escape t @ [CHR 0x27]) ts) []"

lemma comma_loop_acc: "comma_loop b xs acc = acc @ comma_loop b xs []"
proof (induction xs arbitrary: b acc)
  case (Cons x xs)
  show ?case by (simp only: comma_loop.simps) (subst (1 2) Cons.IH, simp)
qed simp

lemma values_literals:
  assumes "poco_documented p" and "\<And>s. \<not> numeric (JStr s)"
  shows "text_document o' \<Longrightarrow> append_comma_separed_values numeric p (Some mysql_escape) b o' q =
    Inr (q @ comma_loop b (map (\<lambda>t. [CHR 0x27] @ mysql_escape t @ [CHR 0x27]) (map (text_of \<circ> snd) o')) [])"
proof (induction o' arbitrary: b q)
  case (Cons e o')
  obtain k t where e: "e = (k, JStr t)" using Cons.prems by (cases e) (auto simp: text_document_def)
  have "text_document o'" using Cons.prems by (simp add: text_document_def)
  then show ?case
    using assms Cons.IH e
    by (simp add: poco_documented_def esc_add_q_def)
      (subst (2 3) comma_loop_acc, simp)
qed simp

lemma read_values_literals:
  "ts \<noteq> [] \<Longrightarrow> read_values (length ts) (literals ts @ '')'') = Some ts"
proof (induction ts)
  case (Cons t ts)
  show ?case
  proof (cases ts)
    case Nil
    then show ?thesis using read_body_escape [of "'')''" t] by (simp add: literals_def)
  next
    case (Cons u us)
    have l: "literals (t # ts) @ '')'' = CHR 0x27 # mysql_escape t @ CHR 0x27 # '', '' @ literals ts @ '')''"
      unfolding literals_def Cons by (simp) (subst (1 2) comma_loop_acc, simp)
    have "read_body (mysql_escape t @ CHR 0x27 # '', '' @ literals ts @ '')'') = Some (t, '', '' @ literals ts @ '')'')"
      by (rule read_body_escape) simp
    with Cons.IH \<open>ts = u # us\<close> show ?thesis unfolding l by simp
  qed
qed simp

text \<open>C26: no value of a document escapes its quotes: the statement built for a document of texts, read
  by the rules of MySQL string literals, has exactly the document's values in the value list,
  whatever bytes they hold. (The keys are copied into the field list as they come, unescaped.)\<close>

theorem insert_values_roundtrip:
  assumes "poco_documented p" and "\<And>s. \<not> numeric (JStr s)" and "text_document o'" and "o' \<noteq> []"
  shows "\<exists>vs. build_generic_insert_query_json numeric p (Some mysql_escape) q table_name o' =
      Inr (append_comma_separed_fields (q @ ''INSERT INTO '' @ table_name @ ''('') o' @ '') VALUES ('' @ vs) \<and>
    read_values (length o') vs = Some (map (text_of \<circ> snd) o')"
proof -
  let ?ts = "map (text_of \<circ> snd) o'"
  have "build_generic_insert_query_json numeric p (Some mysql_escape) q table_name o' =
      Inr (append_comma_separed_fields (q @ ''INSERT INTO '' @ table_name @ ''('') o' @ '') VALUES ('' @ literals ?ts @ '')'')"
    using values_literals [where numeric = numeric, OF assms(1,2,3)]
    by (simp add: build_generic_insert_query_json_def Let_def literals_def)
  moreover have "read_values (length o') (literals ?ts @ '')'') = Some ?ts"
    using read_values_literals [of ?ts] assms(4) by simp
  ultimately show ?thesis by blast
qed

theorem insert_values_roundtrip_witness:
  "\<exists>vs. build_generic_insert_query_json (\<lambda>v. False) hex_poco (Some mysql_escape) [] ''t''
      [(''a'', JStr [CHR 0x27, CHR '')'', CHR 0x5C])] = Inr (''INSERT INTO t(a) VALUES ('' @ vs) \<and>
    read_values 1 vs = Some [[CHR 0x27, CHR '')'', CHR 0x5C]]"
  using insert_values_roundtrip [OF hex_poco_documented, of "\<lambda>v. False" "[(''a'', JStr [CHR 0x27, CHR '')'', CHR 0x5C])]" "[]" "''t''"]
  by (simp add: text_document_def append_comma_separed_fields_def)

end
