(* ===== verification/SqlText.thy ===== *)
theory SqlText
  imports Lexing
begin

text \<open>
  The two forms of SQL statement the migration runner sends, read from their text by the rules of MySQL's
  lexical structure: an \<open>INSERT\<close> of one row of literals, and a count of the rows with a given value in a
  column. Any other text is \<open>None\<close>.
\<close>

fun sql_value :: "token \<Rightarrow> string option" where
  "sql_value (TQuoted s) = Some s"
| "sql_value (TWord w) = map_option (\<lambda>n. w) (word_number w)"
| "sql_value (TSym q) = None"

fun sql_name :: "token \<Rightarrow> string option" where
  "sql_name (TWord w) = (if word_number w = None then Some w else None)"
| "sql_name t = None"

text \<open>What follows an opening parenthesis, up to the closing one, and the rest.\<close>

fun sql_list :: "(token \<Rightarrow> string option) \<Rightarrow> token list \<Rightarrow> (string list \<times> token list) option" where
  "sql_list item (t # u # ts) =
     (case item t of
        None \<Rightarrow> None
      | Some x \<Rightarrow>
          if u = TSym '')'' then Some ([x], ts)
          else if u = TSym '','' then map_option (\<lambda>(xs, r). (x # xs, r)) (sql_list item ts)
          else None)"
| "sql_list item ts = None"

text \<open>The table and the row, its columns with their values.\<close>

definition sql_insert :: "string \<Rightarrow> (string \<times> (string \<times> string) list) option" where
  "sql_insert q =
     (case lex sql_language q of
        Some (a # b # TWord t # p # r) \<Rightarrow>
          if a = TWord ''INSERT'' \<and> b = TWord ''INTO'' \<and> p = TSym ''('' then
            (case sql_list sql_name r of
               Some (cs, u # p' # r') \<Rightarrow>
                 if u = TWord ''VALUES'' \<and> p' = TSym ''('' then
                   (case sql_list sql_value r' of
                      Some (vs, r'') \<Rightarrow>
                        if (r'' = [] \<or> r'' = [TSym '';'']) \<and> length cs = length vs \<and> distinct cs then Some (t, zip cs vs) else None
                    | None \<Rightarrow> None)
                 else None
             | _ \<Rightarrow> None)
          else None
      | _ \<Rightarrow> None)"

text \<open>A prepared count: the column counted, the label of the answer, the table and the column compared with
  the parameter. The answer is one row, which any limit but 0 leaves.\<close>

record count_query =
  cq_column :: string
  cq_label :: string
  cq_table :: string
  cq_key :: string

definition sql_count :: "string \<Rightarrow> count_query option" where
  "sql_count q =
     (case lex sql_language q of
        Some ts \<Rightarrow>
          (case ts of
             [a, b, c, TWord col, d, e, TWord lbl, f, TWord t, g, TWord key, h, i, j, TWord n] \<Rightarrow>
               if [a, b, c, d, e, f, g, h, i, j] = [TWord ''SELECT'', TWord ''COUNT'', TSym ''('', TSym '')'', TWord ''as'', TWord ''FROM'',
                    TWord ''WHERE'', TSym ''='', TSym ''?'', TWord ''LIMIT''] \<and> word_number n \<noteq> None \<and> word_number n \<noteq> Some 0
               then Some \<lparr>cq_column = col, cq_label = lbl, cq_table = t, cq_key = key\<rparr> else None
           | _ \<Rightarrow> None)
      | None \<Rightarrow> None)"

end
