(* ===== verification/Migrations.thy ===== *)
theory Migrations
  imports Database SqlText
begin

text \<open>
  The migration runner (src/src/Database/DBMigrate.cpp, Migration.hpp). The MySQL connector is the record
  \<open>connector\<close> over a database state; what MySQL documents of it is said of the texts the runner sends as \<open>SqlText\<close>
  reads them.
\<close>

section \<open>The runner\<close>

text \<open>
  \<open>sq_execute\<close> runs a statement, \<open>sq_query\<close> a prepared statement with its parameters, whose answer is rows of
  labelled numbers, \<open>sq_commit\<close> the connection's \<open>commit\<close>.
\<close>

record database_address =
  da_host :: string
  da_db :: string
  da_user :: string
  da_pwd :: string

record 'd connector =
  sq_connect :: "database_address \<Rightarrow> ('d, unit) eff"
  sq_autocommit :: "bool \<Rightarrow> ('d, unit) eff"
  sq_execute :: "string \<Rightarrow> ('d, unit) eff"
  sq_query :: "string \<Rightarrow> string list \<Rightarrow> ('d, (string \<times> nat) list list) eff"
  sq_commit :: "('d, unit) eff"
  sq_escape :: "string \<Rightarrow> string"

text \<open>
  A migration object: its temporaries, and the user's \<open>migrate\<close>, which works on the database and
  the query buffer.
\<close>

record 'd migration =
  mg_connection :: bool
  mg_buffer :: bool
  mg_name :: string
  mg_statement :: bool
  mg_migrate :: "('d \<times> string, unit) eff"

definition resetTmp :: "'d migration \<Rightarrow> 'd migration" where
  "resetTmp m = m\<lparr>mg_connection := False, mg_buffer := False, mg_statement := False\<rparr>"

text \<open>\<open>begin\<close> clears the query buffer, makes a statement and starts the transaction.\<close>

definition mg_begin :: "'d connector \<Rightarrow> 'd migration \<Rightarrow> ('d \<times> string, unit) eff" where
  "mg_begin c m = (\<lambda>(d, query).
     if \<not> mg_connection m then (Inl (StdExn Runtime_error ''No connection''), d, query)
     else if \<not> mg_buffer m then (Inl (StdExn Runtime_error ''No query buffer''), d, query)
     else case sq_execute c ''BEGIN;'' d of (r, d') \<Rightarrow> (r, d', []))"

definition mg_commit :: "'d connector \<Rightarrow> 'd migration \<Rightarrow> ('d \<times> string, unit) eff" where
  "mg_commit c m = (\<lambda>(d, query).
     if \<not> mg_statement m \<or> \<not> mg_connection m
     then (Inl (StdExn Runtime_error ''No connection or statement''), d, query)
     else case bind (sq_execute c ''COMMIT;'') (\<lambda>u. sq_commit c) d of (r, d') \<Rightarrow> (r, d', query))"

definition build_insert_migration_query :: "'d connector \<Rightarrow> string \<Rightarrow> string" where
  "build_insert_migration_query c nm =
     build_generic_insert_query [] ''migrations''
       [(''migration'', [CHR 0x27] @ sq_escape c nm @ [CHR 0x27]), (''batch'', ''1'')] @ '';''"

definition record_migration :: "'d connector \<Rightarrow> string \<Rightarrow> ('d \<times> string, unit) eff" where
  "record_migration c nm = (\<lambda>(d, query).
     let q = build_insert_migration_query c nm in
     case sq_execute c q d of (r, d') \<Rightarrow> (r, d', q))"

text \<open>\<open>DBMigrate::migrate\<close>, with the setters of the migration first.\<close>

definition prepare_migration :: "string \<Rightarrow> 'd migration \<Rightarrow> 'd migration" where
  "prepare_migration nm m = m\<lparr>mg_connection := True, mg_buffer := True, mg_name := nm\<rparr>"

definition db_migrate :: "'d connector \<Rightarrow> 'd migration \<Rightarrow> string \<Rightarrow> ('d \<times> string, unit) eff" where
  "db_migrate c m0 nm =
     (let m = prepare_migration nm m0; m1 = m\<lparr>mg_statement := True\<rparr> in
      bind (mg_begin c m) (\<lambda>u. bind (mg_migrate m1) (\<lambda>u. bind (record_migration c nm) (\<lambda>u. mg_commit c m1))))"

text \<open>\<open>getUInt64\<close> of a label the result does not have throws.\<close>

definition no_column :: exn where
  "no_column = StdExn Invalid_argument ''ResultSet: invalid value of columnIndex''"

definition migrated_query :: string where
  "migrated_query = ''SELECT COUNT(id) as nmigration FROM migrations WHERE migration = ? LIMIT 1''"

definition is_migrated :: "'d connector \<Rightarrow> string \<Rightarrow> ('d, bool) eff" where
  "is_migrated c nm d =
     (case sq_query c migrated_query [nm] d of
        (Inl e, d') \<Rightarrow> (Inl e, d')
      | (Inr [], d') \<Rightarrow> (Inr False, d')
      | (Inr (row # _), d') \<Rightarrow>
          (case map_of row ''nmigration'' of None \<Rightarrow> Inl no_column | Some n \<Rightarrow> Inr (n \<noteq> 0), d'))"


text \<open>
  The loop of \<open>run\<close>; the middle component is the list with the temporaries of the migrations that
  ran reset. A failure is thrown on; only a \<open>std::exception\<close> is caught to reset the migration first.
\<close>

fun run_list :: "'d connector \<Rightarrow> (string \<times> 'd migration) list \<Rightarrow> 'd \<times> string
    \<Rightarrow> (exn + unit) \<times> (string \<times> 'd migration) list \<times> 'd \<times> string" where
  "run_list c [] s = (Inr (), [], s)"
| "run_list c ((nm, m) # r) (d, query) =
     (case is_migrated c nm d of
        (Inl e, d') \<Rightarrow> (Inl e, (nm, m) # r, d', query)
      | (Inr True, d') \<Rightarrow> (case run_list c r (d', query) of (x, r', s) \<Rightarrow> (x, (nm, m) # r', s))
      | (Inr False, d') \<Rightarrow>
          (let p = prepare_migration nm m\<lparr>mg_statement := True\<rparr> in
           case db_migrate c m nm (d', query) of
             (Inl e, s') \<Rightarrow> (Inl e, (nm, if is_std e then resetTmp p else p) # r, s')
           | (Inr u, s') \<Rightarrow> (case run_list c r s' of (x, r', s) \<Rightarrow> (x, (nm, resetTmp p) # r', s))))"


section \<open>What is relied on\<close>

text \<open>
  Of the database: the rows of the table \<open>migrations\<close> that \<open>DBMigrate::init_migration_table\<close> creates (theory SqlConnection),
  and the names of the migrations in the order they were attempted. A row is a value for each column.
\<close>

record 'd db_view =
  rows :: "'d \<Rightarrow> (string \<rightharpoonup> string) list"
  attempts :: "'d \<Rightarrow> string list"

definition quiet :: "'d db_view \<Rightarrow> ('d, 'a) eff \<Rightarrow> 'd \<Rightarrow> 'a \<Rightarrow> bool" where
  "quiet v f d x \<longleftrightarrow> (\<exists>d'. f d = (Inr x, d') \<and> rows v d' = rows v d \<and> attempts v d' = attempts v d)"

text \<open>A text the column \<open>migration\<close>, a \<open>varchar(255)\<close>, takes as it is.\<close>

definition varchar_text :: "string \<Rightarrow> bool" where
  "varchar_text x \<longleftrightarrow> length x \<le> 255 \<and> list_all (\<lambda>ch. byte ch < 128) x"

text \<open>An \<open>INSERT\<close> of one row adds that row to the table it names.\<close>

definition insert_doc :: "'d connector \<Rightarrow> 'd db_view \<Rightarrow> bool" where
  "insert_doc c v \<longleftrightarrow> (\<forall>q nm b row d.
     sql_insert q = Some (''migrations'', row) \<longrightarrow> set row = {(''migration'', nm), (''batch'', b)} \<longrightarrow> varchar_text nm \<longrightarrow>
     b \<noteq> [] \<longrightarrow> list_all is_digit b \<longrightarrow> length b \<le> 9 \<longrightarrow>
     (\<exists>d' r. sq_execute c q d = (Inr (), d') \<and> rows v d' = rows v d @ [r] \<and> map_of row \<subseteq>\<^sub>m r \<and> attempts v d' = attempts v d))"

text \<open>A count answers one row, under its label, with the number of the rows of its table that have a value in the
  counted column and whose text is equal to the parameter under the collation \<open>coll\<close> of the compared column.\<close>

definition count_doc :: "(string \<Rightarrow> string \<Rightarrow> bool) \<Rightarrow> 'd connector \<Rightarrow> 'd db_view \<Rightarrow> bool" where
  "count_doc coll c v \<longleftrightarrow> (\<forall>q cq x d.
     sql_count q = Some cq \<longrightarrow> cq_table cq = ''migrations'' \<longrightarrow> cq_key cq = ''migration'' \<longrightarrow>
     cq_column cq \<in> {''id'', ''migration'', ''batch''} \<longrightarrow>
     quiet v (sq_query c q [x]) d
       [[(cq_label cq, length (filter (\<lambda>r. r (cq_column cq) \<noteq> None \<and> (\<exists>y. r ''migration'' = Some y \<and> coll y x)) (rows v d)))]])"

definition db_documented :: "(string \<Rightarrow> string \<Rightarrow> bool) \<Rightarrow> 'd connector \<Rightarrow> 'd db_view \<Rightarrow> bool" where
  "db_documented coll c v \<longleftrightarrow>
     (\<forall>d info. quiet v (sq_connect c info) d ()) \<and> (\<forall>d b. quiet v (sq_autocommit c b) d ()) \<and> (\<forall>d. quiet v (sq_commit c) d ()) \<and>
     (\<forall>d. quiet v (sq_execute c ''BEGIN;'') d ()) \<and> (\<forall>d. quiet v (sq_execute c ''COMMIT;'') d ()) \<and>
     insert_doc c v \<and> count_doc coll c v \<and> (\<forall>d. \<forall>r \<in> set (rows v d). r ''id'' \<noteq> None \<and> r ''migration'' \<noteq> None) \<and>
     sq_escape c = mysql_escape \<and> (\<forall>x. coll x x)"


lemma quietE: "quiet v f d x \<Longrightarrow> (\<And>d'. f d = (Inr x, d') \<Longrightarrow> rows v d' = rows v d \<Longrightarrow> attempts v d' = attempts v d \<Longrightarrow> P) \<Longrightarrow> P"
  by (auto simp: quiet_def)

section \<open>The statements of the runner\<close>

lemma lex_migrated_query:
  "lex sql_language migrated_query = Some
     [TWord ''SELECT'', TWord ''COUNT'', TSym ''('', TWord ''id'', TSym '')'', TWord ''as'', TWord ''nmigration'', TWord ''FROM'',
      TWord ''migrations'', TWord ''WHERE'', TWord ''migration'', TSym ''='', TSym ''?'', TWord ''LIMIT'', TWord ''1'']"
  by code_simp

lemma migrated_query_text:
  "sql_count migrated_query =
     Some \<lparr>cq_column = ''id'', cq_label = ''nmigration'', cq_table = ''migrations'', cq_key = ''migration''\<rparr>"
  by (simp add: sql_count_def lex_migrated_query word_number_def is_digit_def byte_def nat_of_digits_def)





section \<open>Migrations run once\<close>

text \<open>The names recorded, in the order of the rows, and when the table takes a name for one of them.\<close>

definition recorded :: "'d db_view \<Rightarrow> 'd \<Rightarrow> string list" where
  "recorded v d = map (\<lambda>r. the (r ''migration'')) (rows v d)"

definition is_recorded :: "(string \<Rightarrow> string \<Rightarrow> bool) \<Rightarrow> 'd db_view \<Rightarrow> 'd \<Rightarrow> string \<Rightarrow> bool" where
  "is_recorded coll v d nm \<longleftrightarrow> (\<exists>y \<in> set (recorded v d). coll y nm)"

lemma recorded_cong: "rows v d' = rows v d \<Longrightarrow> recorded v d' = recorded v d"
  by (simp add: recorded_def)

lemma is_migrated_run:
  assumes doc: "db_documented coll c v"
  obtains d' where "is_migrated c nm d = (Inr (is_recorded coll v d nm), d')" and "recorded v d' = recorded v d"
    and "attempts v d' = attempts v d"
proof -
  let ?hits = "filter (\<lambda>r. r ''id'' \<noteq> None \<and> (\<exists>y. r ''migration'' = Some y \<and> coll y nm)) (rows v d)"
  have "count_doc coll c v" using doc by (simp add: db_documented_def)
  from this [unfolded count_doc_def, THEN spec, THEN spec, THEN spec, THEN spec, THEN mp, OF migrated_query_text, of nm d]
  have "quiet v (sq_query c migrated_query [nm]) d [[(''nmigration'', length ?hits)]]" by simp
  then obtain d' where d': "sq_query c migrated_query [nm] d = (Inr [[(''nmigration'', length ?hits)]], d')" "rows v d' = rows v d"
      "attempts v d' = attempts v d" by (rule quietE)
  have "\<forall>r \<in> set (rows v d). r ''id'' \<noteq> None \<and> r ''migration'' \<noteq> None" using doc by (simp add: db_documented_def)
  then have "?hits = filter (\<lambda>r. coll (the (r ''migration'')) nm) (rows v d)" by (intro filter_cong refl) auto
  then have "?hits \<noteq> [] \<longleftrightarrow> is_recorded coll v d nm" by (simp add: filter_empty_conv is_recorded_def recorded_def)
  with that [of d'] d' recorded_cong [of v d' d] show ?thesis by (simp add: is_migrated_def)
qed



text \<open>The list of a run, after it: the same names with the same migrations.\<close>

definition same_migrations :: "(string \<times> 'd migration) list \<Rightarrow> (string \<times> 'd migration) list \<Rightarrow> bool" where
  "same_migrations ms ms' \<longleftrightarrow> map (map_prod id mg_migrate) ms' = map (map_prod id mg_migrate) ms"

lemma same_migrations_simps [simp]:
  "same_migrations [] []" "same_migrations ms ms"
  "same_migrations ((nm, m) # ms) ((nm', m') # ms') \<longleftrightarrow> nm' = nm \<and> mg_migrate m' = mg_migrate m \<and> same_migrations ms ms'"
  by (auto simp: same_migrations_def)

lemma same_tmp [simp]:
  "mg_migrate (resetTmp m) = mg_migrate m" "mg_migrate (prepare_migration nm m) = mg_migrate m"
  by (simp_all add: resetTmp_def prepare_migration_def)






























text \<open>Two names that the collation of the column takes for one, as \<open>utf8mb4_unicode_ci\<close> does with names that
  differ in case only, are one migration: when the first is recorded the second is skipped.\<close>

lemma same_under_collation_skipped:
  assumes "db_documented coll c v" and "y \<in> set (recorded v d)" and "coll y nm"
  shows "fst (run_list c [(nm, m)] (d, q)) = Inr () \<and> recorded v (fst (snd (snd (run_list c [(nm, m)] (d, q))))) = recorded v d \<and>
     attempts v (fst (snd (snd (run_list c [(nm, m)] (d, q))))) = attempts v d"
proof -
  obtain d' where "is_migrated c nm d = (Inr (is_recorded coll v d nm), d')" "recorded v d' = recorded v d" "attempts v d' = attempts v d"
    by (rule is_migrated_run [OF assms(1)])
  moreover have "is_recorded coll v d nm" using assms(2,3) by (auto simp: is_recorded_def)
  ultimately show ?thesis by simp
qed

end
