(* ===== verification/Logging.thy ===== *)
theory Logging
  imports Strutils "HOL-Library.Signed_Division"
begin

text \<open>
  The log: the ring buffer \<open>CircleMTIO\<close> (src/src/utils/CircleMTIO.hpp), \<open>CLog\<close> (src/src/utils/CLog.cpp,
  CLog.hpp) and \<open>ChronoUtils\<close> (src/src/utils/ChronoUtils.hpp). A slot is free (0), being written (1) or
  ready (2). Here every operation of the ring runs on its own; \<open>LogRing\<close> has the interleavings of
  the atomic operations of \<open>new_write\<close>. A pointer to a slot is its index.
\<close>

section \<open>The ring\<close>

record 'a ring =
  elements :: "'a list"
  elements_state :: "int list"
  reading_point :: u64
  writing_point :: u64

definition new_ring :: "nat \<Rightarrow> 'a \<Rightarrow> 'a ring" where
  "new_ring num d = \<lparr>elements = replicate num d, elements_state = replicate num 0,
     reading_point = 0, writing_point = 0\<rparr>"

abbreviation ring_num :: "'a ring \<Rightarrow> nat" where
  "ring_num r \<equiv> length (elements_state r)"

text \<open>The end of \<open>new_write\<close>: take the slot when it is free.\<close>

definition claim_slot :: "nat \<Rightarrow> 'a ring \<Rightarrow> nat option \<times> 'a ring" where
  "claim_slot a r =
     (if elements_state r ! a \<noteq> 0 then (None, r)
      else (Some a, r\<lparr>elements_state := (elements_state r)[a := 1]\<rparr>))"

definition new_write :: "'a ring \<Rightarrow> nat option \<times> 'a ring" where
  "new_write r =
     (let a = writing_point r; r1 = r\<lparr>writing_point := a + 1\<rparr> in
      if ring_num r \<le> unat a then
        (let a2 = writing_point r1; r2 = r1\<lparr>writing_point := a2 + 1\<rparr> in
         if ring_num r \<le> unat a2 then claim_slot 0 (r2\<lparr>writing_point := 1\<rparr>)
         else claim_slot (unat a2) r2)
      else claim_slot (unat a) r1)"

definition ring_next :: "'a ring \<Rightarrow> nat option \<times> 'a ring" where
  "ring_next r =
     (let k = reading_point r in
      if elements_state r ! unat k \<noteq> 2 then (None, r)
      else if k = writing_point r then (None, r)
      else (Some (unat k), r\<lparr>reading_point := (if ring_num r \<le> unat (k + 1) then 0 else k + 1)\<rparr>))"

definition set_free :: "nat \<Rightarrow> 'a ring \<Rightarrow> 'a ring" where
  "set_free a r = r\<lparr>elements_state := (elements_state r)[a := 0]\<rparr>"

definition set_ready :: "nat \<Rightarrow> 'a ring \<Rightarrow> 'a ring" where
  "set_ready a r = r\<lparr>elements_state := (elements_state r)[a := 2]\<rparr>"

section \<open>The log\<close>

text \<open>
  Times are nanoseconds since the epoch; \<open>local_time\<close> is \<open>localtime_r\<close> with \<open>strftime\<close>. The stream
  the log writes to is the text written to it, \<open>log_file\<close>, of which the first \<open>log_flushed\<close> characters have left the
  stream's buffer for certain.
\<close>

definition GetDateAndTime :: "(string \<Rightarrow> int \<Rightarrow> string) \<Rightarrow> int \<Rightarrow> string" where
  "GetDateAndTime local_time now =
     (let tt = now sdiv 1000000000; mksec = (now sdiv 1000) smod 1000000;
          str = local_time ''%Y/%m/%d %H:%M:%S.'' tt; mksecstr = string_of_int mksec
      in (if length mksecstr < 6 then str @ replicate (6 - length mksecstr) (CHR ''0'') else str) @ mksecstr)"

record log_line =
  ll_line :: string
  ll_thrid :: string
  ll_when :: int

record clog =
  log_file :: string
  log_flushed :: nat
  log_ring :: "log_line ring"
  log_running :: bool
  log_writer :: bool
  log_finished :: bool

definition line_text :: "(string \<Rightarrow> int \<Rightarrow> string) \<Rightarrow> log_line \<Rightarrow> string" where
  "line_text lt l = GetDateAndTime lt (ll_when l) @ '': '' @ ll_thrid l @ '' '' @ ll_line l @ [CHR 0x0A]"

definition log_flush :: "clog \<Rightarrow> clog" where
  "log_flush c = c\<lparr>log_flushed := length (log_file c)\<rparr>"

text \<open>What is still in the stream's buffer, as far as the program knows.\<close>

definition log_buffer :: "clog \<Rightarrow> string" where
  "log_buffer c = drop (log_flushed c) (log_file c)"

lemma log_flush_sel [simp]:
  "log_file (log_flush c) = log_file c" "log_ring (log_flush c) = log_ring c" "log_running (log_flush c) = log_running c"
  "log_writer (log_flush c) = log_writer c" "log_finished (log_flush c) = log_finished c" "log_buffer (log_flush c) = []"
  "log_flush (log_flush c) = log_flush c"
  by (simp_all add: log_flush_def log_buffer_def)

text \<open>The result tells whether anything was written, so that the stream should be flushed.\<close>

partial_function (option) addLinesToLog :: "(string \<Rightarrow> int \<Rightarrow> string) \<Rightarrow> bool \<Rightarrow> clog \<Rightarrow> (bool \<times> clog) option" where
  "addLinesToLog lt shouldFlush c =
     (case ring_next (log_ring c) of
        (None, r) \<Rightarrow> Some (shouldFlush, c)
      | (Some k, r) \<Rightarrow> addLinesToLog lt True
          (c\<lparr>log_file := log_file c @ line_text lt (elements r ! k), log_ring := set_free k r\<rparr>))"

text \<open>
  The loop of \<open>AddToLog\<close> that waits for a slot; \<open>others\<close> is what the other threads do to the log
  while this one sleeps.
\<close>

partial_function (option) wait_for_slot :: "(clog \<Rightarrow> clog) \<Rightarrow> clog \<Rightarrow> (nat \<times> clog) option" where
  "wait_for_slot others c =
     (case new_write (log_ring c) of
        (None, r) \<Rightarrow> wait_for_slot others (others (c\<lparr>log_ring := r\<rparr>))
      | (Some a, r) \<Rightarrow> Some (a, c\<lparr>log_ring := r\<rparr>))"

definition fill_slot :: "nat \<Rightarrow> log_line \<Rightarrow> clog \<Rightarrow> clog" where
  "fill_slot a l c = c\<lparr>log_ring := set_ready a ((log_ring c)\<lparr>elements := (elements (log_ring c))[a := l]\<rparr>)\<rparr>"

definition make_line :: "string \<Rightarrow> int \<Rightarrow> string \<Rightarrow> string \<Rightarrow> log_line" where
  "make_line thrid now Text extraid =
     \<lparr>ll_line = extraid @ '' '' @ Text, ll_thrid = thrid, ll_when = now\<rparr>"

definition AddToLog :: "(clog \<Rightarrow> clog) \<Rightarrow> string \<Rightarrow> int \<Rightarrow> string \<Rightarrow> string \<Rightarrow> clog \<Rightarrow> clog option" where
  "AddToLog others thrid now Text extraid c =
     (case wait_for_slot others c of
        None \<Rightarrow> None
      | Some (a, c') \<Rightarrow> Some (fill_slot a (make_line thrid now Text extraid) c'))"

definition log_multiRegister ::
  "(clog \<Rightarrow> clog) \<Rightarrow> string \<Rightarrow> int \<Rightarrow> poco \<Rightarrow> string \<Rightarrow> fmt_arg list \<Rightarrow> clog \<Rightarrow> (exn + string) \<times> clog option" where
  "log_multiRegister others thrid now pc format args c =
     (case multiRegister pc format args of
        Inl e \<Rightarrow> (Inl e, Some c)
      | Inr printbuf \<Rightarrow> (Inr printbuf, AddToLog others thrid now printbuf [] c))"

definition multiRegisterLN ::
  "(clog \<Rightarrow> clog) \<Rightarrow> string \<Rightarrow> int \<Rightarrow> poco \<Rightarrow> string \<Rightarrow> nat \<Rightarrow> string \<Rightarrow> string \<Rightarrow> fmt_arg list \<Rightarrow> clog
   \<Rightarrow> (exn + string) \<times> clog option" where
  "multiRegisterLN others thrid now pc file line level format args c =
     (case multiRegister pc format args of
        Inl e \<Rightarrow> (Inl e, Some c)
      | Inr text \<Rightarrow>
          (let printbuf = multi_concat [file, '':'', string_of_nat line, '' '', level, '' '', text]
           in (Inr printbuf, AddToLog others thrid now printbuf [] c)))"

text \<open>
  \<open>threadFn\<close>, over the rounds it makes: whether the wait of a round was notified, and what the
  other threads do to the log before the round looks at \<open>running\<close>. The first result is whether the
  thread still runs when the rounds are over.
\<close>

definition next_wait_count :: "bool \<Rightarrow> int \<Rightarrow> int" where
  "next_wait_count notified n =
     (if n > 4 then (if notified then 0 else n) else max 5 (n + 1))"

fun threadFn :: "(string \<Rightarrow> int \<Rightarrow> string) \<Rightarrow> int \<Rightarrow> (bool \<times> (clog \<Rightarrow> clog)) list \<Rightarrow> clog \<Rightarrow> (bool \<times> clog) option" where
  "threadFn lt wait_count [] c = Some (True, c)"
| "threadFn lt wait_count ((notified, others) # rounds) c =
     (let c1 = others c in
      case addLinesToLog lt False c1 of
        None \<Rightarrow> None
      | Some (shouldFlush, c2) \<Rightarrow>
          let c3 = (if shouldFlush then log_flush c2 else c2) in
          if log_running c1 then threadFn lt (next_wait_count notified wait_count) rounds c3
          else Some (False, log_flush c3))"

text \<open>
  Joining the writer is waiting for its last round, which sees \<open>running\<close> false. None stands for the
  \<open>std::terminate\<close> of an assignment to a joinable thread.
\<close>

definition join_writer :: "(string \<Rightarrow> int \<Rightarrow> string) \<Rightarrow> clog \<Rightarrow> clog option" where
  "join_writer lt c =
     (if log_writer c then map_option (\<lambda>(fl, c'). c'\<lparr>log_writer := False\<rparr>) (threadFn lt 5 [(False, id)] c) else Some c)"

definition PrepareToFork :: "(string \<Rightarrow> int \<Rightarrow> string) \<Rightarrow> clog \<Rightarrow> clog option" where
  "PrepareToFork lt c = map_option (\<lambda>c'. c'\<lparr>log_running := True\<rparr>) (join_writer lt (c\<lparr>log_running := False\<rparr>))"

definition start_writer :: "clog \<Rightarrow> clog option" where
  "start_writer c = (if log_writer c then None else Some (c\<lparr>log_writer := True\<rparr>))"

definition ring_size :: nat where "ring_size = 1024"

definition no_line :: log_line where
  "no_line = \<lparr>ll_line = [], ll_thrid = [], ll_when = 0\<rparr>"

definition SignalFork :: "clog \<Rightarrow> clog option" where
  "SignalFork c = start_writer (c\<lparr>log_ring := new_ring ring_size no_line\<rparr>)"

definition ParentPostFork :: "clog \<Rightarrow> clog option" where
  "ParentPostFork c = start_writer c"

definition stars :: string where "stars = replicate 77 (CHR ''*'')"

definition log_header :: "(string \<Rightarrow> int \<Rightarrow> string) \<Rightarrow> string \<Rightarrow> string \<Rightarrow> string \<Rightarrow> int \<Rightarrow> string" where
  "log_header lt date time commit now =
     stars @ [CHR 0x0A] @ ''* Program compilation date/time: '' @ date @ '' '' @ time @
     [CHR 0x0A] @ stars @ [CHR 0x0A] @ ''* Full commit hash: '' @ commit @
     [CHR 0x0A] @ stars @ [CHR 0x0A] @ stars @ [CHR 0x0A] @ ''* Log started at: '' @ GetDateAndTime lt now @
     [CHR 0x0A] @ stars @ [CHR 0x0A, CHR 0x0A]"

definition insertLogHeader :: "(string \<Rightarrow> int \<Rightarrow> string) \<Rightarrow> string \<Rightarrow> string \<Rightarrow> string \<Rightarrow> int \<Rightarrow> clog \<Rightarrow> clog" where
  "insertLogHeader lt date time commit now c =
     log_flush (c\<lparr>log_file := log_file c @ log_header lt date time commit now\<rparr>)"

definition log_footer :: "(string \<Rightarrow> int \<Rightarrow> string) \<Rightarrow> int \<Rightarrow> string" where
  "log_footer lt now = [CHR 0x0A] @ stars @ [CHR 0x0A] @ ''* Log Finished at: '' @ GetDateAndTime lt now @
     [CHR 0x0A] @ stars @ [CHR 0x0A]"

definition FinishLog :: "(string \<Rightarrow> int \<Rightarrow> string) \<Rightarrow> int \<Rightarrow> clog \<Rightarrow> clog option" where
  "FinishLog lt now c =
     map_option (\<lambda>c'. log_flush (c'\<lparr>log_file := log_file c' @ log_footer lt now\<rparr>)\<lparr>log_finished := True\<rparr>)
       (join_writer lt (c\<lparr>log_running := False\<rparr>))"

section \<open>The ring is a queue\<close>


text \<open>
  The ring as a queue: \<open>holds r k xs\<close> says that the reader is at slot \<open>k\<close> and that the slots from
  there on are ready and have the lines \<open>xs\<close>; the others are free and the writer is behind the last.
\<close>

definition slot :: "nat \<Rightarrow> nat \<Rightarrow> nat \<Rightarrow> nat" where
  "slot n k j = (k + j) mod n"

definition holds :: "'a ring \<Rightarrow> nat \<Rightarrow> 'a list \<Rightarrow> bool" where
  "holds r k xs \<longleftrightarrow>
     (let n = ring_num r in
      n < 2 ^ 63 \<and> k < n \<and> length xs \<le> n \<and> length (elements r) = n \<and> unat (reading_point r) = k \<and>
      (unat (writing_point r) = slot n k (length xs) \<or>
       slot n k (length xs) = 0 \<and> unat (writing_point r) = n) \<and>
      (\<forall>j < n. elements_state r ! slot n k j = (if j < length xs then 2 else 0)) \<and>
      (\<forall>j < length xs. elements r ! slot n k j = xs ! j))"

lemma slot_less [simp]: "0 < n \<Longrightarrow> slot n k j < n"
  by (simp add: slot_def)

lemma slot_0 [simp]: "k < n \<Longrightarrow> slot n k 0 = k"
  by (simp add: slot_def)

lemma slot_inject_le: "slot n k i = slot n k j \<Longrightarrow> i \<le> j \<Longrightarrow> j < n \<Longrightarrow> i = j"
proof -
  assume eq: "slot n k i = slot n k j" and le: "i \<le> j" and j: "j < n"
  have "n dvd (k + j) - (k + i)"
    using eq le by (subst mod_eq_dvd_iff_nat [symmetric]) (simp_all add: slot_def)
  then have "n dvd j - i" by simp
  then show "i = j" using j le by (auto dest: dvd_imp_le)
qed

lemma slot_inject [simp]: "i < n \<Longrightarrow> j < n \<Longrightarrow> slot n k i = slot n k j \<longleftrightarrow> i = j"
  by (metis nle_le slot_inject_le)

lemma slot_wrap: "k < n \<Longrightarrow> slot n k n = k"
  by (simp add: slot_def)

lemma slot_next [simp]: "slot n (slot n k (Suc 0)) j = slot n k (Suc j)"
  by (simp add: slot_def mod_simps)

lemma slot_Suc: "0 < n \<Longrightarrow> slot n k (Suc j) = (if Suc (slot n k j) = n then 0 else Suc (slot n k j))"
  by (simp add: slot_def mod_Suc)

lemma unat_plus1: "unat (w :: u64) < 2 ^ 63 \<Longrightarrow> unat (w + 1) = Suc (unat w)"
  by (rule unat_Suc_less [of w "2 ^ 63"]) (simp add: word_less_nat_alt)

definition put_line :: "nat \<Rightarrow> 'a \<Rightarrow> 'a ring \<Rightarrow> 'a ring" where
  "put_line a x r = set_ready a (r\<lparr>elements := (elements r)[a := x]\<rparr>)"

lemma new_write_at:
  assumes wp: "unat (writing_point r) = a \<or> a = 0 \<and> unat (writing_point r) = ring_num r"
    and a: "a < ring_num r" and n: "ring_num r < 2 ^ 63"
  obtains w where "new_write r = claim_slot a (r\<lparr>writing_point := w\<rparr>)" and "unat w = Suc a"
proof (cases "unat (writing_point r) < ring_num r")
  case True
  then have "unat (writing_point r) = a" using wp a by auto
  then show ?thesis using that [of "writing_point r + 1"] True n by (simp add: new_write_def unat_plus1)
next
  case False
  then have "a = 0" "unat (writing_point r) = ring_num r" using wp a by auto
  then show ?thesis using that [of 1] n by (simp add: new_write_def unat_plus1)
qed

lemma holds_add:
  assumes h: "holds r k xs" and len: "length xs < ring_num r"
  obtains a r' where "new_write r = (Some a, r')" and "holds (put_line a x r') k (xs @ [x])"
    and "ring_num r' = ring_num r" 
proof -
  let ?n = "ring_num r" let ?a = "slot ?n k (length xs)"
  have n: "0 < ?n" "?n < 2 ^ 63" using h len by (auto simp: holds_def Let_def)
  obtain w where nw: "new_write r = claim_slot ?a (r\<lparr>writing_point := w\<rparr>)" and w: "unat w = Suc ?a"
    using h n by (elim new_write_at [rotated -1]) (auto simp: holds_def Let_def)
  let ?r = "r\<lparr>writing_point := w, elements_state := (elements_state r)[?a := 1]\<rparr>"
  have "new_write r = (Some ?a, ?r)"
    using h len by (simp add: nw claim_slot_def holds_def Let_def)
  moreover have "holds (put_line ?a x ?r) k (xs @ [x])"
    using h len n w by (auto simp: holds_def Let_def put_line_def set_ready_def nth_list_update nth_append less_Suc_eq slot_Suc)
  ultimately show ?thesis using that [of ?a ?r] by simp
qed

lemma holds_next:
  assumes h: "holds r k (x # xs)" and len: "Suc (length xs) < ring_num r \<or> k = 0 \<and> unat (writing_point r) = ring_num r"
  obtains r' where "ring_next r = (Some k, r')" and "elements r' ! k = x"
    and "holds (set_free k r') (slot (ring_num r) k 1) xs" and "ring_num r' = ring_num r"
proof -
  let ?n = "ring_num r"
  have n: "0 < ?n" "?n < 2 ^ 63" "k < ?n" using h by (auto simp: holds_def Let_def)
  have k: "k = slot ?n k 0" using n by simp
  have x: "elements r ! k = x" "elements_state r ! k = 2" "unat (reading_point r) = k"
    using h n unfolding holds_def Let_def by (metis k length_Cons nth_Cons_0 zero_less_Suc)+
  have "reading_point r \<noteq> writing_point r"
  proof
    assume "reading_point r = writing_point r"
    then have "k = unat (writing_point r)" using x by simp
    then show False using h len n slot_inject [of 0 ?n "Suc (length xs)" k] by (auto simp: holds_def Let_def)
  qed
  moreover have "unat (if ?n \<le> Suc k then 0 else reading_point r + 1) = slot ?n k 1"
    using x n by (auto simp: slot_Suc unat_plus1)
  ultimately obtain w where w: "unat w = slot ?n k 1" and nx: "ring_next r = (Some k, r\<lparr>reading_point := w\<rparr>)"
    using x n by (auto simp: ring_next_def unat_plus1)
  let ?r = "r\<lparr>reading_point := w\<rparr>"
  have st: "(elements_state r)[k := 0] ! slot ?n k (Suc j) = (if j < length xs then 2 else 0)" if j: "j < ?n" for j
  proof (cases "Suc j < ?n")
    case True
    then have "slot ?n k (Suc j) \<noteq> k" using n k slot_inject [of "Suc j" ?n 0 k] by simp
    then show ?thesis using h True by (simp add: holds_def Let_def)
  next
    case False
    then have "?n = Suc j" using j by simp
    moreover have "Suc (length xs) \<le> ?n" using h by (simp add: holds_def Let_def)
    ultimately have "slot ?n k (Suc j) = k" "\<not> j < length xs" using slot_wrap [OF n(3)] by auto
    then show ?thesis using n by simp
  qed
  have "holds (set_free k ?r) (slot ?n k 1) xs" 
    using h n w st by (auto simp: holds_def Let_def set_free_def)
  with nx x show ?thesis using that [of ?r] by simp
qed

section \<open>What reaches the file\<close>

type_synonym log_call = "string \<times> int \<times> string \<times> string"

fun call_line :: "log_call \<Rightarrow> log_line" where
  "call_line (thrid, now, Text, extraid) = make_line thrid now Text extraid"

definition call_text :: "(string \<Rightarrow> int \<Rightarrow> string) \<Rightarrow> log_call \<Rightarrow> string" where
  "call_text lt call = line_text lt (call_line call)"

lemma line_text_call [simp]: "line_text lt \<circ> call_line = call_text lt"
  by (simp add: fun_eq_iff call_text_def)

fun log_all :: "(clog \<Rightarrow> clog) \<Rightarrow> log_call list \<Rightarrow> clog \<Rightarrow> clog option" where
  "log_all others [] c = Some c"
| "log_all others ((thrid, now, Text, extraid) # calls) c =
     (case AddToLog others thrid now Text extraid c of None \<Rightarrow> None | Some c' \<Rightarrow> log_all others calls c')"

text \<open>Batches of calls, each followed by a pass of the writer thread.\<close>

fun log_batches :: "(string \<Rightarrow> int \<Rightarrow> string) \<Rightarrow> (clog \<Rightarrow> clog) \<Rightarrow> log_call list list \<Rightarrow> clog \<Rightarrow> clog option" where
  "log_batches lt others [] c = Some c"
| "log_batches lt others (b # bs) c =
     (case log_all others b c of
        None \<Rightarrow> None
      | Some c1 \<Rightarrow> (case addLinesToLog lt False c1 of None \<Rightarrow> None | Some (fl, c2) \<Rightarrow> log_batches lt others bs c2))"

definition same_log :: "clog \<Rightarrow> clog \<Rightarrow> bool" where
  "same_log c d \<longleftrightarrow> ring_num (log_ring c) = ring_num (log_ring d) \<and> log_running c = log_running d \<and>
     log_writer c = log_writer d \<and> log_finished c = log_finished d"

lemma same_log_trans [trans]: "same_log c d \<Longrightarrow> same_log d e \<Longrightarrow> same_log c e"
  by (simp add: same_log_def)

lemma AddToLog_holds:
  assumes h: "holds (log_ring c) k xs" and len: "length xs < ring_num (log_ring c)"
  obtains c' where "AddToLog others thrid now Text extraid c = Some c'" and "log_file c' = log_file c"
    and "holds (log_ring c') k (xs @ [make_line thrid now Text extraid])" and "same_log c' c"
proof -
  let ?l = "make_line thrid now Text extraid"
  obtain a r' where r': "new_write (log_ring c) = (Some a, r')" "holds (put_line a ?l r') k (xs @ [?l])"
    "ring_num r' = ring_num (log_ring c)" using holds_add [OF h len, of ?l] by blast
  have "wait_for_slot others c = Some (a, c\<lparr>log_ring := r'\<rparr>)"
    by (subst wait_for_slot.simps) (simp add: r')
  then show ?thesis using r' that [of "fill_slot a ?l (c\<lparr>log_ring := r'\<rparr>)"]
    by (simp add: AddToLog_def fill_slot_def put_line_def same_log_def set_ready_def)
qed

lemma log_all_holds:
  assumes "holds (log_ring c) k xs" and "length xs + length calls \<le> ring_num (log_ring c)"
  shows "\<exists>c'. log_all others calls c = Some c' \<and> log_file c' = log_file c \<and>
    holds (log_ring c') k (xs @ map call_line calls) \<and> same_log c' c"
  using assms
proof (induction calls arbitrary: c xs)
  case Nil
  then show ?case by (simp add: same_log_def)
next
  case (Cons call calls)
  obtain thrid now Text extraid where call: "call = (thrid, now, Text, extraid)" by (cases call)
  obtain c' where c': "AddToLog others thrid now Text extraid c = Some c'" "log_file c' = log_file c"
    "holds (log_ring c') k (xs @ [call_line call])" "same_log c' c"
    using AddToLog_holds [of c k xs others thrid now Text extraid] Cons.prems by (auto simp: call)
  obtain c2 where "log_all others calls c' = Some c2" "log_file c2 = log_file c'"
    "holds (log_ring c2) k ((xs @ [call_line call]) @ map call_line calls)" "same_log c2 c'"
    using Cons.IH [OF c'(3)] Cons.prems(2) c'(4) by (auto simp: same_log_def)
  then show ?case using c' by (auto simp: call intro: same_log_trans)
qed

lemma pass_holds:
  assumes "holds (log_ring c) k xs" and "length xs < ring_num (log_ring c)"
  shows "\<exists>c' k'. addLinesToLog lt fl c = Some (fl \<or> xs \<noteq> [], c') \<and>
    log_file c' = log_file c @ concat (map (line_text lt) xs) \<and> holds (log_ring c') k' [] \<and> same_log c' c \<and>
    k' = slot (ring_num (log_ring c)) k (length xs)"
  using assms
proof (induction xs arbitrary: c k fl)
  case Nil
  then have "k < ring_num (log_ring c)" "unat (reading_point (log_ring c)) = k" "elements_state (log_ring c) ! k = 0"
    by (auto simp: holds_def Let_def dest: spec [where x = 0])
  then have "ring_next (log_ring c) = (None, log_ring c)" by (simp add: ring_next_def)
  then show ?case using Nil by (subst addLinesToLog.simps) (auto simp: same_log_def holds_def Let_def)
next
  case (Cons x xs)
  obtain r' where r': "ring_next (log_ring c) = (Some k, r')" "elements r' ! k = x"
      "holds (set_free k r') (slot (ring_num (log_ring c)) k 1) xs" "ring_num r' = ring_num (log_ring c)"
    using holds_next [OF Cons.prems(1)] Cons.prems(2) by auto
  let ?c = "c\<lparr>log_file := log_file c @ line_text lt x, log_ring := set_free k r'\<rparr>"
  have n: "ring_num (set_free k r') = ring_num (log_ring c)" using r' by (simp add: set_free_def)
  have "addLinesToLog lt fl c = addLinesToLog lt True ?c"
    by (subst addLinesToLog.simps) (simp add: r')
  moreover have "\<exists>c' k'. addLinesToLog lt True ?c = Some (True \<or> xs \<noteq> [], c') \<and>
    log_file c' = log_file ?c @ concat (map (line_text lt) xs) \<and> holds (log_ring c') k' [] \<and> same_log c' ?c \<and>
    k' = slot (ring_num (log_ring ?c)) (slot (ring_num (log_ring c)) k 1) (length xs)"
    using r'(3) Cons.prems(2) n by (intro Cons.IH) simp_all
  ultimately show ?case using n by (auto simp: same_log_def)
qed

lemma holds_new_ring: "0 < n \<Longrightarrow> n < 2 ^ 63 \<Longrightarrow> holds (new_ring n d) 0 []"
  by (simp add: holds_def new_ring_def)

lemma log_batches_holds:
  assumes "holds (log_ring c) k []" and "\<forall>b \<in> set bs. length b < ring_num (log_ring c)"
  shows "\<exists>c'. log_batches lt others bs c = Some c' \<and> same_log c' c \<and>
    holds (log_ring c') (slot (ring_num (log_ring c)) k (length (concat bs))) [] \<and>
    log_file c' = log_file c @ concat (map (call_text lt) (concat bs))"
  using assms
proof (induction bs arbitrary: c k)
  case Nil
  then show ?case by (auto simp: same_log_def holds_def Let_def)
next
  case (Cons b bs)
  obtain c1 where c1: "log_all others b c = Some c1" "log_file c1 = log_file c"
      "holds (log_ring c1) k (map call_line b)" "same_log c1 c"
    using log_all_holds [of c k "[]" b others] Cons.prems by auto
  obtain c2 where c2: "addLinesToLog lt False c1 = Some (b \<noteq> [], c2)" "same_log c2 c1"
      "log_file c2 = log_file c1 @ concat (map (call_text lt) b)"
      "holds (log_ring c2) (slot (ring_num (log_ring c1)) k (length b)) []"
    using pass_holds [OF c1(3), of lt False] Cons.prems(2) c1(4) by (auto simp: same_log_def)
  have n: "ring_num (log_ring c2) = ring_num (log_ring c)" "ring_num (log_ring c1) = ring_num (log_ring c)"
    using c1(4) c2(2) by (simp_all add: same_log_def)
  obtain c3 where "log_batches lt others bs c2 = Some c3" "same_log c3 c2"
     "holds (log_ring c3) (slot (ring_num (log_ring c)) (slot (ring_num (log_ring c)) k (length b)) (length (concat bs))) []"
      "log_file c3 = log_file c2 @ concat (map (call_text lt) (concat bs))"
    using Cons.IH [OF c2(4)] Cons.prems(2) n by auto
  moreover have "slot n (slot n k i) j = slot n k (i + j)" for n i j by (simp add: slot_def mod_simps add.assoc)
  ultimately show ?case using c1 c2 by (auto simp: same_log_def)
qed

text \<open>As long as fewer lines wait than the ring has slots, everything logged reaches the file, once
  and in the order of the calls, however the calls are spread over the passes of the writer.\<close>

theorem log_in_order:
  assumes "log_ring c = new_ring n d" and "0 < n" and "n < 2 ^ 63" and "\<forall>b \<in> set bs. length b < n"
  shows "\<exists>c'. log_batches lt others bs c = Some c' \<and>
    log_file c' = log_file c @ concat (map (call_text lt) (concat bs))"
proof -
  have "ring_num (log_ring c) = n" using assms(1) by (simp add: new_ring_def)
  then show ?thesis
    using log_batches_holds [of c 0 bs lt others] holds_new_ring [of n d] assms by auto
qed

text \<open>C29: a ring that filled up behind a reader that is not at its first slot is stuck. After some
  lines were written out, as many lines as the ring has slots are all ready, but a pass of the
  writer writes none of them, and \<open>FinishLog\<close> loses every one.\<close>

theorem full_ring_stalls:
  assumes "log_ring c = new_ring n d" and "n < 2 ^ 63" and "0 < length xs" and "length xs < n" and "length ys = n"
    and "log_writer c"
  shows "\<exists>c1 c2 c3. log_batches lt others [xs] c = Some c1 \<and> log_all others ys c1 = Some c2 \<and>
    elements_state (log_ring c2) = replicate n 2 \<and>
    addLinesToLog lt False c2 = Some (False, c2) \<and>
    FinishLog lt now c2 = Some c3 \<and> log_file c3 = log_file c1 @ log_footer lt now"
proof -
  have n: "ring_num (log_ring c) = n" using assms(1) by (simp add: new_ring_def)
  obtain c1 where c1: "log_batches lt others [xs] c = Some c1" "same_log c1 c" "holds (log_ring c1) (length xs) []"
    using log_batches_holds [of c 0 "[xs]" lt others] holds_new_ring [of n d] assms n by (auto simp: slot_def)
  have n1: "ring_num (log_ring c1) = n" using c1(2) n by (simp add: same_log_def)
  obtain c2 where c2: "log_all others ys c1 = Some c2" "log_file c2 = log_file c1" "same_log c2 c1"
      "holds (log_ring c2) (length xs) (map call_line ys)"
    using log_all_holds [OF c1(3), of ys others] n1 assms(5) by auto
  have n2: "ring_num (log_ring c2) = n" using c2(3) n1 by (simp add: same_log_def)
  have stuck: "unat (writing_point (log_ring c2)) = length xs" "unat (reading_point (log_ring c2)) = length xs"
    using c2(4) n2 assms(3-5) slot_wrap [of "length xs" n] by (auto simp: holds_def Let_def)
  have "ring_next (log_ring c2) = (None, log_ring c2)"
    using stuck by (simp add: ring_next_def Let_def word_unat_eq_iff [of "reading_point (log_ring c2)"])
  then have pass: "addLinesToLog lt fl (c2\<lparr>log_running := b\<rparr>) = Some (fl, c2\<lparr>log_running := b\<rparr>)" for fl b
    by (subst addLinesToLog.simps) simp
  have ready: "elements_state (log_ring c2) ! a = 2" if "a < n" for a
  proof -
    have "a = slot n (length xs) ((a + n - length xs) mod n)"
      using that assms(4) by (simp add: slot_def mod_simps)
    moreover have "(a + n - length xs) mod n < n" using that by simp
    ultimately show ?thesis using c2(4) n2 assms(5) unfolding holds_def Let_def by (metis length_map)
  qed
  have "log_writer c2" using c1(2) c2(3) assms(6) by (simp add: same_log_def)
  then have "\<exists>c3. FinishLog lt now c2 = Some c3 \<and> log_file c3 = log_file c2 @ log_footer lt now"
    by (simp add: FinishLog_def join_writer_def pass Let_def)
  moreover have "elements_state (log_ring c2) = replicate n 2"
    using n2 ready by (simp add: list_eq_iff_nth_eq)
  ultimately show ?thesis using c1(1) c2 pass [of False "log_running c2"] by auto
qed

text \<open>The slot the next attempt looks at.\<close>

definition wpos :: "'a ring \<Rightarrow> nat" where
  "wpos r = (if unat (writing_point r) < ring_num r then unat (writing_point r) else 0)"

lemma new_write_wpos:
  assumes "unat (writing_point r) < 2 ^ 63" and "0 < ring_num r" and "ring_num r < 2 ^ 63"
  obtains w where "new_write r = claim_slot (wpos r) (r\<lparr>writing_point := w\<rparr>)" and "unat w = Suc (wpos r)"
proof (cases "unat (writing_point r) < ring_num r")
  case True
  then show ?thesis using that [of "writing_point r + 1"] assms by (simp add: new_write_def Let_def wpos_def unat_plus1)
next
  case False
  then have "\<not> unat (writing_point r + 1) < ring_num r" using assms by (simp add: unat_plus1)
  then show ?thesis using that [of 1] False by (simp add: new_write_def Let_def wpos_def not_less)
qed

definition attempts_to :: "nat \<Rightarrow> nat \<Rightarrow> nat \<Rightarrow> nat" where
  "attempts_to n i p = (if p \<le> i then i - p else n - p + i)"

text \<open>C30: \<open>AddToLog\<close> returns: when some slot is free and the other threads only free more of them, the
  loop that waits for a slot ends, after at most one attempt for each slot.\<close>

theorem AddToLog_returns:
  assumes others: "\<And>c. ring_num (log_ring (others c)) = ring_num (log_ring c) \<and>
      writing_point (log_ring (others c)) = writing_point (log_ring c) \<and>
      (\<forall>i. elements_state (log_ring c) ! i = 0 \<longrightarrow> elements_state (log_ring (others c)) ! i = 0)"
    and "i < ring_num (log_ring c)" and "elements_state (log_ring c) ! i = 0"
    and "ring_num (log_ring c) < 2 ^ 63" and "unat (writing_point (log_ring c)) < 2 ^ 63"
  shows "\<exists>c'. AddToLog others thrid now Text extraid c = Some c'"
proof -
  have "wait_for_slot others c \<noteq> None"
    using assms(2-5)
  proof (induction "attempts_to (ring_num (log_ring c)) i (wpos (log_ring c))" arbitrary: c rule: less_induct)
    case less
    let ?r = "log_ring c"
    obtain w where w: "new_write ?r = claim_slot (wpos ?r) (?r\<lparr>writing_point := w\<rparr>)" "unat w = Suc (wpos ?r)"
      by (rule new_write_wpos [of ?r]) (use less.prems in auto)
    show ?case
    proof (cases "elements_state ?r ! wpos ?r = 0")
      case True
      then show ?thesis by (subst wait_for_slot.simps) (simp add: w claim_slot_def)
    next
      case False
      let ?c = "others (c\<lparr>log_ring := ?r\<lparr>writing_point := w\<rparr>\<rparr>)"
      have same: "ring_num (log_ring ?c) = ring_num ?r" "writing_point (log_ring ?c) = w"
        "elements_state (log_ring ?c) ! i = 0"
        using others [of "c\<lparr>log_ring := ?r\<lparr>writing_point := w\<rparr>\<rparr>"] less.prems by auto
      have "wpos ?r \<noteq> i" using False less.prems by auto
      moreover have "wpos ?r < ring_num ?r" using less.prems by (auto simp: wpos_def)
      ultimately have "attempts_to (ring_num (log_ring ?c)) i (wpos (log_ring ?c)) < attempts_to (ring_num ?r) i (wpos ?r)"
        using same w less.prems by (auto simp: attempts_to_def wpos_def [of "log_ring ?c"])
      then have "wait_for_slot others ?c \<noteq> None"
        using less.hyps [of ?c] same w less.prems by (auto simp: wpos_def)
      then show ?thesis using False by (subst wait_for_slot.simps) (simp add: w claim_slot_def)
    qed
  qed
  then show ?thesis by (auto simp: AddToLog_def split: option.splits)
qed

definition sample_log :: "nat \<Rightarrow> clog" where
  "sample_log n = \<lparr>log_file = [], log_flushed = 0, log_ring = new_ring n no_line, log_running = True, log_writer = True, log_finished = False\<rparr>"

definition fixed_time :: "string \<Rightarrow> int \<Rightarrow> string" where
  "fixed_time format t = ''2024/01/01 00:00:00.''"

theorem log_in_order_witness:
  "\<exists>c'. log_batches fixed_time id [[(''1'', 7000, ''a'', []), (''1'', 8000, ''b'', ''x'')], [(''2'', 9000, ''c'', [])]] (sample_log 3) = Some c' \<and>
     log_file c' = ''2024/01/01 00:00:00.000007: 1  a'' @ [CHR 0x0A] @ ''2024/01/01 00:00:00.000008: 1 x b'' @ [CHR 0x0A] @
       ''2024/01/01 00:00:00.000009: 2  c'' @ [CHR 0x0A]"
proof -
  have "log_file (sample_log 3) @ concat (map (call_text fixed_time)
      (concat [[(''1'', 7000, ''a'', []), (''1'', 8000, ''b'', ''x'')], [(''2'', 9000, ''c'', [])]])) =
    ''2024/01/01 00:00:00.000007: 1  a'' @ [CHR 0x0A] @ ''2024/01/01 00:00:00.000008: 1 x b'' @ [CHR 0x0A] @
       ''2024/01/01 00:00:00.000009: 2  c'' @ [CHR 0x0A]"
    by code_simp
  then show ?thesis
    using log_in_order [of "sample_log 3" 3 no_line
        "[[(''1'', 7000, ''a'', []), (''1'', 8000, ''b'', ''x'')], [(''2'', 9000, ''c'', [])]]" fixed_time id]
    by (simp add: sample_log_def)
qed

theorem full_ring_stalls_witness:
  "\<exists>c1 c2 c3. log_batches fixed_time id [[(''1'', 7000, ''a'', [])]] (sample_log 2) = Some c1 \<and>
     log_all id [(''1'', 8000, ''b'', []), (''1'', 9000, ''c'', [])] c1 = Some c2 \<and>
     elements_state (log_ring c2) = [2, 2] \<and>
     addLinesToLog fixed_time False c2 = Some (False, c2) \<and>
     FinishLog fixed_time 0 c2 = Some c3 \<and> log_file c3 = log_file c1 @ log_footer fixed_time 0"
proof -
  have "[2, 2] = replicate 2 (2 :: int)" by (simp add: numeral_2_eq_2)
  then show ?thesis unfolding \<open>[2, 2] = replicate 2 (2 :: int)\<close>
    by (intro full_ring_stalls [where n = 2 and d = no_line]) (simp_all add: sample_log_def)
qed

theorem AddToLog_returns_witness:
  "\<exists>c'. AddToLog id ''1'' 0 ''text'' [] (sample_log 2) = Some c'"
  by (rule AddToLog_returns [where i = 1]) (simp_all add: sample_log_def new_ring_def)

end
