(* ===== verification/LogRing.thy ===== *)
theory LogRing
  imports Logging
begin

text \<open>
  Threads that log at the same time: the atomic operations of \<open>CircleMTIO::new_write\<close>
  (src/src/utils/CircleMTIO.hpp) as steps of an interleaving, for any number of threads. A thread that
  finds its slot taken starts again, as \<open>CLog::AddToLog\<close> does. The writer thread of the log is one
  thread and runs \<open>next\<close>, the copy to the file and \<open>set_free\<close> in one step.
\<close>

section \<open>The steps\<close>

datatype wpc =
  WStart | WLocking | WLocked | WReset | WUnlock nat | WCheck nat | WMark nat | WFill nat | WDone

record ('a, 't) log_system =
  lring :: "'a ring"
  lowner :: "'t option"
  wpcs :: "'t \<Rightarrow> wpc"

definition lgoto :: "'t \<Rightarrow> wpc \<Rightarrow> 'a ring \<Rightarrow> 't option \<Rightarrow> ('a, 't) log_system \<Rightarrow> ('a, 't) log_system" where
  "lgoto t c r h s = \<lparr>lring = r, lowner = h, wpcs = (wpcs s)(t := c)\<rparr>"

definition take_point :: "'a ring \<Rightarrow> 'a ring" where
  "take_point r = r\<lparr>writing_point := writing_point r + 1\<rparr>"

definition set_state :: "nat \<Rightarrow> int \<Rightarrow> 'a ring \<Rightarrow> 'a ring" where
  "set_state a v r = r\<lparr>elements_state := (elements_state r)[a := v]\<rparr>"

inductive lstep :: "('a, 't) log_system \<Rightarrow> ('a, 't) log_system \<Rightarrow> bool" where
  take: "wpcs s t = WStart \<Longrightarrow>
     lstep s (lgoto t (if ring_num (lring s) \<le> unat (writing_point (lring s)) then WLocking
                       else WCheck (unat (writing_point (lring s)))) (take_point (lring s)) (lowner s) s)"
| lock: "wpcs s t = WLocking \<Longrightarrow> lowner s = None \<Longrightarrow> lstep s (lgoto t WLocked (lring s) (Some t) s)"
| take_again: "wpcs s t = WLocked \<Longrightarrow>
     lstep s (lgoto t (if ring_num (lring s) \<le> unat (writing_point (lring s)) then WReset
                       else WUnlock (unat (writing_point (lring s)))) (take_point (lring s)) (lowner s) s)"
| reset: "wpcs s t = WReset \<Longrightarrow> lstep s (lgoto t (WUnlock 0) ((lring s)\<lparr>writing_point := 1\<rparr>) (lowner s) s)"
| unlock: "wpcs s t = WUnlock a \<Longrightarrow> lstep s (lgoto t (WCheck a) (lring s) None s)"
| busy: "wpcs s t = WCheck a \<Longrightarrow> elements_state (lring s) ! a \<noteq> 0 \<Longrightarrow>
     lstep s (lgoto t WStart (lring s) (lowner s) s)"
| free: "wpcs s t = WCheck a \<Longrightarrow> elements_state (lring s) ! a = 0 \<Longrightarrow>
     lstep s (lgoto t (WMark a) (lring s) (lowner s) s)"
| mark: "wpcs s t = WMark a \<Longrightarrow> lstep s (lgoto t (WFill a) (set_state a 1 (lring s)) (lowner s) s)"
| ready: "wpcs s t = WFill a \<Longrightarrow> lstep s (lgoto t WDone (put_line a x (lring s)) (lowner s) s)"
| again: "wpcs s t = WDone \<Longrightarrow> lstep s (lgoto t WStart (lring s) (lowner s) s)"
| read: "ring_next (lring s) = (Some k, r) \<Longrightarrow> lstep s (s\<lparr>lring := set_free k r\<rparr>)"

inductive lreach :: "nat \<Rightarrow> 'a \<Rightarrow> ('a, 't) log_system \<Rightarrow> bool" for n d where
  init: "lreach n d \<lparr>lring = new_ring n d, lowner = None, wpcs = \<lambda>t. WStart\<rparr>"
| step: "lreach n d s \<Longrightarrow> lstep s s' \<Longrightarrow> lreach n d s'"

section \<open>No index leaves the ring\<close>

fun slot_of :: "wpc \<Rightarrow> nat option" where
  "slot_of (WUnlock a) = Some a"
| "slot_of (WCheck a) = Some a"
| "slot_of (WMark a) = Some a"
| "slot_of (WFill a) = Some a"
| "slot_of c = None"

text \<open>How far a thread can have pushed the writing point past the end.\<close>

fun pushes :: "wpc \<Rightarrow> nat" where
  "pushes WLocking = 1"
| "pushes WLocked = 1"
| "pushes WReset = 2"
| "pushes c = 0"

definition lring_ok :: "nat \<Rightarrow> ('a, 't :: finite) log_system \<Rightarrow> bool" where
  "lring_ok n s \<longleftrightarrow> ring_num (lring s) = n \<and> unat (reading_point (lring s)) < n \<and>
     unat (writing_point (lring s)) \<le> n + (\<Sum>t\<in>UNIV. pushes (wpcs s t)) \<and>
     (\<forall>t a. slot_of (wpcs s t) = Some a \<longrightarrow> a < n)"

lemma lgoto_simps [simp]:
  "lring (lgoto t c r h s) = r" "lowner (lgoto t c r h s) = h" "wpcs (lgoto t c r h s) = (wpcs s)(t := c)"
  by (simp_all add: lgoto_def)

lemma sum_pushes_upd:
  "(\<Sum>b\<in>(UNIV :: 't :: finite set). pushes ((f(t := c)) b)) + pushes (f t) = (\<Sum>b\<in>UNIV. pushes (f b)) + pushes c"
  by (simp add: sum.remove [of UNIV t])

lemma pushes_le: "pushes c \<le> 2"
  by (cases c) auto

lemma sum_pushes_le: "(\<Sum>b\<in>(UNIV :: 't :: finite set). pushes (f b)) \<le> 2 * card (UNIV :: 't set)"
  using sum_bounded_above [of UNIV "\<lambda>b. pushes (f b)" 2] pushes_le by (simp add: mult.commute)

lemma ring_num_simps [simp]:
  "ring_num (take_point r) = ring_num r" "ring_num (set_state a v r) = ring_num r" "ring_num (put_line a x r) = ring_num r"
  "ring_num (set_free a r) = ring_num r"
  "reading_point (take_point r) = reading_point r" "reading_point (set_state a v r) = reading_point r"
  "reading_point (put_line a x r) = reading_point r" "reading_point (set_free a r) = reading_point r"
  "writing_point (take_point r) = writing_point r + 1" "writing_point (set_state a v r) = writing_point r"
  "writing_point (put_line a x r) = writing_point r" "writing_point (set_free a r) = writing_point r"
  by (simp_all add: take_point_def set_state_def put_line_def set_ready_def set_free_def)

text \<open>A move of one thread keeps the bounds when the writing point grows by no more than its push.\<close>

lemma lring_ok_goto:
  assumes ok: "lring_ok n s" and "ring_num r = n" and "reading_point r = reading_point (lring s)"
    and "unat (writing_point r) + pushes (wpcs s t) \<le> unat (writing_point (lring s)) + pushes c \<or> unat (writing_point r) \<le> n"
    and "\<forall>a. slot_of c = Some a \<longrightarrow> a < n"
  shows "lring_ok n (lgoto t c r h s)"
  using assms sum_pushes_upd [of "wpcs s" t c] by (auto simp: lring_ok_def)

lemma lring_ok_num: "lring_ok n s \<Longrightarrow> ring_num (lring s) = n"
  by (simp add: lring_ok_def)

lemma lring_ok_keep:
  assumes ok: "lring_ok n s" and r: "ring_num r = n" "reading_point r = reading_point (lring s)"
      "writing_point r = writing_point (lring s)" "pushes c = pushes (wpcs s t)"
    and slot: "slot_of c = None \<or> slot_of c = slot_of (wpcs s t)"
  shows "lring_ok n (lgoto t c r h s)"
proof -
  have "\<forall>a. slot_of c = Some a \<longrightarrow> a < n" using ok slot by (auto simp: lring_ok_def)
  then show ?thesis using r by (intro lring_ok_goto [OF ok]) simp_all
qed

lemma unat_take: "unat (w + 1 :: u64) \<le> Suc (unat w)"
  by (simp add: unat_word_ariths)

lemma lring_ok_step:
  assumes ok: "lring_ok n s" and "0 < n" and st: "lstep s s'"
  shows "lring_ok n s'"
  using st
proof cases
  case (take t)
  then show ?thesis unfolding take(1) using ok unat_take [of "writing_point (lring s)"]
    by (intro lring_ok_goto [OF ok]) (auto simp: lring_ok_def)
next
  case (take_again t)
  then show ?thesis unfolding take_again(1) using ok unat_take [of "writing_point (lring s)"]
    by (intro lring_ok_goto [OF ok]) (auto simp: lring_ok_def)
next
  case (reset t)
  then show ?thesis unfolding reset(1) using ok assms(2) by (intro lring_ok_goto [OF ok]) (auto simp: lring_ok_def)
next
  case (read k r)
  then show ?thesis using ok by (auto simp: lring_ok_def ring_next_def Let_def split: if_splits)
qed (auto intro!: lring_ok_keep [OF ok] simp: lring_ok_num [OF ok])

text \<open>C31: whatever the threads do, no slot outside the ring is ever touched, and the writing point stays
  below its width: it is never more than two past the end for each thread.\<close>

theorem ring_bounds:
  fixes s :: "('a, 't :: finite) log_system"
  assumes "lreach n d s" and "0 < n"
  shows "(\<forall>t a. slot_of (wpcs s t) = Some a \<longrightarrow> a < n) \<and> unat (reading_point (lring s)) < n \<and>
     unat (writing_point (lring s)) \<le> n + 2 * card (UNIV :: 't set)"
proof -
  have "lring_ok n s"
    using assms(1)
  proof induction
    case init
    then show ?case using assms(2) by (simp add: lring_ok_def new_ring_def)
  next
    case (step s s')
    then show ?case using lring_ok_step assms(2) by blast
  qed
  then show ?thesis using sum_pushes_le [of "wpcs s"] by (auto simp: lring_ok_def intro: le_trans)
qed

section \<open>A slot handed out twice\<close>

lemma lreach_then: "lreach n d s \<Longrightarrow> lstep s t' \<Longrightarrow> t' = t \<Longrightarrow> lreach n d t"
  by (auto intro: lreach.step)

text \<open>Two threads: the first has seen that slot 0 is free and is about to mark it, the second has been
  round the ring up to slot \<open>k\<close>.\<close>

definition behind :: "nat \<Rightarrow> nat \<Rightarrow> wpc \<Rightarrow> wpc \<Rightarrow> (nat, bool) log_system \<Rightarrow> bool" where
  "behind n k c1 c2 s \<longleftrightarrow> lreach n (0 :: nat) s \<and> wpcs s True = c1 \<and> wpcs s False = c2 \<and> lowner s = None \<and>
     ring_num (lring s) = n \<and> unat (writing_point (lring s)) = k \<and>
     (\<forall>j. j = 0 \<or> k \<le> j \<and> j < n \<longrightarrow> elements_state (lring s) ! j = 0)"

lemma behindI:
  assumes "behind n k c1 c2 s" and "lstep s (lgoto t c r None s)" and "ring_num r = n"
    and "\<forall>j. j = 0 \<or> k' \<le> j \<and> j < n \<longrightarrow> elements_state r ! j = 0" and "unat (writing_point r) = k'"
  shows "behind n k' (if t then c else c1) (if t then c2 else c) (lgoto t c r None s)"
  using assms by (auto simp: behind_def intro: lreach.step)

lemma behind_first:
  assumes "0 < n" and "n < 2 ^ 63"
  shows "\<exists>s. behind n 1 (WMark 0) WStart s"
proof -
  let ?s = "\<lparr>lring = new_ring n 0, lowner = None, wpcs = \<lambda>t. WStart\<rparr> :: (nat, bool) log_system"
  have "behind n 0 WStart WStart ?s"
    using assms lreach.init [of n 0, where 't = bool] by (auto simp: behind_def new_ring_def)
  from behindI [OF this, of True "WCheck 0" "take_point (lring ?s)" 1] lstep.take [of ?s True]
  have "behind n 1 (WCheck 0) WStart (lgoto True (WCheck 0) (take_point (lring ?s)) None ?s)" (is "behind _ _ _ _ ?s1")
    using assms by (auto simp: new_ring_def take_point_def)
  from behindI [OF this, of True "WMark 0" "lring ?s1" 1] lstep.free [of ?s1 True 0] this
  have "behind n 1 (WMark 0) WStart (lgoto True (WMark 0) (lring ?s1) None ?s1)"
    using assms by (auto simp: behind_def)
  then show ?thesis by blast
qed

lemma behind_round:
  assumes "n < 2 ^ 63" and "Suc k \<le> n" and "0 < k"
  shows "\<exists>s. behind n k (WMark 0) WStart s \<Longrightarrow> \<exists>s. behind n (Suc k) (WMark 0) WStart s"
proof (elim exE)
  fix s assume s: "behind n k (WMark 0) WStart s"
  let ?r1 = "take_point (lring s)" let ?s1 = "lgoto False (WCheck k) ?r1 None s"
  let ?s2 = "lgoto False (WMark k) ?r1 None ?s1"
  let ?r3 = "set_state k 1 ?r1" let ?s3 = "lgoto False (WFill k) ?r3 None ?s2"
  let ?r4 = "put_line k 0 ?r3" let ?s4 = "lgoto False WDone ?r4 None ?s3"
  let ?s5 = "lgoto False WStart ?r4 None ?s4"
  have b: "unat (writing_point (lring s)) = k" "ring_num (lring s) = n" "elements_state (lring s) ! 0 = 0"
     "\<And>j. k \<le> j \<Longrightarrow> j < n \<Longrightarrow> elements_state (lring s) ! j = 0" "lowner s = None" "wpcs s False = WStart"
    using s by (auto simp: behind_def)
  then have wp: "unat (writing_point ?r1) = Suc k" using assms by (simp add: unat_plus1)
  have r1: "elements_state ?r1 = elements_state (lring s)" "elements_state ?r3 = (elements_state (lring s))[k := 1]"
    "elements_state ?r4 = (elements_state (lring s))[k := 2]"
    by (simp_all add: take_point_def set_state_def put_line_def set_ready_def)
  have "behind n (Suc k) (WMark 0) (WCheck k) ?s1"
    using behindI [OF s, of False "WCheck k" ?r1 "Suc k"] lstep.take [of s False] b wp assms by (auto simp: r1)
  then have "behind n (Suc k) (WMark 0) (WMark k) ?s2"
    using behindI [of n "Suc k" _ _ ?s1 False "WMark k" ?r1 "Suc k"] lstep.free [of ?s1 False k] b wp assms by (auto simp: r1)
  then have "behind n (Suc k) (WMark 0) (WFill k) ?s3"
    using behindI [of n "Suc k" _ _ ?s2 False "WFill k" ?r3 "Suc k"] lstep.mark [of ?s2 False k] b wp assms by (auto simp: r1)
  then have "behind n (Suc k) (WMark 0) WDone ?s4"
    using behindI [of n "Suc k" _ _ ?s3 False WDone ?r4 "Suc k"] lstep.ready [of ?s3 False k 0] b wp assms by (auto simp: r1)
  then have "behind n (Suc k) (WMark 0) WStart ?s5"
    using behindI [of n "Suc k" _ _ ?s4 False WStart ?r4 "Suc k"] lstep.again [of ?s4 False] b wp assms by (auto simp: r1)
  then show "\<exists>s. behind n (Suc k) (WMark 0) WStart s" by blast
qed

lemma behind_lap:
  assumes "n < 2 ^ 63" and "0 < n"
  shows "\<exists>s. behind n n (WMark 0) WStart s"
proof -
  have "\<exists>s. behind n (Suc k) (WMark 0) WStart s" if "k < n" for k
    using that
  proof (induction k)
    case 0
    then show ?case using behind_first assms by simp
  next
    case (Suc k)
    then show ?case using behind_round [of n "Suc k"] assms by auto
  qed
  then show ?thesis using assms(2) by (metis Suc_pred lessI diff_less zero_less_one)
qed

text \<open>C32: two threads can have one slot at the same time, whatever the size of the ring. A thread that
  is held up between its look at a slot and its mark is overtaken by another that goes round the ring and
  gets the same slot, still free. Both then write their line into it.\<close>

theorem slot_handed_out_twice:
  assumes "0 < n" and "n < 2 ^ 63"
  shows "\<exists>s :: (nat, bool) log_system. lreach n 0 s \<and> wpcs s True = WFill 0 \<and> wpcs s False = WFill 0"
proof -
  obtain s where s: "behind n n (WMark 0) WStart s" using behind_lap assms by blast
  have b: "lreach n 0 s" "unat (writing_point (lring s)) = n" "ring_num (lring s) = n" "elements_state (lring s) ! 0 = 0"
     "lowner s = None" "wpcs s False = WStart" "wpcs s True = WMark 0"
    using s by (auto simp: behind_def)
  let ?r1 = "take_point (lring s)" let ?s1 = "lgoto False WLocking ?r1 None s"
  let ?s2 = "lgoto False WLocked ?r1 (Some False) ?s1"
  let ?r3 = "take_point ?r1" let ?s3 = "lgoto False WReset ?r3 (Some False) ?s2"
  let ?r4 = "?r3\<lparr>writing_point := 1\<rparr>" let ?s4 = "lgoto False (WUnlock 0) ?r4 (Some False) ?s3"
  let ?s5 = "lgoto False (WCheck 0) ?r4 None ?s4" let ?s6 = "lgoto False (WMark 0) ?r4 None ?s5"
  let ?r7 = "set_state 0 1 ?r4" let ?s7 = "lgoto False (WFill 0) ?r7 None ?s6"
  let ?r8 = "set_state 0 1 ?r7" let ?s8 = "lgoto True (WFill 0) ?r8 None ?s7"
  have wp: "unat (writing_point (lring s) + 1) = Suc n" using b assms by (simp add: unat_plus1)
  have st: "elements_state ?r4 = elements_state (lring s)" by (simp add: take_point_def)
  have "lreach n 0 ?s1" using b by (intro lreach_then [OF b(1) lstep.take [of s False]]) simp_all
  then have "lreach n 0 ?s2" by (rule lreach_then [OF _ lstep.lock [of ?s1 False]]) simp_all
  then have "lreach n 0 ?s3" by (rule lreach_then [OF _ lstep.take_again [of ?s2 False]]) (use b wp in simp_all)
  then have "lreach n 0 ?s4" by (rule lreach_then [OF _ lstep.reset [of ?s3 False]]) simp_all
  then have "lreach n 0 ?s5" by (rule lreach_then [OF _ lstep.unlock [of ?s4 False 0]]) simp_all
  then have "lreach n 0 ?s6" by (rule lreach_then [OF _ lstep.free [of ?s5 False 0]]) (use b st in simp_all)
  then have "lreach n 0 ?s7" by (rule lreach_then [OF _ lstep.mark [of ?s6 False 0]]) simp_all
  then have "lreach n 0 ?s8" by (rule lreach_then [OF _ lstep.mark [of ?s7 True 0]]) (use b in simp_all)
  then show ?thesis by (intro exI [of _ ?s8]) simp
qed

theorem slot_handed_out_twice_witness:
  "\<exists>s :: (nat, bool) log_system. lreach 1024 0 s \<and> wpcs s True = WFill 0 \<and> wpcs s False = WFill 0"
  by (rule slot_handed_out_twice) simp_all

definition one_taken :: "(nat, bool) log_system" where
  "one_taken = lgoto True (WCheck 0) (take_point (new_ring 2 0)) None \<lparr>lring = new_ring 2 0, lowner = None, wpcs = \<lambda>t. WStart\<rparr>"

theorem ring_bounds_witness:
  "slot_of (wpcs one_taken True) = Some 0 \<and> unat (reading_point (lring one_taken)) < 2 \<and>
   unat (writing_point (lring one_taken)) \<le> 2 + 2 * card (UNIV :: bool set)"
proof -
  let ?s = "\<lparr>lring = new_ring 2 0, lowner = None, wpcs = \<lambda>t. WStart\<rparr> :: (nat, bool) log_system"
  have "lreach 2 0 one_taken"
    using lstep.take [of ?s True] by (intro lreach_then [OF lreach.init]) (simp_all add: one_taken_def new_ring_def)
  then show ?thesis using ring_bounds [of 2 0 one_taken] by (simp add: one_taken_def)
qed

end
