(* ===== verification/ProcessFork.thy ===== *)
theory ProcessFork
  imports WorkerRuns Logging
begin

unbundle bit_operations_syntax

text \<open>
  \<open>ProcessHelper\<close> (src/src/utils/ProcessHelper.cpp), \<open>ExceptUnwindExec\<close> (src/src/utils/ExceptUnwindExec.hpp)
  and \<open>ScopedStreamRedirect\<close> (src/src/utils/ScopedStreamRedirect.hpp): forking with the log stopped and
  started again, waiting for a child, and how the queue worker takes the answer.
\<close>

section \<open>Waiting\<close>

text \<open>The status macros of the C library; \<open>status\<close> is an \<open>int\<close>.\<close>

definition WEXITSTATUS :: "u32 \<Rightarrow> int" where
  "WEXITSTATUS status = uint (drop_bit 8 (status AND 0xFF00))"

definition WTERMSIG :: "u32 \<Rightarrow> int" where
  "WTERMSIG status = uint (status AND 0x7F)"

definition WIFEXITED :: "u32 \<Rightarrow> bool" where
  "WIFEXITED status \<longleftrightarrow> WTERMSIG status = 0"

definition WIFSIGNALED :: "u32 \<Rightarrow> bool" where
  "WIFSIGNALED status \<longleftrightarrow> 0 < WTERMSIG status \<and> WTERMSIG status < 0x7F"

definition WIFSTOPPED :: "u32 \<Rightarrow> bool" where
  "WIFSTOPPED status \<longleftrightarrow> status AND 0xFF = 0x7F"

definition WIFCONTINUED :: "u32 \<Rightarrow> bool" where
  "WIFCONTINUED status \<longleftrightarrow> status = 0xFFFF"

text \<open>
  \<open>waitpid\<close> gives its result and the status it stored, none when it stored nothing: on an error (-1)
  and, with \<open>WNOHANG\<close>, while no child changed (0).
\<close>

type_synonym waitpid_fn = "int \<Rightarrow> int \<Rightarrow> int \<times> u32 option"

definition process_wait :: "waitpid_fn \<Rightarrow> int \<Rightarrow> int \<Rightarrow> waitStatuses \<times> int" where
  "process_wait waitpid pid flags =
     (let waitpidres = fst (waitpid pid flags);
          status = (case snd (waitpid pid flags) of None \<Rightarrow> 0 | Some s \<Rightarrow> s) in
      if WIFEXITED status then (exited, WEXITSTATUS status)
      else if WIFSIGNALED status then (signaled, WTERMSIG status)
      else if WIFSTOPPED status then (stopped, WEXITSTATUS status)
      else if WIFCONTINUED status then (continued, 0)
      else (unknown, waitpidres))"

section \<open>Forking\<close>

text \<open>
  The logs of the parent and, when \<open>fork\<close> succeeded, of the child, each with the stream's buffer as it was; None when \<open>std::terminate\<close> ends the
  process. \<open>result\<close> is what \<open>fork\<close> returns in the parent.
\<close>

definition process_fork :: "(string \<Rightarrow> int \<Rightarrow> string) \<Rightarrow> int \<Rightarrow> clog \<Rightarrow> (clog option \<times> clog option) option" where
  "process_fork lt result c =
     (case PrepareToFork lt c of
        None \<Rightarrow> None
      | Some c' \<Rightarrow> Some (ParentPostFork c', if result = -1 then None else SignalFork c'))"

section \<open>Scoped helpers\<close>

text \<open>
  The destructor of \<open>ExceptUnwindExec\<close>: the callback runs when an exception is being thrown, and what
  it throws goes to the console; \<open>file\<close> is \<open>__FILE__\<close>.
\<close>

definition unwind_exec :: "string \<Rightarrow> nat \<Rightarrow> ('s \<times> string, unit) eff \<Rightarrow> 's \<times> string \<Rightarrow> 's \<times> string" where
  "unwind_exec file uncaught cb s =
     (if uncaught = 0 then s
      else case cb s of
        (Inr u, s') \<Rightarrow> s'
      | (Inl (StdExn k w), (s', err)) \<Rightarrow> (s', err @ file @ '': '' @ w @ [CHR 0x0A])
      | (Inl ForeignExn, (s', err)) \<Rightarrow> (s', err @ ''Unknown exception'' @ [CHR 0x0A]))"

text \<open>Streams name their buffers; a redirection keeps the buffer it replaced.\<close>

type_synonym ('n, 'b) streams = "'n \<Rightarrow> 'b"

record ('n, 'b) redirect =
  originalStream :: 'n
  originalBuffer :: 'b

definition redirect_begin :: "'n \<Rightarrow> 'n \<Rightarrow> ('n, 'b) streams \<Rightarrow> ('n, 'b) redirect \<times> ('n, 'b) streams" where
  "redirect_begin srcStream destStream st =
     (\<lparr>originalStream = srcStream, originalBuffer = st srcStream\<rparr>, st(srcStream := st destStream))"

definition redirect_end :: "('n, 'b) redirect \<Rightarrow> ('n, 'b) streams \<Rightarrow> ('n, 'b) streams" where
  "redirect_end r st = st(originalStream r := originalBuffer r)"

text \<open>Redirections that end in the reverse order of their beginning restore every stream.\<close>

lemma redirect_restores:
  "(\<And>n. n \<noteq> a \<Longrightarrow> st' n = st n) \<Longrightarrow> redirect_end (fst (redirect_begin a b st)) st' = st"
  by (auto simp: redirect_begin_def redirect_end_def fun_eq_iff)

section \<open>What the worker makes of it\<close>

text \<open>The status a child that ended leaves, as POSIX encodes it: an exit code, or the signal that killed it, with a bit
  for a core dump.\<close>

definition exit_status :: "nat \<Rightarrow> u32" where
  "exit_status code = push_bit 8 (of_nat code)"

lemma exit_status_decoded: "code < 256 \<Longrightarrow> WTERMSIG (exit_status code) = 0 \<and> WEXITSTATUS (exit_status code) = int code"
proof -
  assume code: "code < 256"
  let ?w = "of_nat code :: u32"
  have "push_bit 8 ?w AND 0x7F = take_bit 7 (push_bit 8 ?w)"
    by (simp add: take_bit_eq_mask mask_numeral)
  then have "WTERMSIG (exit_status code) = 0"
    by (simp add: WTERMSIG_def exit_status_def take_bit_push_bit)
  moreover have "drop_bit 8 (push_bit 8 ?w AND push_bit 8 (mask 8)) = take_bit 8 ?w"
    by (rule bit_word_eqI) (auto simp: bit_simps)
  then have "drop_bit 8 (push_bit 8 ?w AND 0xFF00) = take_bit 8 ?w"
    by (simp add: mask_numeral)
  moreover have "uint (take_bit 8 ?w) = int code"
    using code by (simp add: unsigned_take_bit_eq unsigned_of_nat take_bit_int_eq_self take_bit_nat_eq_self)
  ultimately show ?thesis by (simp add: WEXITSTATUS_def exit_status_def)
qed

lemma wait_exit: "snd (waitpid pid flags) = Some (exit_status code) \<Longrightarrow> code < 256 \<Longrightarrow>
    process_wait waitpid pid flags = (exited, int code)"
  by (simp add: process_wait_def WIFEXITED_def exit_status_decoded)

definition signal_status :: "nat \<Rightarrow> bool \<Rightarrow> u32" where
  "signal_status sig core = of_nat sig OR (if core then 0x80 else 0)"

lemma wait_signal:
  assumes "snd (waitpid pid flags) = Some (signal_status sig core)" and "0 < sig" and "sig < 127"
  shows "process_wait waitpid pid flags = (signaled, int sig)"
proof -
  have "sig \<in> set [1 ..< 127]" using assms(2,3) by simp
  moreover have "list_all (\<lambda>c. WTERMSIG (signal_status c True) = int c \<and> WTERMSIG (signal_status c False) = int c) [1 ..< 127]"
    by code_simp
  ultimately have "WTERMSIG (signal_status sig core) = int sig" by (cases core) (auto simp: list_all_iff)
  then show ?thesis using assms by (simp add: process_wait_def WIFEXITED_def WIFSIGNALED_def)
qed

lemma wait_failed: "snd (waitpid pid flags) = None \<Longrightarrow> process_wait waitpid pid flags = (exited, 0)"
  by (simp add: process_wait_def WIFEXITED_def WTERMSIG_def WEXITSTATUS_def)

text \<open>C33: the parent of a forked job takes the job for successful when the child exited with 0, and also
  when \<open>waitpid\<close> failed and says nothing about the child; a child that exited with another code or was killed by a signal,
  with or without a core dump, is retried or removed by the number of tries.\<close>

theorem forked_job_verdict:
  assumes env: "we_wait env = (\<lambda>pid. process_wait waitpid pid 0)" and "0 < pid"
    and "snd (waitpid pid 0) = None \<and> success \<or>
         (\<exists>code < 256. snd (waitpid pid 0) = Some (exit_status code) \<and> (success \<longleftrightarrow> code = 0)) \<or>
         (\<exists>sig core. 0 < sig \<and> sig < 127 \<and> snd (waitpid pid 0) = Some (signal_status sig core) \<and> \<not> success)"
  shows "run_by_pid env cls j pid joblog joblogerr datamap =
    (Inr (if success then noerror else process_retry_condition j), j, joblog, joblogerr, datamap)"
  using assms(3)
proof (elim disjE conjE exE)
  assume "snd (waitpid pid 0) = None" success
  then show ?thesis using env assms(2) wait_failed [of waitpid pid 0] by (simp add: run_by_pid_def)
next
  fix code assume "code < 256" "snd (waitpid pid 0) = Some (exit_status code)" "success \<longleftrightarrow> code = 0"
  then show ?thesis using env assms(2) wait_exit [of waitpid pid 0 code] by (simp add: run_by_pid_def)
next
  fix sig core assume "0 < sig" "sig < 127" "snd (waitpid pid 0) = Some (signal_status sig core)" "\<not> success"
  then show ?thesis using env assms(2) wait_signal [of waitpid pid 0 sig core] by (simp add: run_by_pid_def)
qed

text \<open>C34: a fork keeps the log. Whatever was logged before it, in batches that the writer passed and last lines it did
  not see yet, with fewer lines waiting at a time than the ring has slots, is in the file, once and in order, and nothing of
  it is left in the stream's buffer, which the child gets a copy of, so neither process writes it again. The parent goes on
  with its ring, empty, and the child with a new one; both have a running writer. When \<open>fork\<close> fails the parent goes on alike.\<close>

theorem fork_keeps_log:
  assumes "holds (log_ring c) k []" and "\<forall>b \<in> set bs. length b < ring_num (log_ring c)"
    and "length ends < ring_num (log_ring c)" and "log_writer c"
  shows "\<exists>c1 c2 p ch k'. log_batches lt others bs c = Some c1 \<and> log_all others ends c1 = Some c2 \<and>
    process_fork lt result c2 = Some (Some p, if result = -1 then None else Some ch) \<and>
    log_file p = log_file c @ concat (map (call_text lt) (concat bs @ ends)) \<and> log_file ch = log_file p \<and>
    log_buffer p = [] \<and> log_buffer ch = [] \<and>
    holds (log_ring p) k' [] \<and> log_ring ch = new_ring ring_size no_line \<and>
    log_writer p \<and> log_writer ch \<and> log_running p \<and> log_running ch"
proof -
  from log_batches_holds [OF assms(1,2), of lt others] obtain c1 where
    c1: "log_batches lt others bs c = Some c1" "same_log c1 c" "log_file c1 = log_file c @ concat (map (call_text lt) (concat bs))"
      "holds (log_ring c1) (slot (ring_num (log_ring c)) k (length (concat bs))) []" by blast
  have "length [] + length ends \<le> ring_num (log_ring c1)" using assms(3) c1(2) by (simp add: same_log_def)
  from log_all_holds [OF c1(4) this, of others] obtain c2 where
    c2: "log_all others ends c1 = Some c2" "log_file c2 = log_file c1" "same_log c2 c1"
      "holds (log_ring c2) (slot (ring_num (log_ring c)) k (length (concat bs))) (map call_line ends)" by auto
  let ?c = "c2\<lparr>log_running := False\<rparr>"
  have "holds (log_ring ?c) (slot (ring_num (log_ring c)) k (length (concat bs))) (map call_line ends)"
    "length (map call_line ends) < ring_num (log_ring ?c)"
    using c1(2) c2(3,4) assms(3) by (simp_all add: same_log_def)
  from pass_holds [OF this, of lt False] obtain c3 k' where
    c3: "addLinesToLog lt False ?c = Some (ends \<noteq> [], c3)" "log_file c3 = log_file c2 @ concat (map (call_text lt) ends)"
      "holds (log_ring c3) k' []" by auto
  let ?p = "log_flush c3\<lparr>log_writer := True, log_running := True\<rparr>"
  have "log_writer c2" using c1(2) c2(3) assms(4) by (simp add: same_log_def)
  then have "PrepareToFork lt c2 = Some (log_flush c3\<lparr>log_writer := False, log_running := True\<rparr>)"
    using c3(1) by (simp add: PrepareToFork_def join_writer_def Let_def)
  then have "process_fork lt result c2 =
      Some (Some ?p, if result = -1 then None else Some (?p\<lparr>log_ring := new_ring ring_size no_line\<rparr>))"
    by (simp add: process_fork_def ParentPostFork_def SignalFork_def start_writer_def)
  then show ?thesis
    using c1(1,3) c2(1,2) c3(2,3)
    by (intro exI [of _ c1] exI [of _ c2] exI [of _ ?p] exI [of _ "?p\<lparr>log_ring := new_ring ring_size no_line\<rparr>"] exI [of _ k'])
      (simp add: log_buffer_def log_flush_def)
qed

theorem forked_job_verdict_witness:
  "run_by_pid ((sample_env failing_class)\<lparr>we_wait := \<lambda>pid. process_wait (\<lambda>pid flags. (- 1, None)) pid 0\<rparr>)
     failing_class (new_job ()) 42 \<lparr>ls_open = True, ls_text = []\<rparr> \<lparr>ls_open = True, ls_text = []\<rparr> Map.empty =
   (Inr noerror, new_job (), \<lparr>ls_open = True, ls_text = []\<rparr>, \<lparr>ls_open = True, ls_text = []\<rparr>, Map.empty)"
  using forked_job_verdict [of "(sample_env failing_class)\<lparr>we_wait := \<lambda>pid. process_wait (\<lambda>pid flags. (- 1, None)) pid 0\<rparr>"
      "\<lambda>pid flags. (- 1, None)" 42 True] by simp

theorem fork_keeps_log_witness:
  "\<exists>c1 c2 p ch k'. log_batches fixed_time id [[(''1'', 7000, ''a'', [])]] (sample_log 2) = Some c1 \<and>
    log_all id [(''1'', 8000, ''b'', [])] c1 = Some c2 \<and>
    process_fork fixed_time 42 c2 = Some (Some p, if (42 :: int) = -1 then None else Some ch) \<and>
    log_file p = log_file (sample_log 2) @ concat (map (call_text fixed_time)
      (concat [[(''1'', 7000, ''a'', [])]] @ [(''1'', 8000, ''b'', [])])) \<and> log_file ch = log_file p \<and>
    log_buffer p = [] \<and> log_buffer ch = [] \<and>
    holds (log_ring p) k' [] \<and> log_ring ch = new_ring ring_size no_line \<and>
    log_writer p \<and> log_writer ch \<and> log_running p \<and> log_running ch"
  by (rule fork_keeps_log [where k = 0]) (use holds_new_ring [of 2 no_line] in \<open>simp_all add: sample_log_def new_ring_def\<close>)

end
