(* ===== verification/WebSocketServer.thy ===== *)
theory WebSocketServer
  imports WebSocketFrame Strutils "HOL-Library.Multiset"
begin

text \<open>
  The upgrade of an HTTP connection to a WebSocket: \<open>HandshakeWebSocket::doAccept\<close> and the functions it
  writes the answer with (src/src/WebSocket/HandshakeWebSocket.cpp), and \<open>RouterHandlerProxy\<close>
  (src/src/WebSocket/RouterHandler.cpp), which gives the bytes of a connection to its HTTP parser or, after
  the upgrade, to its WebSocket handler. Pistache's stream buffer, header collection, parser and router, the socket,
  SHA-1 and Base64 are arguments.
\<close>

section \<open>Writing the answer\<close>

text \<open>\<open>put max s buf\<close> is \<open>os << s\<close> on a \<open>DynamicStreamBuf\<close> of at most \<open>max\<close> bytes: the buffer and whether
  the stream is still good.\<close>

type_synonym stream_put = "nat \<Rightarrow> string \<Rightarrow> string \<Rightarrow> string \<times> bool"

definition crlf :: string where
  "crlf = [CHR 0x0D, CHR 0x0A]"

text \<open>A sequence of the macro \<open>OUT\<close>: the first piece that fails ends it.\<close>

fun out_all :: "stream_put \<Rightarrow> string list \<Rightarrow> string \<Rightarrow> string \<times> bool" where
  "out_all put [] buf = (buf, True)"
| "out_all put (s # ss) buf =
     (case put 256 s buf of (buf', ok) \<Rightarrow> if ok then out_all put ss buf' else (buf', False))"

text \<open>The raw headers are Pistache's collection of headers by name, \<open>'h\<close>; its \<open>rawList\<close> is walked in an order of its own.\<close>

record 'h ws_response =
  wsr_headers :: "(string \<times> string) list"
  wsr_raw :: 'h
  wsr_cookies :: "string list"

definition writeStatusLine :: "stream_put \<Rightarrow> string \<Rightarrow> nat \<Rightarrow> string \<Rightarrow> string \<Rightarrow> string \<times> bool" where
  "writeStatusLine put version code code_text buf =
     out_all put [version, '' '', string_of_nat code, '' '', code_text, crlf] buf"

fun header_pieces :: "(string \<times> string) list \<Rightarrow> string list" where
  "header_pieces [] = []"
| "header_pieces ((name, text) # hs) = name # '': '' # text # crlf # header_pieces hs"

definition writeHeaders :: "stream_put \<Rightarrow> ('h \<Rightarrow> (string \<times> string) list) \<Rightarrow> 'h ws_response \<Rightarrow> string \<Rightarrow> string \<times> bool" where
  "writeHeaders put rawList r buf =
     (case out_all put (header_pieces (wsr_headers r)) buf of
        (buf', ok) \<Rightarrow> if ok then out_all put (header_pieces (rawList (wsr_raw r))) buf' else (buf', False))"

fun cookie_pieces :: "string list \<Rightarrow> string list" where
  "cookie_pieces [] = []"
| "cookie_pieces (c # cs) = ''Set-Cookie: '' # c # crlf # cookie_pieces cs"

definition writeCookies :: "stream_put \<Rightarrow> 'h ws_response \<Rightarrow> string \<Rightarrow> string \<times> bool" where
  "writeCookies put r buf = out_all put (cookie_pieces (wsr_cookies r)) buf"

text \<open>\<open>write b k\<close> is \<open>pistachePeerWrite\<close> of all of \<open>b\<close> on a socket in state \<open>k\<close>: a count, negative on an error. It
  is \<open>SSL_write\<close> when the build has TLS and the peer uses it, whose length is an \<open>int\<close>.\<close>

type_synonym 'k socket_write = "string \<Rightarrow> 'k \<Rightarrow> int \<times> 'k"

definition pistachePeerWrite ::
  "bool \<Rightarrow> ('k \<Rightarrow> bool) \<Rightarrow> (int \<Rightarrow> 'k socket_write) \<Rightarrow> 'k socket_write \<Rightarrow> 'k socket_write" where
  "pistachePeerWrite use_ssl has_ssl SSL_write fd_write buffer k =
     (if use_ssl \<and> has_ssl k then SSL_write (sint (of_nat (length buffer) :: u32)) buffer k else fd_write buffer k)"

partial_function (option) stream_loop :: "'k socket_write \<Rightarrow> string \<Rightarrow> int \<Rightarrow> 'k \<Rightarrow> (int \<times> 'k) option" where
  "stream_loop write buf result k =
     (if length buf - nat result = 0 then Some (result, k)
      else case write (drop (nat result) buf) k of
        (current, k') \<Rightarrow> if current < 0 then Some (- result, k') else stream_loop write buf (result + current) k')"

definition streamWrite :: "'k socket_write \<Rightarrow> string \<Rightarrow> 'k \<Rightarrow> (int \<times> 'k) option" where
  "streamWrite write buf k =
     (case write buf k of (result, k') \<Rightarrow> if result < 0 then Some (result, k') else stream_loop write buf result k')"

definition head_of :: "stream_put \<Rightarrow> ('h \<Rightarrow> (string \<times> string) list) \<Rightarrow> string \<Rightarrow> string \<Rightarrow> 'h ws_response \<Rightarrow> string" where
  "head_of put rawList version code_text r =
     fst (writeCookies put r (fst (writeHeaders put rawList r (fst (writeStatusLine put version 101 code_text [])))))"

definition putOnWire :: "stream_put \<Rightarrow> ('h \<Rightarrow> (string \<times> string) list) \<Rightarrow> string \<Rightarrow> string \<Rightarrow> 'k socket_write \<Rightarrow>
    'h ws_response \<Rightarrow> 'k \<Rightarrow> 'k option" where
  "putOnWire put rawList version code_text write r k =
     (case streamWrite write (head_of put rawList version code_text r) k of
        None \<Rightarrow> None
      | Some (n, k') \<Rightarrow> map_option snd (streamWrite write crlf k'))"

definition WEBSOCKET_GUID :: string where
  "WEBSOCKET_GUID = ''258EAFA5-E914-47DA-95CA-C5AB0DC85B11''"

definition computeAccept :: "(string \<Rightarrow> string) \<Rightarrow> (string \<Rightarrow> string) \<Rightarrow> string \<Rightarrow> string" where
  "computeAccept sha1 base64 key = base64 (sha1 (key @ WEBSOCKET_GUID))"

record 'h handshake_env =
  hs_put :: stream_put
  hs_addRaw :: "string \<Rightarrow> string \<Rightarrow> 'h \<Rightarrow> 'h"
  hs_rawList :: "'h \<Rightarrow> (string \<times> string) list"
  hs_version :: string
  hs_code_text :: string
  hs_sha1 :: "string \<Rightarrow> string"
  hs_base64 :: "string \<Rightarrow> string"

text \<open>\<open>key\<close> is the raw header \<open>Sec-WebSocket-Key\<close>; \<open>getRaw\<close> throws when it is missing. The outer option is
  None when a write never ends.\<close>

definition doAccept ::
  "'h handshake_env \<Rightarrow> 'k socket_write \<Rightarrow> (string + string) \<Rightarrow> 'h ws_response \<Rightarrow> 'k \<Rightarrow>
    ((exn + unit) \<times> 'h ws_response \<times> 'k) option" where
  "doAccept e write key r k =
     (let addRaw = (\<lambda>name text r. r\<lparr>wsr_raw := hs_addRaw e name text (wsr_raw r)\<rparr>);
          r1 = addRaw ''Connection'' ''Upgrade'' (addRaw ''Upgrade'' ''websocket'' r) in
      case key of
        Inl what \<Rightarrow> Some (Inl (StdExn Runtime_error what), r1, k)
      | Inr v \<Rightarrow>
          (let r2 = addRaw ''Sec-WebSocket-Accept'' (computeAccept (hs_sha1 e) (hs_base64 e) v) r1 in
           map_option (\<lambda>k'. (Inr (), r2, k')) (putOnWire (hs_put e) (hs_rawList e) (hs_version e) (hs_code_text e) write r2 k)))"

section \<open>What the client sees\<close>

text \<open>Documented behaviour of the stream buffer: what fits is appended.\<close>

definition put_documented :: "stream_put \<Rightarrow> bool" where
  "put_documented put \<longleftrightarrow> (\<forall>m s buf. length buf + length s \<le> m \<longrightarrow> put m s buf = (buf @ s, True))"

text \<open>A connected socket: every write takes at least one byte, and \<open>wire\<close> is what it took so far.\<close>

definition socket_documented :: "('k \<Rightarrow> string) \<Rightarrow> 'k socket_write \<Rightarrow> bool" where
  "socket_documented wire write \<longleftrightarrow> (\<forall>b k. case write b k of (n, k') \<Rightarrow>
     0 \<le> n \<and> nat n \<le> length b \<and> (b \<noteq> [] \<longrightarrow> 0 < n) \<and> wire k' = wire k @ take (nat n) b)"

lemma socket_documentedD:
  assumes "socket_documented wire write" and "write b k = (n, k')"
  shows "0 \<le> n" "nat n \<le> length b" "b \<noteq> [] \<Longrightarrow> 0 < n" "wire k' = wire k @ take (nat n) b"
  using assms(1) [unfolded socket_documented_def, rule_format, of b k] assms(2) by simp_all

lemma out_all_fits:
  assumes "put_documented put" and "length buf + length (concat ss) \<le> 256"
  shows "out_all put ss buf = (buf @ concat ss, True)"
  using assms(2)
proof (induction ss arbitrary: buf)
  case (Cons s ss)
  then have "put 256 s buf = (buf @ s, True)" using assms(1) by (simp add: put_documented_def)
  then show ?case using Cons by simp
qed simp

lemma stream_loop_all:
  assumes doc: "socket_documented wire write" and "0 \<le> result" and "nat result \<le> length buf"
  shows "\<exists>k'. stream_loop write buf result k = Some (int (length buf), k') \<and> wire k' = wire k @ drop (nat result) buf"
  using assms(2,3)
proof (induction "length buf - nat result" arbitrary: result k rule: less_induct)
  case less
  show ?case
  proof (cases "length buf = nat result")
    case True
    then show ?thesis using less.prems by (subst stream_loop.simps) simp
  next
    case False
    obtain n k1 where w: "write (drop (nat result) buf) k = (n, k1)" by fastforce
    have n: "0 < n" "nat n \<le> length buf - nat result" "wire k1 = wire k @ take (nat n) (drop (nat result) buf)"
      using socket_documentedD [OF doc w] False less.prems by auto
    have "0 < nat n" using n by simp
    then have lt: "length buf - (nat result + nat n) < length buf - nat result" "nat result + nat n \<le> length buf"
      using n(2) less.prems(2) False by linarith+
    obtain k' where "stream_loop write buf (result + n) k1 = Some (int (length buf), k')"
        "wire k' = wire k1 @ drop (nat (result + n)) buf"
      using less.hyps [of "result + n" k1] n less.prems lt by (auto simp: nat_add_distrib)
    moreover have "take (nat n) (drop (nat result) buf) @ drop (nat (result + n)) buf = drop (nat result) buf"
      using n less.prems by (simp add: nat_add_distrib drop_drop [symmetric] add.commute [of "nat result"] del: drop_drop)
    ultimately show ?thesis using False less.prems w n by (subst stream_loop.simps) auto
  qed
qed

lemma streamWrite_all:
  assumes doc: "socket_documented wire write"
  obtains k' where "streamWrite write buf k = Some (int (length buf), k')" and "wire k' = wire k @ buf"
proof -
  obtain n k1 where w: "write buf k = (n, k1)" by fastforce
  have n: "0 \<le> n" "nat n \<le> length buf" "wire k1 = wire k @ take (nat n) buf"
    using socket_documentedD [OF doc w] by simp_all
  obtain k' where "stream_loop write buf n k1 = Some (int (length buf), k')" "wire k' = wire k1 @ drop (nat n) buf"
    using stream_loop_all [OF doc n(1,2)] by blast
  then show ?thesis using that n w by (simp add: streamWrite_def)
qed

definition header_text :: "(string \<times> string) list \<Rightarrow> string" where
  "header_text hs = concat (header_pieces hs)"

lemma length_header_text: "length (header_text hs) = sum_mset (image_mset (\<lambda>(n, t). length n + length t + 4) (mset hs))"
  by (induction hs rule: header_pieces.induct) (simp_all add: header_text_def crlf_def)

lemma header_pieces_append: "header_pieces (a @ b) = header_pieces a @ header_pieces b"
  by (induction a rule: header_pieces.induct) simp_all

text \<open>Documented behaviour of the header collection: a header of a new name, in letters of any case, is added.\<close>

definition raw_documented :: "(string \<Rightarrow> string \<Rightarrow> 'h \<Rightarrow> 'h) \<Rightarrow> ('h \<Rightarrow> (string \<times> string) list) \<Rightarrow> bool" where
  "raw_documented add lst \<longleftrightarrow> (\<forall>n t h. (\<forall>(n', t') \<in> set (lst h). to_lower n' \<noteq> to_lower n) \<longrightarrow>
     mset (lst (add n t h)) = add_mset (n, t) (mset (lst h)))"

lemma raw_documentedD:
  assumes "raw_documented add lst" and "\<forall>(n', t') \<in># mset (lst h). to_lower n' \<noteq> to_lower n"
  shows "mset (lst (add n t h)) = add_mset (n, t) (mset (lst h))"
  using assms by (simp add: raw_documented_def)

text \<open>The three headers RFC 6455 asks for in the answer to a request with this key: the accept value is the Base64
  form of the SHA-1 digest of the key with the fixed GUID behind it.\<close>

definition upgrade_headers :: "(string \<Rightarrow> string) \<Rightarrow> (string \<Rightarrow> string) \<Rightarrow> string \<Rightarrow> (string \<times> string) list" where
  "upgrade_headers sha1 base64 key =
     [(''Upgrade'', ''websocket''), (''Connection'', ''Upgrade''),
      (''Sec-WebSocket-Accept'', base64 (sha1 (key @ ''258EAFA5-E914-47DA-95CA-C5AB0DC85B11'')))]"

definition answer_text :: "string \<Rightarrow> string \<Rightarrow> (string \<times> string) list \<Rightarrow> string list \<Rightarrow> string" where
  "answer_text version code_text hs cookies =
     version @ '' 101 '' @ code_text @ crlf @ header_text hs @ concat (cookie_pieces cookies)"

lemma string_101: "string_of_nat 101 = ''101''"
  by code_simp

lemma head_of_fits:
  assumes "put_documented put"
    and "length (answer_text version code_text (wsr_headers r @ rawList (wsr_raw r)) (wsr_cookies r)) \<le> 256"
  shows "head_of put rawList version code_text r =
    answer_text version code_text (wsr_headers r @ rawList (wsr_raw r)) (wsr_cookies r)"
  using assms(2)
  by (simp add: head_of_def writeStatusLine_def writeHeaders_def writeCookies_def answer_text_def header_text_def string_101
      header_pieces_append out_all_fits [OF assms(1)] del: out_all.simps)

lemma length_answer_text:
  assumes "mset hs = mset hs'"
  shows "length (answer_text version code_text hs cookies) = length (answer_text version code_text hs' cookies)"
  using assms by (simp add: answer_text_def length_header_text)

text \<open>The header names as the collection compares them.\<close>

lemma upgrade_names:
  "to_lower ''Upgrade'' = ''upgrade''" "to_lower ''Connection'' = ''connection''"
  "to_lower ''Sec-WebSocket-Accept'' = ''sec-websocket-accept''"
  by code_simp+

lemma three_headers:
  assumes raw: "raw_documented add lst"
    and new: "\<forall>(n, t) \<in> set (lst h). to_lower n \<notin> {''upgrade'', ''connection'', ''sec-websocket-accept''}"
  shows "mset (lst (add ''Sec-WebSocket-Accept'' x (add ''Connection'' ''Upgrade'' (add ''Upgrade'' ''websocket'' h)))) =
    mset (lst h @ [(''Upgrade'', ''websocket''), (''Connection'', ''Upgrade''), (''Sec-WebSocket-Accept'', x)])"
proof -
  let ?h1 = "add ''Upgrade'' ''websocket'' h" let ?h2 = "add ''Connection'' ''Upgrade'' ?h1"
  have 1: "mset (lst ?h1) = add_mset (''Upgrade'', ''websocket'') (mset (lst h))"
    by (rule raw_documentedD [OF raw]) (use new in \<open>auto simp: upgrade_names\<close>)
  have 2: "mset (lst ?h2) = add_mset (''Connection'', ''Upgrade'') (mset (lst ?h1))"
    by (rule raw_documentedD [OF raw]) (unfold 1, use new in \<open>auto simp: upgrade_names\<close>)
  have 3: "mset (lst (add ''Sec-WebSocket-Accept'' x ?h2)) = add_mset (''Sec-WebSocket-Accept'', x) (mset (lst ?h2))"
    by (rule raw_documentedD [OF raw]) (unfold 2 1, use new in \<open>auto simp: upgrade_names\<close>)
  show ?thesis by (simp add: 1 2 3)
qed

text \<open>C35: a handshake ends, and what it puts on the wire is the answer RFC 6455 asks for: the status line, the headers of
  the response with the three of the upgrade, in the order of Pistache's collection, its cookies, and an empty line, as
  long as all of it but the last line fits into the 256 bytes of the buffer and the response has none of the three
  headers yet. Writes may be cut anywhere. SHA-1 and Base64 are Poco's.\<close>

theorem handshake_on_wire:
  assumes put: "put_documented (hs_put e)" and sock: "socket_documented wire write"
    and raw: "raw_documented (hs_addRaw e) (hs_rawList e)"
    and new: "\<forall>(n, t) \<in> set (hs_rawList e (wsr_raw r)). to_lower n \<notin> {''upgrade'', ''connection'', ''sec-websocket-accept''}"
    and fits: "length (answer_text (hs_version e) (hs_code_text e)
      (wsr_headers r @ hs_rawList e (wsr_raw r) @ upgrade_headers (hs_sha1 e) (hs_base64 e) key) (wsr_cookies r)) \<le> 256"
  shows "\<exists>r' k' hs. doAccept e write (Inr key) r k = Some (Inr (), r', k') \<and>
    mset hs = mset (hs_rawList e (wsr_raw r) @ upgrade_headers (hs_sha1 e) (hs_base64 e) key) \<and>
    wire k' = wire k @ answer_text (hs_version e) (hs_code_text e) (wsr_headers r @ hs) (wsr_cookies r) @ crlf"
proof -
  let ?acc = "computeAccept (hs_sha1 e) (hs_base64 e) key"
  let ?h = "hs_addRaw e ''Sec-WebSocket-Accept'' ?acc (hs_addRaw e ''Connection'' ''Upgrade''
    (hs_addRaw e ''Upgrade'' ''websocket'' (wsr_raw r)))"
  let ?r = "r\<lparr>wsr_raw := ?h\<rparr>"
  have hs: "mset (hs_rawList e ?h) = mset (hs_rawList e (wsr_raw r) @ upgrade_headers (hs_sha1 e) (hs_base64 e) key)"
    using three_headers [OF raw new, of ?acc] by (simp add: upgrade_headers_def computeAccept_def WEBSOCKET_GUID_def)
  then have "length (answer_text (hs_version e) (hs_code_text e) (wsr_headers r @ hs_rawList e ?h) (wsr_cookies r)) \<le> 256"
    using fits by (subst length_answer_text [where hs' = "wsr_headers r @ hs_rawList e (wsr_raw r) @
      upgrade_headers (hs_sha1 e) (hs_base64 e) key"]) simp_all
  then have head: "head_of (hs_put e) (hs_rawList e) (hs_version e) (hs_code_text e) ?r =
      answer_text (hs_version e) (hs_code_text e) (wsr_headers r @ hs_rawList e ?h) (wsr_cookies r)"
    using head_of_fits [OF put, of "hs_version e" "hs_code_text e" ?r "hs_rawList e"] by simp
  obtain k1 where k1: "streamWrite write (head_of (hs_put e) (hs_rawList e) (hs_version e) (hs_code_text e) ?r) k =
      Some (int (length (head_of (hs_put e) (hs_rawList e) (hs_version e) (hs_code_text e) ?r)), k1)"
      "wire k1 = wire k @ head_of (hs_put e) (hs_rawList e) (hs_version e) (hs_code_text e) ?r"
    by (rule streamWrite_all [OF sock])
  obtain k2 where k2: "streamWrite write crlf k1 = Some (int (length crlf), k2)" "wire k2 = wire k1 @ crlf"
    by (rule streamWrite_all [OF sock])
  have "doAccept e write (Inr key) r k = Some (Inr (), ?r, k2)"
    using k1(1) k2(1) by (simp add: doAccept_def putOnWire_def Let_def)
  moreover have "wire k2 = wire k @ answer_text (hs_version e) (hs_code_text e) (wsr_headers r @ hs_rawList e ?h) (wsr_cookies r) @ crlf"
    by (simp add: k2(2) k1(2) head)
  ultimately show ?thesis using hs by blast
qed

definition whole_put :: stream_put where
  "whole_put m s buf = (buf @ take (m - length buf) s, length buf + length s \<le> m)"

text \<open>A socket that takes at most 50 bytes at once.\<close>

definition slow_socket :: "string socket_write" where
  "slow_socket b k = (int (min 50 (length b)), k @ take 50 b)"

text \<open>A collection that is walked from its last header to its first.\<close>

definition toy_handshake :: "(string \<times> string) list handshake_env" where
  "toy_handshake = \<lparr>hs_put = whole_put, hs_addRaw = (\<lambda>n t h. h @ [(n, t)]), hs_rawList = rev, hs_version = ''HTTP/1.1'',
     hs_code_text = ''Switching Protocols'', hs_sha1 = rev, hs_base64 = take 28\<rparr>"

definition toy_response :: "(string \<times> string) list ws_response" where
  "toy_response = \<lparr>wsr_headers = [(''Server'', ''x'')], wsr_raw = [], wsr_cookies = [''a=b'']\<rparr>"

theorem handshake_on_wire_witness:
  "\<exists>r' k' hs. doAccept toy_handshake slow_socket (Inr ''key'') toy_response [] = Some (Inr (), r', k') \<and>
    mset hs = {#(''Upgrade'', ''websocket''), (''Connection'', ''Upgrade''), (''Sec-WebSocket-Accept'', ''11B58CD0BA5C-AC59-AD74-419E-'')#} \<and>
    k' = ''HTTP/1.1 101 Switching Protocols'' @ crlf @ ''Server: x'' @ crlf @ header_text hs @ ''Set-Cookie: a=b'' @ crlf @ crlf"
proof -
  have put: "put_documented (hs_put toy_handshake)"
    by (simp add: put_documented_def toy_handshake_def whole_put_def)
  have sock: "socket_documented id slow_socket"
    by (auto simp: socket_documented_def slow_socket_def min_def)
  have raw: "raw_documented (hs_addRaw toy_handshake) (hs_rawList toy_handshake)"
    by (simp add: raw_documented_def toy_handshake_def)
  have three: "upgrade_headers (hs_sha1 toy_handshake) (hs_base64 toy_handshake) ''key'' =
      [(''Upgrade'', ''websocket''), (''Connection'', ''Upgrade''), (''Sec-WebSocket-Accept'', ''11B58CD0BA5C-AC59-AD74-419E-'')]"
    by (simp add: upgrade_headers_def toy_handshake_def)
  have fits: "length (answer_text (hs_version toy_handshake) (hs_code_text toy_handshake)
      (wsr_headers toy_response @ hs_rawList toy_handshake (wsr_raw toy_response) @
        upgrade_headers (hs_sha1 toy_handshake) (hs_base64 toy_handshake) ''key'') (wsr_cookies toy_response)) \<le> 256"
    unfolding three by (simp add: answer_text_def header_text_def toy_handshake_def toy_response_def crlf_def)
  obtain r' k' hs where "doAccept toy_handshake slow_socket (Inr ''key'') toy_response [] = Some (Inr (), r', k')"
      "mset hs = mset (hs_rawList toy_handshake (wsr_raw toy_response) @
        upgrade_headers (hs_sha1 toy_handshake) (hs_base64 toy_handshake) ''key'')"
      "id k' = id [] @ answer_text (hs_version toy_handshake) (hs_code_text toy_handshake)
        (wsr_headers toy_response @ hs) (wsr_cookies toy_response) @ crlf"
    using handshake_on_wire [OF put sock raw _ fits, where k = "[]"] by (auto simp: toy_handshake_def toy_response_def)
  then show ?thesis
    unfolding three by (auto simp: answer_text_def header_text_def toy_handshake_def toy_response_def)
qed

section \<open>Turning the HTTP parser off\<close>

text \<open>
  The parser of Pistache as far as the workaround touches it: its steps, the current one and what it reads from.
  \<open>reset\<close> is Pistache's; \<open>parse\<close> runs the current step and goes on to the next one while steps say \<open>Next\<close>.
\<close>

datatype step_state = Again | Next | Done

record 'c http_parser =
  allSteps :: "('c \<Rightarrow> step_state \<times> 'c) list"
  currentStep :: nat
  ps_cursor :: 'c

definition DisableParserStep :: "'c \<Rightarrow> step_state \<times> 'c" where
  "DisableParserStep cursor = (Again, cursor)"

definition disableParserStep :: "('c http_parser \<Rightarrow> 'c http_parser) \<Rightarrow> 'c http_parser \<Rightarrow> 'c http_parser" where
  "disableParserStep reset p =
     (let p1 = reset p in p1\<lparr>allSteps := (allSteps p1)[0 := DisableParserStep], currentStep := 0\<rparr>)"

definition tweakDefaultHttpParser :: "('c http_parser \<Rightarrow> 'c http_parser) \<Rightarrow> 'c http_parser \<Rightarrow> 'c http_parser" where
  "tweakDefaultHttpParser reset p = disableParserStep reset (reset p)"

text \<open>The tweaked parser takes nothing and asks for more, whatever it is given.\<close>

lemma tweaked_parser_idle:
  assumes "\<And>p. length (allSteps (reset p)) = length (allSteps p)" and "allSteps p \<noteq> []"
  shows "(allSteps (tweakDefaultHttpParser reset p) ! currentStep (tweakDefaultHttpParser reset p)) c = (Again, c)"
  using assms(2) assms(1) [of p] assms(1) [of "reset p"]
  by (simp add: tweakDefaultHttpParser_def disableParserStep_def Let_def DisableParserStep_def)

section \<open>The connection\<close>

text \<open>
  A peer: its HTTP parser, its WebSocket handler after an upgrade, what the handler gave to \<open>onMessage\<close>, the
  answers sent without a handler's help and \<open>idle\<close>.
\<close>

record 'p ws_peer =
  pe_parser :: 'p
  pe_handler :: "ws_frame option"
  pe_messages :: "ws_frame list"
  pe_sent :: "(nat \<times> string) list"
  pe_idle :: bool

record ('p, 'r) router_env =
  rh_new_parser :: 'p
  rh_feed :: "string \<Rightarrow> 'p \<Rightarrow> (exn + bool) \<times> 'p"
  rh_parse :: "'p \<Rightarrow> (exn + bool) \<times> 'p"
  rh_reset :: "'p \<Rightarrow> 'p"
  rh_request :: "'p \<Rightarrow> 'r"
  rh_connection :: "'r \<Rightarrow> string option"
  rh_onRequest :: "'r \<Rightarrow> string \<Rightarrow> ('p ws_peer, unit) eff"
  rh_onDisconnection :: "('p ws_peer, unit) eff option"
  rh_alloc :: "u64 \<Rightarrow> bool"

definition onConnection :: "('p, 'r) router_env \<Rightarrow> 'p ws_peer \<Rightarrow> 'p ws_peer" where
  "onConnection e peer = peer\<lparr>pe_parser := rh_new_parser e\<rparr>"

definition onDisconnection :: "('p, 'r) router_env \<Rightarrow> 'p ws_peer \<Rightarrow> 'p ws_peer" where
  "onDisconnection e peer =
     (if pe_handler peer = None then peer
      else case rh_onDisconnection e of None \<Rightarrow> peer | Some cb \<Rightarrow> snd (cb peer))"

text \<open>The body of the \<open>try\<close> block: feeding, parsing and the call of the routes.\<close>

definition http_input :: "('p, 'r) router_env \<Rightarrow> string \<Rightarrow> ('p ws_peer, unit) eff" where
  "http_input e buffer peer =
     (case rh_feed e buffer (pe_parser peer) of
        (Inl x, p) \<Rightarrow> (Inl x, peer\<lparr>pe_parser := p\<rparr>)
      | (Inr False, p) \<Rightarrow>
          (Inl (StdExn (Http_error 413) ''Request exceeded maximum buffer size''), peer\<lparr>pe_parser := rh_reset e p\<rparr>)
      | (Inr True, p) \<Rightarrow>
          (case rh_parse e p of
             (Inl x, p') \<Rightarrow> (Inl x, peer\<lparr>pe_parser := p'\<rparr>)
           | (Inr False, p') \<Rightarrow> (Inr (), peer\<lparr>pe_parser := p'\<rparr>)
           | (Inr True, p') \<Rightarrow>
               (let request = rh_request e p';
                    connection = (case rh_connection e request of None \<Rightarrow> ''Close'' | Some c \<Rightarrow> c) in
                case rh_onRequest e request connection (peer\<lparr>pe_parser := p'\<rparr>) of
                  (Inl x, peer') \<Rightarrow> (Inl x, peer')
                | (Inr u, peer') \<Rightarrow> (Inr (), peer'\<lparr>pe_parser := rh_reset e (pe_parser peer')\<rparr>))))"

definition send_error :: "('p, 'r) router_env \<Rightarrow> nat \<Rightarrow> string \<Rightarrow> 'p ws_peer \<Rightarrow> 'p ws_peer" where
  "send_error e code text peer =
     peer\<lparr>pe_sent := pe_sent peer @ [(code, text)], pe_parser := rh_reset e (pe_parser peer)\<rparr>"

definition proxy_onInput :: "('p, 'r) router_env \<Rightarrow> string \<Rightarrow> 'p ws_peer \<Rightarrow> ((exn + unit) \<times> 'p ws_peer) ws option" where
  "proxy_onInput e buffer peer =
     (case pe_handler peer of
        Some fr \<Rightarrow>
          (case onInput (rh_alloc e) fr buffer of
             None \<Rightarrow> None
           | Some WAbort \<Rightarrow> Some WAbort
           | Some (WThrow x) \<Rightarrow> Some (WThrow x)
           | Some (WOk (fr', msgs)) \<Rightarrow>
               Some (WOk (Inr (), peer\<lparr>pe_idle := False, pe_handler := Some fr', pe_messages := pe_messages peer @ msgs\<rparr>)))
      | None \<Rightarrow>
          Some (WOk (case http_input e buffer peer of
             (Inr u, peer') \<Rightarrow> (Inr (), peer')
           | (Inl (StdExn (Http_error code) reason), peer') \<Rightarrow> (Inr (), send_error e code reason peer')
           | (Inl (StdExn k what), peer') \<Rightarrow> (Inr (), send_error e 500 what peer')
           | (Inl ForeignExn, peer') \<Rightarrow> (Inl ForeignExn, peer'))))"

fun proxy_inputs :: "('p, 'r) router_env \<Rightarrow> string list \<Rightarrow> 'p ws_peer \<Rightarrow> 'p ws_peer option" where
  "proxy_inputs e [] peer = Some peer"
| "proxy_inputs e (b # bs) peer =
     (case proxy_onInput e b peer of
        Some (WOk (Inr u, peer')) \<Rightarrow> proxy_inputs e bs peer'
      | other \<Rightarrow> None)"

lemma proxy_inputs_append:
  "proxy_inputs e (as @ bs) peer = (case proxy_inputs e as peer of None \<Rightarrow> None | Some peer' \<Rightarrow> proxy_inputs e bs peer')"
  by (induction as arbitrary: peer) (auto split: option.splits ws.splits prod.splits sum.splits)

text \<open>The buffers of one frame: only the last one brings it to \<open>onMessage\<close>.\<close>

lemma proxy_frame:
  assumes "pe_handler peer = Some fr" and "receiveData (rh_alloc e) fr (concat bs) = WOk (fr1, length (concat bs), True)"
    and "[] \<notin> set bs" and "bs \<noteq> []"
  shows "proxy_inputs e bs peer = Some (peer\<lparr>pe_idle := False, pe_handler := Some (fr1\<lparr>wf_flags := 0, wf_lenByte := 0\<rparr>),
    pe_messages := pe_messages peer @ [fr1]\<rparr>)"
  using assms
proof (induction bs arbitrary: peer fr)
  case (Cons b bs)
  show ?case
  proof (cases "bs = []")
    case True
    then have "onInput (rh_alloc e) fr b = Some (WOk (fr1\<lparr>wf_flags := 0, wf_lenByte := 0\<rparr>, [fr1]))"
      using Cons.prems(2) by (simp add: onInput_def onInput_loop.simps [of "rh_alloc e" _ fr])
    then show ?thesis using True Cons.prems(1) by (simp add: proxy_onInput_def)
  next
    case False
    then have "concat bs \<noteq> []" using Cons.prems(3) by (cases bs) auto
    then obtain fr' where fr': "receiveData (rh_alloc e) fr b = WOk (fr', length b, False)"
        "receiveData (rh_alloc e) fr' (concat bs) = WOk (fr1, length (concat bs), True)"
      using receive_split [of "rh_alloc e" fr b "concat bs" fr1] Cons.prems(2) by auto
    then have "onInput (rh_alloc e) fr b = Some (WOk (fr', []))"
      by (simp add: onInput_def onInput_loop.simps [of "rh_alloc e" _ fr])
    then show ?thesis
      using Cons.IH [of "peer\<lparr>pe_idle := False, pe_handler := Some fr'\<rparr>" fr'] fr'(2) Cons.prems(1,3) False
      by (simp add: proxy_onInput_def)
  qed
qed simp

text \<open>C36: after the upgrade every frame with a payload reaches \<open>onMessage\<close>, once, in the order of arrival and with its payload
  unmasked, however it is cut into buffers, as long as no buffer has bytes of two frames; the HTTP parser is left
  alone and nothing is sent. (A frame without a payload is never finished: see the theory of the frames.)\<close>

theorem upgraded_messages:
  assumes "pe_handler peer = Some fr" and "frame_ready fr"
    and "\<forall>(flags, mopt, p, bs) \<in> set frames. sendable (rh_alloc e) flags mopt p \<and>
      concat bs = encode_frame flags mopt p \<and> [] \<notin> set bs"
  shows "\<exists>peer' msgs. proxy_inputs e (concat (map (\<lambda>(flags, mopt, p, bs). bs) frames)) peer = Some peer' \<and>
    pe_messages peer' = pe_messages peer @ msgs \<and>
    map (\<lambda>m. (wf_flags m, wf_payload m)) msgs = map (\<lambda>(flags, mopt, p, bs). (int flags, p)) frames \<and>
    pe_parser peer' = pe_parser peer \<and> pe_sent peer' = pe_sent peer"
  using assms
proof (induction frames arbitrary: peer fr)
  case Nil
  then show ?case by simp
next
  case (Cons f frames)
  obtain flags mopt p bs where f: "f = (flags, mopt, p, bs)" by (cases f)
  have s: "sendable (rh_alloc e) flags mopt p" and bs: "concat bs = encode_frame flags mopt p" "[] \<notin> set bs"
    using Cons.prems(3) by (simp_all add: f)
  from bs(1) have "bs \<noteq> []" by (auto simp: encode_frame_def)
  obtain fr1 where fr1: "receiveData (rh_alloc e) fr (encode_frame flags mopt p) =
      WOk (fr1, length (encode_frame flags mopt p), True)" "wf_payload fr1 = p" "wf_flags fr1 = int flags" "frame_ready fr1"
    using receive_sendable [OF Cons.prems(2) s] by blast
  let ?peer = "peer\<lparr>pe_idle := False, pe_handler := Some (fr1\<lparr>wf_flags := 0, wf_lenByte := 0\<rparr>),
    pe_messages := pe_messages peer @ [fr1]\<rparr>"
  have "proxy_inputs e bs peer = Some ?peer"
    by (rule proxy_frame [OF Cons.prems(1) _ bs(2) \<open>bs \<noteq> []\<close>]) (simp add: bs(1) fr1(1))
  moreover have "\<exists>peer' msgs. proxy_inputs e (concat (map (\<lambda>(flags, mopt, p, bs). bs) frames)) ?peer = Some peer' \<and>
    pe_messages peer' = pe_messages ?peer @ msgs \<and>
    map (\<lambda>m. (wf_flags m, wf_payload m)) msgs = map (\<lambda>(flags, mopt, p, bs). (int flags, p)) frames \<and>
    pe_parser peer' = pe_parser ?peer \<and> pe_sent peer' = pe_sent ?peer"
    by (rule Cons.IH [where fr = "fr1\<lparr>wf_flags := 0, wf_lenByte := 0\<rparr>"]) (use fr1(4) Cons.prems(3) in \<open>auto simp: frame_ready_def\<close>)
  ultimately show ?case using fr1(2,3) by (auto simp: f proxy_inputs_append intro!: exI [of _ "fr1 # _"])
qed

definition toy_router :: "(nat, nat) router_env" where
  "toy_router = \<lparr>rh_new_parser = 0, rh_feed = (\<lambda>b p. (Inr True, p)), rh_parse = (\<lambda>p. (Inr False, p)), rh_reset = (\<lambda>p. 0),
     rh_request = id, rh_connection = (\<lambda>r. None), rh_onRequest = (\<lambda>r c. ret ()), rh_onDisconnection = None,
     rh_alloc = (\<lambda>n. n < 1000)\<rparr>"

definition toy_peer :: "nat ws_peer" where
  "toy_peer = \<lparr>pe_parser = 7, pe_handler = Some new_frame, pe_messages = [], pe_sent = [], pe_idle = True\<rparr>"

definition toy_frames :: "(nat \<times> string option \<times> string \<times> string list) list" where
  "toy_frames = [(129, None, ''one'', [encode_frame 129 None ''one'']),
     (130, Some ''abcd'', ''two'', map (\<lambda>c. [c]) (encode_frame 130 (Some ''abcd'') ''two''))]"

theorem upgraded_messages_witness:
  "\<exists>peer' msgs. proxy_inputs toy_router (encode_frame 129 None ''one'' #
      map (\<lambda>c. [c]) (encode_frame 130 (Some ''abcd'') ''two'')) toy_peer = Some peer' \<and>
    pe_messages peer' = msgs \<and> map (\<lambda>m. (wf_flags m, wf_payload m)) msgs = [(129, ''one''), (130, ''two'')] \<and>
    pe_parser peer' = 7 \<and> pe_sent peer' = []"
  using upgraded_messages [of toy_peer new_frame toy_frames toy_router]
  by (auto simp: toy_peer_def toy_router_def toy_frames_def frame_ready_def new_frame_def sendable_def encode_frame_def)

end
