(* ===== verification/DocApi.thy ===== *)
theory DocApi
  imports Json
begin

text \<open>
  The OpenAPI recorder \<open>DocAPI\<close> (src/src/utils/DocAPI.cpp, DocAPI.hpp). \<open>lastroutedata\<close> points into
  \<open>paths\<close>, at the entry of the last route and method, so the state has the route and the method and
  the operations update the entry in place. The tests of a \<open>Var\<close>, the printer and the lower
  casing of Poco are arguments.
\<close>

section \<open>Schemas\<close>

text \<open>\<open>vk_text\<close> is \<open>toString\<close> of a \<open>Var\<close> that is a string.\<close>

record var_kinds =
  vk_isArray :: "jvar \<Rightarrow> bool"
  vk_isString :: "jvar \<Rightarrow> bool"
  vk_isBoolean :: "jvar \<Rightarrow> bool"
  vk_isInteger :: "jvar \<Rightarrow> bool"
  vk_text :: "jvar \<Rightarrow> string"

definition array_items :: "jvar list \<Rightarrow> jobj" where
  "array_items xs = obj_set ''type'' (JStr ''object'')
     (obj_set ''example'' (if length xs > 0 then xs ! 0 else JObj []) [])"

fun json_to_swagger :: "var_kinds \<Rightarrow> jvar \<Rightarrow> jobj"
  and swagger_properties :: "var_kinds \<Rightarrow> jobj \<Rightarrow> jobj \<Rightarrow> jobj" where
  "json_to_swagger vk v =
     (let result = obj_set ''description'' (JStr []) [] in
      if vk_isArray vk v then
        (let r1 = obj_set ''type'' (JStr ''array'') result in
         case extract_arr v of
           Inr (Some xs) \<Rightarrow> obj_set ''items'' (JObj (array_items xs)) r1
         | other \<Rightarrow> r1)
      else if vk_isString vk v then
        obj_set ''example'' (JStr (vk_text vk v)) (obj_set ''type'' (JStr ''string'') result)
      else if vk_isBoolean vk v then
        obj_set ''example'' v (obj_set ''type'' (JStr ''boolean'') result)
      else if vk_isInteger vk v then
        obj_set ''example'' v (obj_set ''type'' (JStr ''integer'') result)
      else if \<not> isEmpty v then
        (let r1 = obj_set ''type'' (JStr ''object'') result in
         case v of
           JObj fs \<Rightarrow> obj_set ''properties'' (JObj (swagger_properties vk fs [])) r1
         | other \<Rightarrow> r1)
      else result)"
| "swagger_properties vk [] properties = properties"
| "swagger_properties vk ((k, v) # fs) properties =
     swagger_properties vk fs (obj_set k (JObj (json_to_swagger vk v)) properties)"

declare json_to_swagger.simps [simp del]

text \<open>The copy dereferences the pointer it is given: a null one throws.\<close>

definition content_schema_json :: "var_kinds \<Rightarrow> jobj option \<Rightarrow> exn + jobj" where
  "content_schema_json vk json =
     sum_bind (deref json) (\<lambda>copy.
       let appjson = obj_set ''schema'' (JObj (json_to_swagger vk (JObj copy))) []
       in Inr (obj_set ''application/json'' (JObj appjson) []))"

section \<open>The recorder\<close>

record docapi =
  da_lastroute :: string
  da_lastmethod :: string
  da_registered :: bool
  da_mainobj :: jobj
  da_paths :: jobj
  da_log :: string
  da_open :: bool

record security_schema =
  se_type :: string
  se_scheme :: string
  se_bearerFormat :: string

record doc_request =
  dr_method :: string
  dr_resource :: string
  dr_query :: "(string \<times> string) list"

definition new_docapi :: docapi where
  "new_docapi =
     (let info = obj_set ''version'' (JStr ''1.0.0'') (obj_set ''title'' (JStr ''api'') (obj_set ''contact'' (JObj []) []));
          components = obj_set ''securitySchemes'' (JObj []) []
      in \<lparr>da_lastroute = [], da_lastmethod = [], da_registered = False,
         da_mainobj = obj_set ''components'' (JObj components) (obj_set ''servers'' (JArr [])
           (obj_set ''openapi'' (JStr ''3.0.0'') (obj_set ''info'' (JObj info) []))),
         da_paths = [], da_log = [], da_open = False\<rparr>)"

text \<open>Updates through a pointer to a member: of the object, or of the array, under a key.\<close>

definition in_object :: "string \<Rightarrow> (jobj \<Rightarrow> exn + jobj) \<Rightarrow> jobj \<Rightarrow> exn + jobj" where
  "in_object k f o' = sum_bind (deref (obj_getObject o' k)) (\<lambda>x.
     sum_bind (f x) (\<lambda>x'. Inr (obj_set k (JObj x') o')))"

definition in_array :: "string \<Rightarrow> (jvar list \<Rightarrow> exn + jvar list) \<Rightarrow> jobj \<Rightarrow> exn + jobj" where
  "in_array k f o' = sum_bind (deref (obj_getArray o' k)) (\<lambda>x.
     sum_bind (f x) (\<lambda>x'. Inr (obj_set k (JArr x') o')))"

definition in_main :: "(jobj \<Rightarrow> exn + jobj) \<Rightarrow> docapi \<Rightarrow> exn + docapi" where
  "in_main f d = sum_bind (f (da_mainobj d)) (\<lambda>m. Inr (d\<lparr>da_mainobj := m\<rparr>))"

definition set_contact :: "string \<Rightarrow> string \<Rightarrow> string \<Rightarrow> docapi \<Rightarrow> exn + docapi" where
  "set_contact name email url =
     in_main (in_object ''info'' (in_object ''contact'' (\<lambda>c.
       Inr (obj_set ''url'' (JStr url) (obj_set ''email'' (JStr email) (obj_set ''name'' (JStr name) c))))))"

definition add_server :: "string \<Rightarrow> string \<Rightarrow> docapi \<Rightarrow> exn + docapi" where
  "add_server description url =
     in_main (in_array ''servers'' (\<lambda>servers.
       Inr (servers @ [JObj (obj_set ''url'' (JStr url) (obj_set ''description'' (JStr description) []))])))"

definition set_api_info_basic :: "string \<Rightarrow> string \<Rightarrow> docapi \<Rightarrow> exn + docapi" where
  "set_api_info_basic title description =
     in_main (in_object ''info'' (\<lambda>info.
       Inr (obj_set ''description'' (JStr description) (obj_set ''title'' (JStr title) info))))"

definition set_security_schema :: "string \<Rightarrow> security_schema \<Rightarrow> docapi \<Rightarrow> exn + docapi" where
  "set_security_schema name s =
     in_main (in_object ''components'' (in_object ''securitySchemes'' (\<lambda>schemes.
       Inr (obj_set name (JObj (obj_set ''bearerFormat'' (JStr (se_bearerFormat s))
         (obj_set ''scheme'' (JStr (se_scheme s)) (obj_set ''type'' (JStr (se_type s)) [])))) schemes))))"

text \<open>Updates through \<open>lastroutedata\<close>; it is null before the first \<open>register_route_in\<close>.\<close>

definition in_route :: "(jobj \<Rightarrow> exn + jobj) \<Rightarrow> docapi \<Rightarrow> exn + docapi" where
  "in_route f d =
     (if \<not> da_registered d then Inl null_pointer
      else sum_bind (in_object (da_lastroute d) (in_object (da_lastmethod d) f) (da_paths d))
        (\<lambda>p. Inr (d\<lparr>da_paths := p\<rparr>)))"

text \<open>\<open>has_security\<close> is the search of \<open>register_route_security\<close>.\<close>

fun has_security :: "string \<Rightarrow> jvar list \<Rightarrow> exn + bool" where
  "has_security nm [] = Inr False"
| "has_security nm (v # vs) =
     sum_bind (extract_obj v) (\<lambda>p. sum_bind (deref p) (\<lambda>json.
       if obj_has json nm then Inr True else has_security nm vs))"

definition register_route_security :: "string \<Rightarrow> docapi \<Rightarrow> exn + docapi" where
  "register_route_security securityName =
     in_route (in_array ''security'' (\<lambda>security.
       sum_bind (has_security securityName security) (\<lambda>found.
         Inr (if found then security else security @ [JObj (obj_set securityName (JArr []) [])]))))"

definition register_route_description :: "string list \<Rightarrow> string \<Rightarrow> docapi \<Rightarrow> exn + docapi" where
  "register_route_description tags description =
     in_route (\<lambda>route. Inr (obj_set ''tags'' (JArr (map JStr tags)) (obj_set ''description'' (JStr description) route)))"

definition query_param :: "string \<times> string \<Rightarrow> jvar" where
  "query_param q =
     (let schema = obj_set ''example'' (JStr (snd q)) (obj_set ''type'' (JStr ''string'') []) in
      JObj (obj_set ''schema'' (JObj schema) (obj_set ''description'' (JStr []) (obj_set ''required'' (JBool True)
        (obj_set ''name'' (JStr (fst q)) (obj_set ''in'' (JStr ''query'') []))))))"

text \<open>The part of \<open>register_route_in\<close> after \<open>lastroutedata\<close> is set.\<close>

definition route_defaults :: "doc_request \<Rightarrow> jobj \<Rightarrow> jobj" where
  "route_defaults rq route =
     (let r1 = obj_set ''description'' (JStr ''Teste'') route;
          r2 = (if obj_has r1 ''responses'' then r1 else obj_set ''responses'' (JObj []) r1);
          r3 = (if obj_has r2 ''security'' then r2 else obj_set ''security'' (JArr []) r2)
      in if dr_query rq \<noteq> [] \<and> \<not> obj_has r3 ''parameters''
         then obj_set ''parameters'' (JArr (map query_param (dr_query rq))) r3 else r3)"

definition with_member :: "string \<Rightarrow> jobj \<Rightarrow> jobj" where
  "with_member k o' = (if obj_has o' k then o' else obj_set k (JObj []) o')"

definition register_route_in :: "(string \<Rightarrow> string) \<Rightarrow> doc_request \<Rightarrow> docapi \<Rightarrow> exn + docapi" where
  "register_route_in lower rq d =
     (let route = dr_resource rq; method = lower (dr_method rq);
          d1 = d\<lparr>da_lastroute := route, da_lastmethod := method, da_registered := True\<rparr>
      in sum_bind (in_object route (\<lambda>js. in_object method (\<lambda>r. Inr (route_defaults rq r)) (with_member method js))
           (with_member route (da_paths d))) (\<lambda>p. Inr (d1\<lparr>da_paths := p\<rparr>)))"

definition register_route_body :: "var_kinds \<Rightarrow> jobj option \<Rightarrow> docapi \<Rightarrow> exn + docapi" where
  "register_route_body vk json d =
     (if \<not> da_registered d then Inr d
      else in_route (\<lambda>route. sum_bind (content_schema_json vk json) (\<lambda>content. Inr (obj_set ''requestBody''
        (JObj (obj_set ''content'' (JObj content) (obj_set ''required'' (JBool True) []))) route))) d)"

definition code_entry :: "var_kinds \<Rightarrow> jobj option \<Rightarrow> exn + jobj" where
  "code_entry vk json = sum_bind (content_schema_json vk json) (\<lambda>content.
     Inr (obj_set ''description'' (JStr []) (obj_set ''content'' (JObj content) [])))"

definition register_route_resp_json :: "var_kinds \<Rightarrow> nat \<Rightarrow> jobj option \<Rightarrow> docapi \<Rightarrow> exn + docapi" where
  "register_route_resp_json vk code json d =
     (if \<not> da_registered d then Inr d
      else in_route (\<lambda>route. sum_bind (extract_obj (obj_get route ''responses'')) (\<lambda>p.
        case p of
          None \<Rightarrow> Inr route
        | Some responses \<Rightarrow> sum_bind (code_entry vk json) (\<lambda>codejson.
            Inr (obj_set ''responses'' (JObj (obj_set (string_of_nat code) (JObj codejson) responses)) route)))) d)"

text \<open>\<open>stringify\<close> gives what it wrote and what it threw, if it did: then the file stays open, and the
  next dump goes on behind that text. Opening the file truncates it, and is taken to succeed.\<close>

definition doc_dump :: "(jobj \<Rightarrow> string \<times> exn option) \<Rightarrow> docapi \<Rightarrow> (exn + unit) \<times> docapi" where
  "doc_dump stringify d =
     (let log = (if \<not> da_open d then [] else da_log d);
          m = obj_set ''paths'' (JObj (da_paths d)) (da_mainobj d);
          (t, thrown) = stringify m
      in case thrown of
           Some e \<Rightarrow> (Inl e, d\<lparr>da_mainobj := m, da_log := log @ t, da_open := True\<rparr>)
         | None \<Rightarrow> (Inr (), d\<lparr>da_mainobj := m, da_log := log @ t @ [CHR 0x0A], da_open := False\<rparr>))"

section \<open>The document keeps its shape\<close>

definition route_ok :: "jobj \<Rightarrow> bool" where
  "route_ok r \<longleftrightarrow> (\<exists>x. obj_get r ''responses'' = JObj x) \<and>
     (\<exists>xs. obj_get r ''security'' = JArr xs \<and> (\<forall>v \<in> set xs. \<exists>x. v = JObj x))"

definition methods_ok :: "jobj \<Rightarrow> bool" where
  "methods_ok js \<longleftrightarrow> (\<forall>m. obj_has js m \<longrightarrow> (\<exists>r. obj_get js m = JObj r \<and> route_ok r))"

definition main_ok :: "jobj \<Rightarrow> bool" where
  "main_ok m \<longleftrightarrow> (\<exists>info c. obj_get m ''info'' = JObj info \<and> obj_get info ''contact'' = JObj c) \<and>
     (\<exists>xs. obj_get m ''servers'' = JArr xs) \<and>
     (\<exists>comp s. obj_get m ''components'' = JObj comp \<and> obj_get comp ''securitySchemes'' = JObj s)"

definition doc_ok :: "docapi \<Rightarrow> bool" where
  "doc_ok d \<longleftrightarrow> main_ok (da_mainobj d) \<and>
     (\<forall>p. obj_has (da_paths d) p \<longrightarrow> (\<exists>js. obj_get (da_paths d) p = JObj js \<and> methods_ok js)) \<and>
     (da_registered d \<longrightarrow> obj_has (da_paths d) (da_lastroute d) \<and>
       (\<exists>js. obj_get (da_paths d) (da_lastroute d) = JObj js \<and> obj_has js (da_lastmethod d)))"

lemma in_object_JObj: "obj_get o' k = JObj x \<Longrightarrow> f x = Inr x' \<Longrightarrow> in_object k f o' = Inr (obj_set k (JObj x') o')"
  by (simp add: in_object_def obj_getObject_def deref_def)

lemma in_array_JArr: "obj_get o' k = JArr x \<Longrightarrow> f x = Inr x' \<Longrightarrow> in_array k f o' = Inr (obj_set k (JArr x') o')"
  by (simp add: in_array_def obj_getArray_def deref_def)

lemma doc_ok_main: "doc_ok d \<Longrightarrow> main_ok m \<Longrightarrow> doc_ok (d\<lparr>da_mainobj := m\<rparr>)"
  by (simp add: doc_ok_def)

text \<open>The route of the last request, and putting another in its place.\<close>

lemma doc_ok_route:
  assumes "doc_ok d" and "da_registered d"
  obtains js r where "obj_get (da_paths d) (da_lastroute d) = JObj js" and "obj_get js (da_lastmethod d) = JObj r"
    and "route_ok r" and "methods_ok js"
  using assms unfolding doc_ok_def methods_ok_def by (metis jvar.inject(7))

lemma in_route_ok:
  assumes d: "doc_ok d" and reg: "da_registered d" and f: "\<And>r. route_ok r \<Longrightarrow> \<exists>r'. f r = Inr r' \<and> route_ok r'"
  obtains js r r' where "obj_get (da_paths d) (da_lastroute d) = JObj js" and "obj_get js (da_lastmethod d) = JObj r"
    and "f r = Inr r'"
    and "in_route f d = Inr (d\<lparr>da_paths := obj_set (da_lastroute d) (JObj (obj_set (da_lastmethod d) (JObj r') js)) (da_paths d)\<rparr>)"
    and "doc_ok (d\<lparr>da_paths := obj_set (da_lastroute d) (JObj (obj_set (da_lastmethod d) (JObj r') js)) (da_paths d)\<rparr>)"
proof -
  obtain js r where js: "obj_get (da_paths d) (da_lastroute d) = JObj js" "obj_get js (da_lastmethod d) = JObj r"
      "route_ok r" "methods_ok js" using doc_ok_route [OF d reg] .
  obtain r' where r': "f r = Inr r'" "route_ok r'" using f js(3) by blast
  have run: "in_route f d = Inr (d\<lparr>da_paths := obj_set (da_lastroute d) (JObj (obj_set (da_lastmethod d) (JObj r') js)) (da_paths d)\<rparr>)"
    using reg in_object_JObj [where f = "in_object (da_lastmethod d) f", OF js(1) in_object_JObj [where f = f, OF js(2) r'(1)]]
    by (simp add: in_route_def)
  have "methods_ok (obj_set (da_lastmethod d) (JObj r') js)"
    using js(4) r'(2) by (simp add: methods_ok_def)
  then have "doc_ok (d\<lparr>da_paths := obj_set (da_lastroute d) (JObj (obj_set (da_lastmethod d) (JObj r') js)) (da_paths d)\<rparr>)"
    using d by (simp add: doc_ok_def)
  with that [OF js(1,2) r'(1) run] show ?thesis .
qed

lemma route_ok_set: "route_ok r \<Longrightarrow> k \<noteq> ''responses'' \<Longrightarrow> k \<noteq> ''security'' \<Longrightarrow> route_ok (obj_set k v r)"
  by (simp add: route_ok_def)

lemma route_ok_defaults: "r = [] \<or> route_ok r \<Longrightarrow> route_ok (route_defaults rq r)"
  by (auto simp: route_ok_def route_defaults_def Let_def obj_has_def obj_get_def split: option.splits)

lemma in_route_ex:
  assumes "doc_ok d" and "da_registered d" and "\<And>r. route_ok r \<Longrightarrow> \<exists>r'. f r = Inr r' \<and> route_ok r'"
  shows "\<exists>d'. in_route f d = Inr d' \<and> doc_ok d' \<and> da_registered d'"
proof (rule in_route_ok [OF assms])
  fix js r r'
  let ?d = "d\<lparr>da_paths := obj_set (da_lastroute d) (JObj (obj_set (da_lastmethod d) (JObj r') js)) (da_paths d)\<rparr>"
  assume "in_route f d = Inr ?d" and "doc_ok ?d"
  then show ?thesis using assms(2) by (intro exI [of _ ?d]) simp
qed

lemma has_security_ok: "\<forall>v \<in> set xs. \<exists>x. v = JObj x \<Longrightarrow> \<exists>b. has_security nm xs = Inr b"
proof (induction xs)
  case Nil
  then show ?case by (intro exI [of _ False]) simp
next
  case (Cons v xs)
  then obtain x b where "v = JObj x" "has_security nm xs = Inr b" by auto
  then have "has_security nm (v # xs) = Inr (obj_has x nm \<or> b)" by (simp add: deref_def)
  then show ?case by blast
qed

section \<open>What throws\<close>

datatype doc_call =
  SetContact string string string
| AddServer string string
| SetInfo string string
| SetSecuritySchema string security_schema
| RouteIn doc_request
| RouteBody "jobj option"
| RouteResponse nat "jobj option"
| RouteSecurity string
| RouteDescription "string list" string
| Dump

text \<open>A call from code that goes on when it throws. Only \<open>dump\<close> changes something before it throws; \<open>register_route_in\<close>
  would, but does not throw on a document in shape.\<close>

fun kept :: "docapi \<Rightarrow> exn + docapi \<Rightarrow> (exn + unit) \<times> docapi" where
  "kept d (Inl e) = (Inl e, d)"
| "kept d (Inr d') = (Inr (), d')"

fun doc_run :: "var_kinds \<Rightarrow> (string \<Rightarrow> string) \<Rightarrow> (jobj \<Rightarrow> string \<times> exn option) \<Rightarrow> doc_call \<Rightarrow> docapi \<Rightarrow> (exn + unit) \<times> docapi" where
  "doc_run vk lower pr (SetContact n e u) d = kept d (set_contact n e u d)"
| "doc_run vk lower pr (AddServer t u) d = kept d (add_server t u d)"
| "doc_run vk lower pr (SetInfo t u) d = kept d (set_api_info_basic t u d)"
| "doc_run vk lower pr (SetSecuritySchema n s) d = kept d (set_security_schema n s d)"
| "doc_run vk lower pr (RouteIn rq) d = kept d (register_route_in lower rq d)"
| "doc_run vk lower pr (RouteBody j) d = kept d (register_route_body vk j d)"
| "doc_run vk lower pr (RouteResponse c j) d = kept d (register_route_resp_json vk c j d)"
| "doc_run vk lower pr (RouteSecurity n) d = kept d (register_route_security n d)"
| "doc_run vk lower pr (RouteDescription ts t) d = kept d (register_route_description ts t d)"
| "doc_run vk lower pr Dump d = doc_dump pr d"

fun doc_run_all :: "var_kinds \<Rightarrow> (string \<Rightarrow> string) \<Rightarrow> (jobj \<Rightarrow> string \<times> exn option) \<Rightarrow> doc_call list \<Rightarrow> docapi \<Rightarrow> docapi" where
  "doc_run_all vk lower pr [] d = d"
| "doc_run_all vk lower pr (c # cs) d = doc_run_all vk lower pr cs (snd (doc_run vk lower pr c d))"

text \<open>The calls that meet a null pointer: the ones without a test of \<open>lastroutedata\<close> before a route was
  registered, and, after that, the ones that are given a null object.\<close>

fun meets_null :: "bool \<Rightarrow> doc_call \<Rightarrow> bool" where
  "meets_null registered (RouteSecurity n) = (\<not> registered)"
| "meets_null registered (RouteDescription ts t) = (\<not> registered)"
| "meets_null registered (RouteBody j) = (registered \<and> j = None)"
| "meets_null registered (RouteResponse c j) = (registered \<and> j = None)"
| "meets_null registered c = False"

definition printed :: "docapi \<Rightarrow> jobj" where
  "printed d = obj_set ''paths'' (JObj (da_paths d)) (da_mainobj d)"

definition outcome_of :: "(jobj \<Rightarrow> string \<times> exn option) \<Rightarrow> doc_call \<Rightarrow> docapi \<Rightarrow> exn + unit" where
  "outcome_of pr c d =
     (if meets_null (da_registered d) c then Inl null_pointer
      else if c = Dump then (case snd (pr (printed d)) of Some e \<Rightarrow> Inl e | None \<Rightarrow> Inr ()) else Inr ())"

definition members :: "jvar \<Rightarrow> jobj" where
  "members v = (case v of JObj x \<Rightarrow> x | _ \<Rightarrow> [])"

lemma members_simps [simp]: "members (JObj x) = x" "members JEmpty = []"
  by (simp_all add: members_def)

lemma obj_get_with_member: "obj_get (with_member k x) k' =
    (if k = k' \<and> \<not> obj_has x k then JObj [] else obj_get x k')"
  by (simp add: with_member_def)

lemma obj_get_missing: "\<not> obj_has x k \<Longrightarrow> obj_get x k = JEmpty"
  by (simp add: obj_has_def obj_get_def)

definition after_route_in :: "(string \<Rightarrow> string) \<Rightarrow> doc_request \<Rightarrow> docapi \<Rightarrow> docapi" where
  "after_route_in lower rq d =
     (let js = members (obj_get (da_paths d) (dr_resource rq)); m = lower (dr_method rq)
      in d\<lparr>da_lastroute := dr_resource rq, da_lastmethod := m, da_registered := True,
        da_paths := obj_set (dr_resource rq) (JObj (obj_set m (JObj (route_defaults rq (members (obj_get js m)))) (with_member m js)))
          (with_member (dr_resource rq) (da_paths d))\<rparr>)"

lemma register_route_in_ok:
  assumes "doc_ok d"
  shows "register_route_in lower rq d = Inr (after_route_in lower rq d)" and "doc_ok (after_route_in lower rq d)"
proof -
  let ?k = "dr_resource rq" let ?m = "lower (dr_method rq)"
  let ?js = "members (obj_get (da_paths d) ?k)" let ?r = "members (obj_get ?js ?m)"
  have js: "obj_get (with_member ?k (da_paths d)) ?k = JObj ?js" "methods_ok ?js"
    using assms by (cases "obj_has (da_paths d) ?k"; auto simp: obj_get_with_member obj_get_missing doc_ok_def methods_ok_def)+
  have r: "obj_get (with_member ?m ?js) ?m = JObj ?r" "?r = [] \<or> route_ok ?r"
    using js(2) by (cases "obj_has ?js ?m"; auto simp: obj_get_with_member obj_get_missing methods_ok_def)+
  show "register_route_in lower rq d = Inr (after_route_in lower rq d)"
    using in_object_JObj [where f = "\<lambda>js. in_object ?m (\<lambda>r. Inr (route_defaults rq r)) (with_member ?m js)", OF js(1)
        in_object_JObj [where f = "\<lambda>r. Inr (route_defaults rq r)", OF r(1) refl]]
    by (simp add: register_route_in_def after_route_in_def Let_def)
  have "methods_ok (obj_set ?m (JObj (route_defaults rq ?r)) (with_member ?m ?js))"
    using js(2) route_ok_defaults [OF r(2), of rq] by (auto simp: methods_ok_def with_member_def)
  then show "doc_ok (after_route_in lower rq d)"
    using assms by (auto simp: doc_ok_def with_member_def after_route_in_def Let_def)
qed

definition keeps_shape :: "doc_call \<Rightarrow> docapi \<Rightarrow> docapi \<Rightarrow> bool" where
  "keeps_shape c d d' \<longleftrightarrow> doc_ok d' \<and> (da_registered d' \<longleftrightarrow> da_registered d \<or> (\<exists>rq. c = RouteIn rq))"

lemma kept_in_route:
  assumes "doc_ok d" and "da_registered d" and "\<And>r. route_ok r \<Longrightarrow> \<exists>r'. f r = Inr r' \<and> route_ok r'"
    and "\<And>rq. c \<noteq> RouteIn rq"
  shows "fst (kept d (in_route f d)) = Inr () \<and> keeps_shape c d (snd (kept d (in_route f d)))"
proof -
  have "\<exists>d'. in_route f d = Inr d' \<and> doc_ok d' \<and> da_registered d'" by (rule in_route_ex) (fact assms)+
  then obtain d' where "in_route f d = Inr d'" "doc_ok d'" "da_registered d'" by blast
  with assms(2,4) show ?thesis by (simp add: keeps_shape_def)
qed

lemma null_in_route:
  assumes "doc_ok d" and "da_registered d" and "\<And>r. route_ok r \<Longrightarrow> f r = Inl e"
  shows "in_route f d = Inl e"
proof -
  obtain js r where "obj_get (da_paths d) (da_lastroute d) = JObj js" "obj_get js (da_lastmethod d) = JObj r" "route_ok r"
    using doc_ok_route [OF assms(1,2)] .
  then show ?thesis using assms(2,3) by (simp add: in_route_def in_object_def obj_getObject_def deref_def)
qed

lemma content_schema_Some: "\<exists>c. content_schema_json vk (Some json) = Inr c"
  by (simp add: content_schema_json_def deref_def Let_def)

lemma doc_run_ok:
  assumes d: "doc_ok d"
  shows "fst (doc_run vk lower pr c d) = outcome_of pr c d \<and> keeps_shape c d (snd (doc_run vk lower pr c d))"
proof (cases c)
  case (SetContact n e u)
  then show ?thesis using d
    by (auto simp: set_contact_def in_main_def in_object_JObj doc_ok_def main_ok_def outcome_of_def keeps_shape_def)
next
  case (AddServer t u)
  then show ?thesis using d
    by (auto simp: add_server_def in_main_def in_array_JArr doc_ok_def main_ok_def outcome_of_def keeps_shape_def)
next
  case (SetInfo t u)
  then show ?thesis using d
    by (auto simp: set_api_info_basic_def in_main_def in_object_JObj doc_ok_def main_ok_def outcome_of_def keeps_shape_def)
next
  case (SetSecuritySchema n s)
  then show ?thesis using d
    by (auto simp: set_security_schema_def in_main_def in_object_JObj doc_ok_def main_ok_def outcome_of_def keeps_shape_def)
next
  case (RouteIn rq)
  then show ?thesis using register_route_in_ok [OF d, of lower rq]
    by (simp add: outcome_of_def keeps_shape_def) (simp add: after_route_in_def Let_def)
next
  case (RouteBody j)
  show ?thesis
  proof (cases "da_registered d")
    case reg: True
    show ?thesis
    proof (cases j)
      case None
      have "in_route (\<lambda>route. sum_bind (content_schema_json vk None) (\<lambda>content. Inr (obj_set ''requestBody''
          (JObj (obj_set ''content'' (JObj content) (obj_set ''required'' (JBool True) []))) route))) d = Inl null_pointer"
        by (rule null_in_route [OF d reg]) (simp add: content_schema_json_def deref_def)
      with None RouteBody reg d show ?thesis
        by (simp add: register_route_body_def outcome_of_def keeps_shape_def)
    next
      case (Some json)
      obtain x where "content_schema_json vk (Some json) = Inr x" using content_schema_Some by blast
      with Some RouteBody reg show ?thesis
        using kept_in_route [OF d reg, of "\<lambda>route. Inr (obj_set ''requestBody''
          (JObj (obj_set ''content'' (JObj x) (obj_set ''required'' (JBool True) []))) route)" c]
        by (simp add: register_route_body_def outcome_of_def route_ok_set)
    qed
  next
    case False
    then show ?thesis using d RouteBody by (simp add: register_route_body_def outcome_of_def keeps_shape_def)
  qed
next
  case (RouteResponse code j)
  let ?f = "\<lambda>route. sum_bind (extract_obj (obj_get route ''responses'')) (\<lambda>p.
        case p of None \<Rightarrow> Inr route
        | Some responses \<Rightarrow> sum_bind (code_entry vk j) (\<lambda>codejson.
            Inr (obj_set ''responses'' (JObj (obj_set (string_of_nat code) (JObj codejson) responses)) route)))"
  show ?thesis
  proof (cases "da_registered d")
    case reg: True
    show ?thesis
    proof (cases j)
      case None
      have "in_route ?f d = Inl null_pointer"
        by (rule null_in_route [OF d reg]) (auto simp: None code_entry_def content_schema_json_def deref_def route_ok_def)
      then have "doc_run vk lower pr c d = (Inl null_pointer, d)"
        using reg by (simp only: RouteResponse doc_run.simps register_route_resp_json_def kept.simps not_True_eq_False if_False)
      with None RouteResponse reg d show ?thesis by (simp add: outcome_of_def keeps_shape_def)
    next
      case (Some json)
      obtain x where "code_entry vk j = Inr x" using content_schema_Some [of vk json] by (auto simp: Some code_entry_def)
      then have "\<exists>r'. ?f r = Inr r' \<and> route_ok r'" if "route_ok r" for r using that by (auto simp: route_ok_def)
      with Some RouteResponse reg show ?thesis
        using kept_in_route [OF d reg, of ?f c] by (simp add: register_route_resp_json_def outcome_of_def)
    qed
  next
    case False
    then show ?thesis using d RouteResponse by (simp add: register_route_resp_json_def outcome_of_def keeps_shape_def)
  qed
next
  case (RouteSecurity n)
  let ?f = "in_array ''security'' (\<lambda>security. sum_bind (has_security n security) (\<lambda>found.
         Inr (if found then security else security @ [JObj (obj_set n (JArr []) [])])))"
  have "\<exists>r'. ?f r = Inr r' \<and> route_ok r'" if r: "route_ok r" for r
  proof -
    obtain xs where xs: "obj_get r ''security'' = JArr xs" "\<forall>v \<in> set xs. \<exists>x. v = JObj x" using r by (auto simp: route_ok_def)
    obtain b where "has_security n xs = Inr b" using has_security_ok [OF xs(2)] by blast
    then show ?thesis using xs r by (auto simp: in_array_JArr [OF xs(1)] route_ok_def)
  qed
  then show ?thesis using d RouteSecurity kept_in_route [OF d, of ?f c]
    by (cases "da_registered d") (simp_all add: register_route_security_def outcome_of_def, simp add: in_route_def keeps_shape_def)
next
  case (RouteDescription ts t)
  then show ?thesis
    using d kept_in_route [OF d, of "\<lambda>route. Inr (obj_set ''tags'' (JArr (map JStr ts)) (obj_set ''description'' (JStr t) route))" c]
    by (cases "da_registered d")
      (simp_all add: register_route_description_def outcome_of_def route_ok_set, simp add: in_route_def keeps_shape_def)
next
  case Dump
  then show ?thesis using d
    by (auto simp: doc_dump_def Let_def doc_ok_def main_ok_def outcome_of_def keeps_shape_def printed_def split: prod.split option.split)
qed

lemma new_docapi_ok: "doc_ok new_docapi"
  by (simp add: doc_ok_def main_ok_def new_docapi_def Let_def)

lemma doc_run_all_ok:
  assumes "doc_ok d"
  shows "doc_ok (doc_run_all vk lower pr cs d) \<and>
    (da_registered (doc_run_all vk lower pr cs d) \<longleftrightarrow> da_registered d \<or> (\<exists>rq. RouteIn rq \<in> set cs))"
  using assms
proof (induction cs arbitrary: d)
  case (Cons c cs)
  then show ?case using doc_run_ok [of d vk lower pr c] by (auto simp: keeps_shape_def)
qed simp

text \<open>C37: after any calls on a new recorder, some of which may have thrown, the document has its shape (every path has an
  object of methods, every method an object with responses and a list of security requirements), and it is known what a
  further call does: it throws a null pointer exactly when it sets the description or the security before a route was
  registered, or gives a null object as the body or the answer after that; a dump throws what the printing of the
  document throws; and no other call throws.\<close>

theorem docapi_throws_exactly:
  "doc_ok (doc_run_all vk lower pr cs new_docapi) \<and>
   fst (doc_run vk lower pr c (doc_run_all vk lower pr cs new_docapi)) =
     (if meets_null (\<exists>rq. RouteIn rq \<in> set cs) c then Inl null_pointer
      else if c = Dump then (case snd (pr (printed (doc_run_all vk lower pr cs new_docapi))) of Some e \<Rightarrow> Inl e | None \<Rightarrow> Inr ())
      else Inr ())"
proof -
  have "da_registered (doc_run_all vk lower pr cs new_docapi) \<longleftrightarrow> (\<exists>rq. RouteIn rq \<in> set cs)"
    using doc_run_all_ok [OF new_docapi_ok] by (simp add: new_docapi_def Let_def)
  with doc_run_all_ok [OF new_docapi_ok] doc_run_ok show ?thesis by (simp add: outcome_of_def)
qed

text \<open>The entry of a response in the document.\<close>

definition doc_response :: "docapi \<Rightarrow> string \<Rightarrow> string \<Rightarrow> string \<Rightarrow> jvar" where
  "doc_response d route method code =
     obj_get (members (obj_get (members (obj_get (members (obj_get (da_paths d) route)) method)) ''responses'')) code"

lemma route_defaults_responses:
  "members (obj_get (route_defaults rq r) ''responses'') = members (obj_get r ''responses'')"
  by (simp add: route_defaults_def Let_def obj_get_missing)

lemma doc_response_route_in: "doc_response (after_route_in lower rq d) p m c = doc_response d p m c"
  by (simp add: doc_response_def after_route_in_def Let_def route_defaults_responses obj_get_with_member)

lemma doc_response_resp_json:
  assumes "doc_ok d" and "da_registered d" and "code_entry vk json = Inr codejson"
  shows "\<exists>d'. register_route_resp_json vk code json d = Inr d' \<and>
    (\<forall>p m c. doc_response d' p m c =
      (if p = da_lastroute d \<and> m = da_lastmethod d \<and> c = string_of_nat code then JObj codejson
       else doc_response d p m c))"
proof (rule in_route_ok [OF assms(1,2), where f = "\<lambda>route. sum_bind (extract_obj (obj_get route ''responses'')) (\<lambda>p.
        case p of None \<Rightarrow> Inr route
        | Some responses \<Rightarrow> Inr (obj_set ''responses'' (JObj (obj_set (string_of_nat code) (JObj codejson) responses)) route))"])
  fix r assume "route_ok r"
  then show "\<exists>r'. sum_bind (extract_obj (obj_get r ''responses'')) (\<lambda>p.
        case p of None \<Rightarrow> Inr r
        | Some responses \<Rightarrow> Inr (obj_set ''responses'' (JObj (obj_set (string_of_nat code) (JObj codejson) responses)) r)) =
      Inr r' \<and> route_ok r'" by (auto simp: route_ok_def)
next
  fix js r r'
  let ?d = "d\<lparr>da_paths := obj_set (da_lastroute d) (JObj (obj_set (da_lastmethod d) (JObj r') js)) (da_paths d)\<rparr>"
  assume a: "obj_get (da_paths d) (da_lastroute d) = JObj js" "obj_get js (da_lastmethod d) = JObj r"
    "sum_bind (extract_obj (obj_get r ''responses'')) (\<lambda>p.
        case p of None \<Rightarrow> Inr r
        | Some responses \<Rightarrow> Inr (obj_set ''responses'' (JObj (obj_set (string_of_nat code) (JObj codejson) responses)) r)) = Inr r'"
    "in_route (\<lambda>route. sum_bind (extract_obj (obj_get route ''responses'')) (\<lambda>p.
        case p of None \<Rightarrow> Inr route
        | Some responses \<Rightarrow> Inr (obj_set ''responses'' (JObj (obj_set (string_of_nat code) (JObj codejson) responses)) route))) d = Inr ?d"
  obtain rs where "obj_get r ''responses'' = JObj rs"
    by (rule doc_ok_route [OF assms(1,2)]) (use a(1,2) in \<open>auto simp: route_ok_def\<close>)
  then have r': "r' = obj_set ''responses'' (JObj (obj_set (string_of_nat code) (JObj codejson) rs)) r"
    using a(3) by simp
  show ?thesis
  proof (intro exI conjI allI)
    show "register_route_resp_json vk code json d = Inr ?d" using a(4) assms(2,3) by (simp add: register_route_resp_json_def)
    show "doc_response ?d p m c = (if p = da_lastroute d \<and> m = da_lastmethod d \<and> c = string_of_nat code
        then JObj codejson else doc_response d p m c)" for p m c
      using a(1,2) \<open>obj_get r ''responses'' = JObj rs\<close> by (simp add: doc_response_def r')
  qed
qed

text \<open>After a request, the recorded answer is in the document under its path, its method and its
  code, with the schema of the answer, and no other answer of the document changed.\<close>

theorem doc_response_recorded:
  assumes "d = doc_run_all vk lower pr cs new_docapi" and "code_entry vk json = Inr codejson"
  shows "\<exists>d1 d2. register_route_in lower rq d = Inr d1 \<and> register_route_resp_json vk code json d1 = Inr d2 \<and>
    doc_response d2 (dr_resource rq) (lower (dr_method rq)) (string_of_nat code) = JObj codejson \<and>
    (\<forall>p m c. (p, m, c) \<noteq> (dr_resource rq, lower (dr_method rq), string_of_nat code) \<longrightarrow>
       doc_response d2 p m c = doc_response d p m c)"
proof -
  have d: "doc_ok d" using doc_run_all_ok [OF new_docapi_ok] assms(1) by simp
  let ?d = "after_route_in lower rq d"
  have "da_registered ?d" "da_lastroute ?d = dr_resource rq" "da_lastmethod ?d = lower (dr_method rq)"
    by (simp_all add: after_route_in_def Let_def)
  with doc_response_resp_json [OF register_route_in_ok(2) [OF d, of lower rq] _ assms(2), of code]
  obtain d2 where "register_route_resp_json vk code json ?d = Inr d2"
      "\<forall>p m c. doc_response d2 p m c = (if p = dr_resource rq \<and> m = lower (dr_method rq) \<and> c = string_of_nat code
         then JObj codejson else doc_response ?d p m c)" by auto
  then show ?thesis using register_route_in_ok(1) [OF d, of lower rq]
    by (auto simp: doc_response_route_in)
qed

definition plain_kinds :: var_kinds where
  "plain_kinds = \<lparr>vk_isArray = (\<lambda>v. case v of JArr x \<Rightarrow> True | _ \<Rightarrow> False), vk_isString = (\<lambda>v. case v of JStr s \<Rightarrow> True | _ \<Rightarrow> False),
     vk_isBoolean = (\<lambda>v. case v of JBool b \<Rightarrow> True | _ \<Rightarrow> False), vk_isInteger = (\<lambda>v. case v of JInt i \<Rightarrow> True | _ \<Rightarrow> False),
     vk_text = (\<lambda>v. case v of JStr s \<Rightarrow> s | _ \<Rightarrow> [])\<rparr>"

definition sample_route :: doc_request where
  "sample_route = \<lparr>dr_method = ''POST'', dr_resource = ''/jobs'', dr_query = [(''page'', ''1'')]\<rparr>"

theorem doc_response_recorded_witness:
  "\<exists>d1 d2 e. register_route_in (\<lambda>s. ''post'') sample_route new_docapi = Inr d1 \<and>
    register_route_resp_json plain_kinds 200 (Some []) d1 = Inr d2 \<and> code_entry plain_kinds (Some []) = Inr e \<and>
    doc_response d2 ''/jobs'' ''post'' ''200'' = JObj e"
proof -
  have "string_of_nat 200 = ''200''" by code_simp
  moreover obtain e where e: "code_entry plain_kinds (Some []) = Inr e"
    using content_schema_Some [of plain_kinds "[]"] by (auto simp: code_entry_def)
  ultimately show ?thesis
    using doc_response_recorded [OF _ e, of new_docapi "\<lambda>s. ''post''" "\<lambda>j. (''{}'', None)" "[]" sample_route 200]
    by (auto simp: sample_route_def)
qed

end
