(* ===== verification/Utilities.thy ===== *)
theory Utilities
  imports BorrowPool QueueWorker
begin

text \<open>
  Smaller parts: \<open>utils::Result\<close> (src/src/utils/Result.hpp), the read-only stream buffer over a
  \<open>string_view\<close> (src/src/utils/stringviewstream.hpp), paths into JSON documents
  (src/src/utils/NestedJson.hpp) and the pool of HTTP sessions (src/src/utils/CHttpPool.cpp).
\<close>

section \<open>Results\<close>

text \<open>\<open>Result\<close> is a \<open>std::variant\<close> of a value and an error; taking the alternative that is not there throws.\<close>

datatype ('a, 'e) result = Ok 'a | Err 'e

definition bad_variant_access :: exn where
  "bad_variant_access = StdExn Bad_cast ''std::get: wrong index for variant''"

fun result_ok :: "('a, 'e) result \<Rightarrow> bool" where
  "result_ok (Ok x) = True"
| "result_ok (Err e) = False"

fun result_or_else :: "('a, 'e) result \<Rightarrow> ('s, 'a) eff \<Rightarrow> ('s, 'a) eff" where
  "result_or_else (Ok x) fn = ret x"
| "result_or_else (Err e) fn = fn"

fun unwrap :: "('a, 'e) result \<Rightarrow> exn + 'a" where
  "unwrap (Ok x) = Inr x"
| "unwrap (Err e) = Inl bad_variant_access"

fun unwrap_error :: "('a, 'e) result \<Rightarrow> exn + 'e" where
  "unwrap_error (Ok x) = Inl bad_variant_access"
| "unwrap_error (Err e) = Inr e"

fun unwrap_or :: "('a, 'e) result \<Rightarrow> 'a \<Rightarrow> 'a" where
  "unwrap_or (Ok x) defaultVal = x"
| "unwrap_or (Err e) defaultVal = defaultVal"

text \<open>The alternatives on their own: an \<open>Ok\<close> is its own answer, an \<open>Err\<close> calls the function.\<close>

definition ok_or_else :: "'a \<Rightarrow> ('s, 'b) eff \<Rightarrow> ('s, 'a) eff" where
  "ok_or_else x fn = ret x"

definition err_or_else :: "'e \<Rightarrow> ('s, 'b) eff \<Rightarrow> ('s, 'b) eff" where
  "err_or_else e fn = fn"

fun unwrap_or_ref :: "('a, 'e) result \<Rightarrow> 'a \<Rightarrow> 'a" where
  "unwrap_or_ref (Ok x) defaultVal = x"
| "unwrap_or_ref (Err e) defaultVal = defaultVal"

text \<open>The macros that leave the function around them: \<open>Inl\<close> is what that function returns, \<open>Inr\<close> the value to go on with.\<close>

definition expect_result_e :: "('a, 'e) result \<Rightarrow> 'r \<Rightarrow> 'r + 'a" where
  "expect_result_e test error = (case test of Ok x \<Rightarrow> Inr x | Err e \<Rightarrow> Inl error)"

definition expect_result :: "('a, 'e) result \<Rightarrow> 'e + 'a" where
  "expect_result test = (case test of Ok x \<Rightarrow> Inr x | Err e \<Rightarrow> Inl e)"

section \<open>A stream buffer over a text\<close>

text \<open>
  Pointers of the get and put areas are positions in the text, null pointers position 0 of an empty
  area. The text is what the view shows; \<open>pbackfail\<close> writes to it.
\<close>

record openmode =
  om_in :: bool
  om_out :: bool
  om_ate :: bool
  om_app :: bool

record view_buf =
  MMode :: openmode
  M_string :: string
  gpos :: nat
  gend :: nat
  ppos :: nat
  pend :: nat

definition M_initialize_buffer :: "openmode \<Rightarrow> view_buf \<Rightarrow> view_buf" where
  "M_initialize_buffer mode b =
     (let len = length (M_string b);
          b1 = b\<lparr>MMode := mode\<rparr>;
          b2 = (if om_ate mode \<or> om_app mode then b1\<lparr>ppos := 0, pend := len\<rparr> else b1)
      in if om_in mode then b2\<lparr>gpos := 0, gend := len\<rparr> else b2)"

definition new_view :: "openmode \<Rightarrow> string \<Rightarrow> view_buf" where
  "new_view mode s = M_initialize_buffer mode \<lparr>MMode = mode, M_string = s, gpos = 0, gend = 0, ppos = 0, pend = 0\<rparr>"

definition empty_view :: "openmode \<Rightarrow> view_buf" where
  "empty_view mode = \<lparr>MMode = mode, M_string = [], gpos = 0, gend = 0, ppos = 0, pend = 0\<rparr>"

text \<open>\<open>swap\<close> exchanges everything; the move constructor copies first, so its swap changes nothing.\<close>

definition view_swap :: "view_buf \<Rightarrow> view_buf \<Rightarrow> view_buf \<times> view_buf" where
  "view_swap this other = (other, this)"

definition view_move_construct :: "view_buf \<Rightarrow> view_buf \<times> view_buf" where
  "view_move_construct other =
     view_swap \<lparr>MMode = MMode other, M_string = M_string other, gpos = gpos other, gend = gend other,
       ppos = ppos other, pend = pend other\<rparr> other"

definition view_move_assign :: "bool \<Rightarrow> view_buf \<Rightarrow> view_buf \<Rightarrow> view_buf \<times> view_buf" where
  "view_move_assign same this other = (if \<not> same then view_swap this other else (this, other))"

lemma view_move_copies: "view_move_construct other = (other, other)"
  by (simp add: view_move_construct_def view_swap_def)

definition view_str :: "view_buf \<Rightarrow> string" where
  "view_str b = take (ppos b) (M_string b)"

definition set_view_str :: "string \<Rightarrow> view_buf \<Rightarrow> view_buf" where
  "set_view_str s b = M_initialize_buffer (MMode b) (b\<lparr>M_string := s\<rparr>)"

text \<open>No character stands for \<open>eof\<close>.\<close>

definition view_overflow :: "char option \<Rightarrow> view_buf \<Rightarrow> char option" where
  "view_overflow ch b = None"

definition underflow :: "view_buf \<Rightarrow> char option" where
  "underflow b = (if om_in (MMode b) \<and> gpos b < gend b then Some (M_string b ! gpos b) else None)"

definition pbackfail :: "char option \<Rightarrow> view_buf \<Rightarrow> char option \<times> view_buf" where
  "pbackfail ch b =
     (if 0 < gpos b then
        (let b1 = b\<lparr>gpos := gpos b - 1\<rparr> in
         (ch, case ch of None \<Rightarrow> b1 | Some c \<Rightarrow> b1\<lparr>M_string := (M_string b1)[gpos b1 := c]\<rparr>))
      else (None, b))"

datatype seekdir = beg | cur | end'

text \<open>The end of \<open>seekoff\<close>: the range check and the moves.\<close>

definition seek_to :: "int \<Rightarrow> openmode \<Rightarrow> view_buf \<Rightarrow> int \<times> view_buf" where
  "seek_to newpos mode b =
     (if newpos < 0 \<or> newpos > int (if om_in mode then gend b else pend b) then (-1, b)
      else
        (let b1 = (if om_in mode then b\<lparr>gpos := nat newpos\<rparr> else b);
             b2 = (if om_out mode then b1\<lparr>ppos := nat newpos\<rparr> else b1)
         in (newpos, b2)))"

definition seekoff :: "int \<Rightarrow> seekdir \<Rightarrow> openmode \<Rightarrow> view_buf \<Rightarrow> int \<times> view_buf" where
  "seekoff off way mode b =
     (if \<not> (om_in mode \<and> om_in (MMode b) \<or> om_out mode \<and> om_out (MMode b) \<or>
            om_ate mode \<and> om_ate (MMode b) \<or> om_app mode \<and> om_app (MMode b)) then (-1, b)
      else
        (let current = int (if om_in mode then gpos b else ppos b);
             size = int (if om_in mode then gend b else pend b);
             newpos = (case way of cur \<Rightarrow> current + off | beg \<Rightarrow> off | end' \<Rightarrow> size + off)
         in seek_to newpos mode b))"

definition seekpos :: "int \<Rightarrow> openmode \<Rightarrow> view_buf \<Rightarrow> int \<times> view_buf" where
  "seekpos sp mode b = seekoff sp beg mode b"

text \<open>What \<open>std::streambuf\<close> does with them: \<open>sgetc\<close>, \<open>sbumpc\<close> and \<open>sputbackc\<close>.\<close>

definition sgetc :: "view_buf \<Rightarrow> char option" where
  "sgetc b = (if gpos b < gend b then Some (M_string b ! gpos b) else underflow b)"

definition sbumpc :: "view_buf \<Rightarrow> char option \<times> view_buf" where
  "sbumpc b = (if gpos b < gend b then (Some (M_string b ! gpos b), b\<lparr>gpos := gpos b + 1\<rparr>) else (None, b))"

definition sputbackc :: "char \<Rightarrow> view_buf \<Rightarrow> char option \<times> view_buf" where
  "sputbackc c b =
     (if 0 < gpos b \<and> M_string b ! (gpos b - 1) = c then (Some c, b\<lparr>gpos := gpos b - 1\<rparr>) else pbackfail (Some c) b)"

datatype view_op = SetStr string | Bump | PutBack char | SeekOff int seekdir openmode

fun view_run :: "view_op \<Rightarrow> view_buf \<Rightarrow> view_buf" where
  "view_run (SetStr s) b = set_view_str s b"
| "view_run Bump b = snd (sbumpc b)"
| "view_run (PutBack c) b = snd (sputbackc c b)"
| "view_run (SeekOff off way mode) b = snd (seekoff off way mode b)"

definition view_ok :: "view_buf \<Rightarrow> bool" where
  "view_ok b \<longleftrightarrow> gpos b \<le> gend b \<and> gend b = (if om_in (MMode b) then length (M_string b) else 0)"

lemma view_ok_init: "view_ok b \<Longrightarrow> view_ok (set_view_str s b) \<and> MMode (set_view_str s b) = MMode b"
  by (auto simp: view_ok_def set_view_str_def M_initialize_buffer_def Let_def)

lemma view_ok_putback: "view_ok b \<Longrightarrow> view_ok (snd (sputbackc c b)) \<and> MMode (snd (sputbackc c b)) = MMode b"
  by (auto simp: view_ok_def sputbackc_def pbackfail_def Let_def)

lemma view_ok_seek_to: "view_ok b \<Longrightarrow> view_ok (snd (seek_to p mode b)) \<and> MMode (snd (seek_to p mode b)) = MMode b"
  by (cases "om_in mode"; cases "om_out mode") (auto simp: view_ok_def seek_to_def Let_def nat_le_iff)

lemma view_ok_seek: "view_ok b \<Longrightarrow> view_ok (snd (seekoff off way mode b)) \<and> MMode (snd (seekoff off way mode b)) = MMode b"
  unfolding seekoff_def Let_def by (simp only: view_ok_seek_to snd_conv simp_thms split: if_split)

lemma view_run_ok: "view_ok b \<Longrightarrow> view_ok (view_run op b) \<and> MMode (view_run op b) = MMode b"
proof (cases op)
  case Bump
  then show "view_ok b \<Longrightarrow> ?thesis" by (auto simp: view_ok_def sbumpc_def)
qed (simp_all add: view_ok_init view_ok_putback view_ok_seek)

lemma new_view_ok: "view_ok (new_view mode s)"
  by (simp add: view_ok_def new_view_def M_initialize_buffer_def Let_def)

fun read_all :: "nat \<Rightarrow> view_buf \<Rightarrow> string" where
  "read_all 0 b = []"
| "read_all (Suc n) b = (case sbumpc b of (None, b') \<Rightarrow> [] | (Some c, b') \<Rightarrow> c # read_all n b')"

lemma read_all_rest:
  assumes "view_ok b" and "om_in (MMode b)" and "length (M_string b) - gpos b \<le> n"
  shows "read_all n b = drop (gpos b) (M_string b)"
  using assms
proof (induction n arbitrary: b)
  case 0
  then show ?case by (simp add: view_ok_def)
next
  case (Suc n)
  show ?case
  proof (cases "gpos b < gend b")
    case True
    then have "read_all n (b\<lparr>gpos := gpos b + 1\<rparr>) = drop (gpos b + 1) (M_string b)"
      using Suc by (subst Suc.IH) (auto simp: view_ok_def)
    then show ?thesis using True Suc.prems by (simp add: sbumpc_def view_ok_def Cons_nth_drop_Suc)
  next
    case False
    then show ?thesis using Suc.prems by (simp add: sbumpc_def view_ok_def)
  qed
qed

text \<open>Whatever is done with a buffer opened for reading, its position stays inside the text, and reading
  from a position it was set to gives the rest of the text from there.\<close>

theorem view_reads_rest:
  assumes "om_in mode" and "om_in m" and "b = fold view_run ops (new_view mode s)"
  shows "gpos b \<le> length (M_string b) \<and>
    (0 \<le> off \<and> off \<le> int (length (M_string b)) \<longrightarrow>
       (case seekoff off beg m b of (pos, b') \<Rightarrow> pos = off \<and> read_all (length (M_string b)) b' = drop (nat off) (M_string b)))"
proof -
  have "view_ok (fold view_run ops b0) \<and> MMode (fold view_run ops b0) = MMode b0" if "view_ok b0" for b0
    using that by (induction ops arbitrary: b0) (use view_run_ok in auto)
  then have ok: "view_ok b" "om_in (MMode b)"
    using new_view_ok [of mode s] assms by (auto simp: new_view_def M_initialize_buffer_def Let_def)
  have "case seekoff off beg m b of (pos, b') \<Rightarrow> pos = off \<and> read_all (length (M_string b)) b' = drop (nat off) (M_string b)"
    if "0 \<le> off" "off \<le> int (length (M_string b))"
    using that ok assms(2) by (auto simp: seekoff_def seek_to_def Let_def view_ok_def intro!: trans [OF read_all_rest])
  then show ?thesis using ok by (auto simp: view_ok_def)
qed

definition read_mode :: openmode where
  "read_mode = \<lparr>om_in = True, om_out = False, om_ate = False, om_app = False\<rparr>"

theorem view_reads_rest_witness:
  "gpos (fold view_run [Bump, Bump, PutBack CHR ''X''] (new_view read_mode ''abcd'')) \<le> 4 \<and>
   seekoff 1 beg read_mode (fold view_run [Bump, Bump, PutBack CHR ''X''] (new_view read_mode ''abcd'')) =
     (1, fold view_run [Bump, Bump, PutBack CHR ''X''] (new_view read_mode ''abcd'')) \<and>
   read_all 4 (fold view_run [Bump, Bump, PutBack CHR ''X''] (new_view read_mode ''abcd'')) = ''Xcd''"
proof -
  let ?b = "fold view_run [Bump, Bump, PutBack CHR ''X''] (new_view read_mode ''abcd'')"
  have b: "M_string ?b = ''aXcd''" "seekoff 1 beg read_mode ?b = (1, ?b)" by code_simp+
  have "om_in read_mode" by (simp add: read_mode_def)
  from view_reads_rest [OF this this refl, of "[Bump, Bump, PutBack CHR ''X'']" "''abcd''" 1]
  show ?thesis unfolding b by (simp add: eval_nat_numeral)
qed

section \<open>Paths into documents\<close>

text \<open>A pointer to an object may be null.\<close>

fun nested_object :: "jobj option \<Rightarrow> string list \<Rightarrow> exn + jobj option" where
  "nested_object current [] = Inr current"
| "nested_object current (k # ks) = sum_bind (deref current) (\<lambda>x. nested_object (obj_getObject x k) ks)"

definition getNestedValue :: "(jvar \<Rightarrow> exn + 'a) \<Rightarrow> 'a \<Rightarrow> jobj option \<Rightarrow> string list \<Rightarrow> exn + 'a" where
  "getNestedValue conv none startobject arglist =
     (if arglist = [] then Inr none
      else sum_bind (nested_object startobject (butlast arglist)) (\<lambda>current.
        sum_bind (deref current) (\<lambda>x. getValue conv x (last arglist))))"

datatype json_key = Index u32 | Name string

fun getNextNested :: "jvar \<Rightarrow> json_key \<Rightarrow> exn + jvar" where
  "getNextNested enclosing (Index i) =
     sum_bind (extract_arr enclosing) (\<lambda>p. sum_bind (deref p) (\<lambda>xs.
       Inr (if unat i < length xs then xs ! unat i else JEmpty)))"
| "getNextNested enclosing (Name nm) =
     sum_bind (extract_obj enclosing) (\<lambda>p. sum_bind (deref p) (\<lambda>x. Inr (obj_get x nm)))"

fun nested_steps :: "jvar \<Rightarrow> json_key list \<Rightarrow> exn + jvar" where
  "nested_steps v [] = Inr v"
| "nested_steps v (k # ks) = sum_bind (getNextNested v k) (\<lambda>w. nested_steps w ks)"

definition getArrObjNestedValue :: "(jvar \<Rightarrow> exn + 'a) \<Rightarrow> 'a \<Rightarrow> jvar \<Rightarrow> json_key list \<Rightarrow> exn + 'a" where
  "getArrObjNestedValue convert none enclosing keys =
     (if length keys = 0 then Inr none else sum_bind (nested_steps enclosing keys) convert)"

definition getArrObjNestedVar :: "jvar \<Rightarrow> json_key list \<Rightarrow> exn + jvar" where
  "getArrObjNestedVar enclosing keys =
     (if length keys = 0 then Inr JEmpty else nested_steps enclosing keys)"

definition getArrObjNestedExtract :: "(jvar \<Rightarrow> exn + 'a) \<Rightarrow> 'a \<Rightarrow> jvar \<Rightarrow> json_key list \<Rightarrow> exn + 'a" where
  "getArrObjNestedExtract extract none enclosing keys =
     (if length keys = 0 then Inr none else sum_bind (nested_steps enclosing keys) extract)"

text \<open>A document with one value at the end of a path.\<close>

fun document_at :: "json_key list \<Rightarrow> jvar \<Rightarrow> jvar" where
  "document_at [] v = v"
| "document_at (Name nm # ks) v = JObj [(nm, document_at ks v)]"
| "document_at (Index i # ks) v = JArr (replicate (unat i) JEmpty @ [document_at ks v])"

lemma nested_steps_document: "nested_steps (document_at ks v) ks = Inr v"
  by (induction ks v rule: document_at.induct) (simp_all add: deref_def obj_get_def nth_append)

section \<open>HTTP sessions\<close>

datatype http_session = HttpSession string nat | HttpsSession string nat

record uri =
  uri_scheme :: string
  uri_host :: string
  uri_port :: nat

text \<open>For each host and port a pool of 16 pointers, null at first. The keep-alive settings of a new
  session are the same for all.\<close>

type_synonym http_pool = "string \<times> nat \<rightharpoonup> pool \<times> http_session option list"

definition setupSession :: "(pool \<times> bool) list \<Rightarrow> uri \<Rightarrow> http_pool \<Rightarrow> (borrowed_object \<times> http_pool) option" where
  "setupSession waits uri sessions =
     (let id = (uri_host uri, uri_port uri);
          entry = (case sessions id of None \<Rightarrow> (new_pool 16, replicate 16 None) | Some e \<Rightarrow> e) in
      case borrow waits (fst entry) of
        None \<Rightarrow> None
      | Some (b, p) \<Rightarrow>
          (case (bobject b, bpos b) of
             (True, Some i) \<Rightarrow>
               (let session = (case snd entry ! i of
                    Some s \<Rightarrow> s
                  | None \<Rightarrow> if uri_scheme uri = ''https'' then HttpsSession (uri_host uri) (uri_port uri)
                            else HttpSession (uri_host uri) (uri_port uri))
                in Some (b, sessions(id \<mapsto> (p, (snd entry)[i := Some session]))))
           | other \<Rightarrow> Some (b, sessions(id \<mapsto> (p, snd entry)))))"

text \<open>The key of the pool has no scheme: a session made for plain HTTP is handed out for HTTPS.\<close>

lemma https_over_http:
  "setupSession [] \<lparr>uri_scheme = ''https'', uri_host = h, uri_port = p\<rparr>
     [(h, p) \<mapsto> (new_pool 16, Some (HttpSession h p) # replicate 15 None)] =
   Some (borrowed_at 0, [(h, p) \<mapsto> (snd (getValidPos (new_pool 16)), Some (HttpSession h p) # replicate 15 None)])"
  by (simp add: setupSession_def borrow_def getValidPos_def take_pos_def new_pool_def borrowed_at_def)

end
