(* ===== verification/Endpoints.thy ===== *)
theory Endpoints
  imports WebControllers
begin

text \<open>
  The two ways to run a server: \<open>WebApp\<close> (src/src/WebInterface/WebApp.hpp) and \<open>CPistacheEndpoint\<close>
  (src/src/WebInterface/CPistacheEndpoint.cpp). Pistache's endpoint is what was asked of it; \<open>handler\<close> is
  \<open>Router::handler\<close>, applied to the routes of the moment. An endpoint that was not made is a null pointer, and
  a call on it ends the process: None.
\<close>

section \<open>Endpoints\<close>

datatype http_verb = VGet | VPost | VPut | VDelete | VPatch | VOptions | VHead | VNotFound

type_synonym routes = "(http_verb \<times> string \<times> route_fn) list"

record 'h endpoint =
  ep_address :: string
  ep_threads :: int
  ep_reuse :: bool
  ep_handler :: "'h option"
  ep_serving :: bool
  ep_shutdown :: bool

definition make_endpoint :: "string \<Rightarrow> int \<Rightarrow> bool \<Rightarrow> 'h endpoint" where
  "make_endpoint addr threads reuse =
     \<lparr>ep_address = addr, ep_threads = threads, ep_reuse = reuse, ep_handler = None, ep_serving = False, ep_shutdown = False\<rparr>"

text \<open>\<open>static_cast<int>\<close> of the number of threads.\<close>

definition thread_count :: "u64 \<Rightarrow> int" where
  "thread_count thr = sint (ucast thr :: u32)"

definition endpoint_port :: "('h endpoint \<Rightarrow> nat) \<Rightarrow> 'h endpoint option \<Rightarrow> nat" where
  "endpoint_port port ep = (case ep of None \<Rightarrow> 0 | Some e \<Rightarrow> port e)"

definition serve :: "('h \<Rightarrow> 'h) \<Rightarrow> 'h \<Rightarrow> 'h endpoint \<Rightarrow> 'h endpoint" where
  "serve handler rts e = e\<lparr>ep_handler := Some (handler rts), ep_serving := True\<rparr>"

section \<open>WebApp\<close>

record webapp =
  wa_endpoint :: "routes endpoint option"
  wa_router :: routes
  keepRunning :: bool

definition new_webapp :: webapp where
  "new_webapp = \<lparr>wa_endpoint = None, wa_router = [], keepRunning = True\<rparr>"

definition wa_init :: "string \<Rightarrow> u64 \<Rightarrow> webapp \<Rightarrow> webapp" where
  "wa_init addr thr a = a\<lparr>wa_endpoint := Some (make_endpoint addr (thread_count thr) True)\<rparr>"

definition startAsync :: "(routes \<Rightarrow> routes) \<Rightarrow> webapp \<Rightarrow> webapp option" where
  "startAsync handler a =
     (case wa_endpoint a of
        None \<Rightarrow> None
      | Some e \<Rightarrow> Some (a\<lparr>wa_endpoint := Some (serve handler (wa_router a) e)\<rparr>))"

text \<open>The loop of \<open>start\<close>: \<open>others\<close> is what the other threads do in one second.\<close>

partial_function (option) wait_stopped :: "(webapp \<Rightarrow> webapp) \<Rightarrow> webapp \<Rightarrow> webapp option" where
  "wait_stopped others a = (if keepRunning a then wait_stopped others (others a) else Some a)"

definition wa_start :: "(routes \<Rightarrow> routes) \<Rightarrow> (webapp \<Rightarrow> webapp) option \<Rightarrow> (webapp \<Rightarrow> webapp) \<Rightarrow> webapp \<Rightarrow> webapp option" where
  "wa_start handler callback others a =
     (case startAsync handler a of
        None \<Rightarrow> None
      | Some a1 \<Rightarrow> wait_stopped others (case callback of None \<Rightarrow> a1 | Some f \<Rightarrow> f a1))"

definition wa_stop :: "webapp \<Rightarrow> webapp" where
  "wa_stop a = a\<lparr>keepRunning := False, wa_endpoint := map_option (\<lambda>e. e\<lparr>ep_shutdown := True\<rparr>) (wa_endpoint a)\<rparr>"

text \<open>\<open>get\<close>, \<open>post\<close>, \<open>put\<close>, \<open>del\<close>, \<open>patch\<close>, \<open>options\<close> and \<open>head\<close>, and \<open>notfound\<close>.\<close>

definition wa_route :: "http_verb \<Rightarrow> string \<Rightarrow> route_fn \<Rightarrow> webapp \<Rightarrow> webapp" where
  "wa_route verb resource func a = a\<lparr>wa_router := wa_router a @ [(verb, resource, func)]\<rparr>"

definition wa_notfound :: "route_fn \<Rightarrow> webapp \<Rightarrow> webapp" where
  "wa_notfound func a = wa_route VNotFound [] func a"

text \<open>\<open>start\<close> returns exactly when the other threads clear \<open>keepRunning\<close> at some time.\<close>

lemma wait_stopped_returns:
  "(\<exists>a'. wait_stopped others a = Some a') \<longleftrightarrow> (\<exists>n. \<not> keepRunning ((others ^^ n) a))"
proof
  assume "\<exists>a'. wait_stopped others a = Some a'"
  then obtain a' where "wait_stopped others a = Some a'" by blast
  then show "\<exists>n. \<not> keepRunning ((others ^^ n) a)"
  proof (rule wait_stopped.raw_induct [where P = "\<lambda>others a a'. \<exists>n. \<not> keepRunning ((others ^^ n) a)", rotated])
    fix w :: "(webapp \<Rightarrow> webapp) \<Rightarrow> webapp \<Rightarrow> webapp option" and others a y
    assume w: "\<And>others a y. w others a = Some y \<Longrightarrow> \<exists>n. \<not> keepRunning ((others ^^ n) a)"
      and y: "(if keepRunning a then w others (others a) else Some a) = Some y"
    show "\<exists>n. \<not> keepRunning ((others ^^ n) a)"
    proof (cases "keepRunning a")
      case True
      then obtain n where "\<not> keepRunning ((others ^^ n) (others a))" using w [of others "others a" y] y by auto
      then have "\<not> keepRunning ((others ^^ Suc n) a)" by (simp add: funpow_swap1)
      then show ?thesis by blast
    next
      case False
      then have "\<not> keepRunning ((others ^^ 0) a)" by simp
      then show ?thesis by blast
    qed
  qed
next
  have "\<not> keepRunning ((others ^^ n) a) \<Longrightarrow> \<exists>a'. wait_stopped others a = Some a'" for n
  proof (induction n arbitrary: a)
    case 0
    then show ?case by (subst wait_stopped.simps) simp
  next
    case (Suc n)
    then show ?case by (subst wait_stopped.simps) (simp add: funpow_swap1)
  qed
  then show "\<exists>n. \<not> keepRunning ((others ^^ n) a) \<Longrightarrow> \<exists>a'. wait_stopped others a = Some a'" by blast
qed

section \<open>Routes of a controller\<close>

text \<open>
  \<open>register_routes\<close> of a controller adds to the router and may do more, to a state \<open>'w\<close>, such as the file system. The
  one of the base class throws. \<open>handler\<close> is the bound method \<open>request_file\<close>.
\<close>

type_synonym 'w controller_routes = "string \<Rightarrow> ('w \<times> routes, unit) eff"

definition base_register_routes :: "'w controller_routes" where
  "base_register_routes baseAddr = throw (StdExn Runtime_error ''CController::register_routes should not be called'')"

definition route_get :: "string \<Rightarrow> route_fn \<Rightarrow> routes \<Rightarrow> routes" where
  "route_get routepath routefun router = router @ [(VGet, routepath, routefun)]"

definition route_post :: "string \<Rightarrow> route_fn \<Rightarrow> routes \<Rightarrow> routes" where
  "route_post routepath routefun router = router @ [(VPost, routepath, routefun)]"

text \<open>\<open>create_directories\<close> is the argument \<open>mkdirs\<close>; the error code it gives is not looked at.\<close>

definition storage_register_routes :: "(string \<Rightarrow> 'w \<Rightarrow> 'w) \<Rightarrow> string \<Rightarrow> route_fn \<Rightarrow> 'w controller_routes" where
  "storage_register_routes mkdirs storageDirectory handler baseAddr = (\<lambda>(w, router).
     (Inr (), mkdirs storageDirectory w, router @ [(VGet, baseAddr @ ''/storage/:fileName'', handler),
        (VHead, baseAddr @ ''/storage/:fileName'', handler)]))"

section \<open>CPistacheEndpoint\<close>

record 'w pistache_endpoint =
  pe_controllers :: "'w controller_routes list"
  pe_endpoint :: "routes endpoint option"
  pe_router :: routes

definition pe_init :: "string \<Rightarrow> u64 \<Rightarrow> 'w pistache_endpoint \<Rightarrow> 'w pistache_endpoint" where
  "pe_init addr thr p = p\<lparr>pe_endpoint := Some (make_endpoint addr (thread_count thr) True)\<rparr>"

definition pe_init_options :: "string \<Rightarrow> int \<times> bool \<Rightarrow> 'w pistache_endpoint \<Rightarrow> 'w pistache_endpoint" where
  "pe_init_options addr opts p = p\<lparr>pe_endpoint := Some (make_endpoint addr (fst opts) (snd opts))\<rparr>"

definition pe_getPort :: "(routes endpoint \<Rightarrow> nat) \<Rightarrow> 'w pistache_endpoint \<Rightarrow> nat" where
  "pe_getPort port p = (case pe_endpoint p of None \<Rightarrow> 0 | Some e \<Rightarrow> port e)"

definition pe_start :: "(routes \<Rightarrow> routes) \<Rightarrow> 'w pistache_endpoint \<Rightarrow> 'w pistache_endpoint option" where
  "pe_start handler p =
     (case pe_endpoint p of
        None \<Rightarrow> None
      | Some e \<Rightarrow> Some (p\<lparr>pe_endpoint := Some (serve handler (pe_router p) e)\<rparr>))"

definition pe_stop :: "'w pistache_endpoint \<Rightarrow> 'w pistache_endpoint option" where
  "pe_stop p =
     (case pe_endpoint p of None \<Rightarrow> None | Some e \<Rightarrow> Some (p\<lparr>pe_endpoint := Some (e\<lparr>ep_shutdown := True\<rparr>)\<rparr>))"

definition register_controller :: "'w controller_routes option \<Rightarrow> string \<Rightarrow> ('w \<times> 'w pistache_endpoint, unit) eff" where
  "register_controller controller urlnamespace = (\<lambda>(w, p).
     (case controller of
        None \<Rightarrow> (Inr (), w, p)
      | Some c \<Rightarrow>
          (case c urlnamespace (w, pe_router p) of
             (r, w', router) \<Rightarrow> (r, w', p\<lparr>pe_controllers := pe_controllers p @ [c], pe_router := router\<rparr>))))"

text \<open>What \<open>start\<close> serves is all the routes registered before it, in order; a controller that does not override
  \<open>register_routes\<close> is kept by the endpoint though its registration throws.\<close>

fun register_all :: "('w controller_routes \<times> string) list \<Rightarrow> ('w \<times> 'w pistache_endpoint, unit) eff" where
  "register_all [] s = (Inr (), s)"
| "register_all ((c, ns) # cs) s =
     (case register_controller (Some c) ns s of (Inl e, s') \<Rightarrow> (Inl e, s') | (Inr u, s') \<Rightarrow> register_all cs s')"

lemma register_all_routes:
  assumes "\<forall>(c, ns) \<in> set cs. \<forall>w rts. \<exists>w'. c ns (w, rts) = (Inr (), w', rts @ added c ns)"
  shows "\<exists>w'. register_all cs (w, p) = (Inr (), w', p\<lparr>pe_controllers := pe_controllers p @ map fst cs,
    pe_router := pe_router p @ concat (map (\<lambda>(c, ns). added c ns) cs)\<rparr>)"
  using assms
proof (induction cs arbitrary: w p)
  case (Cons x cs)
  obtain c ns where x: "x = (c, ns)" by (cases x)
  obtain w' where "c ns (w, pe_router p) = (Inr (), w', pe_router p @ added c ns)" using Cons.prems by (fastforce simp: x)
  moreover obtain w'' where "register_all cs (w', p\<lparr>pe_controllers := pe_controllers p @ [c], pe_router := pe_router p @ added c ns\<rparr>) =
      (Inr (), w'', (p\<lparr>pe_controllers := pe_controllers p @ [c], pe_router := pe_router p @ added c ns\<rparr>)
         \<lparr>pe_controllers := (pe_controllers p @ [c]) @ map fst cs,
          pe_router := (pe_router p @ added c ns) @ concat (map (\<lambda>(c, ns). added c ns) cs)\<rparr>)"
    using Cons.IH [of w' "p\<lparr>pe_controllers := pe_controllers p @ [c], pe_router := pe_router p @ added c ns\<rparr>"] Cons.prems
    by (auto simp: x)
  ultimately show ?case by (simp add: x register_controller_def)
qed simp

lemma base_controller_kept:
  "register_controller (Some base_register_routes) ns (w, p) =
     (Inl (StdExn Runtime_error ''CController::register_routes should not be called''), w,
      p\<lparr>pe_controllers := pe_controllers p @ [base_register_routes]\<rparr>)"
  by (simp add: register_controller_def base_register_routes_def throw_def)

end
