(* ===== verification/SqlConnection.thy ===== *)
theory SqlConnection
  imports Migrations Config
begin

text \<open>
  Connections and statements of MySQL: the factories of \<open>CSql\<close> (src/src/Database/CSql.cpp), the wrappers
  \<open>RAIIConnectionWrapper\<close> and \<open>StatementWrapper\<close> (CSql.hpp), and the connection of the migrations
  (DBMigrate.cpp). The driver is the record \<open>mysql_driver\<close> over a state of the client library; a
  connection or a statement is the number the driver gave it. A smart pointer is \<open>None\<close> when it is
  null; a call through it then ends the process, which is \<open>None\<close> as well.
\<close>

section \<open>The driver\<close>

type_synonym 'd call = "'d \<Rightarrow> 'd option"

datatype prepare_args =
  PrepPlain | PrepGeneratedKeys int | PrepColumnIndexes nat | PrepResultSet int int | PrepHoldable int int int
| PrepColumnNames "string list"

datatype sql_param =
  ParBigInt string | ParBlob nat | ParBoolean bool | ParDateTime string | ParDouble string | ParInt "32 word"
| ParUInt u32 | ParInt64 "64 word" | ParUInt64 u64 | ParNull int | ParString string

record 'd mysql_driver =
  drv_connect :: "string \<Rightarrow> string \<Rightarrow> string \<Rightarrow> ('d, nat) eff"
  con_setSchema :: "nat \<Rightarrow> string \<Rightarrow> ('d, unit) eff"
  con_prepare :: "nat \<Rightarrow> string \<Rightarrow> prepare_args \<Rightarrow> ('d, nat) eff"
  con_createStatement :: "nat \<Rightarrow> ('d, nat) eff"
  con_delete :: "nat \<Rightarrow> 'd \<Rightarrow> 'd"
  st_execute :: "nat \<Rightarrow> string option \<Rightarrow> ('d, bool) eff"
  st_executeQuery :: "nat \<Rightarrow> string option \<Rightarrow> ('d, nat) eff"
  st_executeUpdate :: "nat \<Rightarrow> string option \<Rightarrow> ('d, int) eff"
  st_getMetaData :: "nat \<Rightarrow> ('d, nat) eff"
  st_getParameterMetaData :: "nat \<Rightarrow> ('d, nat) eff"
  st_getMoreResults :: "nat \<Rightarrow> ('d, bool) eff"
  st_set :: "nat \<Rightarrow> u32 \<Rightarrow> sql_param \<Rightarrow> ('d, unit) eff"
  st_delete :: "nat \<Rightarrow> 'd \<Rightarrow> 'd"

section \<open>Factories\<close>

text \<open>\<open>driver->connect\<close> with the configuration; the connection belongs to a smart pointer from then on.\<close>

definition make_connection_cfg_noschema :: "'d mysql_driver \<Rightarrow> config_data \<Rightarrow> ('d, nat) eff" where
  "make_connection_cfg_noschema drv conf =
     drv_connect drv (config_get conf ''MYSQL_HOST'') (config_get conf ''MYSQL_USER'') (config_get conf ''MYSQL_PASSWORD'')"

text \<open>\<open>setSchema\<close> on the connection just made: when it throws, the smart pointer goes out of scope.\<close>

definition with_schema :: "'d mysql_driver \<Rightarrow> string \<Rightarrow> nat \<Rightarrow> ('d, nat) eff" where
  "with_schema drv db con d =
     (case con_setSchema drv con db d of
        (Inl e, d') \<Rightarrow> (Inl e, con_delete drv con d')
      | (Inr u, d') \<Rightarrow> (Inr con, d'))"

definition make_connection_cfg :: "'d mysql_driver \<Rightarrow> config_data \<Rightarrow> ('d, nat) eff" where
  "make_connection_cfg drv conf =
     bind (drv_connect drv (config_get conf ''MYSQL_HOST'') (config_get conf ''MYSQL_USER'') (config_get conf ''MYSQL_PASSWORD''))
       (with_schema drv (config_get conf ''MYSQL_DATABASE''))"

text \<open>The pointer is cast to an incomplete class, which leaves the connection and its deleter as they are.\<close>

definition make_shr_connection_cfg :: "'d mysql_driver \<Rightarrow> config_data \<Rightarrow> ('d, nat) eff" where
  "make_shr_connection_cfg drv conf =
     bind (drv_connect drv (config_get conf ''MYSQL_HOST'') (config_get conf ''MYSQL_USER'') (config_get conf ''MYSQL_PASSWORD''))
       (with_schema drv (config_get conf ''MYSQL_DATABASE''))"

record conn_wrapper = cw_conn :: "nat option"
record stmt_wrapper = sw_stmt :: "nat option"

definition wrap_conn :: "nat \<Rightarrow> ('d, conn_wrapper) eff" where
  "wrap_conn con = ret \<lparr>cw_conn = Some con\<rparr>"

definition make_connection_cfg_raii :: "'d mysql_driver \<Rightarrow> config_data \<Rightarrow> ('d, conn_wrapper) eff" where
  "make_connection_cfg_raii drv conf =
     bind (bind (drv_connect drv (config_get conf ''MYSQL_HOST'') (config_get conf ''MYSQL_USER'') (config_get conf ''MYSQL_PASSWORD''))
       (with_schema drv (config_get conf ''MYSQL_DATABASE''))) wrap_conn"

definition make_shr_connection_cfg_raii :: "'d mysql_driver \<Rightarrow> config_data \<Rightarrow> ('d, conn_wrapper) eff" where
  "make_shr_connection_cfg_raii drv conf =
     bind (bind (drv_connect drv (config_get conf ''MYSQL_HOST'') (config_get conf ''MYSQL_USER'') (config_get conf ''MYSQL_PASSWORD''))
       (with_schema drv (config_get conf ''MYSQL_DATABASE''))) wrap_conn"

definition make_connection_cfg_noschema_raii :: "'d mysql_driver \<Rightarrow> config_data \<Rightarrow> ('d, conn_wrapper) eff" where
  "make_connection_cfg_noschema_raii drv conf =
     bind (drv_connect drv (config_get conf ''MYSQL_HOST'') (config_get conf ''MYSQL_USER'') (config_get conf ''MYSQL_PASSWORD''))
       wrap_conn"

text \<open>\<open>connect_db\<close> of the migrations, with the address they were given.\<close>

definition connect_db :: "'d mysql_driver \<Rightarrow> database_address \<Rightarrow> ('d, nat) eff" where
  "connect_db drv info = bind (drv_connect drv (da_host info) (da_user info) (da_pwd info)) (with_schema drv (da_db info))"

section \<open>Wrappers\<close>

text \<open>The six overloads of \<open>prepareStatement\<close>; the statement belongs to the wrapper returned.\<close>

definition through :: "nat option \<Rightarrow> (nat \<Rightarrow> ('d, 'a) eff) \<Rightarrow> 'd \<Rightarrow> ((exn + 'a) \<times> 'd) option" where
  "through p f d = map_option (\<lambda>h. f h d) p"

definition prepareStatement ::
  "'d mysql_driver \<Rightarrow> conn_wrapper \<Rightarrow> string \<Rightarrow> prepare_args \<Rightarrow> 'd \<Rightarrow> ((exn + stmt_wrapper) \<times> 'd) option" where
  "prepareStatement drv c sql args =
     through (cw_conn c) (\<lambda>h. bind (con_prepare drv h sql args) (\<lambda>s. ret \<lparr>sw_stmt = Some s\<rparr>))"

definition createStatement :: "'d mysql_driver \<Rightarrow> conn_wrapper \<Rightarrow> 'd \<Rightarrow> ((exn + stmt_wrapper) \<times> 'd) option" where
  "createStatement drv c = through (cw_conn c) (\<lambda>h. bind (con_createStatement drv h) (\<lambda>s. ret \<lparr>sw_stmt = Some s\<rparr>))"

text \<open>The wrapper's \<open>clearParameters\<close> has no body: it does not reach the statement.\<close>

definition clearParameters :: "stmt_wrapper \<Rightarrow> 'd \<Rightarrow> 'd" where
  "clearParameters s d = d"

definition sw_execute :: "'d mysql_driver \<Rightarrow> stmt_wrapper \<Rightarrow> string option \<Rightarrow> 'd \<Rightarrow> ((exn + bool) \<times> 'd) option" where
  "sw_execute drv s sql = through (sw_stmt s) (\<lambda>h. st_execute drv h sql)"

definition sw_executeQuery :: "'d mysql_driver \<Rightarrow> stmt_wrapper \<Rightarrow> string option \<Rightarrow> 'd \<Rightarrow> ((exn + nat) \<times> 'd) option" where
  "sw_executeQuery drv s sql = through (sw_stmt s) (\<lambda>h. st_executeQuery drv h sql)"

definition sw_executeUpdate :: "'d mysql_driver \<Rightarrow> stmt_wrapper \<Rightarrow> string option \<Rightarrow> 'd \<Rightarrow> ((exn + int) \<times> 'd) option" where
  "sw_executeUpdate drv s sql = through (sw_stmt s) (\<lambda>h. st_executeUpdate drv h sql)"

definition sw_getMetaData :: "'d mysql_driver \<Rightarrow> stmt_wrapper \<Rightarrow> 'd \<Rightarrow> ((exn + nat) \<times> 'd) option" where
  "sw_getMetaData drv s = through (sw_stmt s) (st_getMetaData drv)"

definition sw_getParameterMetaData :: "'d mysql_driver \<Rightarrow> stmt_wrapper \<Rightarrow> 'd \<Rightarrow> ((exn + nat) \<times> 'd) option" where
  "sw_getParameterMetaData drv s = through (sw_stmt s) (st_getParameterMetaData drv)"

definition sw_getMoreResults :: "'d mysql_driver \<Rightarrow> stmt_wrapper \<Rightarrow> 'd \<Rightarrow> ((exn + bool) \<times> 'd) option" where
  "sw_getMoreResults drv s = through (sw_stmt s) (st_getMoreResults drv)"

text \<open>\<open>setBigInt\<close>, \<open>setBlob\<close>, \<open>setBoolean\<close>, \<open>setDateTime\<close>, \<open>setDouble\<close>, \<open>setInt\<close>, \<open>setUInt\<close>, \<open>setInt64\<close>, \<open>setUInt64\<close>,
  \<open>setNull\<close> and \<open>setString\<close>.\<close>

definition sw_set :: "'d mysql_driver \<Rightarrow> stmt_wrapper \<Rightarrow> u32 \<Rightarrow> sql_param \<Rightarrow> 'd \<Rightarrow> ((exn + unit) \<times> 'd) option" where
  "sw_set drv s parameterIndex val = through (sw_stmt s) (\<lambda>h. st_set drv h parameterIndex val)"

text \<open>The destructors: a smart pointer deletes what it points to.\<close>

definition free_stmt :: "'d mysql_driver \<Rightarrow> stmt_wrapper \<Rightarrow> 'd \<Rightarrow> 'd" where
  "free_stmt drv s d = (case sw_stmt s of None \<Rightarrow> d | Some h \<Rightarrow> st_delete drv h d)"

definition free_conn :: "'d mysql_driver \<Rightarrow> conn_wrapper \<Rightarrow> 'd \<Rightarrow> 'd" where
  "free_conn drv c d = (case cw_conn c of None \<Rightarrow> d | Some h \<Rightarrow> con_delete drv h d)"

section \<open>The table of the migrations\<close>

definition migration_table :: string where
  "migration_table =
     ''CREATE TABLE IF NOT EXISTS `migrations` (   `id` int(10) unsigned NOT '' @ ''NULL '' @
     ''AUTO_INCREMENT,   `migration` varchar(255) COLLATE utf8mb4_unicode_ci '' @ ''NOT '' @
     ''NULL,   `batch` int(11) NOT NULL,   PRIMARY KEY (`id`) ) '' @ ''ENGINE=InnoDB '' @
     ''AUTO_INCREMENT=2 DEFAULT CHARSET=utf8mb4 COLLATE=utf8mb4_unicode_ci;''"

text \<open>Statement and connection are freed on every way out.\<close>

definition init_migration_table :: "'d mysql_driver \<Rightarrow> database_address \<Rightarrow> ('d, unit) eff" where
  "init_migration_table drv info d =
     (case connect_db drv info d of
        (Inl e, d1) \<Rightarrow> (Inl e, d1)
      | (Inr con, d1) \<Rightarrow>
          (case con_createStatement drv con d1 of
             (Inl e, d2) \<Rightarrow> (Inl e, con_delete drv con d2)
           | (Inr s, d2) \<Rightarrow>
               (case st_execute drv s (Some migration_table) d2 of
                  (r, d3) \<Rightarrow> (sum_bind r (\<lambda>b. Inr ()), con_delete drv con (st_delete drv s d3)))))"

text \<open>\<open>drop_all\<close> has no body.\<close>

definition drop_all :: "'d \<Rightarrow> 'd" where
  "drop_all d = d"

section \<open>Nothing is left open\<close>

text \<open>
  \<open>res\<close> tells which connections and statements of the driver are open. What is relied on: a call that
  opens one either opens a new one or throws and opens none; deleting closes exactly the one; the
  other calls open and close nothing.
\<close>

record resources =
  open_conns :: "nat set"
  open_stmts :: "nat set"

definition keeps :: "('d \<Rightarrow> resources) \<Rightarrow> ('d, 'a) eff \<Rightarrow> bool" where
  "keeps res f \<longleftrightarrow> (\<forall>d. res (snd (f d)) = res d)"

definition opens :: "('d \<Rightarrow> resources) \<Rightarrow> (resources \<Rightarrow> nat set) \<Rightarrow> (nat \<Rightarrow> resources \<Rightarrow> resources) \<Rightarrow> ('d, nat) eff \<Rightarrow> bool" where
  "opens res of_kind add f \<longleftrightarrow>
     (\<forall>d. case f d of (Inl e, d') \<Rightarrow> res d' = res d | (Inr h, d') \<Rightarrow> h \<notin> of_kind (res d) \<and> res d' = add h (res d))"

abbreviation add_conn :: "nat \<Rightarrow> resources \<Rightarrow> resources" where
  "add_conn h r \<equiv> r\<lparr>open_conns := insert h (open_conns r)\<rparr>"

abbreviation add_stmt :: "nat \<Rightarrow> resources \<Rightarrow> resources" where
  "add_stmt h r \<equiv> r\<lparr>open_stmts := insert h (open_stmts r)\<rparr>"

definition driver_documented :: "'d mysql_driver \<Rightarrow> ('d \<Rightarrow> resources) \<Rightarrow> bool" where
  "driver_documented drv res \<longleftrightarrow>
     (\<forall>host user pwd. opens res open_conns add_conn (drv_connect drv host user pwd)) \<and>
     (\<forall>h db. keeps res (con_setSchema drv h db)) \<and>
     (\<forall>h. opens res open_stmts add_stmt (con_createStatement drv h)) \<and>
     (\<forall>h sql args. opens res open_stmts add_stmt (con_prepare drv h sql args)) \<and>
     (\<forall>s sql. keeps res (st_execute drv s sql)) \<and>
     (\<forall>h d. res (con_delete drv h d) = (res d)\<lparr>open_conns := open_conns (res d) - {h}\<rparr>) \<and>
     (\<forall>s d. res (st_delete drv s d) = (res d)\<lparr>open_stmts := open_stmts (res d) - {s}\<rparr>)"

lemma driver_documentedD:
  assumes "driver_documented drv res"
  shows "opens res open_conns add_conn (drv_connect drv host user pwd)" "keeps res (con_setSchema drv h db)"
    "opens res open_stmts add_stmt (con_createStatement drv h)" "opens res open_stmts add_stmt (con_prepare drv h sql args)"
    "keeps res (st_execute drv s osql)"
    "res (con_delete drv h d) = (res d)\<lparr>open_conns := open_conns (res d) - {h}\<rparr>"
    "res (st_delete drv s d) = (res d)\<lparr>open_stmts := open_stmts (res d) - {s}\<rparr>"
  using assms by (simp_all add: driver_documented_def)

lemma opensD:
  assumes "opens res of_kind add f"
  shows "f d = (Inl e, d') \<Longrightarrow> res d' = res d" "f d = (Inr h, d') \<Longrightarrow> h \<notin> of_kind (res d) \<and> res d' = add h (res d)"
  using assms by (auto simp: opens_def dest: spec [of _ d])

lemma keepsD: "keeps res f \<Longrightarrow> f d = (r, d') \<Longrightarrow> res d' = res d"
  by (auto simp: keeps_def dest: spec [of _ d])

lemma add_conn_undo [simp]: "h \<notin> open_conns r \<Longrightarrow> (add_conn h r)\<lparr>open_conns := open_conns (add_conn h r) - {h}\<rparr> = r"
  by simp

lemma add_stmt_undo [simp]: "h \<notin> open_stmts r \<Longrightarrow> (add_stmt h r)\<lparr>open_stmts := open_stmts (add_stmt h r) - {h}\<rparr> = r"
  by simp

lemma with_schema_opens:
  assumes doc: "driver_documented drv res" and con: "opens res open_conns add_conn f"
  shows "opens res open_conns add_conn (bind f (with_schema drv db))"
  unfolding opens_def
proof
  fix d
  obtain r d1 where f: "f d = (r, d1)" by (cases "f d")
  show "case bind f (with_schema drv db) d of (Inl e, d') \<Rightarrow> res d' = res d
      | (Inr h, d') \<Rightarrow> h \<notin> open_conns (res d) \<and> res d' = add_conn h (res d)"
  proof (cases r)
    case (Inl e)
    with f opensD(1) [OF con] show ?thesis by simp
  next
    case (Inr h)
    then have h: "h \<notin> open_conns (res d)" "res d1 = add_conn h (res d)" using f opensD(2) [OF con] by blast+
    obtain r2 d2 where s: "con_setSchema drv h db d1 = (r2, d2)" by (cases "con_setSchema drv h db d1")
    then have "res d2 = res d1" by (rule keepsD [OF driver_documentedD(2) [OF doc]])
    with h f s Inr driver_documentedD(6) [OF doc] show ?thesis
      by (cases r2) (simp_all add: with_schema_def)
  qed
qed

lemma make_connection_opens:
  assumes doc: "driver_documented drv res"
  shows "opens res open_conns add_conn (make_connection_cfg_noschema drv conf)"
    "opens res open_conns add_conn (make_connection_cfg drv conf)"
    "opens res open_conns add_conn (make_shr_connection_cfg drv conf)"
    "opens res open_conns add_conn (connect_db drv info)"
  unfolding make_connection_cfg_noschema_def make_connection_cfg_def make_shr_connection_cfg_def connect_db_def
  by (rule driver_documentedD(1) [OF doc], (rule with_schema_opens [OF doc driver_documentedD(1) [OF doc]])+)

text \<open>What a wrapper holds is closed by its destructor; a factory that throws leaves nothing open.\<close>

definition closes_after :: "('d \<Rightarrow> resources) \<Rightarrow> ('d, 'a) eff \<Rightarrow> ('a \<Rightarrow> 'd \<Rightarrow> 'd) \<Rightarrow> bool" where
  "closes_after res f free \<longleftrightarrow>
     (\<forall>d. case f d of (Inl e, d') \<Rightarrow> res d' = res d | (Inr x, d') \<Rightarrow> res d' \<noteq> res d \<and> res (free x d') = res d)"

lemma wrapped_closes:
  assumes doc: "driver_documented drv res" and con: "opens res open_conns add_conn f"
  shows "closes_after res (bind f wrap_conn) (free_conn drv)"
  unfolding closes_after_def
proof
  fix d
  obtain r d1 where f: "f d = (r, d1)" by (cases "f d")
  show "case bind f wrap_conn d of (Inl e, d') \<Rightarrow> res d' = res d | (Inr x, d') \<Rightarrow> res d' \<noteq> res d \<and> res (free_conn drv x d') = res d"
  proof (cases r)
    case (Inl e)
    with f opensD(1) [OF con] show ?thesis by simp
  next
    case (Inr h)
    then have h: "h \<notin> open_conns (res d)" "res d1 = add_conn h (res d)" using f opensD(2) [OF con] by blast+
    then have "open_conns (res d1) \<noteq> open_conns (res d)" by auto
    then have "res d1 \<noteq> res d" by metis
    moreover have "res (con_delete drv h d1) = res d" using h driver_documentedD(6) [OF doc] by simp
    ultimately show ?thesis
      using f Inr by (simp add: wrap_conn_def free_conn_def)
  qed
qed

lemma closes_after_wrap:
  "closes_after res (bind f wrap_conn) (free_conn drv) \<longleftrightarrow> closes_after res f (con_delete drv)"
  unfolding closes_after_def
  by (intro iff_allI) (auto simp: wrap_conn_def free_conn_def split: sum.split prod.split)

lemma init_migration_table_keeps:
  assumes doc: "driver_documented drv res"
  shows "keeps res (init_migration_table drv info)"
  unfolding keeps_def
proof
  fix d
  obtain r d1 where c: "connect_db drv info d = (r, d1)" by (cases "connect_db drv info d")
  show "res (snd (init_migration_table drv info d)) = res d"
  proof (cases r)
    case (Inl e)
    with c opensD(1) [OF make_connection_opens(4) [OF doc]] show ?thesis by (simp add: init_migration_table_def)
  next
    case (Inr h)
    then have h: "h \<notin> open_conns (res d)" "res d1 = add_conn h (res d)"
      using c opensD(2) [OF make_connection_opens(4) [OF doc]] by blast+
    obtain r2 d2 where s: "con_createStatement drv h d1 = (r2, d2)" by (cases "con_createStatement drv h d1")
    note st = opensD [OF driver_documentedD(3) [OF doc], of h d1]
    show ?thesis
    proof (cases r2)
      case (Inl e)
      with s st(1) h c Inr driver_documentedD(6) [OF doc] show ?thesis by (simp add: init_migration_table_def)
    next
      case (Inr s')
      then have s2: "s' \<notin> open_stmts (res d1)" "res d2 = add_stmt s' (res d1)" using s st(2) by blast+
      obtain r3 d3 where x: "st_execute drv s' (Some migration_table) d2 = (r3, d3)"
        by (cases "st_execute drv s' (Some migration_table) d2")
      then have "res d3 = res d2" by (rule keepsD [OF driver_documentedD(5) [OF doc]])
      with s2 x s h c Inr \<open>r = Inr h\<close> driver_documentedD(6,7) [OF doc] show ?thesis
        by (simp add: init_migration_table_def)
    qed
  qed
qed

text \<open>C38: no connection is lost: a factory that throws, while connecting or while choosing the schema,
  leaves open what was open; one that returns hands out a connection that was not open before, and
  the destructor of its wrapper closes exactly that. Making the table of the migrations leaves
  neither a connection nor a statement open, however it ends.\<close>

theorem connections_never_leak:
  assumes "driver_documented drv res"
  shows "closes_after res (make_connection_cfg drv conf) (con_delete drv) \<and>
     closes_after res (make_shr_connection_cfg drv conf) (con_delete drv) \<and>
     closes_after res (make_connection_cfg_noschema drv conf) (con_delete drv) \<and>
     closes_after res (connect_db drv info) (con_delete drv) \<and>
     closes_after res (make_connection_cfg_raii drv conf) (free_conn drv) \<and>
     closes_after res (make_shr_connection_cfg_raii drv conf) (free_conn drv) \<and>
     closes_after res (make_connection_cfg_noschema_raii drv conf) (free_conn drv) \<and>
     (\<forall>d. res (snd (init_migration_table drv info d)) = res d)"
proof -
  note opened = make_connection_opens(1-3) [OF assms, of conf] make_connection_opens(4) [OF assms, of info]
  have plain: "closes_after res f (con_delete drv)" if "opens res open_conns add_conn f" for f
    using wrapped_closes [OF assms that] by (simp only: closes_after_wrap)
  have "closes_after res (make_connection_cfg_raii drv conf) (free_conn drv)"
      "closes_after res (make_shr_connection_cfg_raii drv conf) (free_conn drv)"
      "closes_after res (make_connection_cfg_noschema_raii drv conf) (free_conn drv)"
    using wrapped_closes [OF assms] opened
    unfolding make_connection_cfg_raii_def make_shr_connection_cfg_raii_def make_connection_cfg_noschema_raii_def
      make_connection_cfg_def make_shr_connection_cfg_def make_connection_cfg_noschema_def by blast+
  with plain opened init_migration_table_keeps [OF assms] show ?thesis by (simp add: keeps_def)
qed

text \<open>A driver in memory: it numbers what it opens and refuses one schema.\<close>

record toy_mysql =
  tm_conns :: "nat list"
  tm_stmts :: "nat list"

definition toy_res :: "toy_mysql \<Rightarrow> resources" where
  "toy_res d = \<lparr>open_conns = set (tm_conns d), open_stmts = set (tm_stmts d)\<rparr>"

definition unused :: "nat list \<Rightarrow> nat" where
  "unused hs = Suc (sum_list hs)"

lemma unused_new: "unused hs \<notin> set hs"
  using member_le_sum_list [of "unused hs" hs] by (auto simp: unused_def)

definition toy_driver :: "toy_mysql mysql_driver" where
  "toy_driver =
     \<lparr>drv_connect = (\<lambda>host user pwd d. (Inr (unused (tm_conns d)), d\<lparr>tm_conns := unused (tm_conns d) # tm_conns d\<rparr>)),
      con_setSchema = (\<lambda>h db d. (if db = ''closed'' then Inl (StdExn Runtime_error ''Access denied'') else Inr (), d)),
      con_prepare = (\<lambda>h sql args d. (Inr (unused (tm_stmts d)), d\<lparr>tm_stmts := unused (tm_stmts d) # tm_stmts d\<rparr>)),
      con_createStatement = (\<lambda>h d. (Inr (unused (tm_stmts d)), d\<lparr>tm_stmts := unused (tm_stmts d) # tm_stmts d\<rparr>)),
      con_delete = (\<lambda>h d. d\<lparr>tm_conns := removeAll h (tm_conns d)\<rparr>),
      st_execute = (\<lambda>s sql d. (Inr True, d)), st_executeQuery = (\<lambda>s sql d. (Inr 0, d)),
      st_executeUpdate = (\<lambda>s sql d. (Inr 0, d)), st_getMetaData = (\<lambda>s d. (Inr 0, d)),
      st_getParameterMetaData = (\<lambda>s d. (Inr 0, d)), st_getMoreResults = (\<lambda>s d. (Inr False, d)),
      st_set = (\<lambda>s i v d. (Inr (), d)), st_delete = (\<lambda>s d. d\<lparr>tm_stmts := removeAll s (tm_stmts d)\<rparr>)\<rparr>"

lemma toy_driver_documented: "driver_documented toy_driver toy_res"
  by (simp add: driver_documented_def toy_driver_def toy_res_def opens_def keeps_def unused_new)

definition closed_conf :: config_data where
  "closed_conf = [''MYSQL_HOST'' \<mapsto> ''db'', ''MYSQL_DATABASE'' \<mapsto> ''closed'']"

definition closed_address :: database_address where
  "closed_address = \<lparr>da_host = ''db'', da_db = ''closed'', da_user = ''u'', da_pwd = ''p''\<rparr>"

theorem connections_never_leak_witness:
  "closes_after toy_res (make_connection_cfg toy_driver closed_conf) (con_delete toy_driver) \<and>
     closes_after toy_res (make_shr_connection_cfg toy_driver closed_conf) (con_delete toy_driver) \<and>
     closes_after toy_res (make_connection_cfg_noschema toy_driver closed_conf) (con_delete toy_driver) \<and>
     closes_after toy_res (connect_db toy_driver closed_address) (con_delete toy_driver) \<and>
     closes_after toy_res (make_connection_cfg_raii toy_driver closed_conf) (free_conn toy_driver) \<and>
     closes_after toy_res (make_shr_connection_cfg_raii toy_driver closed_conf) (free_conn toy_driver) \<and>
     closes_after toy_res (make_connection_cfg_noschema_raii toy_driver closed_conf) (free_conn toy_driver) \<and>
     (\<forall>d. toy_res (snd (init_migration_table toy_driver closed_address d)) = toy_res d)"
  by (rule connections_never_leak [OF toy_driver_documented])

end
