(* ===== verification/LuaQueue.thy ===== *)
theory LuaQueue
  imports Redis "HOL-Library.Multiset"
begin

text \<open>
  The Lua scripts of src/src/queues/LuaScripts.hpp as Redis runs them: each is a function on the data of a
  server (\<open>redis_data\<close>), its keys and arguments are parameters. A script that raises an error keeps
  what it did before. \<open>bump\<close> is what decoding a payload, adding one to its \<open>attempts\<close> and encoding it
  gives, none when that raises an error, as decoding a text that is not JSON does.
\<close>

section \<open>The commands\<close>

definition llen :: "string \<Rightarrow> redis_data \<Rightarrow> nat" where
  "llen k d = length (rd_lists d k)"

definition zcard :: "string \<Rightarrow> redis_data \<Rightarrow> nat" where
  "zcard k d = length (rd_zsets d k)"

definition rpush_all :: "string \<Rightarrow> string list \<Rightarrow> redis_data \<Rightarrow> redis_data" where
  "rpush_all k xs d = d\<lparr>rd_lists := (rd_lists d)(k := rd_lists d k @ xs)\<rparr>"

definition lpop :: "string \<Rightarrow> redis_data \<Rightarrow> string option \<times> redis_data" where
  "lpop k d =
     (case rd_lists d k of
        [] \<Rightarrow> (None, d)
      | x # xs \<Rightarrow> (Some x, d\<lparr>rd_lists := (rd_lists d)(k := xs)\<rparr>))"

text \<open>A sorted set is in the order of the scores, members of one score in the order of their bytes;
  a member has one score.\<close>

fun zinsert :: "string \<Rightarrow> int \<Rightarrow> (string \<times> int) list \<Rightarrow> (string \<times> int) list" where
  "zinsert m sc [] = [(m, sc)]"
| "zinsert m sc ((m', sc') # zs) =
     (if sc < sc' \<or> (sc = sc' \<and> string_less m m') then (m, sc) # (m', sc') # zs else (m', sc') # zinsert m sc zs)"

definition zrem :: "string \<Rightarrow> string \<Rightarrow> redis_data \<Rightarrow> redis_data" where
  "zrem k m d = d\<lparr>rd_zsets := (rd_zsets d)(k := filter (\<lambda>(m', sc). m' \<noteq> m) (rd_zsets d k))\<rparr>"

definition zadd :: "string \<Rightarrow> int \<Rightarrow> string \<Rightarrow> redis_data \<Rightarrow> redis_data" where
  "zadd k sc m d =
     d\<lparr>rd_zsets := (rd_zsets d)(k := zinsert m sc (filter (\<lambda>(m', sc'). m' \<noteq> m) (rd_zsets d k)))\<rparr>"

definition zrangebyscore :: "string \<Rightarrow> int \<Rightarrow> redis_data \<Rightarrow> string list" where
  "zrangebyscore k now d = map fst (filter (\<lambda>(m, sc). sc \<le> now) (rd_zsets d k))"

text \<open>\<open>ZREMRANGEBYRANK k 0 n-1\<close>.\<close>

definition zremrange :: "string \<Rightarrow> nat \<Rightarrow> redis_data \<Rightarrow> redis_data" where
  "zremrange k n d = d\<lparr>rd_zsets := (rd_zsets d)(k := drop n (rd_zsets d k))\<rparr>"

definition del_key :: "redis_data \<Rightarrow> string \<Rightarrow> redis_data" where
  "del_key d k = \<lparr>rd_lists = (rd_lists d)(k := []), rd_zsets = (rd_zsets d)(k := []), rd_hashes = (rd_hashes d)(k := None)\<rparr>"

section \<open>The scripts\<close>

definition lua_size :: "string \<Rightarrow> string \<Rightarrow> string \<Rightarrow> redis_data \<Rightarrow> nat" where
  "lua_size k1 k2 k3 d = llen k1 d + zcard k2 d + zcard k3 d"

definition lua_push :: "string \<Rightarrow> string \<Rightarrow> string \<Rightarrow> redis_data \<Rightarrow> redis_data" where
  "lua_push k1 k2 payload d = rpush_all k2 [''1''] (rpush_all k1 [payload] d)"

text \<open>The answer is the payload and the payload as it was put on the reserved set.\<close>

definition lua_pop :: "(string \<Rightarrow> string option) \<Rightarrow> string \<Rightarrow> string \<Rightarrow> string \<Rightarrow> int \<Rightarrow> redis_data \<Rightarrow>
    (exn + string option \<times> string option) \<times> redis_data" where
  "lua_pop bump k1 k2 k3 expire d =
     (case lpop k1 d of
        (None, d1) \<Rightarrow> (Inr (None, None), d1)
      | (Some job, d1) \<Rightarrow>
          (case bump job of
             None \<Rightarrow> (Inl redis_error, d1)
           | Some reserved \<Rightarrow> (Inr (Some job, Some reserved), snd (lpop k3 (zadd k2 expire reserved d1)))))"

definition lua_release :: "string \<Rightarrow> string \<Rightarrow> string \<Rightarrow> int \<Rightarrow> redis_data \<Rightarrow> redis_data" where
  "lua_release k1 k2 payload available d = zadd k1 available payload (zrem k2 payload d)"

text \<open>The loop of \<open>migrateExpiredJobs\<close>: \<open>i\<close> counts from 0 here; one step takes at most 100 values.\<close>

function migrate_chunks :: "string \<Rightarrow> string \<Rightarrow> string list \<Rightarrow> nat \<Rightarrow> redis_data \<Rightarrow> redis_data" where
  "migrate_chunks k2 k3 vals i d =
     (if i < length vals then
        (let n = min 100 (length vals - i);
             d1 = rpush_all k2 (take n (drop i vals)) d;
             d2 = ((rpush_all k3 [''1'']) ^^ n) d1
         in migrate_chunks k2 k3 vals (i + 100) d2)
      else d)"
  by pat_completeness auto
termination by (relation "measure (\<lambda>(k2, k3, vals, i, d). length vals - i)") auto

declare migrate_chunks.simps [simp del]

definition lua_migrate :: "string \<Rightarrow> string \<Rightarrow> string \<Rightarrow> int \<Rightarrow> redis_data \<Rightarrow> string list \<times> redis_data" where
  "lua_migrate k1 k2 k3 now d =
     (let vals = zrangebyscore k1 now d in
      (vals, if vals \<noteq> [] then migrate_chunks k2 k3 vals 0 (zremrange k1 (length vals) d) else d))"

definition lua_clear :: "string \<Rightarrow> string \<Rightarrow> string \<Rightarrow> string \<Rightarrow> redis_data \<Rightarrow> nat \<times> redis_data" where
  "lua_clear k1 k2 k3 k4 d = (llen k1 d + zcard k2 d + zcard k3 d, del_key (del_key (del_key (del_key d k1) k2) k3) k4)"

section \<open>Migrating expired jobs\<close>

lemma rpush_all_append [simp]: "rpush_all k ys (rpush_all k xs d) = rpush_all k (xs @ ys) d"
  by (simp add: rpush_all_def)

lemma rpush_all_Nil [simp]: "rpush_all k [] d = d"
  by (simp add: rpush_all_def)

lemma rpush_all_swap: "k \<noteq> k' \<Longrightarrow> rpush_all k xs (rpush_all k' ys d) = rpush_all k' ys (rpush_all k xs d)"
  by (simp add: rpush_all_def fun_upd_twist)

lemma notify_times: "((rpush_all k [x]) ^^ n) d = rpush_all k (replicate n x) d"
  by (induction n) (simp_all add: replicate_append_same)

text \<open>Moving in chunks of 100 is moving all at once.\<close>

lemma migrate_chunks_all:
  "k2 \<noteq> k3 \<Longrightarrow>
   migrate_chunks k2 k3 vals i d = rpush_all k3 (replicate (length vals - i) ''1'') (rpush_all k2 (drop i vals) d)"
proof (induction k2 k3 vals i d rule: migrate_chunks.induct)
  case (1 k2 k3 vals i d)
  show ?case
  proof (cases "i < length vals")
    case False
    then show ?thesis by (simp add: migrate_chunks.simps [of k2 k3 vals i d])
  next
    case True
    define n where "n = min 100 (length vals - i)"
    have "drop (i + 100) vals = drop n (drop i vals)" using True by (simp add: n_def min_def add.commute)
    then have n: "take n (drop i vals) @ drop (i + 100) vals = drop i vals" by (simp del: drop_drop)
    have m: "replicate n x @ replicate (length vals - (i + 100)) x = replicate (length vals - i) x" for x :: string
      using True by (simp add: n_def min_def flip: replicate_add)
    have "migrate_chunks k2 k3 vals i d =
        migrate_chunks k2 k3 vals (i + 100) (((rpush_all k3 [''1'']) ^^ n) (rpush_all k2 (take n (drop i vals)) d))"
      using True by (simp add: migrate_chunks.simps [of k2 k3 vals i d] n_def Let_def)
    also have "\<dots> = rpush_all k3 (replicate (length vals - (i + 100)) ''1'') (rpush_all k2 (drop (i + 100) vals)
        (((rpush_all k3 [''1'']) ^^ n) (rpush_all k2 (take n (drop i vals)) d)))"
      using 1 True by (simp add: n_def Let_def)
    also have "\<dots> = rpush_all k3 (replicate (length vals - i) ''1'') (rpush_all k2 (drop i vals) d)"
      using 1 n m by (simp add: notify_times rpush_all_swap [of k2 k3])
    finally show ?thesis .
  qed
qed

lemma due_prefix:
  "sorted (map snd zs) \<Longrightarrow>
   drop (length (filter (\<lambda>(m, sc). sc \<le> now) zs)) zs = filter (\<lambda>(m, sc). \<not> sc \<le> now) (zs :: (string \<times> int) list)"
proof (induction zs)
  case (Cons z zs)
  show ?case
  proof (cases "snd z \<le> now")
    case True
    with Cons show ?thesis by (cases z) simp
  next
    case False
    then have "\<forall>(m, sc) \<in> set zs. \<not> sc \<le> now" using Cons.prems by (fastforce simp: image_iff)
    then have "filter (\<lambda>(m, sc). sc \<le> now) zs = []" "filter (\<lambda>(m, sc). \<not> sc \<le> now) zs = zs"
      by (auto simp: filter_empty_conv filter_id_conv)
    with False show ?thesis by (cases z) simp
  qed
qed simp

definition due :: "int \<Rightarrow> (string \<times> int) list \<Rightarrow> string list" where
  "due now zs = map fst (filter (\<lambda>(m, sc). sc \<le> now) zs)"

lemma due_moves:
  assumes "sorted (map snd (rd_zsets d k1))" and "k2 \<noteq> k3"
  shows "lua_migrate k1 k2 k3 now d =
     (due now (rd_zsets d k1),
      d\<lparr>rd_lists := (rd_lists d)(k2 := rd_lists d k2 @ due now (rd_zsets d k1),
          k3 := rd_lists d k3 @ replicate (length (due now (rd_zsets d k1))) ''1''),
        rd_zsets := (rd_zsets d)(k1 := filter (\<lambda>(m, sc). \<not> sc \<le> now) (rd_zsets d k1))\<rparr>)"
proof (cases "zrangebyscore k1 now d = []")
  case True
  then have "filter (\<lambda>(m, sc). sc \<le> now) (rd_zsets d k1) = []" by (simp add: zrangebyscore_def)
  then have "due now (rd_zsets d k1) = []" "filter (\<lambda>(m, sc). \<not> sc \<le> now) (rd_zsets d k1) = rd_zsets d k1"
    using due_prefix [OF assms(1), of now] by (simp_all add: due_def)
  with True show ?thesis by (simp add: lua_migrate_def)
next
  case False
  then show ?thesis
    using due_prefix [OF assms(1), of now] assms(2)
    by (simp add: lua_migrate_def Let_def migrate_chunks_all zrangebyscore_def due_def zremrange_def rpush_all_def)
qed

section \<open>No job is lost or doubled\<close>

text \<open>The four keys of one queue, and the jobs on it: waiting, delayed and reserved.\<close>

record lua_keys =
  lk_queue :: string
  lk_delayed :: string
  lk_reserved :: string
  lk_notify :: string

definition keys_apart :: "lua_keys \<Rightarrow> bool" where
  "keys_apart K \<longleftrightarrow> lk_queue K \<noteq> lk_notify K \<and> lk_delayed K \<noteq> lk_reserved K"

definition set_members :: "(string \<times> int) list \<Rightarrow> string multiset" where
  "set_members zs = mset (map fst zs)"

definition jobs :: "lua_keys \<Rightarrow> redis_data \<Rightarrow> string multiset" where
  "jobs K d = mset (rd_lists d (lk_queue K)) + set_members (rd_zsets d (lk_delayed K)) + set_members (rd_zsets d (lk_reserved K))"

datatype lua_op =
  OpPush string | OpPop int | OpRelease string int | OpMigrateDelayed int | OpMigrateReserved int

definition lua_apply :: "(string \<Rightarrow> string option) \<Rightarrow> lua_keys \<Rightarrow> lua_op \<Rightarrow> redis_data \<Rightarrow> redis_data" where
  "lua_apply bump K oper d =
     (case oper of
        OpPush p \<Rightarrow> lua_push (lk_queue K) (lk_notify K) p d
      | OpPop t \<Rightarrow> snd (lua_pop bump (lk_queue K) (lk_reserved K) (lk_notify K) t d)
      | OpRelease p t \<Rightarrow> lua_release (lk_delayed K) (lk_reserved K) p t d
      | OpMigrateDelayed now \<Rightarrow> snd (lua_migrate (lk_delayed K) (lk_queue K) (lk_notify K) now d)
      | OpMigrateReserved now \<Rightarrow> snd (lua_migrate (lk_reserved K) (lk_queue K) (lk_notify K) now d))"

text \<open>\<open>ident\<close> is what tells jobs apart, and \<open>dec\<close> holds of the payloads that can be decoded: counting an attempt
  keeps both. A push brings a new job with such a payload, a release gives back a job that is reserved.\<close>

definition ident_kept :: "(string \<Rightarrow> bool) \<Rightarrow> (string \<Rightarrow> 'i) \<Rightarrow> (string \<Rightarrow> string option) \<Rightarrow> bool" where
  "ident_kept dec ident bump \<longleftrightarrow> (\<forall>p. dec p \<longrightarrow> (\<exists>q. bump p = Some q \<and> dec q \<and> ident q = ident p))"

definition lua_allowed :: "(string \<Rightarrow> bool) \<Rightarrow> (string \<Rightarrow> 'i) \<Rightarrow> lua_keys \<Rightarrow> lua_op \<Rightarrow> redis_data \<Rightarrow> bool" where
  "lua_allowed dec ident K oper d =
     (case oper of
        OpPush p \<Rightarrow> dec p \<and> ident p \<notin># image_mset ident (jobs K d)
      | OpRelease p t \<Rightarrow> p \<in> fst ` set (rd_zsets d (lk_reserved K))
      | _ \<Rightarrow> True)"

fun lua_run :: "(string \<Rightarrow> bool) \<Rightarrow> (string \<Rightarrow> 'i) \<Rightarrow> (string \<Rightarrow> string option) \<Rightarrow> lua_keys \<Rightarrow> lua_op list \<Rightarrow> redis_data \<Rightarrow> redis_data option" where
  "lua_run dec ident bump K [] d = Some d"
| "lua_run dec ident bump K (oper # ops) d =
     (if lua_allowed dec ident K oper d then lua_run dec ident bump K ops (lua_apply bump K oper d) else None)"

definition pushed :: "lua_op list \<Rightarrow> string list" where
  "pushed ops = concat (map (\<lambda>oper. case oper of OpPush p \<Rightarrow> [p] | _ \<Rightarrow> []) ops)"

definition lua_inv :: "(string \<Rightarrow> bool) \<Rightarrow> (string \<Rightarrow> 'i) \<Rightarrow> lua_keys \<Rightarrow> redis_data \<Rightarrow> bool" where
  "lua_inv dec ident K d \<longleftrightarrow> (\<forall>p \<in># jobs K d. dec p) \<and> sorted (map snd (rd_zsets d (lk_delayed K))) \<and> sorted (map snd (rd_zsets d (lk_reserved K))) \<and>
     (\<forall>i. count (image_mset ident (jobs K d)) i \<le> 1)"

lemma set_members_simps [simp]:
  "set_members [] = {#}" "set_members (z # zs) = add_mset (fst z) (set_members zs)" "set_mset (set_members zs) = fst ` set zs"
  by (simp_all add: set_members_def)

lemma set_members_zinsert [simp]: "set_members (zinsert m sc zs) = add_mset m (set_members zs)"
  by (induction m sc zs rule: zinsert.induct) auto

lemma set_zinsert [simp]: "set (zinsert m sc zs) = insert (m, sc) (set zs)"
  by (induction m sc zs rule: zinsert.induct) auto

lemma sorted_zinsert: "sorted (map snd zs) \<Longrightarrow> sorted (map snd (zinsert m sc zs))"
  by (induction m sc zs rule: zinsert.induct) auto

lemma sorted_zfilter: "sorted (map snd zs) \<Longrightarrow> sorted (map snd (filter P zs))"
  by (induction zs) auto

lemma set_members_filter: "set_members (filter (\<lambda>(m', sc). m' \<noteq> m) zs) = filter_mset (\<lambda>m'. m' \<noteq> m) (set_members zs)"
  by (induction zs) auto

lemma set_members_due: "mset (due now zs) + set_members (filter (\<lambda>(m, sc). \<not> sc \<le> now) zs) = set_members zs"
  by (induction zs) (auto simp: due_def)

lemma absent_filter: "x \<notin># M \<Longrightarrow> filter_mset (\<lambda>y. y \<noteq> x) M = M"
  by (induction M) auto

lemma single_filter: "count M x = 1 \<Longrightarrow> add_mset x (filter_mset (\<lambda>y. y \<noteq> x) M) = M"
  by (rule multiset_eqI) auto

text \<open>Where all jobs are apart, a job of one place is not in another, nor is one that has its identity.\<close>

lemma apart_two:
  assumes "\<forall>i. count (image_mset ident (A + B)) i \<le> 1" and "x \<in># A" and "y \<in># B"
  shows "ident x \<noteq> ident y"
proof
  assume e: "ident x = ident y"
  obtain A' B' where "A = add_mset x A'" "B = add_mset y B'" using assms(2,3) by (meson mset_add)
  then have "count (image_mset ident (A + B)) (ident y) \<ge> 2" using e by simp
  moreover have "count (image_mset ident (A + B)) (ident y) \<le> 1" using assms(1) by blast
  ultimately show False by linarith
qed

lemma apart_one:
  assumes "\<forall>i. count (image_mset ident M) i \<le> 1" and "x \<in># M"
  shows "count M x = 1"
proof -
  obtain N where N: "M = add_mset x N" using assms(2) by (meson mset_add)
  then have "\<forall>i. count (image_mset ident ({#x#} + N)) i \<le> 1" using assms(1) by simp
  then have "x \<notin># N" using apart_two [of ident "{#x#}" N x x] by auto
  then show ?thesis using N by (simp add: not_in_iff)
qed

lemma apart_part:
  "\<forall>i. count (image_mset ident (A + B)) i \<le> 1 \<Longrightarrow> \<forall>i. count (image_mset ident A) i \<le> 1"
proof
  fix i
  assume "\<forall>i. count (image_mset ident (A + B)) i \<le> 1"
  then have "count (image_mset ident (A + B)) i \<le> 1" by (rule spec)
  then show "count (image_mset ident A) i \<le> 1" by simp
qed

section \<open>What each script does to the jobs\<close>

lemma push_jobs: "keys_apart K \<Longrightarrow> jobs K (lua_apply bump K (OpPush p) d) = add_mset p (jobs K d)"
  by (simp add: lua_apply_def lua_push_def rpush_all_def jobs_def keys_apart_def)

lemma migrate_jobs:
  assumes "keys_apart K" and "lua_inv dec ident K d" and "oper = OpMigrateDelayed now \<or> oper = OpMigrateReserved now"
  shows "jobs K (lua_apply bump K oper d) = jobs K d"
proof -
  have "sorted (map snd (rd_zsets d (lk_delayed K)))" "sorted (map snd (rd_zsets d (lk_reserved K)))"
    using assms(2) by (simp_all add: lua_inv_def)
  note [simp] = this [THEN due_moves]
  show ?thesis
    using assms(1,3) set_members_due [of now "rd_zsets d (lk_delayed K)"] set_members_due [of now "rd_zsets d (lk_reserved K)"]
    by (auto simp: lua_apply_def jobs_def keys_apart_def)
qed

lemma release_jobs:
  assumes "keys_apart K" and "lua_inv dec ident K d" and "lua_allowed dec ident K (OpRelease p t) d"
  shows "jobs K (lua_apply bump K (OpRelease p t) d) = jobs K d"
proof -
  define Q D R where "Q = mset (rd_lists d (lk_queue K))" and "D = set_members (rd_zsets d (lk_delayed K))"
    and "R = set_members (rd_zsets d (lk_reserved K))"
  have apart: "\<forall>i. count (image_mset ident ((Q + D) + R)) i \<le> 1"
    using assms(2) by (simp add: lua_inv_def jobs_def Q_def D_def R_def)
  have p: "p \<in># R" using assms(3) by (simp add: lua_allowed_def R_def)
  have "p \<notin># D" using apart_two [OF apart _ p] by fastforce
  moreover have "count R p = 1" using apart_part [of ident R "Q + D"] apart p by (simp add: ac_simps apart_one)
  ultimately have "Q + add_mset p (filter_mset (\<lambda>m. m \<noteq> p) D) + filter_mset (\<lambda>m. m \<noteq> p) R = Q + D + R"
    by (simp add: absent_filter single_filter flip: union_mset_add_mset_right)
  then show ?thesis
    using assms(1)
    by (auto simp: lua_apply_def lua_release_def zadd_def zrem_def jobs_def keys_apart_def set_members_filter Q_def D_def R_def)
qed

lemma pop_jobs:
  assumes "keys_apart K" and "ident_kept dec ident bump" and "lua_inv dec ident K d"
  shows "image_mset ident (jobs K (lua_apply bump K (OpPop t) d)) = image_mset ident (jobs K d) \<and>
     (\<forall>p \<in># jobs K (lua_apply bump K (OpPop t) d). dec p)"
proof (cases "rd_lists d (lk_queue K)")
  case Nil
  then show ?thesis using assms(3) by (simp add: lua_apply_def lua_pop_def lpop_def lua_inv_def)
next
  case (Cons x xs)
  define D R where "D = set_members (rd_zsets d (lk_delayed K))" and "R = set_members (rd_zsets d (lk_reserved K))"
  have dec: "\<forall>p \<in># add_mset x (mset xs) + D + R. dec p" using assms(3) Cons by (simp add: lua_inv_def jobs_def D_def R_def)
  then have "dec x" by simp
  then obtain q where q: "bump x = Some q" "ident q = ident x" "dec q" using assms(2) by (auto simp: ident_kept_def)
  have apart: "\<forall>i. count (image_mset ident ((add_mset x (mset xs) + D) + R)) i \<le> 1"
    using assms(3) Cons by (simp add: lua_inv_def jobs_def D_def R_def)
  have "q \<notin># R" using apart_two [OF apart, of x q] q by fastforce
  moreover have "jobs K (lua_apply bump K (OpPop t) d) = mset xs + D + add_mset q (filter_mset (\<lambda>m. m \<noteq> q) R)"
    using assms(1) Cons q
    by (auto simp: lua_apply_def lua_pop_def lpop_def zadd_def jobs_def keys_apart_def set_members_filter D_def R_def
        split: list.split)
  moreover have "\<forall>p \<in># mset xs + D + add_mset q (filter_mset (\<lambda>m. m \<noteq> q) R). dec p" using dec q(3) by auto
  ultimately show ?thesis using q Cons by (simp add: absent_filter jobs_def D_def R_def)
qed

lemma lua_sorted:
  assumes "keys_apart K" and "lua_inv dec ident K d" and "k = lk_delayed K \<or> k = lk_reserved K"
  shows "sorted (map snd (rd_zsets (lua_apply bump K oper d) k))"
proof -
  have s [simp]: "sorted (map snd (rd_zsets d (lk_delayed K)))" "sorted (map snd (rd_zsets d (lk_reserved K)))"
    using assms(2) by (simp_all add: lua_inv_def)
  note [simp] = s [THEN due_moves] sorted_zinsert sorted_zfilter
  show ?thesis
    using assms(1,3)
    by (cases oper)
       (auto simp: keys_apart_def lua_apply_def lua_push_def rpush_all_def lua_release_def zadd_def zrem_def lua_pop_def lpop_def
         split: list.splits option.splits)
qed

lemma lua_step:
  assumes "keys_apart K" and "ident_kept dec ident bump" and "lua_inv dec ident K d" and "lua_allowed dec ident K oper d"
  shows "image_mset ident (jobs K (lua_apply bump K oper d)) =
      image_mset ident (jobs K d) + mset (map ident (pushed [oper]))"
    and "lua_inv dec ident K (lua_apply bump K oper d)"
proof -
  show e: "image_mset ident (jobs K (lua_apply bump K oper d)) =
      image_mset ident (jobs K d) + mset (map ident (pushed [oper]))"
    using assms push_jobs [OF assms(1)] migrate_jobs [OF assms(1,3)] release_jobs [OF assms(1,3)] pop_jobs [OF assms(1-3)]
    by (cases oper) (simp_all add: pushed_def)
  have "count (image_mset ident (jobs K (lua_apply bump K oper d))) i \<le> 1" for i
    using assms(3,4) unfolding e by (cases oper) (auto simp: lua_inv_def lua_allowed_def pushed_def not_in_iff simp del: set_image_mset)
  moreover have "\<forall>p \<in># jobs K d. dec p" using assms(3) by (simp add: lua_inv_def)
  then have "\<forall>p \<in># jobs K (lua_apply bump K oper d). dec p"
    using assms(4) push_jobs [OF assms(1)] migrate_jobs [OF assms(1,3)] release_jobs [OF assms(1,3)] pop_jobs [OF assms(1-3)]
    by (cases oper) (simp_all add: lua_allowed_def)
  ultimately show "lua_inv dec ident K (lua_apply bump K oper d)"
    using lua_sorted [OF assms(1,3)] by (simp add: lua_inv_def)
qed

lemma lua_run_conserves:
  "\<lbrakk>keys_apart K; ident_kept dec ident bump; lua_inv dec ident K d; lua_run dec ident bump K ops d = Some d'\<rbrakk> \<Longrightarrow>
   image_mset ident (jobs K d') = image_mset ident (jobs K d) + mset (map ident (pushed ops)) \<and> lua_inv dec ident K d'"
proof (induction ops arbitrary: d)
  case (Cons oper ops)
  then have a: "lua_allowed dec ident K oper d" "lua_run dec ident bump K ops (lua_apply bump K oper d) = Some d'"
    by (simp_all split: if_splits)
  note s = lua_step [OF Cons.prems(1-3) a(1)]
  show ?case
    using Cons.IH [OF Cons.prems(1,2) s(2) a(2)] s(1) by (simp add: pushed_def ac_simps)
qed (simp add: pushed_def)

lemma size_jobs: "lua_size (lk_queue K) (lk_delayed K) (lk_reserved K) d = size (jobs K d)"
  by (simp add: lua_size_def llen_def zcard_def jobs_def set_members_def)

text \<open>C39: no job whose payload can be decoded is lost and none is doubled: after any sequence of pushes of new
  jobs with such payloads, pops, releases of reserved jobs and migrations of the delayed and the reserved jobs, the jobs on the three keys are those
  that were there and those that were pushed, once each, both sorted sets are in the order of their scores,
  and \<open>size\<close> answers how many there are.\<close>

theorem lua_conserves:
  assumes "keys_apart K" and "ident_kept dec ident bump" and "lua_inv dec ident K d"
    and "lua_run dec ident bump K ops d = Some d'"
  shows "image_mset ident (jobs K d') = image_mset ident (jobs K d) + mset (map ident (pushed ops)) \<and>
     lua_inv dec ident K d' \<and>
     lua_size (lk_queue K) (lk_delayed K) (lk_reserved K) d' =
       lua_size (lk_queue K) (lk_delayed K) (lk_reserved K) d + length (pushed ops)"
proof -
  have c: "image_mset ident (jobs K d') = image_mset ident (jobs K d) + mset (map ident (pushed ops)) \<and> lua_inv dec ident K d'"
    using lua_run_conserves [OF assms] .
  have "size (jobs K d') = size (jobs K d) + length (pushed ops)"
    using arg_cong [OF conjunct1 [OF c], of size] by simp
  with c show ?thesis by (simp add: size_jobs)
qed

definition demo_keys :: lua_keys where
  "demo_keys = \<lparr>lk_queue = ''q'', lk_delayed = ''q:delayed'', lk_reserved = ''q:reserved'', lk_notify = ''q:notify''\<rparr>"

definition empty_data :: redis_data where
  "empty_data = \<lparr>rd_lists = (\<lambda>_. []), rd_zsets = (\<lambda>_. []), rd_hashes = (\<lambda>_. None)\<rparr>"

text \<open>A payload is a letter and one stroke per attempt; the empty text cannot be decoded.\<close>

lemma lua_conserves_witness:
  "\<exists>d. lua_run (\<lambda>p. p \<noteq> []) (take 1) (\<lambda>p. if p = [] then None else Some (p @ ''|'')) demo_keys
      [OpPush ''a'', OpPush ''b'', OpPop 10, OpRelease ''a|'' 20, OpMigrateDelayed 20, OpPop 30] empty_data = Some d \<and>
    jobs demo_keys d = {#''a|'', ''b|''#} \<and>
    image_mset (take 1) (jobs demo_keys d) = {#''a'', ''b''#} \<and>
    lua_size ''q'' ''q:delayed'' ''q:reserved'' d = 2"
proof -
  let ?dec = "\<lambda>p :: string. p \<noteq> []" and ?bump = "\<lambda>p. if p = [] then None else Some (p @ ''|'')"
  let ?ops = "[OpPush ''a'', OpPush ''b'', OpPop 10, OpRelease ''a|'' 20, OpMigrateDelayed 20, OpPop 30]"
  note [simp] = demo_keys_def empty_data_def lua_allowed_def lua_apply_def lua_push_def rpush_all_def lua_pop_def lpop_def
    zadd_def zrem_def lua_release_def lua_migrate_def zrangebyscore_def zremrange_def jobs_def migrate_chunks.simps Let_def
  have k: "keys_apart demo_keys" by (simp add: keys_apart_def)
  have b: "ident_kept ?dec (take 1) ?bump" by (auto simp: ident_kept_def Suc_le_eq)
  have i: "lua_inv ?dec (take 1) demo_keys empty_data" by (simp add: lua_inv_def)
  obtain d where d: "lua_run ?dec (take 1) ?bump demo_keys ?ops empty_data = Some d" "jobs demo_keys d = {#''a|'', ''b|''#}"
    by simp
  show ?thesis
    using lua_conserves [OF k b i d(1)] d by (auto simp: pushed_def lua_size_def llen_def zcard_def)
qed

text \<open>C40: migrating the expired jobs of a queue moves exactly the jobs whose score is not over the given
  time, in their order, to the end of the other queue, with one notification each, and leaves the others;
  doing it 100 at a time makes no difference.\<close>

theorem lua_migrate_moves:
  assumes "sorted (map snd (rd_zsets d k1))" and "k2 \<noteq> k3"
  shows "lua_migrate k1 k2 k3 now d =
     (due now (rd_zsets d k1),
      d\<lparr>rd_lists := (rd_lists d)(k2 := rd_lists d k2 @ due now (rd_zsets d k1),
          k3 := rd_lists d k3 @ replicate (length (due now (rd_zsets d k1))) ''1''),
        rd_zsets := (rd_zsets d)(k1 := filter (\<lambda>(m, sc). \<not> sc \<le> now) (rd_zsets d k1))\<rparr>)"
  by (rule due_moves [OF assms])

lemma lua_migrate_moves_witness:
  "lua_migrate ''z'' ''q'' ''n'' 5 \<lparr>rd_lists = (\<lambda>_. []), rd_zsets = (\<lambda>_. [(''a'', 3), (''b'', 5), (''c'', 9)]), rd_hashes = (\<lambda>_. None)\<rparr> =
    ([''a'', ''b''],
     \<lparr>rd_lists = (\<lambda>_. [])(''q'' := [''a'', ''b''], ''n'' := [''1'', ''1'']),
      rd_zsets = (\<lambda>_. [(''a'', 3), (''b'', 5), (''c'', 9)])(''z'' := [(''c'', 9)]), rd_hashes = (\<lambda>_. None)\<rparr>)"
  by (subst lua_migrate_moves) (simp_all add: due_def numeral_2_eq_2)

text \<open>A payload that cannot be decoded is taken off the queue before the error: the job is lost.\<close>

lemma undecodable_lost:
  "\<lbrakk>rd_lists d k1 = x # xs; bump x = None\<rbrakk> \<Longrightarrow>
   lua_pop bump k1 k2 k3 expire d = (Inl redis_error, d\<lparr>rd_lists := (rd_lists d)(k1 := xs)\<rparr>)"
  by (simp add: lua_pop_def lpop_def)

text \<open>Clearing leaves no job, and answers how many there were.\<close>

lemma clear_empties:
  "lua_clear (lk_queue K) (lk_delayed K) (lk_reserved K) (lk_notify K) d = (n, d') \<Longrightarrow> jobs K d' = {#} \<and> n = size (jobs K d)"
  by (auto simp: lua_clear_def del_key_def jobs_def set_members_def llen_def zcard_def)

end
