(* ===== verification/Metrics.thy ===== *)
theory Metrics
  imports QueueWorker
begin

text \<open>
  The callbacks of the worker: \<open>WorkerMetricsCallback\<close> (src/src/jobhandler/WorkerMetricsCallback.hpp) as a
  record of its virtual functions with the bodies of the base class, the metrics printed to the console
  (src/src/jobhandler/SimpleConsoleMetrics.hpp) and the statistics of src/example_metrics_usage.cpp. The worker
  keeps the list of its calls (\<open>events\<close>); \<open>deliver\<close> makes these calls on a callback. Steady clocks count
  nanoseconds.
\<close>

section \<open>The interface\<close>

text \<open>The functions that read the steady clock have its value as their first argument.\<close>

record 's metrics_callback =
  mc_onJobQueued :: "string \<Rightarrow> string \<Rightarrow> string \<Rightarrow> 's \<Rightarrow> 's"
  mc_onJobStarted :: "int \<Rightarrow> string \<Rightarrow> string \<Rightarrow> string \<Rightarrow> u64 \<Rightarrow> 's \<Rightarrow> int \<times> 's"
  mc_onJobCompleted :: "int \<Rightarrow> string \<Rightarrow> string \<Rightarrow> string \<Rightarrow> jobStatus \<Rightarrow> int \<Rightarrow> u64 \<Rightarrow> 's \<Rightarrow> 's"
  mc_onJobRetry :: "string \<Rightarrow> string \<Rightarrow> string \<Rightarrow> u64 \<Rightarrow> int \<Rightarrow> 's \<Rightarrow> 's"
  mc_onJobRemoved :: "string \<Rightarrow> string \<Rightarrow> string \<Rightarrow> jobStatus \<Rightarrow> u64 \<Rightarrow> 's \<Rightarrow> 's"

definition base_onJobQueued :: "string \<Rightarrow> string \<Rightarrow> string \<Rightarrow> 's \<Rightarrow> 's" where
  "base_onJobQueued queue jobName jobUuid s = s"

definition base_onJobStarted :: "int \<Rightarrow> string \<Rightarrow> string \<Rightarrow> string \<Rightarrow> u64 \<Rightarrow> 's \<Rightarrow> int \<times> 's" where
  "base_onJobStarted now queue jobName jobUuid t s = (now, s)"

definition base_onJobCompleted :: "int \<Rightarrow> string \<Rightarrow> string \<Rightarrow> string \<Rightarrow> jobStatus \<Rightarrow> int \<Rightarrow> u64 \<Rightarrow> 's \<Rightarrow> 's" where
  "base_onJobCompleted now queue jobName jobUuid result startTime t s = s"

definition base_onJobRetry :: "string \<Rightarrow> string \<Rightarrow> string \<Rightarrow> u64 \<Rightarrow> int \<Rightarrow> 's \<Rightarrow> 's" where
  "base_onJobRetry queue jobName jobUuid t retryAfterSecs s = s"

definition base_onJobRemoved :: "string \<Rightarrow> string \<Rightarrow> string \<Rightarrow> jobStatus \<Rightarrow> u64 \<Rightarrow> 's \<Rightarrow> 's" where
  "base_onJobRemoved queue jobName jobUuid finalResult totalTries s = s"

definition base_callback :: "'s metrics_callback" where
  "base_callback = \<lparr>mc_onJobQueued = base_onJobQueued, mc_onJobStarted = base_onJobStarted,
     mc_onJobCompleted = base_onJobCompleted, mc_onJobRetry = base_onJobRetry, mc_onJobRemoved = base_onJobRemoved\<rparr>"

text \<open>The calls, each at its own value of the clock. What \<open>onJobStarted\<close> answers is in the next event.\<close>

fun on_event :: "'s metrics_callback \<Rightarrow> int \<Rightarrow> metric \<Rightarrow> 's \<Rightarrow> 's" where
  "on_event cb now (JobQueued q c u) = mc_onJobQueued cb q c u"
| "on_event cb now (JobStarted q c u t) = snd \<circ> mc_onJobStarted cb now q c u t"
| "on_event cb now (JobCompleted q c u st start t) = mc_onJobCompleted cb now q c u st start t"
| "on_event cb now (JobRetry q c u t secs) = mc_onJobRetry cb q c u t secs"
| "on_event cb now (JobRemoved q c u st t) = mc_onJobRemoved cb q c u st t"

fun deliver :: "'s metrics_callback \<Rightarrow> (nat \<Rightarrow> int) \<Rightarrow> nat \<Rightarrow> metric list \<Rightarrow> 's \<Rightarrow> 's" where
  "deliver cb clock i [] s = s"
| "deliver cb clock i (m # ms) s = deliver cb clock (Suc i) ms (on_event cb (clock i) m s)"

lemma deliver_append: "deliver cb clock i (ms @ ns) s = deliver cb clock (i + length ms) ns (deliver cb clock i ms s)"
  by (induction ms arbitrary: i s) simp_all

text \<open>\<open>duration_cast\<close> to milliseconds goes towards zero.\<close>

definition to_ms :: "int \<Rightarrow> int" where
  "to_ms ns = (if ns < 0 then - (- ns div 1000000) else ns div 1000000)"

section \<open>Console metrics\<close>

fun status_text :: "jobStatus \<Rightarrow> string" where
  "status_text noerror = ''SUCESSO''"
| "status_text errorremove = ''ERRO_PERMANENTE''"
| "status_text errorretry = ''ERRO_RETRY''"
| "status_text errexcept = ''EXCE'' @ [CHR 0xC3, CHR 0x87, CHR 0xC3, CHR 0x83] @ ''O''"

definition metric_job :: "string \<Rightarrow> string \<Rightarrow> string \<Rightarrow> string" where
  "metric_job queue jobName jobUuid = '' - Queue: '' @ queue @ '', Job: '' @ jobName @ '', UUID: '' @ jobUuid"

text \<open>The state of \<open>SimpleConsoleMetrics\<close> is the text printed so far.\<close>

definition console_onJobQueued :: "string \<Rightarrow> string \<Rightarrow> string \<Rightarrow> string \<Rightarrow> string" where
  "console_onJobQueued queue jobName jobUuid out =
     out @ ''[METRICS] Job enfileirado'' @ metric_job queue jobName jobUuid @ [CHR 0x0A]"

definition console_onJobStarted :: "int \<Rightarrow> string \<Rightarrow> string \<Rightarrow> string \<Rightarrow> u64 \<Rightarrow> string \<Rightarrow> int \<times> string" where
  "console_onJobStarted now queue jobName jobUuid t out =
     (now, out @ ''[METRICS] Job iniciado'' @ metric_job queue jobName jobUuid @ '', Tentativa: '' @ string_of_u64 t @ [CHR 0x0A])"

definition console_onJobCompleted :: "int \<Rightarrow> string \<Rightarrow> string \<Rightarrow> string \<Rightarrow> jobStatus \<Rightarrow> int \<Rightarrow> u64 \<Rightarrow> string \<Rightarrow> string" where
  "console_onJobCompleted now queue jobName jobUuid result startTime t out =
     out @ ''[METRICS] Job conclu'' @ [CHR 0xC3, CHR 0xAD] @ ''do'' @ metric_job queue jobName jobUuid @
     '', Status: '' @ status_text result @
     '', Dura'' @ [CHR 0xC3, CHR 0xA7, CHR 0xC3, CHR 0xA3] @ ''o: '' @ string_of_int (to_ms (now - startTime)) @ ''ms'' @
     '', Tentativas: '' @ string_of_u64 t @ [CHR 0x0A]"

definition console_onJobRetry :: "string \<Rightarrow> string \<Rightarrow> string \<Rightarrow> u64 \<Rightarrow> int \<Rightarrow> string \<Rightarrow> string" where
  "console_onJobRetry queue jobName jobUuid t retryAfterSecs out =
     out @ ''[METRICS] Job reagendado'' @ metric_job queue jobName jobUuid @ '', Tentativas: '' @ string_of_u64 t @
     '', Retry em: '' @ string_of_int retryAfterSecs @ ''s'' @ [CHR 0x0A]"

definition console_onJobRemoved :: "string \<Rightarrow> string \<Rightarrow> string \<Rightarrow> jobStatus \<Rightarrow> u64 \<Rightarrow> string \<Rightarrow> string" where
  "console_onJobRemoved queue jobName jobUuid finalResult totalTries out =
     out @ ''[METRICS] Job removido permanentemente'' @ metric_job queue jobName jobUuid @
     '', Status final: '' @ status_text finalResult @ '', Total de tentativas: '' @ string_of_u64 totalTries @ [CHR 0x0A]"

definition console_metrics :: "string metrics_callback" where
  "console_metrics = \<lparr>mc_onJobQueued = console_onJobQueued, mc_onJobStarted = console_onJobStarted,
     mc_onJobCompleted = console_onJobCompleted, mc_onJobRetry = console_onJobRetry, mc_onJobRemoved = console_onJobRemoved\<rparr>"

section \<open>Statistics\<close>

text \<open>\<open>console\<close> is what the program has printed; the mutex is held for the whole of a call.\<close>

record stats =
  jobCounts :: "string \<rightharpoonup> u64"
  durations :: "string \<rightharpoonup> int list"
  totalJobs :: u64
  successfulJobs :: u64
  failedJobs :: u64
  retryJobs :: u64
  console :: string

definition new_stats :: stats where
  "new_stats = \<lparr>jobCounts = Map.empty, durations = Map.empty, totalJobs = 0, successfulJobs = 0, failedJobs = 0,
     retryJobs = 0, console = []\<rparr>"

definition say :: "string \<Rightarrow> stats \<Rightarrow> stats" where
  "say t s = s\<lparr>console := console s @ t\<rparr>"

definition nl :: string where
  "nl = [CHR 0x0A]"

definition stats_onJobQueued :: "string \<Rightarrow> string \<Rightarrow> string \<Rightarrow> stats \<Rightarrow> stats" where
  "stats_onJobQueued queue jobName jobUuid s =
     (let s1 = s\<lparr>totalJobs := totalJobs s + 1,
          jobCounts := (jobCounts s)(jobName \<mapsto> (case jobCounts s jobName of None \<Rightarrow> 0 | Some n \<Rightarrow> n) + 1)\<rparr>
      in say (''[STATS] Job '' @ jobName @ '' enfileirado. Total: '' @ string_of_u64 (totalJobs s1) @ nl) s1)"

definition stats_onJobStarted :: "int \<Rightarrow> string \<Rightarrow> string \<Rightarrow> string \<Rightarrow> u64 \<Rightarrow> stats \<Rightarrow> int \<times> stats" where
  "stats_onJobStarted now queue jobName jobUuid t s =
     (now, say (''[STATS] Iniciando '' @ jobName @ '' (tentativa '' @ string_of_u64 t @ '')'' @ nl) s)"

definition stats_onJobCompleted :: "int \<Rightarrow> string \<Rightarrow> string \<Rightarrow> string \<Rightarrow> jobStatus \<Rightarrow> int \<Rightarrow> u64 \<Rightarrow> stats \<Rightarrow> stats" where
  "stats_onJobCompleted now queue jobName jobUuid result startTime t s =
     (let duration = to_ms (now - startTime);
          s1 = s\<lparr>durations := (durations s)(jobName \<mapsto>
            (case durations s jobName of None \<Rightarrow> [] | Some ds \<Rightarrow> ds) @ [duration])\<rparr>
      in if result = noerror then
           say (''[STATS] Job '' @ jobName @ '' conclu'' @ [CHR 0xC3, CHR 0xAD] @ ''do com sucesso em '' @ string_of_int duration @
             ''ms'' @ nl) (s1\<lparr>successfulJobs := successfulJobs s1 + 1\<rparr>)
         else
           say (''[STATS] Job '' @ jobName @ '' falhou em '' @ string_of_int duration @ ''ms'' @ nl)
             (s1\<lparr>failedJobs := failedJobs s1 + 1\<rparr>))"

definition stats_onJobRetry :: "string \<Rightarrow> string \<Rightarrow> string \<Rightarrow> u64 \<Rightarrow> int \<Rightarrow> stats \<Rightarrow> stats" where
  "stats_onJobRetry queue jobName jobUuid t retryAfterSecs s =
     say (''[STATS] Job '' @ jobName @ '' reagendado (tentativa '' @ string_of_u64 t @ '', pr'' @ [CHR 0xC3, CHR 0xB3] @
       ''xima em '' @ string_of_int retryAfterSecs @ ''s)'' @ nl) (s\<lparr>retryJobs := retryJobs s + 1\<rparr>)"

definition statistics_metrics :: "stats metrics_callback" where
  "statistics_metrics = base_callback\<lparr>mc_onJobQueued := stats_onJobQueued, mc_onJobStarted := stats_onJobStarted,
     mc_onJobCompleted := stats_onJobCompleted, mc_onJobRetry := stats_onJobRetry\<rparr>"

text \<open>The mean: the sum, a signed 64 bit count, is divided by an unsigned one, so the quotient is unsigned.
  \<open>order\<close> is the order in which the map is walked.\<close>

definition mean_ms :: "int list \<Rightarrow> u64" where
  "mean_ms ts = word_of_int (sum_list ts) div word_of_nat (length ts)"

definition job_mean_line :: "string \<Rightarrow> int list \<Rightarrow> string" where
  "job_mean_line jobName ts =
     (if ts = [] then []
      else ''  '' @ jobName @ '': '' @ string_of_u64 (mean_ms ts) @ ''ms (m'' @ [CHR 0xC3, CHR 0xA9] @ ''dia de '' @
        string_of_nat (length ts) @ '' execu'' @ [CHR 0xC3, CHR 0xA7, CHR 0xC3, CHR 0xB5] @ ''es)'' @ nl)"

definition printStatistics :: "string list \<Rightarrow> stats \<Rightarrow> string" where
  "printStatistics order s =
     nl @ ''=== ESTAT'' @ [CHR 0xC3, CHR 0x8D] @ ''STICAS ==='' @ nl @
     ''Total de jobs: '' @ string_of_u64 (totalJobs s) @ nl @
     ''Jobs bem-sucedidos: '' @ string_of_u64 (successfulJobs s) @ nl @
     ''Jobs falharam: '' @ string_of_u64 (failedJobs s) @ nl @
     ''Jobs reagendados: '' @ string_of_u64 (retryJobs s) @ nl @
     nl @ ''Tempo m'' @ [CHR 0xC3, CHR 0xA9] @ ''dio por tipo de job:'' @ nl @
     concat (map (\<lambda>n. job_mean_line n (case durations s n of None \<Rightarrow> [] | Some ds \<Rightarrow> ds)) order) @
     ''==================='' @ nl @ nl"

section \<open>What a callback counts\<close>

text \<open>A number a callback keeps that goes up by one exactly at the events of one kind.\<close>

locale event_counter =
  fixes cb :: "'s metrics_callback" and total :: "'s \<Rightarrow> u64" and kind :: "metric \<Rightarrow> bool"
  assumes counts: "total (on_event cb now m s) = (if kind m then total s + 1 else total s)"
begin

lemma counted: "total (deliver cb clock i ms s) = total s + word_of_nat (length (filter kind ms))"
  by (induction ms arbitrary: i s) (simp_all add: counts)

end

fun is_queued :: "metric \<Rightarrow> bool" where
  "is_queued (JobQueued q c u) = True" | "is_queued m = False"

fun is_success :: "metric \<Rightarrow> bool" where
  "is_success (JobCompleted q c u st start t) = (st = noerror)" | "is_success m = False"

fun is_failure :: "metric \<Rightarrow> bool" where
  "is_failure (JobCompleted q c u st start t) = (st \<noteq> noerror)" | "is_failure m = False"

fun is_retry :: "metric \<Rightarrow> bool" where
  "is_retry (JobRetry q c u t secs) = True" | "is_retry m = False"

fun queued_as :: "string \<Rightarrow> metric \<Rightarrow> bool" where
  "queued_as n (JobQueued q c u) = (c = n)" | "queued_as n m = False"

fun completed_as :: "string \<Rightarrow> metric \<Rightarrow> bool" where
  "completed_as n (JobCompleted q c u st start t) = (c = n)" | "completed_as n m = False"

lemmas stats_defs = statistics_metrics_def base_callback_def base_onJobRemoved_def stats_onJobQueued_def
  stats_onJobStarted_def stats_onJobCompleted_def stats_onJobRetry_def say_def Let_def

interpretation total_jobs: event_counter statistics_metrics totalJobs is_queued
  by unfold_locales (case_tac m; simp add: stats_defs)

interpretation successful_jobs: event_counter statistics_metrics successfulJobs is_success
  by unfold_locales (case_tac m; simp add: stats_defs)

interpretation failed_jobs: event_counter statistics_metrics failedJobs is_failure
  by unfold_locales (case_tac m; simp add: stats_defs)

interpretation retry_jobs: event_counter statistics_metrics retryJobs is_retry
  by unfold_locales (case_tac m; simp add: stats_defs)

definition count_of :: "string \<Rightarrow> stats \<Rightarrow> u64" where
  "count_of n s = (case jobCounts s n of None \<Rightarrow> 0 | Some k \<Rightarrow> k)"

definition runs_of :: "string \<Rightarrow> stats \<Rightarrow> u64" where
  "runs_of n s = word_of_nat (length (case durations s n of None \<Rightarrow> [] | Some ds \<Rightarrow> ds))"

interpretation name_count: event_counter statistics_metrics "count_of n" "queued_as n"
  by unfold_locales (case_tac m; simp add: stats_defs count_of_def)

interpretation name_runs: event_counter statistics_metrics "runs_of n" "completed_as n"
  by unfold_locales (case_tac m; simp add: stats_defs runs_of_def)

end
