(* ===== verification/ExampleMetrics.thy ===== *)
theory ExampleMetrics
  imports Metrics WorkerRuns
begin

text \<open>
  The program src/example_metrics_usage.cpp: its job class, its \<open>main\<close> over the in-memory queue, and the
  statistics it ends with. The lemmas say how the worker empties a queue of several jobs, some of which fail on
  every run, for every provider that keeps the contract \<open>job_queue\<close>.
\<close>

section \<open>The job class\<close>

type_synonym i32 = "32 word"

text \<open>The integer is read with its sign (\<open>sint\<close>).\<close>

record example_members =
  message :: string
  processTime :: i32

text \<open>\<open>toInt\<close> is Poco's conversion to \<open>int\<close>.\<close>

definition example_fields :: "poco \<Rightarrow> (jvar \<Rightarrow> exn + i32) \<Rightarrow> example_members serial_field list" where
  "example_fields pc toInt =
     [\<lparr>sf_name = ''message'', sf_get = (\<lambda>p. JStr (message p)),
       sf_assign = (\<lambda>v p. sum_bind (p_toString pc v) (\<lambda>s. Inr (p\<lparr>message := s\<rparr>))), sf_default = (\<lambda>p. p\<lparr>message := []\<rparr>)\<rparr>,
      \<lparr>sf_name = ''processTime'', sf_get = (\<lambda>p. JInt (sint (processTime p))),
       sf_assign = (\<lambda>v p. sum_bind (toInt v) (\<lambda>i. Inr (p\<lparr>processTime := i\<rparr>))), sf_default = (\<lambda>p. p\<lparr>processTime := 0\<rparr>)\<rparr>]"

text \<open>Sleeping for \<open>processTime\<close> milliseconds changes nothing else.\<close>

definition example_handle :: "example_members job \<Rightarrow> example_members job \<times> string \<times> string \<times> exn option" where
  "example_handle j =
     (j, ''Processing job: '' @ message (members j) @ nl, [],
      if message (members j) = ''FAIL'' then Some (StdExn Runtime_error ''Job foi programado para falhar'') else None)"

definition new_example :: "string \<Rightarrow> i32 \<Rightarrow> example_members job" where
  "new_example msg timeMs = new_job \<lparr>message = msg, processTime = timeMs\<rparr>"

text \<open>\<open>typeName\<close> is the name of the type; the default constructor leaves \<open>processTime\<close> as it finds it (\<open>junk\<close>).\<close>

definition example_class :: "poco \<Rightarrow> (jvar \<Rightarrow> exn + i32) \<Rightarrow> string \<Rightarrow> i32 \<Rightarrow> example_members job_class" where
  "example_class pc toInt typeName junk =
     \<lparr>cls_getName = (\<lambda>j. typeName), cls_new = new_example [] junk,
      cls_dump_json = serialize_dump_json (example_fields pc toInt),
      cls_from_json = serialize_from_json pc (example_fields pc toInt), cls_handle = example_handle\<rparr>"

section \<open>The program\<close>

text \<open>The loop over \<open>do_one\<close>: \<open>n\<close> is \<open>processedJobs\<close>, round \<open>n\<close> runs in \<open>envs n\<close>. The answer is the count and
  whether the limit was reached.\<close>

function process_jobs :: "(nat \<Rightarrow> ('q, 'p) worker_env) \<Rightarrow> nat \<Rightarrow> 'q worker \<Rightarrow> string \<Rightarrow>
    (nat \<times> bool) outcome \<times> 'q worker" where
  "process_jobs envs n w queueName =
     (case do_one (envs n) w queueName of
        (Ret False, w1) \<Rightarrow> (Ret (n, False), w1)
      | (Ret True, w1) \<Rightarrow> if 10 < n + 1 then (Ret (n + 1, True), w1) else process_jobs envs (n + 1) w1 queueName
      | (Raise e, w1) \<Rightarrow> (Raise e, w1)
      | (Exit st, w1) \<Rightarrow> (Exit st, w1))"
  by pat_completeness auto
termination by (relation "measure (\<lambda>(envs, n, w, q). 11 - n)") auto

declare process_jobs.simps [simp del]

fun push_jobs :: "('q, 'p) worker_env \<Rightarrow> 'q worker \<Rightarrow> string \<Rightarrow> string \<Rightarrow> 'p job_class \<Rightarrow>
    ('p job \<times> string \<times> int) list \<Rightarrow> (exn + unit) \<times> 'q worker" where
  "push_jobs env w queueName typeName cls [] = (Inr (), w)"
| "push_jobs env w queueName typeName cls ((j, uuid, unixtime) # rest) =
     (case wk_push env w queueName typeName cls j 0 uuid unixtime of
        (Inl e, w1) \<Rightarrow> (Inl e, w1)
      | (Inr u, w1) \<Rightarrow> push_jobs env w1 queueName typeName cls rest)"

definition example_jobs :: "example_members job list" where
  "example_jobs =
     [new_example (''Processamento r'' @ [CHR 0xC3, CHR 0xA1] @ ''pido'') 50,
      new_example (''Processamento m'' @ [CHR 0xC3, CHR 0xA9] @ ''dio'') 200,
      new_example ''FAIL'' 100,
      new_example ''Processamento longo'' 500]"

text \<open>The environment of the program's worker: its queue, the registered classes and the clock of the metrics.\<close>

definition example_env :: "'p joblist \<Rightarrow> (std_queue, 'p) worker_env \<Rightarrow> (std_queue, 'p) worker_env" where
  "example_env jl env = env\<lparr>we_vtable := std_vtable, we_joblist := jl,
     we_started := (\<lambda>q c u t. fst (mc_onJobStarted statistics_metrics (we_steady_now env) q c u t new_stats))\<rparr>"

text \<open>The outcome is the exit code, the state of the metrics with all that was printed, and the error output;
  an exception outside \<open>std::exception\<close> leaves \<open>main\<close>. What the worker itself logs is not part of it.\<close>

definition main_catch :: "exn \<Rightarrow> stats \<Rightarrow> (exn + int) \<times> stats \<times> string" where
  "main_catch e s = (if is_std e then (Inr 1, s, ''Erro: '' @ exn_what e @ nl) else (Inl e, s, []))"

fun status_code :: "jobStatus \<Rightarrow> int" where
  "status_code noerror = 0" | "status_code errorremove = 1" | "status_code errorretry = 2" | "status_code errexcept = 3"

text \<open>The calls the worker has made since it had made \<open>k\<close>.\<close>

definition deliver_since :: "(nat \<Rightarrow> int) \<Rightarrow> nat \<Rightarrow> 'q worker \<Rightarrow> stats \<Rightarrow> stats" where
  "deliver_since clock k w = deliver statistics_metrics clock k (drop k (events w))"

definition example_main :: "'p job_class \<Rightarrow> string \<Rightarrow> 'p job list \<Rightarrow> (std_queue, 'p) worker_env \<Rightarrow>
    (nat \<Rightarrow> (std_queue, 'p) worker_env) \<Rightarrow> (string \<times> int) list \<Rightarrow> (nat \<Rightarrow> int) \<Rightarrow>
    ((string \<rightharpoonup> int list) \<Rightarrow> string list) \<Rightarrow> (exn + int) \<times> stats \<times> string" where
  "example_main cls typeName examples env envs ids clock order =
     (case register_job_handler typeName cls Map.empty of
        Inl e \<Rightarrow> main_catch e new_stats
      | Inr jl \<Rightarrow>
          let queueName = ''example_queue'';
              worker = setMetricsCallback True (new_worker std_queue_init);
              s0 = say (''=== DEMONSTRA'' @ [CHR 0xC3, CHR 0x87, CHR 0xC3, CHR 0x83] @ ''O DAS M'' @ [CHR 0xC3, CHR 0x89] @
                ''TRICAS DO WORKER ==='' @ nl @ nl @ ''Adicionando jobs '' @ [CHR 0xC3, CHR 0xA0] @ '' fila...'' @ nl) new_stats
          in (case push_jobs (example_env jl env) worker queueName typeName cls (zip examples ids) of
                (Inl e, w1) \<Rightarrow> main_catch e (deliver_since clock 0 w1 s0)
              | (Inr u, w1) \<Rightarrow>
                  let s1 = say (nl @ ''Processando jobs...'' @ nl) (deliver_since clock 0 w1 s0) in
                  (case process_jobs (\<lambda>n. example_env jl (envs n)) 0 w1 queueName of
                     (Raise e, w2) \<Rightarrow> main_catch e (deliver_since clock (length (events w1)) w2 s1)
                   | (Exit st, w2) \<Rightarrow> (Inr (status_code st), deliver_since clock (length (events w1)) w2 s1, [])
                   | (Ret (processedJobs, limit), w2) \<Rightarrow>
                       let s2 = deliver_since clock (length (events w1)) w2 s1;
                           s3 = (if limit then say (''Limite de processamento atingido'' @ nl) s2 else s2);
                           s4 = say (nl @ ''Todos os jobs foram processados!'' @ nl) s3;
                           s5 = say (printStatistics (order (durations s4)) s4) s4
                       in (Inr 0, say (''=== EXEMPLO CONCLU'' @ [CHR 0xC3, CHR 0x8D] @ ''DO ==='' @ nl) s5, []))))"

section \<open>Several jobs on a queue\<close>

text \<open>A waiting job: its uuid, whether it fails, and the runs it has had. \<open>waits\<close> says that the view of a
  queue holds these jobs in this order, each with a record that can be run.\<close>

definition waits :: "qscope \<Rightarrow> ('q, 'p) worker_env \<Rightarrow> 'p job_class \<Rightarrow> ('p job \<Rightarrow> bool) \<Rightarrow> ('p job \<Rightarrow> bool) \<Rightarrow>
    string \<Rightarrow> u64 \<Rightarrow> string \<Rightarrow> qview \<Rightarrow> (string \<times> bool \<times> u64) list \<Rightarrow> bool" where
  "waits sc env cls Good Bad c m queue v ents \<longleftrightarrow>
     ready v queue = map (job_key \<circ> fst) ents \<and> later v queue = {} \<and> distinct (map fst ents) \<and>
     (\<forall>(u, bad, t) \<in> set ents. t < m \<and> sc_key sc (job_key u) \<and>
        (\<exists>d. stored v (job_key u) = Some d \<and> finite (dom d) \<and>
          runnable_as (if bad then Bad else Good) env cls c u t m d))"

fun runs_of_job :: "u64 \<Rightarrow> string \<times> bool \<times> u64 \<Rightarrow> nat" where
  "runs_of_job m (u, bad, t) = (if bad then unat m - unat t else 1)"

definition runs_left :: "u64 \<Rightarrow> (string \<times> bool \<times> u64) list \<Rightarrow> nat" where
  "runs_left m ents = sum_list (map (runs_of_job m) ents)"

definition bad_jobs :: "(string \<times> bool \<times> u64) list \<Rightarrow> (string \<times> bool \<times> u64) list" where
  "bad_jobs ents = filter (\<lambda>(u, bad, t). bad) ents"

fun after_round :: "u64 \<Rightarrow> (string \<times> bool \<times> u64) list \<Rightarrow> (string \<times> bool \<times> u64) list" where
  "after_round m [] = []"
| "after_round m ((u, bad, t) # es) = (if bad \<and> again t m then es @ [(u, bad, t + 1)] else es)"

text \<open>What the calls of the worker amount to while it runs these jobs to their end: the successes, the
  failures and the retries.\<close>

definition accounts_for :: "u64 \<Rightarrow> (string \<times> bool \<times> u64) list \<Rightarrow> string \<Rightarrow> metric list \<Rightarrow> bool" where
  "accounts_for m ents c ms \<longleftrightarrow>
     length (filter is_queued ms) = 0 \<and> length (filter (queued_as c) ms) = 0 \<and>
     length (filter is_success ms) + length (bad_jobs ents) = length ents \<and>
     length (filter is_failure ms) = runs_left m (bad_jobs ents) \<and>
     length (filter is_retry ms) + length (bad_jobs ents) = runs_left m (bad_jobs ents) \<and>
     length (filter (completed_as c) ms) = runs_left m ents"

lemma runs_simps [simp]:
  "runs_left m [] = 0" "runs_left m (e # es) = runs_of_job m e + runs_left m es"
  "runs_left m (xs @ ys) = runs_left m xs + runs_left m ys"
  "bad_jobs [] = []" "bad_jobs ((u, bad, t) # es) = (if bad then (u, bad, t) # bad_jobs es else bad_jobs es)"
  "bad_jobs (xs @ ys) = bad_jobs xs @ bad_jobs ys"
  by (simp_all add: runs_left_def bad_jobs_def)

lemma again_less: "t < m \<Longrightarrow> again t m \<longleftrightarrow> t + 1 < m"
  by (auto simp: again_def)

lemma last_run: "t < (m :: u64) \<Longrightarrow> \<not> again t m \<Longrightarrow> unat m = Suc (unat t)"
  using unat_Suc_less [of t m] by (auto simp: again_def word_less_nat_alt)

lemma runs_after:
  assumes "t < m"
  shows "runs_left m ((u, bad, t) # es) = Suc (runs_left m (after_round m ((u, bad, t) # es)))"
proof (cases "again t m")
  case True
  with assms have "unat (t + 1) < unat m" by (simp add: again_less word_less_nat_alt)
  then show ?thesis using True unat_Suc_less [OF assms] by (simp, arith)
qed (use last_run [OF assms] in simp)

lemma accounts_round:
  assumes "t < m" and "metricsCallback w" and "accounts_for m (after_round m ((u, bad, t) # es)) c ms"
    and "ev = (if bad then round_events w queue c u jn t m s else success_events w queue c u t s n)"
  shows "accounts_for m ((u, bad, t) # es) c (ev @ ms)"
proof (cases "bad \<and> again t m")
  case True
  then have "unat (t + 1) < unat m" using assms(1) by (simp add: again_less word_less_nat_alt)
  then show ?thesis
    using assms True unat_Suc_less [OF assms(1)]
    by (simp add: accounts_for_def round_events_def attempt_events_def) arith
next
  case False
  then show ?thesis
    using assms last_run [OF assms(1)]
    by (cases bad) (simp_all add: accounts_for_def round_events_def attempt_events_def success_events_def)
qed

lemma runs_zero: "\<forall>(u, bad, t) \<in> set ents. t < m \<Longrightarrow> runs_left m ents = 0 \<longleftrightarrow> ents = []"
  by (cases ents) (auto simp: word_less_nat_alt)

text \<open>Environments that differ in the clocks and system calls only.\<close>

definition similar_env :: "('q, 'p) worker_env \<Rightarrow> ('q, 'p) worker_env \<Rightarrow> bool" where
  "similar_env e env \<longleftrightarrow> we_vtable e = we_vtable env \<and> we_poco e = we_poco env \<and> we_joblist e = we_joblist env \<and>
     (\<exists>dir. we_tmpdir e = Inr dir)"

lemma similar_runnable: "similar_env e env \<Longrightarrow> runnable_as P e = runnable_as P env"
  by (simp add: similar_env_def runnable_as_def payload_as_def fun_eq_iff)

lemma waits_tail: "waits sc env cls Good Bad c m queue v (e # es) \<Longrightarrow>
    waits sc env cls Good Bad c m queue (v\<lparr>ready := (ready v)(queue := map (job_key \<circ> fst) es)\<rparr>) es"
  by (auto simp: waits_def)

text \<open>A change of the records that other jobs have keeps the rest of the queue waiting.\<close>

lemma waits_stored:
  "\<lbrakk>waits sc env cls Good Bad c m queue v ents; ready v' = ready v; later v' = later v;
    \<forall>k \<in> job_key ` fst ` set ents. stored v' k = stored v k\<rbrakk> \<Longrightarrow> waits sc env cls Good Bad c m queue v' ents"
  by (fastforce simp: waits_def)

lemma waits_snoc:
  "\<lbrakk>waits sc env cls Good Bad c m queue v ents; u \<notin> fst ` set ents; t < m; sc_key sc (job_key u);
    stored v (job_key u) = Some d; finite (dom d); runnable_as (if bad then Bad else Good) env cls c u t m d\<rbrakk> \<Longrightarrow>
   waits sc env cls Good Bad c m queue (v_push queue (job_key u) v) (ents @ [(u, bad, t)])"
  by (auto simp: waits_def v_push_def)

text \<open>A class that restores the dump of a job, with other counters in it, to a job with \<open>P\<close>.\<close>

definition restores_as :: "('p job \<Rightarrow> bool) \<Rightarrow> 'p job_class \<Rightarrow> 'p job \<Rightarrow> bool" where
  "restores_as P cls j \<longleftrightarrow>
     (\<forall>t m. \<exists>j'. cls_from_json cls
        (obj_set ''maxtries'' (JInt (uint m)) (obj_set ''tries'' (JInt (uint t)) (cls_dump_json cls j)))
        (cls_new cls) = Inr j' \<and> tries j' = t \<and> maxtries j' = m \<and> P j')"

lemma pushed_runnable_as:
  assumes "poco_documented (we_poco env)" and "we_joblist env typeName = Some cls"
    and "p_parse (we_poco env) t = Inr (JObj (pushed_payload typeName cls j uuid))"
    and "restores_as P cls j" and "cls_getName cls j \<noteq> []"
  shows "runnable_as P env cls (cls_getName cls j) uuid 0 (maxtries j) (pushed_record cls j t now)"
  using assms
  by (auto simp: runnable_as_def pushed_record_def string_of_u64_0 payload_as_def pushed_payload_def
      create_jobpayload_def poco_documented_def restores_as_def)

context job_queue
begin

abbreviation ready_to_run :: "'q worker \<Rightarrow> string \<Rightarrow> bool" where
  "ready_to_run w queue \<equiv> in_scope w queue \<and> \<not> forkToHandle w \<and> metricsCallback w \<and> cleanSuccessfulJobsLogs w"

lemma waits_round:
  assumes env: "we_vtable env = Q" "similar_env e env" and w: "ready_to_run w queue"
    and wt: "waits sc env cls Good Bad c m queue (wview w) ((u, bad, t) # es)"
    and cls: "succeeds_on Good cls" "throws_on Bad cls"
  obtains q' s n where "do_one e w queue = (Ret True, w\<lparr>wk_queue := q', events := events w @
      (if bad then round_events w queue c u (job_key u) t m s else success_events w queue c u t s n)\<rparr>)"
    and "up q'" and "waits sc env cls Good Bad c m queue (view q') (after_round m ((u, bad, t) # es))"
proof -
  have e: "we_vtable e = Q" "quiet_env e w" using env w by (auto simp: similar_env_def quiet_env_def)
  have rdy: "ready (wview w) queue = job_key u # map (job_key \<circ> fst) es" using wt by (simp add: waits_def)
  obtain d where d: "t < m" "sc_key sc (job_key u)" "stored (wview w) (job_key u) = Some d" "finite (dom d)"
      "runnable_as (if bad then Bad else Good) e cls c u t m d"
    using wt env(2) by (auto simp: waits_def similar_runnable)
  have sd: "storable (job_key u) d" using d pushed_fields_not_empty by (auto simp: runnable_as_def)
  have new: "u \<notin> fst ` set es" using wt by (simp add: waits_def)
  let ?tl = "(wview w)\<lparr>ready := (ready (wview w))(queue := map (job_key \<circ> fst) es)\<rparr>"
  note tl = waits_tail [OF wt]
  show ?thesis
  proof (cases bad)
    case False
    then have "runnable_as Good e cls c u t m d" using d by simp
    from round_succeeds [OF e(1) _ rdy job_key_simps(1) d(3) sd this e(2) cls(1)] w
    obtain q' s n where q': "do_one e w queue = (Ret True, w\<lparr>wk_queue := q', events := events w @
        success_events w queue c u t s n\<rparr>)" "up q'" "view q' = v_del (job_key u) ?tl" by blast
    have "waits sc env cls Good Bad c m queue (view q') es"
      using new by (intro waits_stored [OF tl]) (auto simp: q' v_del_def)
    with q' False that show ?thesis by simp
  next
    case True
    then have "runnable_as Bad e cls c u t m d" using d by simp
    from round_throws [OF e(1) _ rdy job_key_simps(1) d(3) sd this e(2) cls(2)] w
    obtain q' s d' where q': "do_one e w queue = (Ret True, w\<lparr>wk_queue := q', events := events w @
        round_events w queue c u (job_key u) t m s\<rparr>)" "up q'"
      "ready (view q') = (ready (wview w))(queue := (if again t m then map (job_key \<circ> fst) es @ [job_key u]
         else map (job_key \<circ> fst) es))"
      "later (view q') = later (wview w)" "stored (view q') = (stored (wview w))(job_key u \<mapsto> d')" "finite (dom d')"
      "runnable_as Bad e cls c u (if again t m then t + 1 else t) m d'" by blast
    let ?v = "?tl\<lparr>stored := stored (view q')\<rparr>"
    have es: "waits sc env cls Good Bad c m queue ?v es"
      using new q' by (intro waits_stored [OF tl]) auto
    have "waits sc env cls Good Bad c m queue (view q') (after_round m ((u, bad, t) # es))"
    proof (cases "again t m")
      case False
      then have "view q' = ?v" using q' by simp
      with es False show ?thesis by simp
    next
      case again: True
      then have v: "view q' = v_push queue (job_key u) ?v" using q' by (simp add: v_push_def)
      have "t + 1 < m" using again d by (simp add: again_less)
      then have "waits sc env cls Good Bad c m queue (v_push queue (job_key u) ?v) (es @ [(u, bad, t + 1)])"
        using q' again True env(2) d(2)
        by (intro waits_snoc [OF es new, where d = d']) (simp_all add: similar_runnable)
      then show ?thesis using again True by (simp only: v [symmetric] after_round.simps simp_thms if_True)
    qed
    with q' True that show ?thesis by simp
  qed
qed

text \<open>The loop of the program empties the queue when its limit allows for all runs.\<close>

lemma process_jobs_drains:
  assumes "we_vtable env = Q" and "\<forall>n. similar_env (envs n) env" and "succeeds_on Good cls" and "throws_on Bad cls"
    and "waits sc env cls Good Bad c m queue (wview w) ents" and "ready_to_run w queue" and "n + runs_left m ents \<le> 10"
  shows "\<exists>w' ms. process_jobs envs n w queue = (Ret (n + runs_left m ents, False), w') \<and>
     events w' = events w @ ms \<and> accounts_for m ents c ms \<and> ready (wview w') queue = []"
  using assms(5-7)
proof (induction "runs_left m ents" arbitrary: n w ents)
  case 0
  have "\<forall>(u, bad, t) \<in> set ents. t < m" using 0 by (auto simp: waits_def)
  with 0 have "ents = []" by (simp add: runs_zero)
  have e: "we_vtable (envs n) = Q" using assms(1,2) by (simp add: similar_env_def)
  have "ready (wview w) queue = []" "later (wview w) queue = {}"
    using 0 \<open>ents = []\<close> by (simp_all add: waits_def)
  with do_one_idle [OF e, of w queue] 0 obtain q' where
      "do_one (envs n) w queue = (Ret False, w\<lparr>wk_queue := q'\<rparr>)" "view q' = wview w" by blast
  then show ?case
    using \<open>ents = []\<close> \<open>ready (wview w) queue = []\<close>
    by (intro exI [of _ "w\<lparr>wk_queue := q'\<rparr>"] exI [of _ "[]"])
      (simp add: process_jobs.simps [of envs n w queue] accounts_for_def)
next
  case (Suc k)
  then obtain u bad t es where ents: "ents = (u, bad, t) # es" by (cases ents) auto
  have tm: "t < m" using Suc.prems by (auto simp: ents waits_def)
  obtain q' s i where one: "do_one (envs n) w queue = (Ret True, w\<lparr>wk_queue := q', events := events w @
        (if bad then round_events w queue c u (job_key u) t m s else success_events w queue c u t s i)\<rparr>)"
      and q': "up q'" "waits sc env cls Good Bad c m queue (view q') (after_round m ents)"
    using waits_round [OF assms(1) spec [OF assms(2)] Suc.prems(2) Suc.prems(1) [unfolded ents] assms(3,4)]
    unfolding ents by metis
  define ev where "ev = (if bad then round_events w queue c u (job_key u) t m s else success_events w queue c u t s i)"
  let ?w = "w\<lparr>wk_queue := q', events := events w @ ev\<rparr>"
  have left: "runs_left m ents = Suc (runs_left m (after_round m ents))" unfolding ents by (rule runs_after [OF tm])
  have "\<exists>w' ms. process_jobs envs (n + 1) ?w queue = (Ret (n + 1 + runs_left m (after_round m ents), False), w') \<and>
      events w' = events ?w @ ms \<and> accounts_for m (after_round m ents) c ms \<and> ready (wview w') queue = []"
    by (rule Suc.hyps(1)) (use Suc.hyps Suc.prems left q' in auto)
  then obtain w' ms where w': "process_jobs envs (n + 1) ?w queue = (Ret (n + runs_left m ents, False), w')"
      "events w' = events w @ ev @ ms" "accounts_for m (after_round m ents) c ms" "ready (wview w') queue = []"
    using left by auto
  have "accounts_for m ents c (ev @ ms)"
    using accounts_round [OF tm _ w'(3) [unfolded ents] ev_def] Suc.prems ents by simp
  moreover have "process_jobs envs n w queue = process_jobs envs (n + 1) ?w queue"
    using one Suc.prems left by (simp add: process_jobs.simps [of envs n w queue] ev_def)
  ultimately show ?case using w' by (intro exI [of _ w'] exI [of _ "ev @ ms"]) simp
qed

text \<open>Pushing jobs to a queue puts them behind those that wait there.\<close>

lemma waits_pushed:
  assumes env: "we_vtable env = Q" "poco_documented (we_poco env)" "we_joblist env typeName = Some cls"
    and w: "ready_to_run w queue" and wt: "waits sc env cls Good Bad c m queue (wview w) ents"
    and json: "reads_back (we_poco env) (pushed_payload typeName cls j uuid)"
    and job: "restores_as (if bad then Bad else Good) cls j" "maxtries j = m" "0 < m" "cls_getName cls j = c" "c \<noteq> []"
    and new: "uuid \<notin> fst ` set ents" "sc_key sc (job_key uuid)" "stored (wview w) (job_key uuid) = None"
  obtains q' d where "wk_push env w queue typeName cls j 0 uuid now =
      (Inr uuid, w\<lparr>wk_queue := q', events := events w @ [JobQueued queue c uuid]\<rparr>)"
    and "up q'" and "waits sc env cls Good Bad c m queue (view q') (ents @ [(uuid, bad, 0)])"
    and "stored (view q') = (stored (wview w))(job_key uuid \<mapsto> d)"
proof -
  obtain t where t: "JsonToString (we_poco env) (JObj (pushed_payload typeName cls j uuid)) = Inr t"
      "p_parse (we_poco env) t = Inr (JObj (pushed_payload typeName cls j uuid))"
    using json by (auto simp: reads_back_def)
  let ?d = "pushed_record cls j t now"
  let ?v = "(wview w)\<lparr>stored := (stored (wview w))(job_key uuid \<mapsto> ?d)\<rparr>"
  have "up (wk_queue w)" "sc_queue sc queue" using w by simp_all
  from wk_push_run [OF env(1) this new(2) _ new(3) t(1), of 0 now] obtain q' where
      q': "wk_push env w queue typeName cls j 0 uuid now =
        (Inr uuid, w\<lparr>wk_queue := q', events := events w @ [JobQueued queue c uuid]\<rparr>)" "up q'"
      "view q' = v_push queue (job_key uuid) ?v"
    using w job by (auto simp: Let_def)
  have "runnable_as (if bad then Bad else Good) env cls c uuid 0 m ?d"
    using pushed_runnable_as [OF env(2,3) t(2) job(1)] job by simp
  moreover have "waits sc env cls Good Bad c m queue ?v ents"
    using new by (intro waits_stored [OF wt]) auto
  ultimately have "waits sc env cls Good Bad c m queue (v_push queue (job_key uuid) ?v) (ents @ [(uuid, bad, 0)])"
    using new job by (intro waits_snoc [where d = ?d]) (auto simp: pushed_record_storable)
  then show ?thesis
    by (intro that [OF q'(1,2)]) (simp_all add: q'(3) v_push_def)
qed

lemma push_jobs_waits:
  assumes env: "we_vtable env = Q" "poco_documented (we_poco env)" "we_joblist env typeName = Some cls"
    and m: "0 < m" "c \<noteq> []"
    and jobs: "\<forall>(j, uuid, time) \<in> set xs. reads_back (we_poco env) (pushed_payload typeName cls j uuid) \<and>
      restores_as (if isbad j then Bad else Good) cls j \<and> maxtries j = m \<and> cls_getName cls j = c \<and> sc_key sc (job_key uuid)"
    and "ready_to_run w queue" and "waits sc env cls Good Bad c m queue (wview w) ents"
    and "distinct (map fst ents @ map (fst \<circ> snd) xs)"
    and "\<forall>(j, uuid, time) \<in> set xs. stored (wview w) (job_key uuid) = None"
  shows "\<exists>q'. push_jobs env w queue typeName cls xs = (Inr (), w\<lparr>wk_queue := q',
        events := events w @ map (\<lambda>(j, uuid, time). JobQueued queue c uuid) xs\<rparr>) \<and> up q' \<and>
     waits sc env cls Good Bad c m queue (view q') (ents @ map (\<lambda>(j, uuid, time). (uuid, isbad j, 0)) xs)"
  using jobs assms(7-10)
proof (induction xs arbitrary: w ents)
  case Nil
  then show ?case by (intro exI [of _ "wk_queue w"]) simp
next
  case (Cons x xs)
  obtain j uuid time where x: "x = (j, uuid, time)" by (cases x)
  have j: "reads_back (we_poco env) (pushed_payload typeName cls j uuid)" "restores_as (if isbad j then Bad else Good) cls j"
      "maxtries j = m" "cls_getName cls j = c" "sc_key sc (job_key uuid)" "uuid \<notin> fst ` set ents"
      "stored (wview w) (job_key uuid) = None"
    using Cons.prems by (auto simp: x)
  obtain q1 d where q1: "wk_push env w queue typeName cls j 0 uuid time =
        (Inr uuid, w\<lparr>wk_queue := q1, events := events w @ [JobQueued queue c uuid]\<rparr>)" "up q1"
      "waits sc env cls Good Bad c m queue (view q1) (ents @ [(uuid, isbad j, 0)])"
      "stored (view q1) = (stored (wview w))(job_key uuid \<mapsto> d)"
    using waits_pushed [OF env Cons.prems(2,3) j(1,2,3) m(1) j(4) m(2) j(6,5,7)] by blast
  let ?w = "w\<lparr>wk_queue := q1, events := events w @ [JobQueued queue c uuid]\<rparr>"
  have "\<exists>q'. push_jobs env ?w queue typeName cls xs = (Inr (), ?w\<lparr>wk_queue := q',
        events := events ?w @ map (\<lambda>(j, uuid, time). JobQueued queue c uuid) xs\<rparr>) \<and> up q' \<and>
     waits sc env cls Good Bad c m queue (view q') ((ents @ [(uuid, isbad j, 0)]) @ map (\<lambda>(j, uuid, time). (uuid, isbad j, 0)) xs)"
  proof (rule Cons.IH)
    show "\<forall>(j, uuid', time) \<in> set xs. stored (wview ?w) (job_key uuid') = None"
    proof (clarify)
      fix j' u' t'
      assume a: "(j', u', t') \<in> set xs"
      then have "u' \<in> (fst \<circ> snd) ` set xs" by (intro image_eqI [where x = "(j', u', t')"]) simp_all
      moreover have "uuid \<notin> (fst \<circ> snd) ` set xs" using Cons.prems(4) by (simp add: x)
      ultimately have "u' \<noteq> uuid" by blast
      moreover have "stored (wview w) (job_key u') = None"
        using bspec [OF Cons.prems(5), of "(j', u', t')"] a by simp
      ultimately show "stored (wview ?w) (job_key u') = None" by (simp add: q1(4))
    qed
    show "distinct (map fst (ents @ [(uuid, isbad j, 0)]) @ map (fst \<circ> snd) xs)"
      using Cons.prems(4) by (auto simp: x o_def)
  qed (use Cons.prems(1,2) q1 in \<open>simp_all add: x\<close>)
  then show ?case using q1 by (auto simp: x)
qed

end

section \<open>The example's jobs\<close>

definition good_example :: "example_members job \<Rightarrow> bool" where
  "good_example j \<longleftrightarrow> message (members j) \<noteq> ''FAIL''"

definition bad_example :: "example_members job \<Rightarrow> bool" where
  "bad_example j \<longleftrightarrow> message (members j) = ''FAIL'' \<and> retryAfter j \<le> 0"

lemma example_outcomes:
  "succeeds_on good_example (example_class pc toInt typeName junk)" "throws_on bad_example (example_class pc toInt typeName junk)"
  by (auto simp: succeeds_on_def throws_on_def good_example_def bad_example_def example_class_def example_handle_def)

text \<open>What the program relies on of Poco's conversion to \<open>int\<close>.\<close>

definition int_documented :: "(jvar \<Rightarrow> exn + i32) \<Rightarrow> bool" where
  "int_documented toInt \<longleftrightarrow> (\<forall>i. toInt (JInt (sint i)) = Inr i)"

lemma example_fields_ok: "poco_documented pc \<Longrightarrow> int_documented toInt \<Longrightarrow> serial_fields_ok (example_fields pc toInt)"
  by (auto simp: serial_fields_ok_def example_fields_def poco_documented_def int_documented_def)

lemma example_restores:
  assumes "poco_documented pc" and "int_documented toInt" and "retryAfter j = 0"
    and "message (members j) = ''FAIL'' \<longleftrightarrow> bad"
  shows "restores_as (if bad then bad_example else good_example) (example_class pc toInt typeName junk) j"
  unfolding restores_as_def
proof (intro allI)
  fix t m
  let ?k = "j\<lparr>tries := t, maxtries := m\<rparr>"
  let ?json = "obj_set ''maxtries'' (JInt (uint m)) (obj_set ''tries'' (JInt (uint t))
      (serialize_dump_json (example_fields pc toInt) j))"
  let ?j = "new_example [] junk"
  have base: "base_from_json pc ?json ?j = Inr (?j\<lparr>tries := t, maxtries := m, retryAfter := retryAfter j\<rparr>)"
    using base_from_json_counters_of [OF assms(1), of ?json ?k ?j] assms(3)
    by (simp add: serialize_dump_json_def example_fields_def json_obj_set_def)
  have f: "\<forall>f \<in> set (example_fields pc toInt). obj_has ?json (sf_name f) \<and> obj_get ?json (sf_name f) = sf_get f (members j)"
    by (simp add: serialize_dump_json_def example_fields_def json_obj_set_def)
  have "distinct (example_fields pc toInt)" by (simp add: example_fields_def)
  then obtain p where p: "unserialize_members ?json (example_fields pc toInt) (members ?j) = Inr p"
      "\<forall>f \<in> set (example_fields pc toInt). sf_get f p = sf_get f (members j)"
    using unserialize_members_restores [OF example_fields_ok [OF assms(1,2)] _ _ f, of "example_fields pc toInt" "members ?j"]
    by auto
  then have "message p = message (members j)" by (simp add: example_fields_def)
  then show "\<exists>j'. cls_from_json (example_class pc toInt typeName junk)
        (obj_set ''maxtries'' (JInt (uint m)) (obj_set ''tries'' (JInt (uint t)) (cls_dump_json (example_class pc toInt typeName junk) j)))
        (cls_new (example_class pc toInt typeName junk)) = Inr j' \<and>
      tries j' = t \<and> maxtries j' = m \<and> (if bad then bad_example else good_example) j'"
    using base p assms(3,4)
    by (simp add: example_class_def serialize_from_json_def bad_example_def good_example_def)
qed

section \<open>The statistics at the end\<close>

definition fails :: "example_members job \<Rightarrow> bool" where
  "fails j \<longleftrightarrow> message (members j) = ''FAIL''"

definition example_waiting :: "(example_members job \<times> string \<times> int) list \<Rightarrow> (string \<times> bool \<times> u64) list" where
  "example_waiting xs = map (\<lambda>(j, uuid, time). (uuid, fails j, 0)) xs"

definition num_fails :: "example_members job list \<Rightarrow> nat" where
  "num_fails js = length (filter fails js)"

lemma example_waiting_runs:
  "runs_left 3 (example_waiting xs) = length xs + 2 * num_fails (map fst xs)"
  "runs_left 3 (bad_jobs (example_waiting xs)) = 3 * num_fails (map fst xs)"
  "length (bad_jobs (example_waiting xs)) = num_fails (map fst xs)"
  "length (example_waiting xs) = length xs"
  by (induction xs) (auto simp: example_waiting_def num_fails_def)

lemma say_simps [simp]:
  "totalJobs (say t s) = totalJobs s" "successfulJobs (say t s) = successfulJobs s" "failedJobs (say t s) = failedJobs s"
  "retryJobs (say t s) = retryJobs s" "count_of n (say t s) = count_of n s" "runs_of n (say t s) = runs_of n s"
  by (simp_all add: say_def count_of_def runs_of_def)

lemma new_stats_simps [simp]:
  "totalJobs new_stats = 0" "successfulJobs new_stats = 0" "failedJobs new_stats = 0" "retryJobs new_stats = 0"
  "count_of n new_stats = 0" "runs_of n new_stats = 0"
  by (simp_all add: new_stats_def count_of_def runs_of_def)

lemmas stats_counted = deliver_since_def total_jobs.counted successful_jobs.counted failed_jobs.counted
  retry_jobs.counted name_count.counted name_runs.counted

lemma queued_counts:
  "length (filter is_queued (map (\<lambda>(j, uuid, time). JobQueued queue c uuid) xs)) = length xs"
  "length (filter (queued_as c) (map (\<lambda>(j, uuid, time). JobQueued queue c uuid) xs)) = length xs"
  "filter is_success (map (\<lambda>(j, uuid, time). JobQueued queue c uuid) xs) = []"
  "filter is_failure (map (\<lambda>(j, uuid, time). JobQueued queue c uuid) xs) = []"
  "filter is_retry (map (\<lambda>(j, uuid, time). JobQueued queue c uuid) xs) = []"
  "filter (completed_as c) (map (\<lambda>(j, uuid, time). JobQueued queue c uuid) xs) = []"
  by (induction xs) auto

text \<open>The two phases of the program: pushing the jobs and running them.\<close>

lemma example_phases:
  fixes env :: "(std_queue, example_members) worker_env" and cls :: "example_members job_class" and typeName :: string
  defines "E \<equiv> example_env [typeName \<mapsto> cls]"
  assumes pc: "poco_documented pc" "int_documented toInt" and name: "typeName \<noteq> []"
    and cls: "cls = example_class pc toInt typeName junk"
    and env: "we_poco env = pc" "\<forall>n. we_poco (envs n) = pc \<and> (\<exists>dir. we_tmpdir (envs n) = Inr dir)"
    and xs: "\<forall>(j, uuid, time) \<in> set xs. (\<exists>msg ms. j = new_example msg ms) \<and>
        reads_back pc (pushed_payload typeName cls j uuid)"
    and ids: "distinct (map (fst \<circ> snd) xs)"
    and few: "length xs + 2 * num_fails (map fst xs) \<le> 10"
  obtains w1 w2 ms where
    "push_jobs (E env) (setMetricsCallback True (new_worker std_queue_init)) queue typeName cls xs = (Inr (), w1)"
    and "events w1 = map (\<lambda>(j, uuid, time). JobQueued queue typeName uuid) xs"
    and "process_jobs (\<lambda>n. E (envs n)) 0 w1 queue = (Ret (length xs + 2 * num_fails (map fst xs), False), w2)"
    and "events w2 = events w1 @ ms" and "accounts_for 3 (example_waiting xs) typeName ms"
proof -
  let ?w = "setMetricsCallback True (new_worker std_queue_init)"
  have e: "we_vtable (E env) = std_vtable" "we_poco (E env) = pc" "we_joblist (E env) typeName = Some cls"
    using env by (simp_all add: E_def example_env_def)
  have sim: "similar_env (E (envs n)) (E env)" for n
    using env by (simp add: similar_env_def E_def example_env_def)
  have jobs: "\<forall>(j, uuid, time) \<in> set xs. reads_back (we_poco (E env)) (pushed_payload typeName cls j uuid) \<and>
      restores_as (if fails j then bad_example else good_example) cls j \<and> maxtries j = 3 \<and>
      cls_getName cls j = typeName \<and> sc_key whole_scope (job_key uuid)"
  proof (clarify)
    fix j uuid time
    assume "(j, uuid, time) \<in> set xs"
    with xs obtain msg ms where j: "j = new_example msg ms" "reads_back pc (pushed_payload typeName cls j uuid)" by blast
    have "restores_as (if fails j then bad_example else good_example) cls j"
      unfolding cls by (rule example_restores [OF pc]) (simp_all add: j(1) new_example_def new_job_def fails_def)
    with j e show "reads_back (we_poco (E env)) (pushed_payload typeName cls j uuid) \<and>
        restores_as (if fails j then bad_example else good_example) cls j \<and> maxtries j = 3 \<and>
        cls_getName cls j = typeName \<and> sc_key whole_scope (job_key uuid)"
      by (simp add: cls example_class_def new_example_def new_job_def)
  qed
  have w: "\<not> forkToHandle ?w" "metricsCallback ?w" "cleanSuccessfulJobsLogs ?w" "events ?w = []" "wk_queue ?w = std_queue_init"
    by (simp_all add: setMetricsCallback_def new_worker_def)
  have empty: "waits whole_scope (E env) cls good_example bad_example typeName 3 queue (std_view (wk_queue ?w)) []"
      "stored (std_view (wk_queue ?w)) k = None" for k
    unfolding w(5) by (simp_all add: waits_def std_view_def std_ready_def std_queue_init_def deque_at_def)
  have "\<exists>q'. push_jobs (E env) ?w queue typeName cls xs = (Inr (), ?w\<lparr>wk_queue := q',
        events := events ?w @ map (\<lambda>(j, uuid, time). JobQueued queue typeName uuid) xs\<rparr>) \<and> True \<and>
     waits whole_scope (E env) cls good_example bad_example typeName 3 queue (std_view q')
       ([] @ map (\<lambda>(j, uuid, time). (uuid, fails j, 0)) xs)"
    by (rule stdq.push_jobs_waits [OF e(1) _ e(3) _ name jobs]) (use pc e ids w empty in simp_all)
  then obtain q1 where q1: "push_jobs (E env) ?w queue typeName cls xs = (Inr (), ?w\<lparr>wk_queue := q1,
        events := map (\<lambda>(j, uuid, time). JobQueued queue typeName uuid) xs\<rparr>)"
      "waits whole_scope (E env) cls good_example bad_example typeName 3 queue (std_view q1) (example_waiting xs)"
    using w by (auto simp: example_waiting_def)
  let ?w1 = "?w\<lparr>wk_queue := q1, events := map (\<lambda>(j, uuid, time). JobQueued queue typeName uuid) xs\<rparr>"
  have "\<exists>w' ms. process_jobs (\<lambda>n. E (envs n)) 0 ?w1 queue = (Ret (0 + runs_left 3 (example_waiting xs), False), w') \<and>
     events w' = events ?w1 @ ms \<and> accounts_for 3 (example_waiting xs) typeName ms \<and>
     ready (std_view (wk_queue w')) queue = []"
    by (rule stdq.process_jobs_drains [OF e(1), where Good = good_example and Bad = bad_example and cls = cls])
      (use sim q1 w few example_outcomes [of pc toInt typeName junk] in \<open>simp_all add: cls example_waiting_runs\<close>)
  then obtain w2 ms where "process_jobs (\<lambda>n. E (envs n)) 0 ?w1 queue = (Ret (length xs + 2 * num_fails (map fst xs), False), w2)"
      "events w2 = events ?w1 @ ms" "accounts_for 3 (example_waiting xs) typeName ms"
    by (auto simp: example_waiting_runs)
  with q1(1) that show ?thesis by simp
qed

text \<open>C6: the example ends with exit code 0 and statistics that are right for any list of jobs whose runs
  stay within its limit of ten: every job is counted once, every job that does not fail succeeds once, and every
  job that fails is counted as three failures and two retries, so that there is one duration for every run.\<close>

theorem example_statistics:
  fixes env :: "(std_queue, example_members) worker_env"
  assumes pc: "poco_documented pc" "int_documented toInt" and name: "typeName \<noteq> []"
    and cls: "cls = example_class pc toInt typeName junk"
    and env: "we_poco env = pc" "\<forall>n. we_poco (envs n) = pc \<and> (\<exists>dir. we_tmpdir (envs n) = Inr dir)"
    and len: "length ids = length examples" and ids: "distinct (map fst ids)"
    and xs: "\<forall>(j, uuid, time) \<in> set (zip examples ids). (\<exists>msg ms. j = new_example msg ms) \<and>
        reads_back pc (pushed_payload typeName cls j uuid)"
    and few: "length examples + 2 * num_fails examples \<le> 10"
  shows "\<exists>s. example_main cls typeName examples env envs ids clock order = (Inr 0, s, []) \<and>
     totalJobs s = word_of_nat (length examples) \<and>
     count_of typeName s = word_of_nat (length examples) \<and>
     successfulJobs s + word_of_nat (num_fails examples) = word_of_nat (length examples) \<and>
     failedJobs s = word_of_nat (3 * num_fails examples) \<and>
     retryJobs s = word_of_nat (2 * num_fails examples) \<and>
     runs_of typeName s = word_of_nat (length examples + 2 * num_fails examples)"
proof -
  let ?xs = "zip examples ids"
  have z: "length ?xs = length examples" "map fst ?xs = examples" "map (fst \<circ> snd) ?xs = map fst ids"
    using len by (simp_all flip: map_map)
  obtain w1 w2 ms where w: "push_jobs (example_env [typeName \<mapsto> cls] env) (setMetricsCallback True (new_worker std_queue_init))
        ''example_queue'' typeName cls ?xs = (Inr (), w1)"
      "events w1 = map (\<lambda>(j, uuid, time). JobQueued ''example_queue'' typeName uuid) ?xs"
      "process_jobs (\<lambda>n. example_env [typeName \<mapsto> cls] (envs n)) 0 w1 ''example_queue'' =
        (Ret (length examples + 2 * num_fails examples, False), w2)"
      "events w2 = events w1 @ ms" "accounts_for 3 (example_waiting ?xs) typeName ms"
    using example_phases [OF pc name cls env xs _ _, of "''example_queue''"] ids few unfolding z by metis
  have a: "length (filter is_queued ms) = 0" "length (filter (queued_as typeName) ms) = 0"
      "length (filter is_success ms) + num_fails examples = length examples"
      "length (filter is_failure ms) = 3 * num_fails examples"
      "length (filter is_retry ms) = 2 * num_fails examples"
      "length (filter (completed_as typeName) ms) = length examples + 2 * num_fails examples"
    using w(5) by (simp_all add: accounts_for_def example_waiting_runs z(2) len)
  have s: "word_of_nat (length (filter is_success ms)) + word_of_nat (num_fails examples) = (word_of_nat (length examples) :: u64)"
    using a(3) by (metis of_nat_add)
  have "\<exists>s. example_main cls typeName examples env envs ids clock order = (Inr 0, s, []) \<and>
     totalJobs s = totalJobs (deliver_since clock (length (events w1)) w2 (deliver_since clock 0 w1 new_stats)) \<and>
     count_of typeName s = count_of typeName (deliver_since clock (length (events w1)) w2 (deliver_since clock 0 w1 new_stats)) \<and>
     successfulJobs s = successfulJobs (deliver_since clock (length (events w1)) w2 (deliver_since clock 0 w1 new_stats)) \<and>
     failedJobs s = failedJobs (deliver_since clock (length (events w1)) w2 (deliver_since clock 0 w1 new_stats)) \<and>
     retryJobs s = retryJobs (deliver_since clock (length (events w1)) w2 (deliver_since clock 0 w1 new_stats)) \<and>
     runs_of typeName s = runs_of typeName (deliver_since clock (length (events w1)) w2 (deliver_since clock 0 w1 new_stats))"
    using w(1,3) by (simp add: example_main_def register_job_handler_def Let_def stats_counted)
  then show ?thesis
    using a s z(1) by (auto simp: stats_counted w(4) w(2) queued_counts simp del: length_filter_map)
qed

text \<open>The four jobs of the program, with a Poco that reads their payloads.\<close>

definition demo_int :: "jvar \<Rightarrow> exn + i32" where
  "demo_int v = (case v of JInt i \<Rightarrow> Inr (word_of_int i) | _ \<Rightarrow> Inl bad_cast)"

definition demo_uuids :: "string list" where
  "demo_uuids = [''u1'', ''u2'', ''u3'', ''u4'']"

definition demo_payloads :: "jobj list" where
  "demo_payloads = map (\<lambda>(j, u). pushed_payload ''Example'' (example_class hex_poco demo_int ''Example'' 0) j u)
     (zip example_jobs demo_uuids)"

definition demo_parse :: "string \<Rightarrow> exn + jvar" where
  "demo_parse s = (case find (\<lambda>json. JsonToString hex_poco (JObj json) = Inr s) demo_payloads of
     None \<Rightarrow> Inl (StdExn Runtime_error ''json'') | Some json \<Rightarrow> Inr (JObj json))"

definition demo_poco :: poco where
  "demo_poco = hex_poco\<lparr>p_parse := demo_parse\<rparr>"

definition demo_class :: "example_members job_class" where
  "demo_class = example_class demo_poco demo_int ''Example'' 0"

lemma demo_documented: "poco_documented demo_poco" "int_documented demo_int"
  using hex_poco_documented
  by (simp_all add: poco_documented_def demo_poco_def demo_parse_def int_documented_def demo_int_def split: option.split)

lemma demo_payload:
  "pushed_payload ''Example'' demo_class j u = pushed_payload ''Example'' (example_class hex_poco demo_int ''Example'' 0) j u"
  by (simp add: pushed_payload_def create_jobpayload_def demo_class_def example_class_def serialize_dump_json_def
      example_fields_def json_obj_set_def)

lemma demo_texts1:
  "list_all (\<lambda>r. \<not> isl r) (map (\<lambda>json. JsonToString hex_poco (JObj json)) demo_payloads)"
  by code_simp

lemma demo_texts2:
  "distinct (map (\<lambda>json. JsonToString hex_poco (JObj json)) demo_payloads)"
  by code_simp

lemma demo_texts3:
  "map (\<lambda>json. JsonToString demo_poco (JObj json)) demo_payloads = map (\<lambda>json. JsonToString hex_poco (JObj json)) demo_payloads"
  by code_simp

lemma find_distinct: "distinct (map f xs) \<Longrightarrow> x \<in> set xs \<Longrightarrow> find (\<lambda>y. f y = f x) xs = Some x"
  by (induction xs) (auto simp: image_iff)

lemma demo_reads_back: "json \<in> set demo_payloads \<Longrightarrow> reads_back demo_poco json"
proof -
  assume j: "json \<in> set demo_payloads"
  then obtain t where t: "JsonToString hex_poco (JObj json) = Inr t"
    using demo_texts1 by (cases "JsonToString hex_poco (JObj json)") (auto simp: list_all_iff)
  then have "demo_parse t = Inr (JObj json)"
    using find_distinct [OF demo_texts2 j] by (simp add: demo_parse_def)
  moreover have "JsonToString demo_poco (JObj json) = Inr t" using demo_texts3 j t by (simp add: map_eq_conv)
  ultimately show ?thesis by (auto simp: reads_back_def demo_poco_def)
qed

definition demo_env :: "(std_queue, example_members) worker_env" where
  "demo_env = \<lparr>we_vtable = std_vtable, we_poco = demo_poco, we_joblist = Map.empty,
     we_file = ''JobsHandler.cpp'', we_tmpdir = Inr ''/tmp'', we_can_open = (\<lambda>n. True), we_fork = 0,
     we_wait = (\<lambda>pid. (exited, 0)), we_now = 100, we_steady_now = 5, we_started = (\<lambda>q c u t. 7)\<rparr>"

lemma example_statistics_witness:
  "\<exists>s. example_main demo_class ''Example'' example_jobs demo_env (\<lambda>n. demo_env) (zip demo_uuids [1, 2, 3, 4])
      (\<lambda>n. 7) (\<lambda>m. [''Example'']) = (Inr 0, s, []) \<and>
     totalJobs s = 4 \<and> count_of ''Example'' s = 4 \<and> successfulJobs s + 1 = 4 \<and> failedJobs s = 3 \<and> retryJobs s = 2 \<and>
     runs_of ''Example'' s = 6"
proof -
  have n: "length example_jobs = 4" "num_fails example_jobs = 1"
    by (simp_all add: num_fails_def fails_def example_jobs_def new_example_def new_job_def)
  have xs: "\<forall>(j, uuid, time) \<in> set (zip example_jobs (zip demo_uuids [1, 2, 3, 4 :: int])).
      (\<exists>msg ms. j = new_example msg ms) \<and> reads_back demo_poco (pushed_payload ''Example'' demo_class j uuid)"
    unfolding demo_payload
    by (intro ballI)
      (auto simp: example_jobs_def demo_uuids_def intro!: demo_reads_back simp: demo_payloads_def)
  show ?thesis
    using example_statistics [OF demo_documented, of "''Example''" demo_class 0 demo_env "\<lambda>n. demo_env"
        "zip demo_uuids [1, 2, 3, 4]" example_jobs "\<lambda>n. 7" "\<lambda>m. [''Example'']"] xs
    by (simp add: n demo_class_def demo_env_def) (simp add: demo_uuids_def)
qed

end
