(* ===== verification/WorkerFleet.thy ===== *)
theory WorkerFleet
  imports RedisContract
begin

text \<open>
  Any number of workers (src/src/jobhandler/QueueWorker.cpp) on one queue. A round of \<open>do_one\<close> is cut where it
  touches the shared queue: the pop, the reading of the record, the run of the job, and the settling of its
  result, which are the steps that interleave. The settling makes several calls of the queue, but all but its last
  only touch the record of the job that this worker holds. A pop asks the server twice, but takes at most one entry,
  with one command; a push makes its entry visible with its last command. New jobs may be pushed at any time.
\<close>

section \<open>A round in phases\<close>

datatype phase =
  Idle | Popped string | Loaded string datamap_t | Settling string datamap_t jobStatus
| Halted "string option" "bool outcome"

text \<open>One step of the worker; \<open>Halted\<close> is a round that threw or ended the process, with the entry it held.\<close>

definition advance :: "('q, 'p) worker_env \<Rightarrow> string \<Rightarrow> phase \<Rightarrow> 'q worker \<Rightarrow> phase \<times> 'q worker" where
  "advance env queue p w =
     (case p of
        Idle \<Rightarrow>
          (case wk_pop env w queue (queueTimeout w) of
             (Inl e, w1) \<Rightarrow> (Halted None (Raise e), w1)
           | (Inr j, w1) \<Rightarrow> (if j = [] then Idle else Popped j, w1))
      | Popped j \<Rightarrow>
          (case qcall (gq_getPersistentData (we_vtable env) j) w of
             (Inl e, w1) \<Rightarrow> (Halted (Some j) (Raise e), w1)
           | (Inr d, w1) \<Rightarrow> (Loaded j d, w1))
      | Loaded j d \<Rightarrow>
          (case work env w queue d j of
             (Raise e, w1, dm) \<Rightarrow> (Halted (Some j) (Raise e), w1)
           | (Exit st, w1, dm) \<Rightarrow> (Halted (Some j) (Exit st), w1)
           | (Ret st, w1, dm) \<Rightarrow> (Settling j dm st, w1))
      | Settling j dm st \<Rightarrow>
          (case process_job_result env w queue j dm st of
             (Inl e, w1) \<Rightarrow> (Halted (Some j) (Raise e), w1)
           | (Inr u, w1) \<Rightarrow> (Idle, w1))
      | Halted j r \<Rightarrow> (p, w))"

text \<open>Run alone, the phases are \<open>do_one\<close>.\<close>

definition phases :: "('q, 'p) worker_env \<Rightarrow> string \<Rightarrow> nat \<Rightarrow> phase \<times> 'q worker \<Rightarrow> phase \<times> 'q worker" where
  "phases env queue n = ((\<lambda>(p, w). advance env queue p w) ^^ n)"

fun round_result :: "phase \<times> 'q worker \<Rightarrow> bool outcome \<times> 'q worker" where
  "round_result (Halted j r, w) = (r, w)"
| "round_result (p, w) = (Ret True, w)"

lemma do_one_phases:
  "do_one env w queue =
     (case advance env queue Idle w of
        (Idle, w1) \<Rightarrow> (Ret False, w1)
      | s \<Rightarrow> round_result (phases env queue 3 s))"
  by (auto simp: do_one_def do_one_named_def advance_def phases_def numeral_3_eq_3 split: sum.splits prod.splits outcome.splits)

section \<open>The fleet\<close>

text \<open>\<open>fl_finished\<close> are the entries whose round ended without putting them back, \<open>fl_known\<close> all entries there ever
  were on the queue.\<close>

record 'q fleet =
  fl_queue :: 'q
  fl_worker :: "nat \<Rightarrow> 'q worker"
  fl_phase :: "nat \<Rightarrow> phase"
  fl_finished :: "string set"
  fl_known :: "string set"

definition settled :: "phase \<Rightarrow> phase \<Rightarrow> string set" where
  "settled p p' =
     (case p of
        Settling j dm st \<Rightarrow> (case p' of Idle \<Rightarrow> (if st = noerror \<or> st = errorremove then {j} else {}) | _ \<Rightarrow> {})
      | _ \<Rightarrow> {})"

definition fleet_advance :: "('q, 'p) worker_env \<Rightarrow> string \<Rightarrow> nat \<Rightarrow> 'q fleet \<Rightarrow> 'q fleet" where
  "fleet_advance env queue i f =
     (case advance env queue (fl_phase f i) ((fl_worker f i)\<lparr>wk_queue := fl_queue f\<rparr>) of
        (p, w) \<Rightarrow> f\<lparr>fl_queue := wk_queue w, fl_worker := (fl_worker f)(i := w), fl_phase := (fl_phase f)(i := p),
          fl_finished := fl_finished f \<union> settled (fl_phase f i) p\<rparr>)"

definition fleet_push :: "('q, 'p) worker_env \<Rightarrow> string \<Rightarrow> nat \<Rightarrow> string \<Rightarrow> 'p job_class \<Rightarrow> 'p job \<Rightarrow> string \<Rightarrow> int \<Rightarrow>
    'q fleet \<Rightarrow> 'q fleet" where
  "fleet_push env queue i typeName cls j uuid now f =
     (case wk_push env ((fl_worker f i)\<lparr>wk_queue := fl_queue f\<rparr>) queue typeName cls j 0 uuid now of
        (r, w) \<Rightarrow> f\<lparr>fl_queue := wk_queue w, fl_worker := (fl_worker f)(i := w),
          fl_known := (case r of Inl e \<Rightarrow> fl_known f | Inr u \<Rightarrow> insert (job_key uuid) (fl_known f))\<rparr>)"

text \<open>The steps of the fleet. \<open>provides e clk\<close> says that environment \<open>e\<close> has the queue in question with the clock \<open>clk\<close>; the
  times that a step reads or stores are times the provider keeps. A pushed uuid is new.\<close>

definition in_time :: "qscope \<Rightarrow> ('q \<Rightarrow> qview) \<Rightarrow> ('q \<Rightarrow> int) \<Rightarrow> ('q, 'p) worker_env \<Rightarrow> 'q fleet \<Rightarrow> nat \<Rightarrow> bool" where
  "in_time sc view clk env f i =
     (case fl_phase f i of
        Idle \<Rightarrow> sc_time sc (clk (fl_queue f))
      | Settling j dm st \<Rightarrow>
          delay_of (view (fl_queue f)) j \<noteq> 0 \<longrightarrow> sc_time sc (we_now env + delay_of (view (fl_queue f)) j)
      | _ \<Rightarrow> True)"

inductive fleet_step :: "qscope \<Rightarrow> ('q \<Rightarrow> qview) \<Rightarrow> (('q, 'p) worker_env \<Rightarrow> ('q \<Rightarrow> int) \<Rightarrow> bool) \<Rightarrow> string \<Rightarrow>
    'q fleet \<Rightarrow> 'q fleet \<Rightarrow> bool"
  for sc view provides queue where
  work_step: "provides env clk \<Longrightarrow> in_time sc view clk env f i \<Longrightarrow>
     fleet_step sc view provides queue f (fleet_advance env queue i f)"
| push_step: "provides env clk \<Longrightarrow> sc_key sc (job_key uuid) \<Longrightarrow> job_key uuid \<notin> fl_known f \<Longrightarrow>
     stored (view (fl_queue f)) (job_key uuid) = None \<Longrightarrow>
     fleet_step sc view provides queue f (fleet_push env queue i typeName cls j uuid now f)"

definition new_fleet :: "'q \<Rightarrow> 'q worker \<Rightarrow> 'q fleet" where
  "new_fleet q w = \<lparr>fl_queue = q, fl_worker = (\<lambda>i. w), fl_phase = (\<lambda>i. Idle), fl_finished = {}, fl_known = {}\<rparr>"

section \<open>Where an entry is\<close>

fun entry_of :: "phase \<Rightarrow> string option" where
  "entry_of Idle = None"
| "entry_of (Popped j) = Some j"
| "entry_of (Loaded j d) = Some j"
| "entry_of (Settling j dm st) = Some j"
| "entry_of (Halted j r) = j"

text \<open>Every known entry is at exactly one place: once in the queue, once among the delayed, with one worker, or
  finished.\<close>

definition exclusive :: "string list \<Rightarrow> (string \<times> int) set \<Rightarrow> (nat \<rightharpoonup> string) \<Rightarrow> string set \<Rightarrow> string set \<Rightarrow> bool" where
  "exclusive xs L h F K \<longleftrightarrow>
     distinct xs \<and> inj_on fst L \<and> inj_on h (dom h) \<and>
     set xs \<inter> fst ` L = {} \<and> set xs \<inter> ran h = {} \<and> fst ` L \<inter> ran h = {} \<and>
     F \<inter> (set xs \<union> fst ` L \<union> ran h) = {} \<and> K = set xs \<union> fst ` L \<union> ran h \<union> F"

lemma ran_give:
  assumes "h i = Some j" and "inj_on h (dom h)"
  shows "ran (h(i := None)) = ran h - {j}"
proof (intro set_eqI iffI)
  fix x
  assume "x \<in> ran (h(i := None))"
  then obtain a where "a \<noteq> i" "h a = Some x" by (auto simp: ran_def split: if_splits)
  moreover from this have "x \<noteq> j" using assms inj_onD [OF assms(2), of a i] by auto
  ultimately show "x \<in> ran h - {j}" by (auto intro: ranI)
next
  fix x
  assume "x \<in> ran h - {j}"
  then obtain a where "h a = Some x" "x \<noteq> j" by (auto simp: ran_def)
  then have "(h(i := None)) a = Some x" using assms(1) by auto
  then show "x \<in> ran (h(i := None))" by (rule ranI)
qed

lemma inj_take: "inj_on h (dom h) \<Longrightarrow> j \<notin> ran h \<Longrightarrow> inj_on (h(i \<mapsto> j)) (dom (h(i \<mapsto> j)))"
  by (auto simp: inj_on_def ran_def)

lemma inj_give: "inj_on h (dom h) \<Longrightarrow> inj_on (h(i := None)) (dom (h(i := None)))"
  by (auto simp: inj_on_def)

lemma due_rest: "inj_on fst L \<Longrightarrow> (j, t) \<in> L \<Longrightarrow> fst ` (L - {(j, t)}) = fst ` L - {j}"
  by (subst inj_on_image_set_diff) auto

lemma exclusive_take: "exclusive (j # xs) L h F K \<Longrightarrow> h i = None \<Longrightarrow> exclusive xs L (h(i \<mapsto> j)) F K"
  using inj_take [of h j i] by (auto simp: exclusive_def ran_map_upd simp del: dom_fun_upd)

lemma exclusive_due:
  assumes "exclusive xs L h F K" and "h i = None" and "(j, t) \<in> L"
  shows "exclusive xs (L - {(j, t)}) (h(i \<mapsto> j)) F K"
proof -
  have "j \<in> fst ` L" using assms(3) by force
  moreover have "inj_on fst L" using assms(1) by (simp add: exclusive_def)
  ultimately show ?thesis
    using assms inj_take [of h j i] inj_on_subset [of fst L "L - {(j, t)}"]
    by (auto simp: exclusive_def ran_map_upd due_rest simp del: dom_fun_upd)
qed

lemma exclusive_back:
  assumes "exclusive xs L h F K" and "h i = Some j"
  shows "exclusive (xs @ [j]) L (h(i := None)) F K"
proof -
  have "j \<in> ran h" using assms(2) by (rule ranI)
  then show ?thesis
    using assms inj_give [of h i] by (auto simp: exclusive_def ran_give simp del: dom_fun_upd)
qed

lemma exclusive_delay:
  assumes "exclusive xs L h F K" and "h i = Some j"
  shows "exclusive xs (insert (j, t) L) (h(i := None)) F K"
proof -
  have "j \<in> ran h" using assms(2) by (rule ranI)
  moreover from this have "inj_on fst (insert (j, t) L)" using assms(1) by (auto simp: exclusive_def)
  ultimately show ?thesis
    using assms inj_give [of h i] by (auto simp: exclusive_def ran_give simp del: dom_fun_upd inj_on_insert)
qed

lemma exclusive_finish:
  assumes "exclusive xs L h F K" and "h i = Some j"
  shows "exclusive xs L (h(i := None)) (insert j F) K"
proof -
  have "j \<in> ran h" using assms(2) by (rule ranI)
  then show ?thesis
    using assms inj_give [of h i] by (auto simp: exclusive_def ran_give simp del: dom_fun_upd)
qed

lemma exclusive_new: "exclusive xs L h F K \<Longrightarrow> j \<notin> K \<Longrightarrow> exclusive (xs @ [j]) L h F (insert j K)"
  by (auto simp: exclusive_def)

section \<open>What the steps do to the queue\<close>

text \<open>The work on a job changes its record only, and leaves the worker's settings.\<close>

definition only_record :: "string \<Rightarrow> qview \<Rightarrow> qview \<Rightarrow> bool" where
  "only_record j v v' \<longleftrightarrow> ready v' = ready v \<and> later v' = later v \<and> (\<forall>k. k \<noteq> j \<longrightarrow> stored v' k = stored v k) \<and>
     (\<forall>d. stored v j = Some d \<longrightarrow> finite (dom d) \<longrightarrow> (\<exists>d'. stored v' j = Some d' \<and> finite (dom d')))"

lemma only_record_refl [simp]: "only_record j v v"
  by (simp add: only_record_def)

lemma only_record_trans: "only_record j u v \<Longrightarrow> only_record j v w \<Longrightarrow> only_record j u w"
  unfolding only_record_def by metis

lemma only_record_set: "finite (dom m) \<Longrightarrow> only_record j v (v_set j m v)"
  by (auto simp: only_record_def v_set_def)

text \<open>What a run stores in the record of its job is the delay only.\<close>

definition same_job :: "string \<Rightarrow> qview \<Rightarrow> qview \<Rightarrow> bool" where
  "same_job j v v' \<longleftrightarrow> (\<forall>d. stored v j = Some d \<longrightarrow>
     (\<exists>d'. stored v' j = Some d' \<and> d'(''retryAfter'' := None) = d(''retryAfter'' := None)))"

lemma same_job_refl [simp]: "same_job j v v"
  by (simp add: same_job_def)

lemma same_job_delay: "same_job j v (v_set j [''retryAfter'' \<mapsto> s] v)"
  by (simp add: same_job_def v_set_def)

definition same_settings :: "'q worker \<Rightarrow> 'q worker \<Rightarrow> bool" where
  "same_settings w w' \<longleftrightarrow> jobLogExpireSeconds w' = jobLogExpireSeconds w \<and> queueTimeout w' = queueTimeout w \<and>
     forkToHandle w' = forkToHandle w"

lemma same_settings_simps [simp]:
  "same_settings w w" "same_settings w (w\<lparr>wk_queue := q\<rparr>)" "same_settings w (emit m w)"
  by (simp_all add: same_settings_def emit_def)

lemma same_settings_trans: "same_settings u v \<Longrightarrow> same_settings v w \<Longrightarrow> same_settings u w"
  by (simp add: same_settings_def)

context job_queue
begin

definition keeps_others :: "string \<Rightarrow> 'q worker \<Rightarrow> 'q worker \<Rightarrow> bool" where
  "keeps_others j w w' \<longleftrightarrow> up (wk_queue w') \<and> only_record j (wview w) (wview w') \<and>
     same_job j (wview w) (wview w') \<and> same_settings w w'"

lemma keeps_others_refl [simp]: "up (wk_queue w) \<Longrightarrow> keeps_others j w w"
  by (simp add: keeps_others_def)

lemma keeps_others_emit [simp]:
  "keeps_others j w (emit m w') \<longleftrightarrow> keeps_others j w w'" "keeps_others j (emit m w) w' \<longleftrightarrow> keeps_others j w w'"
  by (simp_all add: keeps_others_def same_settings_def) (auto simp: emit_def)

lemma store_retry_after_keeps:
  assumes "we_vtable env = Q" and "up (wk_queue w)" and "sc_key sc jn" and "store_retry_after env j jn st w = (r, w')"
  shows "keeps_others jn w w'"
proof (cases "st \<noteq> noerror \<and> retryAfter j > 0")
  case True
  let ?m = "[''retryAfter'' \<mapsto> string_of_int (retryAfter j)]"
  obtain q' where q': "qcall (gq_setPersistentData Q jn ?m) w = (Inr (), w\<lparr>wk_queue := q'\<rparr>)" "up q'"
      "view q' = v_set jn ?m (wview w)"
    using w_set [OF assms(2,3), of ?m] by auto
  then have "w' = w\<lparr>wk_queue := q'\<rparr>" using True assms(1,4) by (simp add: store_retry_after_def)
  then show ?thesis using q' by (simp add: keeps_others_def only_record_set same_job_delay)
qed (use assms in \<open>auto simp: store_retry_after_def\<close>)

lemma handle_job_run_keeps:
  assumes "we_vtable env = Q" and "up (wk_queue w)" and "sc_key sc jn"
    and "handle_job_run env w cls j json dm jn = (r, w', j', dm')"
  shows "keeps_others jn w w'"
  using assms(2,4) unfolding handle_job_run_def Let_def
  by (auto split: sum.splits prod.splits if_splits dest: store_retry_after_keeps [OF assms(1-3)])

lemma run_instance_keeps:
  assumes "we_vtable env = Q" and "up (wk_queue w)" and "sc_key sc jn"
    and "run_instance env w queue dm jn c u json cls j = (r, w', dm')"
  shows "keeps_others jn w w'"
proof -
  define w1 where "w1 = (if metricsCallback w \<and> c \<noteq> [] then emit (JobStarted queue c u (tries j)) w else w)"
  obtain x w2 j2 dm2 where run: "handle_job_run env w1 cls j json dm jn = (x, w2, j2, dm2)"
    by (cases "handle_job_run env w1 cls j json dm jn")
  have "up (wk_queue w1)" using assms(2) by (simp add: w1_def)
  then have "keeps_others jn w1 w2" using handle_job_run_keeps [OF assms(1) _ assms(3) run] by simp
  then have k: "keeps_others jn w w2" by (simp add: w1_def split: if_splits)
  have "w' = w2 \<or> (\<exists>m. w' = emit m w2)"
    using assms(4) run unfolding run_instance_def Let_def w1_def [symmetric]
    by (auto split: outcome.splits if_splits)
  with k show ?thesis by auto
qed

lemma work_keeps:
  assumes "we_vtable env = Q" and "up (wk_queue w)" and "sc_key sc jn" and "work env w queue d jn = (r, w', dm)"
  shows "keeps_others jn w w'"
  using assms(2,4) unfolding work_def Let_def
  by (auto split: sum.splits prod.splits if_splits dest: run_instance_keeps [OF assms(1-3)])

end

text \<open>The data map \<open>work\<close> leaves can be stored.\<close>

lemma touch_finite [simp]: "finite (dom d) \<Longrightarrow> finite (dom (touch k d))"
  by (simp add: touch_def split: option.split)

lemma touch_not_empty [simp]: "touch k d \<noteq> Map.empty"
  by (auto simp: touch_def split: option.splits)

lemma counters_touched_ok:
  assumes "finite (dom d)"
  shows "finite (dom (counters_touched d json))" "d k \<noteq> None \<Longrightarrow> counters_touched d json k = d k"
  using assms by (auto simp: counters_touched_def touch_def split: option.splits sum.splits)

lemma run_by_pid_map:
  assumes "run_by_pid env cls j pid os es d = (r, j', os', es', dm)" and "finite (dom d)"
  shows "finite (dom dm)"
  using assms by (auto simp: run_by_pid_def Let_def split: prod.splits sum.splits if_splits)

lemma saveJobLog_not_empty [simp]: "saveJobLog os es d \<noteq> Map.empty"
  by (auto simp: saveJobLog_def putLogInDataMap_def)

lemma handle_job_run_map:
  assumes "handle_job_run env w cls j json d jn = (r, w', j', dm)" and "finite (dom d)"
    and "case r of Ret st \<Rightarrow> True | Raise e \<Rightarrow> is_std e | Exit st \<Rightarrow> False"
  shows "finite (dom dm) \<and> (dm \<noteq> Map.empty \<or> dm = d)"
proof -
  have r: "run_by_pid env cls k pid os es d = (Inl e, j', os', es', dm') \<Longrightarrow> \<not> is_std e" for k pid os es e j' os' es' dm'
    by (auto simp: run_by_pid_def Let_def split: prod.splits sum.splits if_splits)
  have s: "store_retry_after env k jn st w = (Inl e, w1) \<Longrightarrow> \<not> is_std e" for k st e w1
    by (auto simp: store_retry_after_def split: prod.splits sum.splits if_splits)
  show ?thesis
    using assms unfolding handle_job_run_def Let_def
    by (auto split: sum.splits prod.splits if_splits dest: r s run_by_pid_map)
qed

lemma read_payload_class: "read_payload pc d = Inr (c, json, u) \<Longrightarrow> d ''className'' = Some c"
  by (auto simp: read_payload_def split: option.splits if_splits)

lemma run_instance_map:
  assumes "run_instance env w queue d jn c u json cls j = (Ret st, w', dm)" and "finite (dom d)" and "d \<noteq> Map.empty"
  shows "finite (dom dm) \<and> dm \<noteq> Map.empty"
proof -
  define w1 where "w1 = (if metricsCallback w \<and> c \<noteq> [] then emit (JobStarted queue c u (tries j)) w else w)"
  obtain x w2 j2 dm2 where run: "handle_job_run env w1 cls j json d jn = (x, w2, j2, dm2)"
    by (cases "handle_job_run env w1 cls j json d jn")
  have x: "case x of Ret st \<Rightarrow> True | Raise e \<Rightarrow> is_std e | Exit st \<Rightarrow> False"
    and dm: "dm = dm2 \<or> (\<exists>a b. dm = dm2(''tries'' \<mapsto> a, ''maxtries'' \<mapsto> b))"
    using assms(1) run unfolding run_instance_def Let_def w1_def [symmetric]
    by (auto split: outcome.splits if_splits)
  have "finite (dom dm2) \<and> (dm2 \<noteq> Map.empty \<or> dm2 = d)" by (rule handle_job_run_map [OF run assms(2) x])
  with dm assms(3) show ?thesis by auto
qed

lemma work_map:
  assumes "work env w queue d jn = (Ret st, w', dm)" and "finite (dom d)"
  shows "finite (dom dm) \<and> dm \<noteq> Map.empty"
proof (cases "read_payload (we_poco env) d")
  case (Inl e)
  then show ?thesis using assms by (auto simp: work_def split: if_splits)
next
  case (Inr p)
  obtain c json u where p: "p = (c, json, u)" by (cases p) auto
  let ?dm = "touch ''payload'' d"
  let ?dm2 = "counters_touched ?dm json"
  have c: "?dm ''className'' = Some c"
    using read_payload_class [OF Inr [unfolded p]] by (auto simp: touch_def split: option.split)
  then have c2: "?dm2 ''className'' = Some c" "finite (dom ?dm2)"
    using counters_touched_ok [of ?dm] assms(2) by simp_all
  then have ne: "?dm2 \<noteq> Map.empty" "?dm2(''payload'' := None) \<noteq> Map.empty"
    by (auto dest!: fun_cong [of _ _ "''className''"])
  show ?thesis
  proof (cases "write_counters ?dm json")
    case (Inl e)
    then show ?thesis using assms Inr p c2 ne by (auto simp: work_def Let_def split: if_splits)
  next
    case (Inr json')
    show ?thesis
    proof (cases "instance_from_payload (we_poco env) (we_joblist env) json'")
      case (Inl e)
      then show ?thesis using assms Inr \<open>read_payload _ d = _\<close> p c2 ne by (auto simp: work_def Let_def split: if_splits)
    next
      case (Inr k)
      obtain cls j where "k = (cls, j)" by (cases k)
      then have "run_instance env w queue (?dm2(''payload'' := None)) jn c u json' cls j = (Ret st, w', dm)"
        using assms(1) Inr \<open>read_payload _ d = _\<close> \<open>write_counters _ _ = _\<close> p by (simp add: work_def Let_def)
      from run_instance_map [OF this] c2 ne show ?thesis by simp
    qed
  qed
qed

section \<open>The invariant of the fleet\<close>

definition recorded :: "qscope \<Rightarrow> qview \<Rightarrow> string \<Rightarrow> bool" where
  "recorded sc v j \<longleftrightarrow> j \<noteq> [] \<and> sc_key sc j \<and> (\<exists>d. stored v j = Some d \<and> finite (dom d))"

text \<open>What ends a worker while the queue answers: an exception that is no \<open>std::exception\<close>, or the \<open>exit\<close> of a
  forked child.\<close>

fun ends_worker :: "bool outcome \<Rightarrow> bool" where
  "ends_worker (Raise e) \<longleftrightarrow> \<not> is_std e"
| "ends_worker (Exit st) \<longleftrightarrow> True"
| "ends_worker (Ret b) \<longleftrightarrow> False"

lemma run_instance_raise: "run_instance env w queue d jn c u json cls j = (Raise e, w', dm) \<Longrightarrow> \<not> is_std e"
  by (auto simp: run_instance_def Let_def split: prod.splits outcome.splits if_splits)

lemma work_raise: "work env w queue d jn = (Raise e, w', dm) \<Longrightarrow> \<not> is_std e"
  by (auto simp: work_def Let_def split: sum.splits prod.splits if_splits dest: run_instance_raise)

fun phase_ok :: "phase \<Rightarrow> bool" where
  "phase_ok (Loaded j d) \<longleftrightarrow> finite (dom d)"
| "phase_ok (Settling j dm st) \<longleftrightarrow> finite (dom dm) \<and> dm \<noteq> Map.empty"
| "phase_ok (Halted j r) \<longleftrightarrow> j \<noteq> None \<and> ends_worker r"
| "phase_ok p \<longleftrightarrow> True"

definition held :: "'q fleet \<Rightarrow> nat \<rightharpoonup> string" where
  "held f i = entry_of (fl_phase f i)"

definition fleet_inv :: "('q \<Rightarrow> bool) \<Rightarrow> ('q \<Rightarrow> qview) \<Rightarrow> qscope \<Rightarrow> string \<Rightarrow> 'q fleet \<Rightarrow> bool" where
  "fleet_inv up view sc queue f \<longleftrightarrow>
     up (fl_queue f) \<and>
     (\<forall>i. sc_secs sc (jobLogExpireSeconds (fl_worker f i)) \<and> sc_secs sc (queueTimeout (fl_worker f i))) \<and>
     exclusive (ready (view (fl_queue f)) queue) (later (view (fl_queue f)) queue) (held f) (fl_finished f) (fl_known f) \<and>
     (\<forall>j \<in> fl_known f - fl_finished f. recorded sc (view (fl_queue f)) j) \<and>
     (\<forall>i. phase_ok (fl_phase f i))"

lemma fleet_invI:
  assumes "fleet_inv up view sc queue f" and "up (wk_queue w)" and "same_settings (fl_worker f i) w" and "phase_ok p"
    and "exclusive (ready (view (wk_queue w)) queue) (later (view (wk_queue w)) queue) ((held f)(i := entry_of p)) F K"
    and "\<forall>j \<in> K - F. recorded sc (view (wk_queue w)) j"
  shows "fleet_inv up view sc queue (f\<lparr>fl_queue := wk_queue w, fl_worker := (fl_worker f)(i := w),
      fl_phase := (fl_phase f)(i := p), fl_finished := F, fl_known := K\<rparr>)"
proof -
  have "held (f\<lparr>fl_queue := wk_queue w, fl_worker := (fl_worker f)(i := w), fl_phase := (fl_phase f)(i := p),
      fl_finished := F, fl_known := K\<rparr>) = (held f)(i := entry_of p)"
    by (simp add: held_def fun_eq_iff)
  then show ?thesis using assms by (simp add: fleet_inv_def same_settings_def)
qed

lemma exclusive_recorded:
  assumes "exclusive xs L h F K"
  shows "j \<in> set xs \<Longrightarrow> j \<in> K - F" "(j, t) \<in> L \<Longrightarrow> j \<in> K - F" "h i = Some j \<Longrightarrow> j \<in> K - F"
    "h i = Some j \<Longrightarrow> \<forall>t. (j, t) \<notin> L"
proof -
  show "j \<in> set xs \<Longrightarrow> j \<in> K - F" using assms by (auto simp: exclusive_def)
  show "(j, t) \<in> L \<Longrightarrow> j \<in> K - F"
  proof -
    assume "(j, t) \<in> L"
    then have "j \<in> fst ` L" by force
    then show ?thesis using assms by (auto simp: exclusive_def)
  qed
  show "h i = Some j \<Longrightarrow> j \<in> K - F" using assms ranI [of h i j] by (auto simp: exclusive_def)
  show "h i = Some j \<Longrightarrow> \<forall>t. (j, t) \<notin> L"
  proof
    fix t
    assume "h i = Some j"
    then have "j \<notin> fst ` L" using assms ranI [of h i j] by (auto simp: exclusive_def)
    then show "(j, t) \<notin> L" by force
  qed
qed

lemma recorded_only: "only_record j v v' \<Longrightarrow> recorded sc v k \<Longrightarrow> recorded sc v' k"
  unfolding recorded_def only_record_def by metis

lemma recorded_view: "stored v' = stored v \<Longrightarrow> recorded sc v' k = recorded sc v k"
  by (simp add: recorded_def)

lemma settle_exclusive:
  fixes v :: qview and F :: "string set" and j :: string and dm :: datamap_t and st :: jobStatus
  assumes ex: "exclusive (ready v queue) (later v queue) h F K" and h: "h i = Some j"
    and rec: "\<forall>k \<in> K - F. recorded sc v k" and dm: "finite (dom dm)"
  defines "F' \<equiv> F \<union> settled (Settling j dm st) Idle"
  shows "exclusive (ready (settle_view clean now queue j dm st v) queue) (later (settle_view clean now queue j dm st v) queue)
      (h(i := None)) F' K"
    and "\<forall>k \<in> K - F'. recorded sc (settle_view clean now queue j dm st v) k"
proof -
  have rec': "\<forall>k \<in> K - F. recorded sc (v_set j dm v) k" using rec recorded_only only_record_set [OF dm] by blast
  have others: "\<forall>k \<in> K - insert j F. recorded sc (v_del j v) k" using rec by (auto simp: recorded_def v_del_def)
  have set_simps: "ready (v_set j dm v) = ready v" "later (v_set j dm v) = later v" by (simp_all add: v_set_def)
  have del_simps: "ready (v_del j v) = ready v" "later (v_del j v) = later v" by (simp_all add: v_del_def)
  have "exclusive (ready (settle_view clean now queue j dm st v) queue) (later (settle_view clean now queue j dm st v) queue)
      (h(i := None)) F' K \<and> (\<forall>k \<in> K - F'. recorded sc (settle_view clean now queue j dm st v) k)"
  proof (cases "st = noerror \<or> st = errorremove")
    case True
    then have "F' = insert j F" by (auto simp: F'_def settled_def)
    moreover have "settle_view clean now queue j dm st v = v_set j dm v \<or> settle_view clean now queue j dm st v = v_del j v"
      using True by (auto simp: settle_view_def)
    ultimately show ?thesis
      using exclusive_finish [OF ex h] rec' others by (auto simp: set_simps del_simps)
  next
    case False
    then have "F' = F" by (auto simp: F'_def settled_def)
    moreover have sv: "settle_view clean now queue j dm st v =
        (if delay_of v j = 0 then v_push queue j (v_set j dm v) else v_later queue j (now + delay_of v j) (v_set j dm v))"
      using False by (cases st) (simp_all add: settle_view_def)
    moreover have "recorded sc (v_push queue j u) k = recorded sc u k" "recorded sc (v_later queue j t u) k = recorded sc u k"
        "ready (v_push queue j u) queue = ready u queue @ [j]" "later (v_push queue j u) = later u"
        "ready (v_later queue j t u) = ready u" "later (v_later queue j t u) queue = insert (j, t) (later u queue)" for u k t
      by (simp_all add: recorded_def v_push_def v_later_def)
    ultimately show ?thesis
      using exclusive_back [OF ex h] exclusive_delay [OF ex h] rec' by (simp add: set_simps)
  qed
  then show "exclusive (ready (settle_view clean now queue j dm st v) queue) (later (settle_view clean now queue j dm st v) queue)
      (h(i := None)) F' K" "\<forall>k \<in> K - F'. recorded sc (settle_view clean now queue j dm st v) k" by simp_all
qed

context delayed_queue
begin

lemma advance_pop:
  assumes env: "we_vtable env = Q" and sq: "sc_queue sc queue" and inv: "fleet_inv up view sc queue f"
    and time: "in_time sc view clk env f i" and p: "fl_phase f i = Idle"
  shows "fleet_inv up view sc queue (fleet_advance env queue i f)"
proof -
  let ?w = "(fl_worker f i)\<lparr>wk_queue := fl_queue f\<rparr>" and ?v = "view (fl_queue f)"
  have up: "up (wk_queue ?w)" and secs: "sc_secs sc (queueTimeout ?w)"
    and ex: "exclusive (ready ?v queue) (later ?v queue) (held f) (fl_finished f) (fl_known f)"
    and rec: "\<forall>j \<in> fl_known f - fl_finished f. recorded sc ?v j"
    using inv by (simp_all add: fleet_inv_def)
  have h: "held f i = None" using p by (simp add: held_def)
  have fin: "settled Idle q = {}" for q by (simp add: settled_def)
  show ?thesis
  proof (cases "ready ?v queue")
    case (Cons j js)
    then have rdy: "ready (wview ?w) queue = j # js" by simp
    obtain q' where q': "qcall (gq_pop Q queue (queueTimeout ?w)) ?w = (Inr (Some j), ?w\<lparr>wk_queue := q'\<rparr>)" "up q'"
        "view q' = ?v\<lparr>ready := (ready ?v)(queue := js)\<rparr>"
      using w_pop [OF up sq rdy, of "queueTimeout ?w"] by auto
    have "j \<noteq> []" using exclusive_recorded(1) [OF ex, of j] rec Cons by (auto simp: recorded_def)
    then have eq: "fleet_advance env queue i f = f\<lparr>fl_queue := wk_queue (?w\<lparr>wk_queue := q'\<rparr>),
        fl_worker := (fl_worker f)(i := ?w\<lparr>wk_queue := q'\<rparr>), fl_phase := (fl_phase f)(i := Popped j),
        fl_finished := fl_finished f, fl_known := fl_known f\<rparr>"
      using q'(1) p env by (simp add: fleet_advance_def advance_def wk_pop_def fin)
    have "exclusive js (later ?v queue) ((held f)(i \<mapsto> j)) (fl_finished f) (fl_known f)"
      using exclusive_take [of j js] ex h Cons by simp
    then show ?thesis
      unfolding eq using q'(2,3) rec by (intro fleet_invI [OF inv]) (auto simp: recorded_def same_settings_def)
  next
    case Nil
    have now: "sc_time sc (clk (fl_queue f))" using time p by (simp add: in_time_def)
    obtain r q' where q': "gq_pop Q queue (queueTimeout ?w) (fl_queue f) = (Inr r, q')" "up q'"
      "case r of None \<Rightarrow> view q' = ?v
       | Some j \<Rightarrow> \<exists>s. (j, s) \<in> later ?v queue \<and> s \<le> clk (fl_queue f) \<and>
           view q' = ?v\<lparr>later := (later ?v)(queue := later ?v queue - {(j, s)})\<rparr>"
      using pop_due_law [OF _ sq secs now Nil] up by auto
    then have call: "qcall (gq_pop Q queue (queueTimeout ?w)) ?w = (Inr r, ?w\<lparr>wk_queue := q'\<rparr>)" by (simp add: qcall_def)
    show ?thesis
    proof (cases r)
      case None
      then have eq: "fleet_advance env queue i f = f\<lparr>fl_queue := wk_queue (?w\<lparr>wk_queue := q'\<rparr>),
          fl_worker := (fl_worker f)(i := ?w\<lparr>wk_queue := q'\<rparr>), fl_phase := (fl_phase f)(i := Idle),
          fl_finished := fl_finished f, fl_known := fl_known f\<rparr>"
        using call p env by (simp add: fleet_advance_def advance_def wk_pop_def fin)
      have "(held f)(i := None) = held f" using h by auto
      then show ?thesis
        unfolding eq using q'(2,3) rec ex None by (intro fleet_invI [OF inv]) (auto simp: recorded_def same_settings_def)
    next
      case (Some j)
      then obtain s where s: "(j, s) \<in> later ?v queue" "view q' = ?v\<lparr>later := (later ?v)(queue := later ?v queue - {(j, s)})\<rparr>"
        using q'(3) by auto
      then have "j \<noteq> []" using exclusive_recorded(2) [OF ex s(1)] rec by (auto simp: recorded_def)
      then have eq: "fleet_advance env queue i f = f\<lparr>fl_queue := wk_queue (?w\<lparr>wk_queue := q'\<rparr>),
          fl_worker := (fl_worker f)(i := ?w\<lparr>wk_queue := q'\<rparr>), fl_phase := (fl_phase f)(i := Popped j),
          fl_finished := fl_finished f, fl_known := fl_known f\<rparr>"
        using call Some p env by (simp add: fleet_advance_def advance_def wk_pop_def fin)
      show ?thesis
        unfolding eq using q'(2) s rec exclusive_due [OF ex h s(1)]
        by (intro fleet_invI [OF inv]) (auto simp: recorded_def same_settings_def)
    qed
  qed
qed

text \<open>What every other step has in hand: the worker in the provider's scope and the record of its entry.\<close>

lemma fleet_invD:
  assumes "fleet_inv up view sc queue f" and "held f i = Some j" and "sc_queue sc queue"
  obtains d where "in_scope ((fl_worker f i)\<lparr>wk_queue := fl_queue f\<rparr>) queue" and "j \<noteq> []" and "sc_key sc j"
    and "stored (view (fl_queue f)) j = Some d" and "finite (dom d)" and "\<forall>t. (j, t) \<notin> later (view (fl_queue f)) queue"
proof -
  have ex: "exclusive (ready (view (fl_queue f)) queue) (later (view (fl_queue f)) queue) (held f) (fl_finished f) (fl_known f)"
    and rec: "\<forall>j \<in> fl_known f - fl_finished f. recorded sc (view (fl_queue f)) j"
    using assms(1) by (simp_all add: fleet_inv_def)
  have "recorded sc (view (fl_queue f)) j" using exclusive_recorded(3) [OF ex assms(2)] rec by blast
  then obtain d where "j \<noteq> []" "sc_key sc j" "stored (view (fl_queue f)) j = Some d" "finite (dom d)"
    by (auto simp: recorded_def)
  with that [of d] exclusive_recorded(4) [OF ex assms(2)] assms(1,3) show ?thesis by (simp add: fleet_inv_def)
qed

lemma fleet_stays:
  assumes inv: "fleet_inv up view sc queue f" and "keeps_others j ((fl_worker f i)\<lparr>wk_queue := fl_queue f\<rparr>) w"
    and "held f i = Some j" and "entry_of p = Some j" and "phase_ok p" and "settled (fl_phase f i) p = {}"
    and adv: "advance env queue (fl_phase f i) ((fl_worker f i)\<lparr>wk_queue := fl_queue f\<rparr>) = (p, w)"
  shows "fleet_inv up view sc queue (fleet_advance env queue i f)"
proof -
  have eq: "fleet_advance env queue i f = f\<lparr>fl_queue := wk_queue w, fl_worker := (fl_worker f)(i := w),
      fl_phase := (fl_phase f)(i := p), fl_finished := fl_finished f, fl_known := fl_known f\<rparr>"
    using adv assms(6) by (simp add: fleet_advance_def)
  have k: "up (wk_queue w)" "only_record j (view (fl_queue f)) (view (wk_queue w))" "same_settings (fl_worker f i) w"
    using assms(2) by (simp_all add: keeps_others_def same_settings_def)
  have "(held f)(i := entry_of p) = held f" using assms(3,4) by auto
  then show ?thesis
    unfolding eq using k inv assms(5) recorded_only [OF k(2)]
    by (intro fleet_invI [OF inv]) (auto simp: only_record_def fleet_inv_def)
qed

lemma get_result:
  assumes env: "we_vtable env = Q" and sq: "sc_queue sc queue" and inv: "fleet_inv up view sc queue f"
    and h: "held f i = Some j"
  obtains d q' where "stored (view (fl_queue f)) j = Some d" and "finite (dom d)" and "up q'" and "view q' = view (fl_queue f)"
    and "qcall (gq_getPersistentData (we_vtable env) j) ((fl_worker f i)\<lparr>wk_queue := fl_queue f\<rparr>) =
      (Inr d, (fl_worker f i)\<lparr>wk_queue := q'\<rparr>)"
proof -
  let ?w = "(fl_worker f i)\<lparr>wk_queue := fl_queue f\<rparr>"
  obtain d where d: "in_scope ?w queue" "sc_key sc j" "stored (view (fl_queue f)) j = Some d" "finite (dom d)"
    using fleet_invD [OF inv h sq] by blast
  then obtain q' where "qcall (gq_getPersistentData Q j) ?w = (Inr d, ?w\<lparr>wk_queue := q'\<rparr>)" "up q'" "view q' = view (fl_queue f)"
    using w_get [of ?w j d] by auto
  with that [of d q'] d env show ?thesis by simp
qed

lemma advance_get:
  assumes env: "we_vtable env = Q" and sq: "sc_queue sc queue" and inv: "fleet_inv up view sc queue f"
    and p: "fl_phase f i = Popped j"
  shows "fleet_inv up view sc queue (fleet_advance env queue i f)"
proof -
  have h: "held f i = Some j" using p by (simp add: held_def)
  obtain d q' where q': "finite (dom d)" "up q'" "view q' = view (fl_queue f)"
      "qcall (gq_getPersistentData (we_vtable env) j) ((fl_worker f i)\<lparr>wk_queue := fl_queue f\<rparr>) =
        (Inr d, (fl_worker f i)\<lparr>wk_queue := q'\<rparr>)"
    using get_result [OF env sq inv h] by metis
  show ?thesis
    by (rule fleet_stays [OF inv _ h, of "(fl_worker f i)\<lparr>wk_queue := q'\<rparr>" "Loaded j d"])
      (use q' p in \<open>simp_all add: keeps_others_def advance_def settled_def same_settings_def\<close>)
qed

lemma advance_run:
  assumes env: "we_vtable env = Q" and sq: "sc_queue sc queue" and inv: "fleet_inv up view sc queue f"
    and p: "fl_phase f i = Loaded j d"
  shows "fleet_inv up view sc queue (fleet_advance env queue i f)"
proof -
  let ?w = "(fl_worker f i)\<lparr>wk_queue := fl_queue f\<rparr>"
  have h: "held f i = Some j" using p by (simp add: held_def)
  have k: "in_scope ?w queue" "sc_key sc j" using fleet_invD [OF inv h sq] by blast+
  have fin: "finite (dom d)"
  proof -
    have "phase_ok (fl_phase f i)" using inv by (simp add: fleet_inv_def)
    then show ?thesis by (simp add: p)
  qed
  obtain r w' dm where run: "work env ?w queue d j = (r, w', dm)" by (cases "work env ?w queue d j")
  have keeps: "keeps_others j ?w w'" using work_keeps [OF env _ k(2) run] k(1) by simp
  define ph where "ph = (case r of Ret st \<Rightarrow> Settling j dm st | Raise e \<Rightarrow> Halted (Some j) (Raise e)
      | Exit st \<Rightarrow> Halted (Some j) (Exit st))"
  have "phase_ok ph"
    using work_map [of env ?w queue d j] work_raise [of env ?w queue d j] run fin by (cases r) (simp_all add: ph_def)
  moreover have "entry_of ph = Some j" by (cases r) (simp_all add: ph_def)
  moreover have "advance env queue (fl_phase f i) ?w = (ph, w')" using run p by (cases r) (simp_all add: advance_def ph_def)
  moreover have "settled (fl_phase f i) ph = {}" using p by (simp add: settled_def)
  ultimately show ?thesis by (intro fleet_stays [OF inv keeps h])
qed

lemma settle_result:
  assumes env: "we_vtable env = Q" and sq: "sc_queue sc queue" and inv: "fleet_inv up view sc queue f"
    and time: "in_time sc view clk env f i" and p: "fl_phase f i = Settling j dm st"
  obtains q' es where "process_job_result env ((fl_worker f i)\<lparr>wk_queue := fl_queue f\<rparr>) queue j dm st =
      (Inr (), (fl_worker f i)\<lparr>wk_queue := q', events := es\<rparr>)"
    and "up q'" and "finite (dom dm)"
    and "view q' = settle_view (cleanSuccessfulJobsLogs (fl_worker f i)) (we_now env) queue j dm st (view (fl_queue f))"
proof -
  let ?w = "(fl_worker f i)\<lparr>wk_queue := fl_queue f\<rparr>"
  have h: "held f i = Some j" using p by (simp add: held_def)
  obtain d where d: "in_scope ?w queue" "sc_key sc j" "stored (wview ?w) j = Some d" "\<forall>t. (j, t) \<notin> later (wview ?w) queue"
  proof -
    from fleet_invD [OF inv h sq] obtain d where "in_scope ?w queue" "sc_key sc j" "stored (view (fl_queue f)) j = Some d"
        "\<forall>t. (j, t) \<notin> later (view (fl_queue f)) queue" by blast
    with that [of d] show ?thesis by simp
  qed
  have dm: "finite (dom dm)" "storable j dm"
  proof -
    have "phase_ok (fl_phase f i)" using inv by (simp add: fleet_inv_def)
    then show "finite (dom dm)" "storable j dm" using d(2) by (simp_all add: p)
  qed
  have "delay_of (wview ?w) j \<noteq> 0 \<Longrightarrow> sc_time sc (we_now env + delay_of (wview ?w) j) \<and> (\<forall>t'. (j, t') \<notin> later (wview ?w) queue)"
    using time d(4) p by (simp add: in_time_def)
  from process_job_result_run [OF env d(1,3) dm(2) this, of st] obtain q' es where
      "process_job_result env ?w queue j dm st = (Inr (), ?w\<lparr>wk_queue := q', events := es\<rparr>)" "up q'"
      "view q' = settle_view (cleanSuccessfulJobsLogs ?w) (we_now env) queue j dm st (wview ?w)" by metis
  with dm(1) show ?thesis by (intro that) simp_all
qed

lemma advance_settle:
  assumes env: "we_vtable env = Q" and sq: "sc_queue sc queue" and inv: "fleet_inv up view sc queue f"
    and time: "in_time sc view clk env f i" and p: "fl_phase f i = Settling j dm st"
  shows "fleet_inv up view sc queue (fleet_advance env queue i f)"
proof -
  let ?w = "(fl_worker f i)\<lparr>wk_queue := fl_queue f\<rparr>"
  have h: "held f i = Some j" using p by (simp add: held_def)
  obtain q' es where q': "process_job_result env ?w queue j dm st = (Inr (), ?w\<lparr>wk_queue := q', events := es\<rparr>)" "up q'"
      "view q' = settle_view (cleanSuccessfulJobsLogs ?w) (we_now env) queue j dm st (wview ?w)" and dm: "finite (dom dm)"
    by (rule settle_result [OF env sq inv time p]) simp
  let ?F = "fl_finished f \<union> settled (Settling j dm st) Idle"
  have eq: "fleet_advance env queue i f = f\<lparr>fl_queue := wk_queue (?w\<lparr>wk_queue := q', events := es\<rparr>),
      fl_worker := (fl_worker f)(i := ?w\<lparr>wk_queue := q', events := es\<rparr>), fl_phase := (fl_phase f)(i := Idle),
      fl_finished := ?F, fl_known := fl_known f\<rparr>"
    using q'(1) p by (simp add: fleet_advance_def advance_def)
  have ex: "exclusive (ready (wview ?w) queue) (later (wview ?w) queue) (held f) (fl_finished f) (fl_known f)"
    and rec: "\<forall>j \<in> fl_known f - fl_finished f. recorded sc (wview ?w) j"
    using inv by (simp_all add: fleet_inv_def)
  show ?thesis
    unfolding eq using q'(2,3) settle_exclusive [OF ex h rec dm, where st = st and clean = "cleanSuccessfulJobsLogs ?w" and now = "we_now env"]
    by (intro fleet_invI [OF inv]) (simp_all add: same_settings_def)
qed

lemma fleet_advance_inv:
  assumes "we_vtable env = Q" and "sc_queue sc queue" and inv: "fleet_inv up view sc queue f"
    and "in_time sc view clk env f i"
  shows "fleet_inv up view sc queue (fleet_advance env queue i f)"
proof (cases "fl_phase f i")
  case (Halted j r)
  let ?w = "(fl_worker f i)\<lparr>wk_queue := fl_queue f\<rparr>"
  have eq: "fleet_advance env queue i f = f\<lparr>fl_queue := wk_queue ?w, fl_worker := (fl_worker f)(i := ?w),
      fl_phase := (fl_phase f)(i := fl_phase f i), fl_finished := fl_finished f, fl_known := fl_known f\<rparr>"
    using Halted by (simp add: fleet_advance_def advance_def settled_def)
  have "(held f)(i := entry_of (fl_phase f i)) = held f" by (auto simp: held_def)
  then show ?thesis
    unfolding eq using inv by (intro fleet_invI [OF inv]) (simp_all add: fleet_inv_def same_settings_def)
next
  case Idle
  then show ?thesis by (rule advance_pop [OF assms])
next
  case (Popped j)
  then show ?thesis by (rule advance_get [OF assms(1-3)])
next
  case (Loaded j d)
  then show ?thesis by (rule advance_run [OF assms(1-3)])
next
  case (Settling j dm st)
  then show ?thesis by (rule advance_settle [OF assms])
qed

lemma fleet_push_eq:
  assumes env: "we_vtable env = Q" and sq: "sc_queue sc queue" and up: "up (fl_queue f)"
    and key: "sc_key sc (job_key uuid)" and new: "stored (view (fl_queue f)) (job_key uuid) = None"
    and t: "JsonToString (we_poco env) (JObj (pushed_payload typeName cls j uuid)) = Inr t"
  obtains q' es where "fleet_push env queue i typeName cls j uuid now f =
      f\<lparr>fl_queue := wk_queue ((fl_worker f i)\<lparr>wk_queue := q', events := es\<rparr>),
        fl_worker := (fl_worker f)(i := (fl_worker f i)\<lparr>wk_queue := q', events := es\<rparr>),
        fl_phase := (fl_phase f)(i := fl_phase f i), fl_finished := fl_finished f,
        fl_known := insert (job_key uuid) (fl_known f)\<rparr>"
    and "up q'"
    and "view q' = v_push queue (job_key uuid) ((view (fl_queue f))
      \<lparr>stored := (stored (view (fl_queue f)))(job_key uuid \<mapsto> pushed_record cls j t now)\<rparr>)"
proof -
  let ?w = "(fl_worker f i)\<lparr>wk_queue := fl_queue f\<rparr>"
  define es where "es = events ?w @ (if metricsCallback ?w then [JobQueued queue (cls_getName cls j) uuid] else [])"
  obtain q' where q': "wk_push env ?w queue typeName cls j 0 uuid now = (Inr uuid, ?w\<lparr>wk_queue := q', events := es\<rparr>)"
      "up q'" "view q' = v_push queue (job_key uuid) ((view (fl_queue f))
        \<lparr>stored := (stored (view (fl_queue f)))(job_key uuid \<mapsto> pushed_record cls j t now)\<rparr>)"
    unfolding es_def using wk_push_run [OF env _ sq key _ _ t, of ?w 0 now] up new by (auto simp: Let_def)
  then show ?thesis using q'(2,3) by (intro that) (simp_all add: fleet_push_def)
qed

lemma fleet_push_inv:
  assumes env: "we_vtable env = Q" and sq: "sc_queue sc queue" and inv: "fleet_inv up view sc queue f"
    and key: "sc_key sc (job_key uuid)" and new: "job_key uuid \<notin> fl_known f" "stored (view (fl_queue f)) (job_key uuid) = None"
  shows "fleet_inv up view sc queue (fleet_push env queue i typeName cls j uuid now f)"
proof -
  let ?w = "(fl_worker f i)\<lparr>wk_queue := fl_queue f\<rparr>" and ?v = "view (fl_queue f)"
  have up: "up (fl_queue f)"
    and ex: "exclusive (ready ?v queue) (later ?v queue) (held f) (fl_finished f) (fl_known f)"
    and rec: "\<forall>j \<in> fl_known f - fl_finished f. recorded sc ?v j"
    using inv by (simp_all add: fleet_inv_def)
  have h: "(held f)(i := entry_of (fl_phase f i)) = held f" by (auto simp: held_def)
  show ?thesis
  proof (cases "JsonToString (we_poco env) (JObj (pushed_payload typeName cls j uuid))")
    case (Inl e)
    then have eq: "fleet_push env queue i typeName cls j uuid now f = f\<lparr>fl_queue := wk_queue ?w, fl_worker := (fl_worker f)(i := ?w),
      fl_phase := (fl_phase f)(i := fl_phase f i), fl_finished := fl_finished f, fl_known := fl_known f\<rparr>"
      by (simp add: fleet_push_def wk_push_def pushed_payload_def)
    show ?thesis
      unfolding eq using inv h by (intro fleet_invI [OF inv]) (simp_all add: fleet_inv_def same_settings_def)
  next
    case (Inr t)
    obtain q' es where q': "fleet_push env queue i typeName cls j uuid now f =
        f\<lparr>fl_queue := wk_queue ((fl_worker f i)\<lparr>wk_queue := q', events := es\<rparr>),
          fl_worker := (fl_worker f)(i := (fl_worker f i)\<lparr>wk_queue := q', events := es\<rparr>),
          fl_phase := (fl_phase f)(i := fl_phase f i), fl_finished := fl_finished f,
          fl_known := insert (job_key uuid) (fl_known f)\<rparr>"
        "up q'" "view q' = v_push queue (job_key uuid) (?v\<lparr>stored := (stored ?v)(job_key uuid \<mapsto> pushed_record cls j t now)\<rparr>)"
      by (rule fleet_push_eq [OF env sq up key new(2) Inr])
    have "recorded sc (view q') k" if "k \<in> insert (job_key uuid) (fl_known f) - fl_finished f" for k
      using that rec key by (auto simp: q'(3) v_push_def recorded_def pushed_record_storable)
    then show ?thesis
      unfolding q'(1) using q'(2,3) inv h exclusive_new [OF ex new(1)]
      by (intro fleet_invI [OF inv]) (simp_all add: same_settings_def v_push_def fleet_inv_def)
  qed
qed

text \<open>When nothing else waits, the pushed job is what the next worker takes.\<close>

lemma pushed_is_taken:
  assumes env: "we_vtable env = Q" "we_vtable env' = Q" and sq: "sc_queue sc queue" and up: "up (fl_queue f)"
    and key: "sc_key sc (job_key uuid)" and new: "stored (view (fl_queue f)) (job_key uuid) = None"
    and t: "JsonToString (we_poco env) (JObj (pushed_payload typeName cls j uuid)) = Inr t"
    and "ready (view (fl_queue f)) queue = []" and "fl_phase f i = Idle"
  shows "held (fleet_advance env' queue i (fleet_push env queue k typeName cls j uuid now f)) i = Some (job_key uuid)"
proof -
  let ?f = "fleet_push env queue k typeName cls j uuid now f"
  obtain q' es where q': "?f = f\<lparr>fl_queue := wk_queue ((fl_worker f k)\<lparr>wk_queue := q', events := es\<rparr>),
        fl_worker := (fl_worker f)(k := (fl_worker f k)\<lparr>wk_queue := q', events := es\<rparr>),
        fl_phase := (fl_phase f)(k := fl_phase f k), fl_finished := fl_finished f,
        fl_known := insert (job_key uuid) (fl_known f)\<rparr>"
      "up q'" "view q' = v_push queue (job_key uuid) ((view (fl_queue f))
        \<lparr>stored := (stored (view (fl_queue f)))(job_key uuid \<mapsto> pushed_record cls j t now)\<rparr>)"
    by (rule fleet_push_eq [OF env(1) sq up key new t])
  let ?w = "(fl_worker ?f i)\<lparr>wk_queue := q'\<rparr>"
  have "ready (wview ?w) queue = job_key uuid # []" using q'(3) assms(8) by (simp add: v_push_def)
  then obtain q2 where "qcall (gq_pop Q queue (queueTimeout ?w)) ?w = (Inr (Some (job_key uuid)), ?w\<lparr>wk_queue := q2\<rparr>)"
    using w_pop [of ?w queue "job_key uuid" "[]" "queueTimeout ?w"] q'(2) sq by auto
  moreover have "fl_queue ?f = q'" "fl_phase ?f i = Idle" using q'(1) assms(9) by simp_all
  moreover have "job_key uuid \<noteq> []" by (simp add: job_key_def)
  ultimately show ?thesis using env(2) by (simp add: fleet_advance_def advance_def wk_pop_def held_def)
qed

end

lemma fleet_step_inv:
  assumes "fleet_step sc view provides queue f f'"
    and laws: "\<And>env clk. provides env clk \<Longrightarrow> delayed_queue (we_vtable env) up view sc clk"
    and "sc_queue sc queue" and "fleet_inv up view sc queue f"
  shows "fleet_inv up view sc queue f'"
  using assms(1)
proof cases
  case (work_step env clk i)
  then show ?thesis using delayed_queue.fleet_advance_inv [OF laws refl assms(3,4)] by blast
next
  case (push_step env clk uuid i typeName cls j now)
  then show ?thesis using delayed_queue.fleet_push_inv [OF laws refl assms(3,4)] by blast
qed

lemma fleet_steps_inv:
  assumes "(fleet_step sc view provides queue)\<^sup>*\<^sup>* f f'"
    and "\<And>env clk. provides env clk \<Longrightarrow> delayed_queue (we_vtable env) up view sc clk"
    and "sc_queue sc queue" and "fleet_inv up view sc queue f"
  shows "fleet_inv up view sc queue f'"
  using assms(1,4) by (induction rule: rtranclp_induct) (auto intro: fleet_step_inv [OF _ assms(2,3)])

lemma new_fleet_inv:
  assumes "up q" and "sc_secs sc (jobLogExpireSeconds w)" and "sc_secs sc (queueTimeout w)"
    and "ready (view q) queue = []" and "later (view q) queue = {}"
  shows "fleet_inv up view sc queue (new_fleet q w)"
proof -
  have "held (new_fleet q w) = Map.empty" by (simp add: held_def new_fleet_def fun_eq_iff)
  then show ?thesis using assms by (simp add: fleet_inv_def exclusive_def) (simp add: new_fleet_def)
qed

section \<open>Workers over Redis\<close>

text \<open>The entries in the hands of workers that go on, and those whose worker has ended.\<close>

definition at_work :: "'q fleet \<Rightarrow> nat \<rightharpoonup> string" where
  "at_work f i = (case fl_phase f i of Halted j r \<Rightarrow> None | p \<Rightarrow> entry_of p)"

definition lost :: "'q fleet \<Rightarrow> string set" where
  "lost f = {j. \<exists>i r. fl_phase f i = Halted (Some j) r}"

lemma at_work_held: "at_work f i = Some e \<Longrightarrow> held f i = Some e"
  by (simp add: at_work_def held_def split: phase.splits)

lemma held_split: "ran (held f) = ran (at_work f) \<union> lost f"
proof (intro set_eqI iffI)
  fix e assume "e \<in> ran (held f)"
  then obtain i where "entry_of (fl_phase f i) = Some e" by (auto simp: ran_def held_def)
  then have "at_work f i = Some e \<or> e \<in> lost f" by (cases "fl_phase f i") (auto simp: at_work_def lost_def)
  then show "e \<in> ran (at_work f) \<union> lost f" by (auto intro: ranI)
next
  fix e assume "e \<in> ran (at_work f) \<union> lost f"
  then consider i where "at_work f i = Some e" | i r where "fl_phase f i = Halted (Some e) r"
    by (auto simp: ran_def lost_def)
  then show "e \<in> ran (held f)"
  proof cases
    case (1 i)
    then show ?thesis using at_work_held by (blast intro: ranI)
  next
    case (2 i r)
    then have "held f i = Some e" by (simp add: held_def)
    then show ?thesis by (rule ranI)
  qed
qed

lemma at_work_not_lost:
  assumes "inj_on (held f) (dom (held f))"
  shows "ran (at_work f) \<inter> lost f = {}"
proof -
  have False if "at_work f a = Some e" "fl_phase f b = Halted (Some e) r" for a b e r
  proof -
    have "held f a = Some e" "held f b = Some e" using at_work_held [OF that(1)] that(2) by (simp_all add: held_def)
    then have "a = b" using inj_onD [OF assms, of a b] by auto
    then show False using that by (simp add: at_work_def)
  qed
  then show ?thesis by (auto simp: ran_def lost_def)
qed

text \<open>C2: any number of workers on one Redis queue, stepping in any order (with any clocks, job classes,
  throwing and forking jobs, and pushes in between), never share an entry or repeat one: every entry ever pushed
  is in exactly one of five places, and there once: waiting, delayed, in the hands of one worker that goes on, done (it
  succeeded or used up its tries), or lost with a worker that ended while it held it. A worker ends only by
  an exception that is no \<open>std::exception\<close> or as a forked child that exits. In particular no two workers run the
  same job at the same time. The server is any that keeps Redis's documentation and runs the pop script by
  the rules of Lua.\<close>

theorem redis_workers_exclusive:
  assumes "redis_documented rc D" and "enumerates ord" and "sc_queue redis_scope queue" and "redis_up rc D al q"
    and "rd_lists (D (sv_redis q)) (al @ queue) = []" and "rd_zsets (D (sv_redis q)) (al @ queue @ '':later'') = []"
    and "0 < jobLogExpireSeconds w" and "0 < queueTimeout w"
    and "(fleet_step redis_scope (redis_view D al)
      (\<lambda>env clk. we_vtable env = redis_vtable rc al clk ord) queue)\<^sup>*\<^sup>* (new_fleet q w) f"
  defines "waiting \<equiv> rd_lists (D (sv_redis (fl_queue f))) (al @ queue)"
    and "delayed \<equiv> map fst (rd_zsets (D (sv_redis (fl_queue f))) (al @ queue @ '':later''))"
  shows "distinct waiting \<and> distinct delayed \<and>
     (\<forall>a b e. held f a = Some e \<longrightarrow> held f b = Some e \<longrightarrow> a = b) \<and>
     set waiting \<inter> set delayed = {} \<and> (set waiting \<union> set delayed) \<inter> (ran (at_work f) \<union> lost f) = {} \<and>
     ran (at_work f) \<inter> lost f = {} \<and>
     fl_finished f \<inter> (set waiting \<union> set delayed \<union> ran (at_work f) \<union> lost f) = {} \<and>
     fl_known f = set waiting \<union> set delayed \<union> ran (at_work f) \<union> lost f \<union> fl_finished f \<and>
     (\<forall>i j r. fl_phase f i = Halted j r \<longrightarrow> (\<exists>e. r = Raise e \<and> \<not> is_std e) \<or> (\<exists>st. r = Exit st))"
proof -
  have "fleet_inv (redis_up rc D al) (redis_view D al) redis_scope queue (new_fleet q w)"
    using assms(3-8) by (intro new_fleet_inv) (simp_all add: redis_view_sel, simp_all add: redis_scope_def)
  from fleet_steps_inv [OF assms(9) _ assms(3) this] redis_delayed_queue [OF assms(1,2)]
  have inv: "fleet_inv (redis_up rc D al) (redis_view D al) redis_scope queue f" by simp
  then have "redis_up rc D al (fl_queue f)" by (simp add: fleet_inv_def)
  then have "distinct delayed"
    unfolding delayed_def using separated_keys(4) [OF redis_up_keys(2) assms(3)] by blast
  moreover have z: "fst ` set (rd_zsets (D (sv_redis (fl_queue f))) (al @ queue @ '':later'')) = set delayed"
    by (simp add: delayed_def)
  moreover have ex: "exclusive waiting (set (rd_zsets (D (sv_redis (fl_queue f))) (al @ queue @ '':later''))) (held f)
      (fl_finished f) (fl_known f)"
    using inv by (simp add: fleet_inv_def redis_view_sel waiting_def)
  moreover from ex have inj: "inj_on (held f) (dom (held f))" by (simp add: exclusive_def)
  then have "\<forall>a b e. held f a = Some e \<longrightarrow> held f b = Some e \<longrightarrow> a = b"
    using inj_onD [of "held f" "dom (held f)"] by (metis domI)
  moreover note at_work_not_lost [OF inj]
  moreover have "(\<exists>e. r = Raise e \<and> \<not> is_std e) \<or> (\<exists>st. r = Exit st)" if "fl_phase f i = Halted j r" for i j r
  proof -
    have "phase_ok (fl_phase f i)" using inv by (simp add: fleet_inv_def)
    then show ?thesis unfolding that by (cases r) simp_all
  qed
  ultimately show ?thesis unfolding exclusive_def z held_split by (intro conjI allI impI) (elim conjE; blast)+
qed

text \<open>The witness: a job is pushed and popped by worker 0, then worker 1 asks for work.\<close>

abbreviation boom_pushed :: "mini_redis service fleet" where
  "boom_pushed \<equiv> fleet_push redis_env ''q'' 7 ''Boom'' failing_class (new_job ()) ''u1'' 9
     (new_fleet empty_service (new_worker empty_service))"

definition two_workers :: "mini_redis service fleet" where
  "two_workers = fleet_advance redis_env ''q'' 1 (fleet_advance redis_env ''q'' 0 boom_pushed)"

abbreviation mini_step :: "mini_redis service fleet \<Rightarrow> mini_redis service fleet \<Rightarrow> bool" where
  "mini_step \<equiv> fleet_step redis_scope (redis_view mini_data ''app:'')
     (\<lambda>(env :: (mini_redis service, unit) worker_env) clk. we_vtable env = redis_vtable mini_client ''app:'' clk field_order) ''q''"

lemma redis_env_table: "we_vtable redis_env = redis_vtable mini_client ''app:'' (\<lambda>s. 60) field_order"
  by (simp add: redis_env_def)

lemma mini_work: "fl_phase f i = Idle \<Longrightarrow> mini_step f (fleet_advance redis_env ''q'' i f)"
  by (rule fleet_step.work_step [where clk = "\<lambda>s. 60"])
    (simp_all add: redis_env_table in_time_def redis_scope_def exact_def)

lemma empty_fleet:
  "sc_key redis_scope (job_key ''u1'')" "job_key ''u1'' \<notin> fl_known (new_fleet q w)" "fl_phase (new_fleet q w) i = Idle"
  "fl_queue (new_fleet q w) = q" "stored (redis_view mini_data ''app:'' empty_service) k = None"
  "ready (redis_view mini_data ''app:'' empty_service) n = []"
  by (simp_all add: redis_scope_def job_key_def starts_with_def redis_view_sel new_fleet_def empty_service_def
    new_service_replicas_def mini_init_def mini_data_def)

lemma two_workers_run: "mini_step\<^sup>*\<^sup>* (new_fleet empty_service (new_worker empty_service)) two_workers"
proof -
  have idle: "fl_phase boom_pushed i = Idle" for i
    by (simp add: fleet_push_def empty_fleet split: prod.split)
  have "mini_step (new_fleet empty_service (new_worker empty_service)) boom_pushed"
    by (rule fleet_step.push_step [where clk = "\<lambda>s. 60"]) (simp_all add: redis_env_table empty_fleet)
  moreover have "mini_step boom_pushed (fleet_advance redis_env ''q'' 0 boom_pushed)" by (rule mini_work [OF idle])
  moreover have "mini_step (fleet_advance redis_env ''q'' 0 boom_pushed) two_workers"
    unfolding two_workers_def by (rule mini_work) (simp add: fleet_advance_def idle split: prod.split)
  ultimately show ?thesis by (meson rtranclp.rtrancl_into_rtrancl rtranclp.rtrancl_refl)
qed

lemma two_workers_held: "held two_workers 0 = Some (job_key ''u1'')"
proof -
  obtain t where t: "JsonToString (we_poco redis_env) (JObj (pushed_payload ''Boom'' failing_class (new_job ()) ''u1'')) = Inr t"
    using sample_reads_back by (auto simp: reads_back_def redis_env_def sample_json_def)
  have "held (fleet_advance redis_env ''q'' 0 boom_pushed) 0 = Some (job_key ''u1'')"
    by (rule delayed_queue.pushed_is_taken [OF redis_delayed_queue [OF mini_documented field_order_enumerates]
        redis_env_table redis_env_table queue_q _ _ _ t]) (simp_all add: empty_fleet empty_up)
  then show ?thesis by (simp add: two_workers_def fleet_advance_def held_def split: prod.split)
qed

theorem redis_workers_exclusive_witness:
  "held two_workers 0 = Some (job_key ''u1'') \<and> held two_workers 1 \<noteq> Some (job_key ''u1'') \<and>
   job_key ''u1'' \<notin> set (rd_lists (mini_data (sv_redis (fl_queue two_workers))) (''app:'' @ ''q''))"
proof -
  have w: "0 < jobLogExpireSeconds (new_worker empty_service)" "0 < queueTimeout (new_worker empty_service)"
    by (simp_all add: new_worker_def)
  have d: "rd_lists (mini_data (sv_redis empty_service)) k = []" "rd_zsets (mini_data (sv_redis empty_service)) k = []" for k
    by (simp_all add: empty_service_def new_service_replicas_def mini_init_def mini_data_def)
  note * = redis_workers_exclusive [OF mini_documented field_order_enumerates queue_q empty_up d w two_workers_run]
  have "\<forall>a b e. held two_workers a = Some e \<longrightarrow> held two_workers b = Some e \<longrightarrow> a = b"
    using * by (elim conjE)
  moreover have "set (rd_lists (mini_data (sv_redis (fl_queue two_workers))) (''app:'' @ ''q'')) \<inter> ran (held two_workers) = {}"
    unfolding held_split using * by (elim conjE) blast
  ultimately show ?thesis using two_workers_held ranI [of "held two_workers" 0] by (metis disjoint_iff zero_neq_one)
qed

end
