(* ===== verification/FleetTries.thy ===== *)
theory FleetTries
  imports WorkerFleet
begin

text \<open>
  How often the workers of a fleet attempt a job. One entry is watched through the interleavings of
  \<open>WorkerFleet\<close>: a step that does not hold it leaves it alone, a step of its holder does what \<open>WorkerSpec\<close> says of a
  round, and a counter beside the fleet counts the calls of \<open>work\<close> on it.
\<close>

section \<open>Counting the attempts\<close>

inductive attempt_step :: "qscope \<Rightarrow> ('q \<Rightarrow> qview) \<Rightarrow> (('q, 'p) worker_env \<Rightarrow> ('q \<Rightarrow> int) \<Rightarrow> bool) \<Rightarrow> string \<Rightarrow> string \<Rightarrow>
    'q fleet \<times> nat \<Rightarrow> 'q fleet \<times> nat \<Rightarrow> bool"
  for sc view provides queue jn where
  work_attempt: "provides env clk \<Longrightarrow> in_time sc view clk env f i \<Longrightarrow> fl_phase f i = Loaded jn d \<Longrightarrow>
     attempt_step sc view provides queue jn (f, n) (fleet_advance env queue i f, Suc n)"
| other_work: "provides env clk \<Longrightarrow> in_time sc view clk env f i \<Longrightarrow> (\<forall>d. fl_phase f i \<noteq> Loaded jn d) \<Longrightarrow>
     attempt_step sc view provides queue jn (f, n) (fleet_advance env queue i f, n)"
| other_push: "provides env clk \<Longrightarrow> sc_key sc (job_key uuid) \<Longrightarrow> job_key uuid \<notin> fl_known f \<Longrightarrow>
     stored (view (fl_queue f)) (job_key uuid) = None \<Longrightarrow>
     attempt_step sc view provides queue jn (f, n) (fleet_push env queue i typeName cls j uuid now f, n)"

lemma attempt_step_fleet:
  "attempt_step sc view provides queue jn (f, n) (f', n') \<Longrightarrow> fleet_step sc view provides queue f f'"
  by (erule attempt_step.cases) (auto intro: fleet_step.intros)

section \<open>What a step does to an entry it does not hold\<close>

lemma advance_selectors [simp]:
  "fl_phase (fleet_advance env queue i f) = (fl_phase f)(i := fst (advance env queue (fl_phase f i) ((fl_worker f i)\<lparr>wk_queue := fl_queue f\<rparr>)))"
  "fl_worker (fleet_advance env queue i f) = (fl_worker f)(i := snd (advance env queue (fl_phase f i) ((fl_worker f i)\<lparr>wk_queue := fl_queue f\<rparr>)))"
  "fl_queue (fleet_advance env queue i f) = wk_queue (snd (advance env queue (fl_phase f i) ((fl_worker f i)\<lparr>wk_queue := fl_queue f\<rparr>)))"
  "fl_finished (fleet_advance env queue i f) = fl_finished f \<union>
     settled (fl_phase f i) (fst (advance env queue (fl_phase f i) ((fl_worker f i)\<lparr>wk_queue := fl_queue f\<rparr>)))"
  "fl_known (fleet_advance env queue i f) = fl_known f"
  by (simp_all add: fleet_advance_def split: prod.split)

lemma settle_view_others: "k \<noteq> j \<Longrightarrow> stored (settle_view clean now queue j dm st v) k = stored v k"
  by (cases st) (simp_all add: settle_view_def v_del_def v_set_def v_push_def v_later_def)

context delayed_queue
begin

lemma idle_result:
  assumes env: "we_vtable env = Q" and sq: "sc_queue sc queue" and inv: "fleet_inv up view sc queue f"
    and time: "in_time sc view clk env f i" and p: "fl_phase f i = Idle"
  obtains q' ph where "advance env queue Idle ((fl_worker f i)\<lparr>wk_queue := fl_queue f\<rparr>) = (ph, (fl_worker f i)\<lparr>wk_queue := q'\<rparr>)"
    and "stored (view q') = stored (view (fl_queue f))" and "ph = Idle \<or> (\<exists>j. ph = Popped j)"
proof -
  let ?w = "(fl_worker f i)\<lparr>wk_queue := fl_queue f\<rparr>" and ?v = "view (fl_queue f)"
  have up: "up (fl_queue f)" and secs: "sc_secs sc (queueTimeout ?w)" using inv by (simp_all add: fleet_inv_def)
  have "\<exists>r q'. gq_pop Q queue (queueTimeout ?w) (fl_queue f) = (Inr r, q') \<and> stored (view q') = stored ?v"
  proof (cases "ready ?v queue")
    case (Cons j js)
    from pop_law [OF up sq this] show ?thesis by fastforce
  next
    case Nil
    have "sc_time sc (clk (fl_queue f))" using time p by (simp add: in_time_def)
    from pop_due_law [OF up sq secs this Nil] show ?thesis by (fastforce split: option.splits)
  qed
  then obtain r q' where q': "gq_pop Q queue (queueTimeout ?w) (fl_queue f) = (Inr r, q')" "stored (view q') = stored ?v" by blast
  show ?thesis
    by (rule that [of "case r of None \<Rightarrow> Idle | Some j \<Rightarrow> if j = [] then Idle else Popped j" q'])
      (use q' env in \<open>auto simp: advance_def wk_pop_def qcall_def split: option.split\<close>)
qed

text \<open>The step of another: the record stays, and who holds the entry afterwards has just popped it.\<close>

lemma advance_frame:
  assumes env: "we_vtable env = Q" and sq: "sc_queue sc queue" and inv: "fleet_inv up view sc queue f"
    and time: "in_time sc view clk env f i" and h: "held f i \<noteq> Some jn"
  defines "f' \<equiv> fleet_advance env queue i f"
  shows "stored (view (fl_queue f')) jn = stored (view (fl_queue f)) jn \<and>
    (held f' i = Some jn \<longrightarrow> fl_phase f' i = Popped jn) \<and>
    (jn \<in> fl_finished f' \<longleftrightarrow> jn \<in> fl_finished f) \<and> same_settings (fl_worker f i) (fl_worker f' i)"
proof (cases "fl_phase f i")
  case Idle
  obtain q' ph where "advance env queue Idle ((fl_worker f i)\<lparr>wk_queue := fl_queue f\<rparr>) = (ph, (fl_worker f i)\<lparr>wk_queue := q'\<rparr>)"
      "stored (view q') = stored (view (fl_queue f))" "ph = Idle \<or> (\<exists>j. ph = Popped j)"
    by (rule idle_result [OF env sq inv time Idle])
  then show ?thesis using Idle by (auto simp: f'_def held_def settled_def)
next
  case (Popped j)
  then have "held f i = Some j" "j \<noteq> jn" using h by (simp_all add: held_def)
  from get_result [OF env sq inv this(1)] obtain d q' where "view q' = view (fl_queue f)"
      "qcall (gq_getPersistentData (we_vtable env) j) ((fl_worker f i)\<lparr>wk_queue := fl_queue f\<rparr>) = (Inr d, (fl_worker f i)\<lparr>wk_queue := q'\<rparr>)"
    by metis
  then show ?thesis using Popped \<open>j \<noteq> jn\<close> by (simp add: f'_def held_def settled_def advance_def)
next
  case (Loaded j d)
  let ?w = "(fl_worker f i)\<lparr>wk_queue := fl_queue f\<rparr>"
  have hj: "held f i = Some j" "j \<noteq> jn" using h Loaded by (simp_all add: held_def)
  obtain r w' dm where run: "work env ?w queue d j = (r, w', dm)" by (cases "work env ?w queue d j")
  have "up (wk_queue ?w)" "sc_key sc j" using fleet_invD [OF inv hj(1) sq] by auto
  from work_keeps [OF env this run] have "keeps_others j ?w w'" .
  then have "stored (wview w') jn = stored (view (fl_queue f)) jn" "same_settings (fl_worker f i) w'"
    using hj(2) by (auto simp: keeps_others_def only_record_def same_settings_def)
  then show ?thesis using Loaded run hj(2) by (cases r) (simp_all add: f'_def held_def settled_def advance_def)
next
  case (Settling j dm st)
  let ?w = "(fl_worker f i)\<lparr>wk_queue := fl_queue f\<rparr>"
  have "j \<noteq> jn" using h Settling by (simp add: held_def)
  obtain q' es where "process_job_result env ?w queue j dm st = (Inr (), (fl_worker f i)\<lparr>wk_queue := q', events := es\<rparr>)"
      "view q' = settle_view (cleanSuccessfulJobsLogs (fl_worker f i)) (we_now env) queue j dm st (view (fl_queue f))"
    by (rule settle_result [OF env sq inv time Settling])
  then show ?thesis using Settling \<open>j \<noteq> jn\<close>
    by (simp add: f'_def held_def settled_def advance_def settle_view_others same_settings_def)
next
  case (Halted j r)
  then show ?thesis using h by (simp add: f'_def held_def settled_def advance_def)
qed

lemma push_frame:
  assumes env: "we_vtable env = Q" and sq: "sc_queue sc queue" and inv: "fleet_inv up view sc queue f"
    and key: "sc_key sc (job_key uuid)" and new: "job_key uuid \<notin> fl_known f" "stored (view (fl_queue f)) (job_key uuid) = None"
    and jn: "jn \<in> fl_known f" and f'_def: "f' = fleet_push env queue i typeName cls j uuid now f"
  shows "stored (view (fl_queue f')) jn = stored (view (fl_queue f)) jn \<and> fl_phase f' = fl_phase f \<and>
    fl_finished f' = fl_finished f \<and> jn \<in> fl_known f' \<and> same_settings (fl_worker f i) (fl_worker f' i) \<and>
    (\<forall>k. k \<noteq> i \<longrightarrow> fl_worker f' k = fl_worker f k)"
proof (cases "JsonToString (we_poco env) (JObj (pushed_payload typeName cls j uuid))")
  case (Inl e)
  then show ?thesis using jn by (simp add: f'_def fleet_push_def wk_push_def pushed_payload_def)
next
  case (Inr t)
  have "up (fl_queue f)" using inv by (simp add: fleet_inv_def)
  from fleet_push_eq [OF env sq this key new(2) Inr] obtain q' es where
      "f' = f\<lparr>fl_queue := wk_queue ((fl_worker f i)\<lparr>wk_queue := q', events := es\<rparr>),
        fl_worker := (fl_worker f)(i := (fl_worker f i)\<lparr>wk_queue := q', events := es\<rparr>),
        fl_phase := (fl_phase f)(i := fl_phase f i), fl_finished := fl_finished f,
        fl_known := insert (job_key uuid) (fl_known f)\<rparr>"
      "view q' = v_push queue (job_key uuid) ((view (fl_queue f))
        \<lparr>stored := (stored (view (fl_queue f)))(job_key uuid \<mapsto> pushed_record cls j t now)\<rparr>)"
    unfolding f'_def by metis
  moreover have "job_key uuid \<noteq> jn" using new(1) jn by auto
  ultimately show ?thesis using jn by (simp add: v_push_def same_settings_def)
qed

end

section \<open>The watched entry\<close>

text \<open>What \<open>work\<close> leaves of attempt \<open>t\<close> (counted from 0) of at most \<open>m\<close>: the data map and the status that are settled next.
  With \<open>x\<close> the job is one that always fails, and without a delay.\<close>

definition attempted :: "bool \<Rightarrow> string \<Rightarrow> u64 \<Rightarrow> u64 \<Rightarrow> datamap_t \<Rightarrow> jobStatus \<Rightarrow> bool" where
  "attempted x c m t dm st \<longleftrightarrow>
     (if st = noerror then \<not> x
      else st = (if again t m then errorretry else errorremove) \<and>
        dm ''tries'' = Some (string_of_u64 (if again t m then t + 1 else t))) \<and>
     dm ''className'' = Some c \<and> dm ''payload'' = None \<and> dm ''maxtries'' = Some (string_of_u64 m) \<and>
     (x \<longrightarrow> dm ''retryAfter'' = None)"

text \<open>How many attempts were begun, from the phase of the worker that holds the entry.\<close>

fun attempts_at :: "bool \<Rightarrow> string \<Rightarrow> u64 \<Rightarrow> u64 \<Rightarrow> datamap_t \<Rightarrow> nat \<Rightarrow> phase \<Rightarrow> bool" where
  "attempts_at x c m t d n (Popped j) \<longleftrightarrow> n = unat t"
| "attempts_at x c m t d n (Loaded j d') \<longleftrightarrow> d' = d \<and> n = unat t"
| "attempts_at x c m t d n (Settling j dm st) \<longleftrightarrow> n = Suc (unat t) \<and> attempted x c m t dm st"
| "attempts_at x c m t d n (Halted j r) \<longleftrightarrow> \<not> x \<and> n = Suc (unat t)"
| "attempts_at x c m t d n Idle \<longleftrightarrow> False"

abbreviation undelayed :: "datamap_t \<Rightarrow> datamap_t" where
  "undelayed d \<equiv> d(''retryAfter'' := None)"

definition attemptable :: "(('q, 'p) worker_env \<Rightarrow> bool) \<Rightarrow> bool \<Rightarrow> 'p job_class \<Rightarrow> string \<Rightarrow> string \<Rightarrow> u64 \<Rightarrow> u64 \<Rightarrow> datamap_t \<Rightarrow> bool" where
  "attemptable E x cls c u t m d \<longleftrightarrow>
     (\<forall>env. E env \<longrightarrow> runnable env cls c u t m (undelayed d)) \<and> (x \<longrightarrow> d ''retryAfter'' = None)"

definition in_progress :: "(('q, 'p) worker_env \<Rightarrow> bool) \<Rightarrow> bool \<Rightarrow> 'p job_class \<Rightarrow> string \<Rightarrow> string \<Rightarrow> string \<Rightarrow> u64 \<Rightarrow> qview \<Rightarrow>
    (nat \<Rightarrow> phase) \<Rightarrow> nat \<Rightarrow> bool" where
  "in_progress E x cls c u jn m v ph n \<longleftrightarrow>
     (\<exists>d t. stored v jn = Some d \<and> t < m \<and> attemptable E x cls c u t m d \<and>
        (\<forall>i. entry_of (ph i) = Some jn \<longrightarrow> attempts_at x c m t d n (ph i)) \<and>
        ((\<forall>i. entry_of (ph i) \<noteq> Some jn) \<longrightarrow> n = unat t))"

definition watched :: "(('q, 'p) worker_env \<Rightarrow> bool) \<Rightarrow> bool \<Rightarrow> 'p job_class \<Rightarrow> string \<Rightarrow> string \<Rightarrow> string \<Rightarrow> u64 \<Rightarrow>
    ('q \<Rightarrow> qview) \<Rightarrow> 'q fleet \<Rightarrow> nat \<Rightarrow> bool" where
  "watched E x cls c u jn m view f n \<longleftrightarrow>
     jn \<in> fl_known f \<and> (x \<longrightarrow> (\<forall>i. \<not> forkToHandle (fl_worker f i))) \<and>
     (if jn \<in> fl_finished f then (if x then n = unat m else 0 < n \<and> n \<le> unat m)
      else in_progress E x cls c u jn m (view (fl_queue f)) (fl_phase f) n)"

lemma in_progress_frame:
  assumes "in_progress E x cls c u jn m v ph n" and "stored v' jn = stored v jn"
    and "\<forall>k. k \<noteq> i \<longrightarrow> ph' k = ph k" and "entry_of (ph i) \<noteq> Some jn"
    and "entry_of (ph' i) = Some jn \<longrightarrow> ph' i = Popped jn \<and> (\<forall>k. entry_of (ph k) \<noteq> Some jn)"
  shows "in_progress E x cls c u jn m v' ph' n"
proof -
  obtain d t where dt: "stored v jn = Some d" "t < m" "attemptable E x cls c u t m d"
      "\<forall>i. entry_of (ph i) = Some jn \<longrightarrow> attempts_at x c m t d n (ph i)"
      "(\<forall>i. entry_of (ph i) \<noteq> Some jn) \<longrightarrow> n = unat t"
    using assms(1) by (auto simp: in_progress_def)
  have "attempts_at x c m t d n (ph' k)" if "entry_of (ph' k) = Some jn" for k
    using that dt(4,5) assms(3,5) by (cases "k = i") auto
  moreover have "n = unat t" if "\<forall>k. entry_of (ph' k) \<noteq> Some jn"
    using that dt(5) assms(3,4) by metis
  ultimately show ?thesis
    unfolding in_progress_def using dt(1-3) assms(2) by (intro exI [of _ d] exI [of _ t]) simp
qed

text \<open>The record after the attempt was settled is that of the next attempt.\<close>

lemma runnable_again:
  assumes "runnable env cls c u t m (undelayed d)" and "attempted x c m t dm errorretry"
  shows "runnable env cls c u (t + 1) m (undelayed (d ++ dm))" and "again t m"
  using assms by (auto simp: runnable_def runnable_as_def attempted_def map_add_def split: if_splits)

section \<open>One attempt\<close>

text \<open>A class whose runs leave the counters of the job alone.\<close>

definition keeps_counters :: "'p job_class \<Rightarrow> bool" where
  "keeps_counters cls \<longleftrightarrow> (\<forall>j. case cls_handle cls j of (j', out, err, e) \<Rightarrow> tries j' = tries j \<and> maxtries j' = maxtries j)"

lemma always_throws_keeps: "always_throws cls \<Longrightarrow> keeps_counters cls"
  unfolding keeps_counters_def
proof
  fix j
  assume "always_throws cls"
  then obtain j' out err e where "cls_handle cls j = (j', out, err, Some e)" "tries j' = tries j" "maxtries j' = maxtries j"
    unfolding always_throws_def by blast
  then show "case cls_handle cls j of (j', out, err, e) \<Rightarrow> tries j' = tries j \<and> maxtries j' = maxtries j" by simp
qed

abbreviation counted :: "'p job \<Rightarrow> 'p job \<Rightarrow> bool" where
  "counted j j' \<equiv> tries j' = tries j \<and> maxtries j' = maxtries j"

lemma run_by_pid_counts:
  assumes k: "keeps_counters cls" and run: "run_by_pid env cls j pid os es dm = (r, j', os', es', dm')"
  shows "counted j j' \<and> (\<forall>k. k \<noteq> ''LastException'' \<longrightarrow> dm' k = dm k)"
proof -
  obtain j2 out err e where h: "cls_handle cls j = (j2, out, err, e)" by (cases "cls_handle cls j")
  then have "counted j j2" using spec [OF k [unfolded keeps_counters_def], of j] by simp
  moreover obtain x os2 es2 where "handle (we_file env) cls j os es = (x, j2, os2, es2)"
    using handle_status_of(2) [OF h, of "we_file env" os es] by (cases "handle (we_file env) cls j os es") simp
  ultimately show ?thesis
    using run by (auto simp: run_by_pid_def Let_def split: sum.splits if_splits)
qed

lemma handle_job_run_counts:
  assumes k: "keeps_counters cls" and run: "handle_job_run env w cls j json dm jn = (r, w', j', dm')"
  shows "tries j' = tries j + 1 \<and> maxtries j' = maxtries j \<and>
    (\<forall>k. k \<notin> {''LastException'', ''JobStdout'', ''JobStderr'', ''retryAfter''} \<longrightarrow> dm' k = dm k)"
proof -
  let ?j = "j\<lparr>tries := tries j + 1\<rparr>"
  show ?thesis
  proof (cases "allocateJobOutputStream env json")
    case (Inl e)
    then show ?thesis using run by (auto simp: handle_job_run_def)
  next
    case (Inr s)
    obtain x j2 os es dm2 where pid: "run_by_pid env cls ?j (fork_process env w) (fst s) (snd s) dm = (x, j2, os, es, dm2)"
      by (cases "run_by_pid env cls ?j (fork_process env w) (fst s) (snd s) dm")
    then show ?thesis
      using run Inr run_by_pid_counts [OF k pid]
      by (auto simp: handle_job_run_def Let_def saveJobLog_frame split: sum.splits prod.splits if_splits)
  qed
qed

lemma work_counts:
  assumes r: "runnable env cls c u t m (undelayed d)" and k: "keeps_counters cls"
    and run: "work env w queue d jn = (Ret st, w', dm)"
  shows "attempted False c m t dm st"
proof -
  obtain j json where start: "work env w queue d jn = run_instance env w queue (d(''payload'' := None)) jn c u json cls j"
      and j: "tries j = t" "maxtries j = m"
    using work_starts_any [OF r [unfolded runnable_def]] by metis
  define w1 where "w1 = (if metricsCallback w \<and> c \<noteq> [] then emit (JobStarted queue c u (tries j)) w else w)"
  obtain x w2 j2 dm2 where h: "handle_job_run env w1 cls j json (d(''payload'' := None)) jn = (x, w2, j2, dm2)"
    by (cases "handle_job_run env w1 cls j json (d(''payload'' := None)) jn")
  note c = handle_job_run_counts [OF k h]
  have st: "process_retry_condition j2 = (if again t m then errorretry else errorremove)"
    using c j by (intro process_retry_condition_again) auto
  have d: "d ''className'' = Some c" "d ''tries'' = Some (string_of_u64 t)" "d ''maxtries'' = Some (string_of_u64 m)"
    using r by (simp_all add: runnable_def runnable_as_def)
  have ri: "run_instance env w queue (d(''payload'' := None)) jn c u json cls j = (Ret st, w', dm)"
    using run start by simp
  have dm: "st = noerror \<and> dm = dm2 \<or> st = (if again t m then errorretry else errorremove) \<and>
      dm = (if again t m then dm2(''tries'' \<mapsto> string_of_u64 (tries j2), ''maxtries'' \<mapsto> string_of_u64 (maxtries j2)) else dm2)"
  proof (cases x)
    case (Ret res)
    then show ?thesis
      using ri h st by (cases "res = noerror") (simp_all add: run_instance_def Let_def w1_def [symmetric] split: if_splits)
  next
    case (Raise e)
    then show ?thesis
      using ri h st by (cases "is_std e") (simp_all add: run_instance_def Let_def w1_def [symmetric] split: if_splits)
  next
    case (Exit st')
    then show ?thesis using ri h by (simp add: run_instance_def Let_def w1_def [symmetric])
  qed
  have kept: "k \<notin> {''LastException'', ''JobStdout'', ''JobStderr'', ''retryAfter''} \<Longrightarrow> dm2 k = (d(''payload'' := None)) k" for k
    using c by blast
  have fr: "dm2 ''className'' = Some c" "dm2 ''payload'' = None" "dm2 ''tries'' = Some (string_of_u64 t)"
      "dm2 ''maxtries'' = Some (string_of_u64 m)"
    using kept [of "''className''"] kept [of "''payload''"] kept [of "''tries''"] kept [of "''maxtries''"] d by simp_all
  have tj: "tries j2 = t + 1" "maxtries j2 = m" using c j by simp_all
  show ?thesis
  proof (cases "again t m")
    case True
    then show ?thesis using dm fr tj by (auto simp: attempted_def)
  next
    case False
    then show ?thesis using dm fr by (auto simp: attempted_def)
  qed
qed

definition behaves :: "bool \<Rightarrow> 'p job_class \<Rightarrow> bool" where
  "behaves x cls \<longleftrightarrow> (if x then always_throws cls else keeps_counters cls)"

context delayed_queue
begin

text \<open>The steps of the worker that holds the entry.\<close>

lemma own_get:
  assumes env: "we_vtable env = Q" and sq: "sc_queue sc queue" and inv: "fleet_inv up view sc queue f"
    and p: "fl_phase f i = Popped jn" and d: "stored (view (fl_queue f)) jn = Some d"
  shows "fl_phase (fleet_advance env queue i f) i = Loaded jn d \<and>
    view (fl_queue (fleet_advance env queue i f)) = view (fl_queue f) \<and>
    same_settings (fl_worker f i) (fl_worker (fleet_advance env queue i f) i)"
proof -
  have "held f i = Some jn" using p by (simp add: held_def)
  from get_result [OF env sq inv this] obtain d' q' where "stored (view (fl_queue f)) jn = Some d'" "view q' = view (fl_queue f)"
      "qcall (gq_getPersistentData (we_vtable env) jn) ((fl_worker f i)\<lparr>wk_queue := fl_queue f\<rparr>) = (Inr d', (fl_worker f i)\<lparr>wk_queue := q'\<rparr>)"
    by metis
  then show ?thesis using p d by (simp add: advance_def)
qed

lemma own_throw:
  assumes r: "runnable env cls c u t m d" and a: "always_throws cls" and tmp: "we_tmpdir env = Inr dir"
    and p: "fl_phase f i = Loaded jn d" and nf: "\<not> forkToHandle (fl_worker f i)"
  shows "\<exists>dm st. fl_phase (fleet_advance env queue i f) i = Settling jn dm st \<and> attempted True c m t dm st \<and>
    fl_queue (fleet_advance env queue i f) = fl_queue f \<and>
    same_settings (fl_worker f i) (fl_worker (fleet_advance env queue i f) i)"
proof -
  let ?w = "(fl_worker f i)\<lparr>wk_queue := fl_queue f\<rparr>"
  have q: "quiet_env env ?w" using nf tmp by (simp add: quiet_env_def)
  obtain dm s where "work env ?w queue d jn = (Ret (if again t m then errorretry else errorremove),
        ?w\<lparr>events := events ?w @ attempt_events ?w queue c u t (if again t m then errorretry else errorremove) s\<rparr>, dm)"
      "attempted True c m t dm (if again t m then errorretry else errorremove)"
    by (rule work_throws [OF r [unfolded runnable_def] q always_throws_on [OF a], of queue jn])
      (simp add: attempted_def)
  then show ?thesis using p by (simp add: advance_def same_settings_def)
qed

lemma own_run:
  assumes env: "we_vtable env = Q" and sq: "sc_queue sc queue" and inv: "fleet_inv up view sc queue f"
    and r: "runnable env cls c u t m (undelayed d)" and b: "behaves x cls"
    and x: "x \<Longrightarrow> d ''retryAfter'' = None" "x \<Longrightarrow> \<exists>dir. we_tmpdir env = Inr dir" "x \<Longrightarrow> \<not> forkToHandle (fl_worker f i)"
    and p: "fl_phase f i = Loaded jn d" and d: "stored (view (fl_queue f)) jn = Some d"
  defines "f' \<equiv> fleet_advance env queue i f"
  shows "\<exists>d'. stored (view (fl_queue f')) jn = Some d' \<and> undelayed d' = undelayed d \<and> (x \<longrightarrow> d' = d) \<and>
    entry_of (fl_phase f' i) = Some jn \<and> attempts_at x c m t d' (Suc (unat t)) (fl_phase f' i) \<and>
    same_settings (fl_worker f i) (fl_worker f' i)"
proof (cases x)
  case True
  then have "undelayed d = d" using x(1) by auto
  moreover obtain dir where "we_tmpdir env = Inr dir" using x(2) True by blast
  ultimately show ?thesis
    using own_throw [of env cls c u t m d dir f i jn queue] r b x(3) p d True unfolding f'_def behaves_def by fastforce
next
  case False
  let ?w = "(fl_worker f i)\<lparr>wk_queue := fl_queue f\<rparr>"
  obtain o' w' dm where run: "work env ?w queue d jn = (o', w', dm)" by (cases "work env ?w queue d jn")
  have "held f i = Some jn" using p by (simp add: held_def)
  then have "up (wk_queue ?w)" "sc_key sc jn" using fleet_invD [OF inv _ sq] by auto
  from work_keeps [OF env this run] d have "\<exists>d'. stored (wview w') jn = Some d' \<and> undelayed d' = undelayed d"
    and "same_settings (fl_worker f i) w'"
    by (auto simp: keeps_others_def same_job_def same_settings_def)
  moreover have "attempted False c m t dm st" if "o' = Ret st" for st
    using work_counts [OF r _ run [unfolded that]] b False by (simp add: behaves_def)
  ultimately show ?thesis using p run False unfolding f'_def by (cases o') (auto simp: advance_def)
qed

lemma own_settle:
  assumes env: "we_vtable env = Q" and sq: "sc_queue sc queue" and inv: "fleet_inv up view sc queue f"
    and time: "in_time sc view clk env f i" and p: "fl_phase f i = Settling jn dm st"
    and d: "stored (view (fl_queue f)) jn = Some d" and at: "attempted x c m t dm st"
  defines "f' \<equiv> fleet_advance env queue i f"
  shows "fl_phase f' i = Idle \<and> fl_finished f' = fl_finished f \<union> (if st = errorretry then {} else {jn}) \<and>
    (st = errorretry \<longrightarrow> stored (view (fl_queue f')) jn = Some (d ++ dm)) \<and>
    (st = errorretry \<and> d ''retryAfter'' = None \<and> x \<longrightarrow>
       ready (view (fl_queue f')) queue = ready (view (fl_queue f)) queue @ [jn]) \<and>
    same_settings (fl_worker f i) (fl_worker f' i)"
proof -
  obtain q' es where q': "process_job_result env ((fl_worker f i)\<lparr>wk_queue := fl_queue f\<rparr>) queue jn dm st =
        (Inr (), (fl_worker f i)\<lparr>wk_queue := q', events := es\<rparr>)"
      "view q' = settle_view (cleanSuccessfulJobsLogs (fl_worker f i)) (we_now env) queue jn dm st (view (fl_queue f))"
    by (rule settle_result [OF env sq inv time p])
  have "st = errorretry \<or> st = errorremove \<or> st = noerror" using at by (auto simp: attempted_def split: if_splits)
  moreover have "st = errorretry \<longrightarrow> stored (view q') jn = Some (d ++ dm)"
    using q'(2) d by (auto simp: settle_view_def v_set_def v_push_def v_later_def)
  moreover have "st = errorretry \<and> d ''retryAfter'' = None \<and> x \<longrightarrow> ready (view q') queue = ready (view (fl_queue f)) queue @ [jn]"
    using q'(2) d by (auto simp: settle_view_def v_set_def v_push_def delay_of_def)
  ultimately show ?thesis
    unfolding f'_def using p q'(1) by (auto simp: advance_def settled_def same_settings_def)
qed

end

section \<open>The entry is watched through every step\<close>

lemma holder_unique: "fleet_inv up view sc queue f \<Longrightarrow> held f a = Some e \<Longrightarrow> held f b = Some e \<Longrightarrow> a = b"
  using inj_onD [of "held f" "dom (held f)" a b] by (auto simp: fleet_inv_def exclusive_def)

lemma held_not_finished: "fleet_inv up view sc queue f \<Longrightarrow> held f i = Some e \<Longrightarrow> e \<notin> fl_finished f"
  using ranI [of "held f" i e] by (auto simp: fleet_inv_def exclusive_def)

lemma watched_other:
  assumes w: "watched E x cls c u jn m view f n" and inv': "fleet_inv up view sc queue f'"
    and st: "stored (view (fl_queue f')) jn = stored (view (fl_queue f)) jn" and h: "held f i \<noteq> Some jn"
    and ph: "held f' i = Some jn \<longrightarrow> fl_phase f' i = Popped jn" and others: "\<forall>k. k \<noteq> i \<longrightarrow> fl_phase f' k = fl_phase f k"
    and fin: "jn \<in> fl_finished f' \<longleftrightarrow> jn \<in> fl_finished f" and known: "jn \<in> fl_known f'"
    and fork: "\<forall>k. forkToHandle (fl_worker f' k) = forkToHandle (fl_worker f k)"
  shows "watched E x cls c u jn m view f' n"
proof (cases "jn \<in> fl_finished f")
  case True
  then show ?thesis using w fin known fork by (simp add: watched_def)
next
  case False
  then have ip: "in_progress E x cls c u jn m (view (fl_queue f)) (fl_phase f) n" using w by (simp add: watched_def)
  have alone: "\<forall>k. held f k \<noteq> Some jn" if "held f' i = Some jn"
  proof (intro allI notI)
    fix k
    assume k: "held f k = Some jn"
    with h have "k \<noteq> i" by auto
    with k others have "held f' k = Some jn" by (simp add: held_def)
    with holder_unique [OF inv' this that] \<open>k \<noteq> i\<close> show False by simp
  qed
  have "in_progress E x cls c u jn m (view (fl_queue f')) (fl_phase f') n"
    by (rule in_progress_frame [OF ip st others]) (use h ph alone in \<open>simp_all add: held_def\<close>)
  then show ?thesis using w fin known fork False by (simp add: watched_def)
qed

lemma in_progress_holder:
  assumes "in_progress E x cls c u jn m v ph n" and "entry_of (ph i) = Some jn"
  shows "\<exists>d t. stored v jn = Some d \<and> t < m \<and> attemptable E x cls c u t m d \<and> attempts_at x c m t d n (ph i)"
  using assms unfolding in_progress_def by blast

text \<open>After a step of the holder that keeps the entry, with the phase it is in then.\<close>

lemma in_progress_kept:
  assumes inv: "fleet_inv up view sc queue f" and h: "held f i = Some jn" and others: "\<forall>k. k \<noteq> i \<longrightarrow> ph k = fl_phase f k"
    and "stored v jn = Some d" and "t < m" and "attemptable E x cls c u t m d"
    and "entry_of (ph i) = Some jn \<and> attempts_at x c m t d n (ph i) \<or> entry_of (ph i) \<noteq> Some jn \<and> n = unat t"
  shows "in_progress E x cls c u jn m v ph n"
proof -
  have "entry_of (ph k) \<noteq> Some jn" if "k \<noteq> i" for k
    using holder_unique [OF inv h, of k] others that by (auto simp: held_def)
  then have "\<forall>k. entry_of (ph k) = Some jn \<longrightarrow> attempts_at x c m t d n (ph k)"
    and "(\<forall>k. entry_of (ph k) \<noteq> Some jn) \<longrightarrow> n = unat t" using assms(7) by metis+
  then show ?thesis unfolding in_progress_def using assms(4-6) by blast
qed

context delayed_queue
begin

lemma watched_own:
  assumes env: "we_vtable env = Q" "E env" and x: "x \<Longrightarrow> \<exists>dir. we_tmpdir env = Inr dir" and b: "behaves x cls"
    and sq: "sc_queue sc queue" and inv: "fleet_inv up view sc queue f"
    and time: "in_time sc view clk env f i" and h: "held f i = Some jn" and w: "watched E x cls c u jn m view f n"
  shows "watched E x cls c u jn m view (fleet_advance env queue i f) (if \<exists>d. fl_phase f i = Loaded jn d then Suc n else n)"
proof -
  let ?f = "fleet_advance env queue i f"
  have nf: "jn \<notin> fl_finished f" by (rule held_not_finished [OF inv h])
  then have ip: "in_progress E x cls c u jn m (view (fl_queue f)) (fl_phase f) n"
    and known: "jn \<in> fl_known ?f" and fork: "x \<longrightarrow> (\<forall>k. \<not> forkToHandle (fl_worker f k))" using w by (simp_all add: watched_def)
  obtain d t where d: "stored (view (fl_queue f)) jn = Some d" "t < m" "attemptable E x cls c u t m d"
      "attempts_at x c m t d n (fl_phase f i)"
    using in_progress_holder [OF ip, of i] h by (auto simp: held_def)
  then have r: "runnable env cls c u t m (undelayed d)" using env(2) by (simp add: attemptable_def)
  have others: "\<forall>k. k \<noteq> i \<longrightarrow> fl_phase ?f k = fl_phase f k" by simp
  have "fl_worker ?f k = fl_worker f k" if "k \<noteq> i" for k using that by simp
  then have forks: "x \<longrightarrow> (\<forall>k. \<not> forkToHandle (fl_worker ?f k))" if "same_settings (fl_worker f i) (fl_worker ?f i)"
    using that fork unfolding same_settings_def by metis
  show ?thesis
  proof (cases "fl_phase f i")
    case (Popped j)
    then have p: "fl_phase f i = Popped jn" using h by (simp add: held_def)
    note g = own_get [OF env(1) sq inv p d(1)]
    have "in_progress E x cls c u jn m (view (fl_queue ?f)) (fl_phase ?f) n"
      by (rule in_progress_kept [OF inv h others _ d(2,3)]) (use g d(1,4) p in simp_all)
    moreover have "jn \<notin> fl_finished ?f" using nf p by (simp add: settled_def)
    ultimately show ?thesis unfolding watched_def using known forks g p by simp
  next
    case (Loaded j d')
    then have p: "fl_phase f i = Loaded jn d" and n: "n = unat t" using h d(4) by (simp_all add: held_def)
    have "\<exists>d'. stored (view (fl_queue ?f)) jn = Some d' \<and> undelayed d' = undelayed d \<and> (x \<longrightarrow> d' = d) \<and>
        entry_of (fl_phase ?f i) = Some jn \<and> attempts_at x c m t d' (Suc (unat t)) (fl_phase ?f i) \<and>
        same_settings (fl_worker f i) (fl_worker ?f i)"
      by (rule own_run [OF env(1) sq inv r b _ x _ p d(1)]) (use d(3) fork in \<open>simp_all add: attemptable_def\<close>)
    then obtain d' where g: "stored (view (fl_queue ?f)) jn = Some d'" "undelayed d' = undelayed d" "x \<longrightarrow> d' = d"
        "entry_of (fl_phase ?f i) = Some jn" "attempts_at x c m t d' (Suc (unat t)) (fl_phase ?f i)"
        "same_settings (fl_worker f i) (fl_worker ?f i)" by blast
    have "attemptable E x cls c u t m d'" using d(3) g(2,3) by (auto simp: attemptable_def)
    then have "in_progress E x cls c u jn m (view (fl_queue ?f)) (fl_phase ?f) (Suc n)"
      using in_progress_kept [OF inv h others g(1) d(2)] g(4,5) n by blast
    moreover have "jn \<notin> fl_finished ?f" using nf p by (simp add: settled_def)
    ultimately show ?thesis unfolding watched_def using known forks [OF g(6)] p by simp
  next
    case (Settling j dm st)
    then have p: "fl_phase f i = Settling jn dm st" and n: "n = Suc (unat t)" and at: "attempted x c m t dm st"
      using h d(4) by (simp_all add: held_def)
    note g = own_settle [OF env(1) sq inv time p d(1) at]
    have suc: "unat (t + 1) = Suc (unat t)" using d(2) by (rule unat_Suc_less)
    have fin: "jn \<in> fl_finished ?f \<longleftrightarrow> st \<noteq> errorretry" using conjunct1 [OF conjunct2 [OF g]] nf by (simp del: advance_selectors)
    show ?thesis
    proof (cases "st = errorretry")
      case True
      note at' = at [unfolded True]
      have again: "again t m" by (rule runnable_again(2) [OF r at'])
      have "runnable e cls c u (t + 1) m (undelayed (d ++ dm))" if "E e" for e
        by (rule runnable_again(1) [OF _ at']) (use d(3) that in \<open>simp add: attemptable_def\<close>)
      moreover have "x \<longrightarrow> (d ++ dm) ''retryAfter'' = None" using at d(3) by (auto simp: attempted_def attemptable_def)
      ultimately have "attemptable E x cls c u (t + 1) m (d ++ dm)" by (simp add: attemptable_def)
      moreover have "t + 1 < m" using again d(2) by (auto simp: again_def)
      ultimately have "in_progress E x cls c u jn m (view (fl_queue ?f)) (fl_phase ?f) n"
        by (intro in_progress_kept [OF inv h others, where d = "d ++ dm" and t = "t + 1"])
          (use g n suc True in simp_all)
      then show ?thesis unfolding watched_def using known forks g p fin True by (simp del: advance_selectors)
    next
      case False
      have "n \<le> unat m" using d(2) n by (simp add: word_less_nat_alt)
      moreover have "n = unat m" if x
        using that at False d(2) n suc by (auto simp: attempted_def again_def word_less_nat_alt split: if_splits)
      ultimately show ?thesis unfolding watched_def using known forks g p n fin False by (simp del: advance_selectors)
    qed
  next
    case (Halted j o')
    then have "(fl_phase f)(i := Halted j o') = fl_phase f" by auto
    then show ?thesis using w Halted forks by (simp add: watched_def advance_def settled_def)
  qed (use h in \<open>simp add: held_def\<close>)
qed

end

text \<open>One step of the counted fleet, and the runs.\<close>

lemma watched_pushed:
  assumes w: "watched E x cls c u jn m view f n"
    and st: "stored (view (fl_queue f')) jn = stored (view (fl_queue f)) jn" and ph: "fl_phase f' = fl_phase f"
    and fin: "fl_finished f' = fl_finished f" and known: "jn \<in> fl_known f'"
    and i: "same_settings (fl_worker f i) (fl_worker f' i)" and others: "\<forall>k. k \<noteq> i \<longrightarrow> fl_worker f' k = fl_worker f k"
  shows "watched E x cls c u jn m view f' n"
proof -
  have "forkToHandle (fl_worker f' k) = forkToHandle (fl_worker f k)" for k
    using i others by (cases "k = i") (simp_all add: same_settings_def)
  moreover have "in_progress E x cls c u jn m (view (fl_queue f')) (fl_phase f) n =
      in_progress E x cls c u jn m (view (fl_queue f)) (fl_phase f) n" by (simp add: in_progress_def st)
  ultimately show ?thesis using w by (simp add: watched_def ph fin known)
qed

lemma attempt_step_watched:
  assumes step: "attempt_step sc view provides queue jn (f, n) (f', n')"
    and laws: "\<And>env clk. provides env clk \<Longrightarrow> delayed_queue (we_vtable env) up view sc clk"
    and x: "\<And>env clk. x \<Longrightarrow> provides env clk \<Longrightarrow> \<exists>dir. we_tmpdir env = Inr dir" and b: "behaves x cls"
    and sq: "sc_queue sc queue" and inv: "fleet_inv up view sc queue f"
    and w: "watched (\<lambda>env. \<exists>clk. provides env clk) x cls c u jn m view f n"
  shows "fleet_inv up view sc queue f' \<and> watched (\<lambda>env. \<exists>clk. provides env clk) x cls c u jn m view f' n'"
proof -
  have inv': "fleet_inv up view sc queue f'"
    by (rule fleet_step_inv [OF attempt_step_fleet [OF step] laws sq inv])
  have known: "jn \<in> fl_known f" using w by (simp add: watched_def)
  have work: "watched (\<lambda>env. \<exists>clk. provides env clk) x cls c u jn m view f' (if \<exists>d. fl_phase f i = Loaded jn d then Suc n else n)"
    if p: "provides env clk" and t: "in_time sc view clk env f i" and f': "f' = fleet_advance env queue i f" for env clk i
  proof (cases "held f i = Some jn")
    case True
    have "\<exists>clk. provides env clk" using p by blast
    from delayed_queue.watched_own [OF laws [OF p] refl this x [OF _ p] b sq inv t True w] show ?thesis unfolding f' .
  next
    case False
    then have "\<not> (\<exists>d. fl_phase f i = Loaded jn d)" by (auto simp: held_def)
    moreover note fr = delayed_queue.advance_frame [OF laws [OF p] refl sq inv t False]
    have "watched (\<lambda>env. \<exists>clk. provides env clk) x cls c u jn m view f' n"
      by (rule watched_other [OF w inv', where i = i]) (use fr f' False known in \<open>auto simp: same_settings_def\<close>)
    ultimately show ?thesis by simp
  qed
  from step have "watched (\<lambda>env. \<exists>clk. provides env clk) x cls c u jn m view f' n'"
  proof cases
    case (work_attempt env clk i d)
    then show ?thesis using work [of env clk i] by simp
  next
    case (other_work env clk i)
    then show ?thesis using work [of env clk i] by simp
  next
    case (other_push env clk uuid i typeName cls' j now)
    have "stored (view (fl_queue f')) jn = stored (view (fl_queue f)) jn \<and> fl_phase f' = fl_phase f \<and>
        fl_finished f' = fl_finished f \<and> jn \<in> fl_known f' \<and> same_settings (fl_worker f i) (fl_worker f' i) \<and>
        (\<forall>k. k \<noteq> i \<longrightarrow> fl_worker f' k = fl_worker f k)"
      using delayed_queue.push_frame [OF laws refl sq inv _ _ _ known] other_push by blast
    then show ?thesis using watched_pushed [OF w] other_push(2) by blast
  qed
  with inv' show ?thesis ..
qed

lemma attempt_steps_watched:
  assumes "(attempt_step sc view provides queue jn)\<^sup>*\<^sup>* (f, n) (f', n')"
    and "\<And>env clk. provides env clk \<Longrightarrow> delayed_queue (we_vtable env) up view sc clk"
    and "\<And>env clk. x \<Longrightarrow> provides env clk \<Longrightarrow> \<exists>dir. we_tmpdir env = Inr dir" and "behaves x cls"
    and "sc_queue sc queue" and "fleet_inv up view sc queue f"
    and "watched (\<lambda>env. \<exists>clk. provides env clk) x cls c u jn m view f n"
  shows "fleet_inv up view sc queue f' \<and> watched (\<lambda>env. \<exists>clk. provides env clk) x cls c u jn m view f' n'"
  using assms(1)
proof (induction "(f', n')" arbitrary: f' n' rule: rtranclp_induct)
  case base
  then show ?case using assms(6,7) by simp
next
  case (step y)
  obtain f1 n1 where y: "y = (f1, n1)" by (cases y)
  have ih: "fleet_inv up view sc queue f1 \<and> watched (\<lambda>env. \<exists>clk. provides env clk) x cls c u jn m view f1 n1"
    by (rule step.hyps(3) [OF y])
  show ?case
  proof (rule attempt_step_watched [OF step.hyps(2) [unfolded y]])
    show "delayed_queue (we_vtable env) up view sc clk" if "provides env clk" for env clk using assms(2) that .
    show "\<exists>dir. we_tmpdir env = Inr dir" if x and "provides env clk" for env clk using assms(3) that .
  qed (use ih assms(4,5) in simp_all)
qed

text \<open>A pushed entry is watched from the start.\<close>

context delayed_queue
begin

lemma pushed_watched:
  assumes env: "we_vtable env = Q" and sq: "sc_queue sc queue" and inv: "fleet_inv up view sc queue f"
    and key: "sc_key sc (job_key uuid)" and new: "job_key uuid \<notin> fl_known f" "stored (view (fl_queue f)) (job_key uuid) = None"
    and pc: "poco_documented pc" "reads_back pc (pushed_payload typeName cls j uuid)" "we_poco env = pc"
    and E: "\<And>e. E e \<Longrightarrow> we_poco e = pc \<and> we_joblist e typeName = Some cls"
    and cls: "restores_counters cls j" "cls_getName cls j \<noteq> []" and m: "maxtries j \<noteq> 0"
    and nf: "x \<longrightarrow> (\<forall>i. \<not> forkToHandle (fl_worker f i))"
  shows "watched E x cls (cls_getName cls j) uuid (job_key uuid) (maxtries j) view
    (fleet_push env queue k typeName cls j uuid now f) 0"
proof -
  obtain t where t: "JsonToString (we_poco env) (JObj (pushed_payload typeName cls j uuid)) = Inr t"
      "p_parse pc t = Inr (JObj (pushed_payload typeName cls j uuid))"
    using pc(2,3) by (auto simp: reads_back_def)
  have up: "up (fl_queue f)" and ex: "exclusive (ready (view (fl_queue f)) queue) (later (view (fl_queue f)) queue) (held f) (fl_finished f) (fl_known f)"
    using inv by (simp_all add: fleet_inv_def)
  have "job_key uuid \<notin> ran (held f)" "job_key uuid \<notin> fl_finished f" using ex new(1) by (auto simp: exclusive_def)
  then have nobody: "\<forall>i. entry_of (fl_phase f i) \<noteq> Some (job_key uuid)" "job_key uuid \<notin> fl_finished f"
    by (auto simp: held_def ran_def)
  obtain q' es where q': "fleet_push env queue k typeName cls j uuid now f =
      f\<lparr>fl_queue := wk_queue ((fl_worker f k)\<lparr>wk_queue := q', events := es\<rparr>),
        fl_worker := (fl_worker f)(k := (fl_worker f k)\<lparr>wk_queue := q', events := es\<rparr>),
        fl_phase := (fl_phase f)(k := fl_phase f k), fl_finished := fl_finished f,
        fl_known := insert (job_key uuid) (fl_known f)\<rparr>"
      "view q' = v_push queue (job_key uuid) ((view (fl_queue f))
        \<lparr>stored := (stored (view (fl_queue f)))(job_key uuid \<mapsto> pushed_record cls j t now)\<rparr>)"
    using fleet_push_eq [OF env sq up key new(2) t(1)] by metis
  have "\<forall>e. E e \<longrightarrow> runnable e cls (cls_getName cls j) uuid 0 (maxtries j) (pushed_record cls j t now)"
  proof (intro allI impI)
    fix e
    assume "E e"
    with E t(2) pc(1) cls show "runnable e cls (cls_getName cls j) uuid 0 (maxtries j) (pushed_record cls j t now)"
      by (intro pushed_runnable [of _ typeName]) auto
  qed
  moreover have "pushed_record cls j t now ''retryAfter'' = None" by (simp add: pushed_record_def)
  then have nodelay: "undelayed (pushed_record cls j t now) = pushed_record cls j t now"
    "pushed_record cls j t now ''retryAfter'' = None" by auto
  ultimately have "in_progress E x cls (cls_getName cls j) uuid (job_key uuid) (maxtries j) (view q') (fl_phase f) 0"
    unfolding in_progress_def using nobody(1) m q'(2)
    by (intro exI [of _ "pushed_record cls j t now"] exI [of _ "0 :: u64"])
      (simp add: v_push_def word_neq_0_conv attemptable_def nodelay)
  then show ?thesis using nf nobody(2) by (simp add: watched_def q'(1))
qed

end

lemma watched_bound:
  assumes inv: "fleet_inv up view sc queue f" and w: "watched E x cls c u jn m view f n" and m: "m \<noteq> 0"
  shows "n \<le> unat m \<and> (jn \<in> fl_finished f \<longrightarrow> 0 < n)"
    and "x \<Longrightarrow> (jn \<in> fl_finished f \<longrightarrow> n = unat m) \<and> (\<forall>i r. fl_phase f i \<noteq> Halted (Some jn) r)"
proof -
  have "n \<le> unat m \<and> (jn \<in> fl_finished f \<longrightarrow> 0 < n) \<and>
      (x \<longrightarrow> (jn \<in> fl_finished f \<longrightarrow> n = unat m) \<and> (\<forall>i r. fl_phase f i \<noteq> Halted (Some jn) r))"
  proof (cases "jn \<in> fl_finished f")
    case True
    then have "held f i \<noteq> Some jn" for i using held_not_finished [OF inv] by blast
    then have "fl_phase f i \<noteq> Halted (Some jn) r" for i r by (metis held_def entry_of.simps(5))
    moreover have "0 < unat m" using m by (simp add: unat_gt_0)
    ultimately show ?thesis using w True by (simp add: watched_def split: if_splits)
  next
    case False
    then have ip: "in_progress E x cls c u jn m (view (fl_queue f)) (fl_phase f) n" using w by (simp add: watched_def)
    then obtain d t where t: "t < m" "\<And>i. entry_of (fl_phase f i) = Some jn \<Longrightarrow> attempts_at x c m t d n (fl_phase f i)"
        "(\<forall>i. entry_of (fl_phase f i) \<noteq> Some jn) \<Longrightarrow> n = unat t"
      by (auto simp: in_progress_def)
    have "n \<le> Suc (unat t)"
    proof (cases "\<exists>i. entry_of (fl_phase f i) = Some jn")
      case True
      then obtain i where "entry_of (fl_phase f i) = Some jn" by blast
      from this t(2) [OF this] show ?thesis by (cases "fl_phase f i") auto
    qed (use t(3) in auto)
    moreover have "unat t < unat m" using t(1) by (simp add: word_less_nat_alt)
    moreover have "x \<longrightarrow> fl_phase f i \<noteq> Halted (Some jn) r" for i r using t(2) [of i] by auto
    ultimately show ?thesis using False by simp
  qed
  then show "n \<le> unat m \<and> (jn \<in> fl_finished f \<longrightarrow> 0 < n)"
    and "x \<Longrightarrow> (jn \<in> fl_finished f \<longrightarrow> n = unat m) \<and> (\<forall>i r. fl_phase f i \<noteq> Halted (Some jn) r)" by blast+
qed

section \<open>Attempts over Redis\<close>

text \<open>What both properties rest on.\<close>

lemma redis_watched:
  assumes redis: "redis_documented rc D" "enumerates ord" and sq: "sc_queue redis_scope queue" and up: "redis_up rc D al q"
    and empty: "rd_lists (D (sv_redis q)) (al @ queue) = []" "rd_zsets (D (sv_redis q)) (al @ queue @ '':later'') = []"
    and w: "0 < jobLogExpireSeconds w" "0 < queueTimeout w"
    and cls: "restores_counters cls j" "cls_getName cls j \<noteq> []" "maxtries j \<noteq> 0"
    and pc: "poco_documented pc" "reads_back pc (pushed_payload typeName cls j uuid)"
    and provides: "\<And>env clk. provides env clk \<Longrightarrow> we_vtable env = redis_vtable rc al clk ord \<and> we_poco env = pc \<and>
      we_joblist env typeName = Some cls"
    and before: "(fleet_step redis_scope (redis_view D al) provides queue)\<^sup>*\<^sup>* (new_fleet q w) f0"
    and new: "job_key uuid \<notin> fl_known f0" "stored (redis_view D al (fl_queue f0)) (job_key uuid) = None"
    and env: "provides env clk"
    and run: "(attempt_step redis_scope (redis_view D al) provides queue (job_key uuid))\<^sup>*\<^sup>*
      (fleet_push env queue k typeName cls j uuid now f0, 0) (f, n)"
    and b: "behaves x cls" and x: "x \<longrightarrow> (\<forall>i. \<not> forkToHandle (fl_worker f0 i))"
      "\<And>env clk. x \<Longrightarrow> provides env clk \<Longrightarrow> \<exists>dir. we_tmpdir env = Inr dir"
  shows "fleet_inv (redis_up rc D al) (redis_view D al) redis_scope queue f"
    and "watched (\<lambda>env. \<exists>clk. provides env clk) x cls (cls_getName cls j) uuid (job_key uuid) (maxtries j) (redis_view D al) f n"
proof -
  note laws = redis_delayed_queue [OF redis]
  have p: "delayed_queue (we_vtable e) (redis_up rc D al) (redis_view D al) redis_scope cl" if "provides e cl" for e cl
    using provides [OF that] laws by auto
  have "fleet_inv (redis_up rc D al) (redis_view D al) redis_scope queue (new_fleet q w)"
    using sq up empty w by (intro new_fleet_inv) (simp_all add: redis_view_sel, simp_all add: redis_scope_def)
  from fleet_steps_inv [OF before p sq this]
  have inv: "fleet_inv (redis_up rc D al) (redis_view D al) redis_scope queue f0" .
  have key: "sc_key redis_scope (job_key uuid)" by (simp add: redis_scope_def job_key_def starts_with_def)
  have "we_vtable env = redis_vtable rc al clk ord" "we_poco env = pc" using provides [OF env] by simp_all
  note push = delayed_queue.fleet_push_inv [OF laws this(1) sq inv key new]
    delayed_queue.pushed_watched [OF laws this(1) sq inv key new pc this(2) _ cls x(1),
      where E = "\<lambda>env. \<exists>clk. provides env clk"]
  have "fleet_inv (redis_up rc D al) (redis_view D al) redis_scope queue f \<and>
      watched (\<lambda>env. \<exists>clk. provides env clk) x cls (cls_getName cls j) uuid (job_key uuid) (maxtries j) (redis_view D al) f n"
    by (rule attempt_steps_watched [OF run p x(2) b sq push(1) push(2)]) (use provides in auto)
  then show "fleet_inv (redis_up rc D al) (redis_view D al) redis_scope queue f"
    and "watched (\<lambda>env. \<exists>clk. provides env clk) x cls (cls_getName cls j) uuid (job_key uuid) (maxtries j) (redis_view D al) f n"
    by blast+
qed

text \<open>C3: a job pushed to a Redis queue that any number of workers serve is attempted at most \<open>maxtries\<close> times in all, in
  every interleaving of the workers and of further pushes, whatever its runs do: they may succeed, throw anything, ask
  for a delay, be forked or be cut off; only its counters must be left alone. \<open>n\<close> counts the calls of \<open>work\<close> on its entry by
  whichever worker. And no job is done with before it was attempted. The fleet may have done any work before the push.\<close>

theorem redis_attempts_bounded:
  assumes "redis_documented rc D" and "enumerates ord" and "sc_queue redis_scope queue" and "redis_up rc D al q"
    and "rd_lists (D (sv_redis q)) (al @ queue) = []" and "rd_zsets (D (sv_redis q)) (al @ queue @ '':later'') = []"
    and "0 < jobLogExpireSeconds w" and "0 < queueTimeout w"
    and "restores_counters cls j" and "cls_getName cls j \<noteq> []" and "maxtries j \<noteq> 0"
    and "poco_documented pc" and "reads_back pc (pushed_payload typeName cls j uuid)"
    and "\<And>env clk. provides env clk \<Longrightarrow> we_vtable env = redis_vtable rc al clk ord \<and> we_poco env = pc \<and>
      we_joblist env typeName = Some cls"
    and "(fleet_step redis_scope (redis_view D al) provides queue)\<^sup>*\<^sup>* (new_fleet q w) f0"
    and "job_key uuid \<notin> fl_known f0" and "stored (redis_view D al (fl_queue f0)) (job_key uuid) = None"
    and "provides env clk"
    and "(attempt_step redis_scope (redis_view D al) provides queue (job_key uuid))\<^sup>*\<^sup>*
      (fleet_push env queue k typeName cls j uuid now f0, 0) (f, n)"
    and "keeps_counters cls"
  shows "n \<le> unat (maxtries j) \<and> (job_key uuid \<in> fl_finished f \<longrightarrow> 0 < n)"
proof -
  have "behaves False cls" using assms(20) by (simp add: behaves_def)
  note w = redis_watched [where x = False, OF assms(1-19) this]
  show ?thesis by (rule watched_bound(1) [OF w assms(11)]) simp_all
qed

text \<open>C4: a job whose every run throws a \<open>std::exception\<close>, leaving its counters alone and asking for no retry delay, is
  given up after exactly \<open>maxtries\<close> attempts, counted over all workers of a Redis queue in every interleaving, and stops
  none of them; the workers do not fork and have a directory for their logs. (An exception of another type does stop a
  worker, with the job in its hands.)\<close>

theorem redis_failing_job_exact:
  assumes "redis_documented rc D" and "enumerates ord" and "sc_queue redis_scope queue" and "redis_up rc D al q"
    and "rd_lists (D (sv_redis q)) (al @ queue) = []" and "rd_zsets (D (sv_redis q)) (al @ queue @ '':later'') = []"
    and "0 < jobLogExpireSeconds w" and "0 < queueTimeout w"
    and "restores_counters cls j" and "cls_getName cls j \<noteq> []" and "maxtries j \<noteq> 0"
    and "poco_documented pc" and "reads_back pc (pushed_payload typeName cls j uuid)"
    and "\<And>env clk. provides env clk \<Longrightarrow> we_vtable env = redis_vtable rc al clk ord \<and> we_poco env = pc \<and>
      we_joblist env typeName = Some cls"
    and "(fleet_step redis_scope (redis_view D al) provides queue)\<^sup>*\<^sup>* (new_fleet q w) f0"
    and "job_key uuid \<notin> fl_known f0" and "stored (redis_view D al (fl_queue f0)) (job_key uuid) = None"
    and "provides env clk"
    and "(attempt_step redis_scope (redis_view D al) provides queue (job_key uuid))\<^sup>*\<^sup>*
      (fleet_push env queue k typeName cls j uuid now f0, 0) (f, n)"
    and "always_throws cls" and "\<forall>i. \<not> forkToHandle (fl_worker f0 i)"
    and "\<And>env clk. provides env clk \<Longrightarrow> \<exists>dir. we_tmpdir env = Inr dir"
  shows "(job_key uuid \<in> fl_finished f \<longrightarrow> n = unat (maxtries j)) \<and> (\<forall>i r. fl_phase f i \<noteq> Halted (Some (job_key uuid)) r)"
proof -
  have "behaves True cls" using assms(20) by (simp add: behaves_def)
  note w = redis_watched [where x = True, OF assms(1-19) this]
  show ?thesis by (rule watched_bound(2) [OF w assms(11)]) (use assms(21,22) in simp_all)
qed

text \<open>The witness: worker 0 alone takes the job until it gives it up.\<close>

context delayed_queue
begin

lemma own_pop:
  assumes env: "we_vtable env = Q" and sq: "sc_queue sc queue" and inv: "fleet_inv up view sc queue f"
    and p: "fl_phase f i = Idle" and jn: "jn \<noteq> []" and r: "ready (view (fl_queue f)) queue = jn # js"
  shows "fl_phase (fleet_advance env queue i f) i = Popped jn \<and>
    view (fl_queue (fleet_advance env queue i f)) =
      (view (fl_queue f))\<lparr>ready := (ready (view (fl_queue f)))(queue := js)\<rparr> \<and>
    same_settings (fl_worker f i) (fl_worker (fleet_advance env queue i f) i)"
proof -
  let ?w = "(fl_worker f i)\<lparr>wk_queue := fl_queue f\<rparr>"
  have "up (fl_queue f)" using inv by (simp add: fleet_inv_def)
  then obtain q' where "qcall (gq_pop Q queue (queueTimeout ?w)) ?w = (Inr (Some jn), ?w\<lparr>wk_queue := q'\<rparr>)"
      "view q' = (view (fl_queue f))\<lparr>ready := (ready (view (fl_queue f)))(queue := js)\<rparr>"
    using w_pop [of ?w queue jn js "queueTimeout ?w"] sq r by auto
  then show ?thesis using p env jn by (simp add: advance_def wk_pop_def)
qed

lemma solo_round:
  assumes env: "we_vtable env = Q" "provides env clk" and tmp: "we_tmpdir env = Inr dir" and a: "always_throws cls"
    and sq: "sc_queue sc queue" and time: "\<And>q. sc_time sc (clk q)" and inv: "fleet_inv up view sc queue f"
    and p: "fl_phase f i = Idle" and nf: "\<not> forkToHandle (fl_worker f i)" and jn: "jn \<noteq> []"
    and r: "ready (view (fl_queue f)) queue = [jn]" "stored (view (fl_queue f)) jn = Some d" "runnable env cls c u t m d"
  obtains f' d' where "(attempt_step sc view provides queue jn)\<^sup>*\<^sup>* (f, n) (f', Suc n)" and "fleet_inv up view sc queue f'"
    and "fl_phase f' i = Idle" and "\<not> forkToHandle (fl_worker f' i)"
    and "again t m \<Longrightarrow> ready (view (fl_queue f')) queue = [jn] \<and> stored (view (fl_queue f')) jn = Some d' \<and>
       runnable env cls c u (t + 1) m d'" and "\<not> again t m \<Longrightarrow> jn \<in> fl_finished f'"
proof -
  let ?A = "attempt_step sc view provides queue jn"
  have keep: "fleet_inv up view sc queue g \<Longrightarrow> in_time sc view clk env g i \<Longrightarrow>
      fleet_inv up view sc queue (fleet_advance env queue i g)" for g
    by (rule fleet_advance_inv [OF env(1) sq])
  have other: "in_time sc view clk env g i \<Longrightarrow> \<forall>d. fl_phase g i \<noteq> Loaded jn d \<Longrightarrow> ?A (g, k) (fleet_advance env queue i g, k)"
    for g k using env(2) by (rule attempt_step.other_work)
  have ra: "d ''retryAfter'' = None" using r(3) by (auto simp: runnable_def runnable_as_def)
  define f1 where "f1 = fleet_advance env queue i f"
  define f2 where "f2 = fleet_advance env queue i f1"
  define f3 where "f3 = fleet_advance env queue i f2"
  define f4 where "f4 = fleet_advance env queue i f3"
  have t: "in_time sc view clk env f i" using p time by (simp add: in_time_def)
  have i1: "fleet_inv up view sc queue f1" unfolding f1_def by (rule keep [OF inv t])
  note s1 = own_pop [OF env(1) sq inv p jn r(1), folded f1_def]
  have t1: "in_time sc view clk env f1 i" and d1: "stored (view (fl_queue f1)) jn = Some d"
    using s1 r(2) by (simp_all add: in_time_def)
  have i2: "fleet_inv up view sc queue f2" unfolding f2_def by (rule keep [OF i1 t1])
  note s2 = own_get [OF env(1) sq i1 conjunct1 [OF s1] d1, folded f2_def]
  have t2: "in_time sc view clk env f2 i" and n2: "\<not> forkToHandle (fl_worker f2 i)"
    using s1 s2 nf by (simp_all add: in_time_def same_settings_def)
  have i3: "fleet_inv up view sc queue f3" unfolding f3_def by (rule keep [OF i2 t2])
  obtain dm st where s3: "fl_phase f3 i = Settling jn dm st" "attempted True c m t dm st" "fl_queue f3 = fl_queue f2"
      "same_settings (fl_worker f2 i) (fl_worker f3 i)"
    using own_throw [OF r(3) a tmp conjunct1 [OF s2] n2, of queue] unfolding f3_def by blast
  have d3: "stored (view (fl_queue f3)) jn = Some d" using s3(3) s2 d1 by simp
  have t3: "in_time sc view clk env f3 i" using s3(1) d3 ra by (simp add: in_time_def delay_of_def)
  have i4: "fleet_inv up view sc queue f4" unfolding f4_def by (rule keep [OF i3 t3])
  note s4 = own_settle [OF env(1) sq i3 t3 s3(1) d3 s3(2), folded f4_def]
  have st: "st = (if again t m then errorretry else errorremove)" and "dm ''retryAfter'' = None"
    using s3(2) by (auto simp: attempted_def split: if_splits)
  then have und: "undelayed d = d" "undelayed (d ++ dm) = d ++ dm" using ra by (auto simp: fun_eq_iff map_add_def)
  have "again t m \<Longrightarrow> runnable env cls c u (t + 1) m (d ++ dm)"
    using runnable_again(1) [of env cls c u t m d True dm] r(3) s3(2) st und by simp
  note again = this
  have "?A (f, n) (f1, n)" unfolding f1_def by (rule other [OF t]) (simp add: p)
  moreover have "?A (f1, n) (f2, n)" unfolding f2_def by (rule other [OF t1]) (simp add: s1)
  moreover have "?A (f2, n) (f3, Suc n)" unfolding f3_def by (rule attempt_step.work_attempt [where provides = provides, OF env(2) t2 conjunct1 [OF s2]])
  moreover have "?A (f3, Suc n) (f4, Suc n)" unfolding f4_def by (rule other [OF t3]) (simp add: s3(1))
  ultimately have "?A\<^sup>*\<^sup>* (f, n) (f4, Suc n)" by (meson rtranclp.rtrancl_into_rtrancl rtranclp.rtrancl_refl)
  then show ?thesis
    by (rule that [OF _ i4, where d' = "d ++ dm"])
      (use s1 s2 s3 s4 n2 again ra st in \<open>simp_all add: same_settings_def\<close>)
qed

lemma solo_run:
  assumes env: "we_vtable env = Q" "provides env clk" and tmp: "we_tmpdir env = Inr dir" and a: "always_throws cls"
    and sq: "sc_queue sc queue" and time: "\<And>q. sc_time sc (clk q)" and jn: "jn \<noteq> []" and m: "m \<noteq> 0"
  shows "fleet_inv up view sc queue f \<Longrightarrow> fl_phase f i = Idle \<Longrightarrow> \<not> forkToHandle (fl_worker f i) \<Longrightarrow>
    ready (view (fl_queue f)) queue = [jn] \<Longrightarrow> stored (view (fl_queue f)) jn = Some d \<Longrightarrow> runnable env cls c u t m d \<Longrightarrow> t < m \<Longrightarrow>
    \<exists>f' n'. (attempt_step sc view provides queue jn)\<^sup>*\<^sup>* (f, n) (f', n') \<and> jn \<in> fl_finished f'"
proof (induction "unat m - unat t" arbitrary: f d t n rule: less_induct)
  case less
  note round = solo_round [where provides = provides, OF env tmp a sq time less.prems(1-3) jn less.prems(4-6)]
  obtain f' d' where f': "(attempt_step sc view provides queue jn)\<^sup>*\<^sup>* (f, n) (f', Suc n)" "fleet_inv up view sc queue f'"
      "fl_phase f' i = Idle" "\<not> forkToHandle (fl_worker f' i)"
      "again t m \<Longrightarrow> ready (view (fl_queue f')) queue = [jn] \<and> stored (view (fl_queue f')) jn = Some d' \<and>
       runnable env cls c u (t + 1) m d'" "\<not> again t m \<Longrightarrow> jn \<in> fl_finished f'"
    by (rule round [of n]) blast
  show ?case
  proof (cases "again t m")
    case True
    then have "t + 1 < m" using m by (simp add: again_def)
    moreover from this have "unat m - unat (t + 1) < unat m - unat t"
      using unat_Suc_less [OF less.prems(7)] less.prems(7) by (simp add: word_less_nat_alt)
    ultimately show ?thesis
      using less.hyps [of "t + 1" f' d' "Suc n"] f'(2-4) f'(5) [OF True] rtranclp_trans [OF f'(1)] by blast
  qed (use f' in blast)
qed

end

abbreviation mini_provides :: "(mini_redis service, unit) worker_env \<Rightarrow> (mini_redis service \<Rightarrow> int) \<Rightarrow> bool" where
  "mini_provides \<equiv> \<lambda>env clk. we_vtable env = redis_vtable mini_client ''app:'' clk field_order \<and> we_poco env = sample_poco \<and>
     we_joblist env ''Boom'' = Some failing_class \<and> (\<exists>dir. we_tmpdir env = Inr dir)"

abbreviation mini_attempt :: "mini_redis service fleet \<times> nat \<Rightarrow> mini_redis service fleet \<times> nat \<Rightarrow> bool" where
  "mini_attempt \<equiv> attempt_step redis_scope (redis_view mini_data ''app:'') mini_provides ''q'' (job_key ''u1'')"

lemma boom_attempts:
  "\<exists>f n. mini_attempt\<^sup>*\<^sup>* (boom_pushed, 0) (f, n) \<and> job_key ''u1'' \<in> fl_finished f"
proof -
  let ?f0 = "new_fleet empty_service (new_worker empty_service)" and ?v = "redis_view mini_data ''app:''"
  let ?up = "redis_up mini_client mini_data ''app:''"
  note q = redis_delayed_queue [OF mini_documented field_order_enumerates, of "''app:''" "\<lambda>s. 60"]
  obtain t where t: "JsonToString (we_poco redis_env) (JObj (pushed_payload ''Boom'' failing_class (new_job ()) ''u1'')) = Inr t"
      "p_parse sample_poco t = Inr (JObj (pushed_payload ''Boom'' failing_class (new_job ()) ''u1''))"
    using sample_reads_back by (auto simp: reads_back_def redis_env_def sample_json_def)
  let ?d = "pushed_record failing_class (new_job ()) t 9"
  have up0: "?up (fl_queue ?f0)" and new0: "stored (?v (fl_queue ?f0)) (job_key ''u1'') = None"
    by (simp_all add: empty_fleet empty_up)
  have "fleet_inv ?up ?v redis_scope ''q'' ?f0"
    by (rule new_fleet_inv) (rule empty_up, simp_all add: empty_fleet, simp_all add: redis_scope_def new_worker_def
      redis_view_sel empty_service_def new_service_replicas_def mini_init_def mini_data_def)
  from delayed_queue.fleet_push_inv [OF q redis_env_table queue_q this empty_fleet(1,2)]
  have inv: "fleet_inv ?up ?v redis_scope ''q'' boom_pushed" by (simp add: empty_fleet)
  obtain q' es where q': "boom_pushed = ?f0\<lparr>fl_queue := wk_queue ((fl_worker ?f0 7)\<lparr>wk_queue := q', events := es\<rparr>),
        fl_worker := (fl_worker ?f0)(7 := (fl_worker ?f0 7)\<lparr>wk_queue := q', events := es\<rparr>),
        fl_phase := (fl_phase ?f0)(7 := fl_phase ?f0 7), fl_finished := fl_finished ?f0,
        fl_known := insert (job_key ''u1'') (fl_known ?f0)\<rparr>"
      "?v q' = v_push ''q'' (job_key ''u1'') ((?v (fl_queue ?f0))\<lparr>stored := (stored (?v (fl_queue ?f0)))(job_key ''u1'' \<mapsto> ?d)\<rparr>)"
    by (rule delayed_queue.fleet_push_eq [OF q redis_env_table queue_q up0 empty_fleet(1) new0 t(1)])
  have p: "fl_phase boom_pushed 0 = Idle" "\<not> forkToHandle (fl_worker boom_pushed 0)"
      "ready (?v (fl_queue boom_pushed)) ''q'' = [job_key ''u1'']"
      "stored (?v (fl_queue boom_pushed)) (job_key ''u1'') = Some ?d"
    unfolding q'(1) using q'(2) by (simp_all add: v_push_def empty_fleet) (simp add: new_fleet_def new_worker_def)
  have "runnable redis_env failing_class ''Boom'' ''u1'' 0 (maxtries (new_job ())) ?d"
    using pushed_runnable [of redis_env "''Boom''" failing_class t "new_job ()" "''u1''" 9]
      sample_poco_documented sample_restores t(2) by (simp add: redis_env_def)
  from delayed_queue.solo_run [OF q redis_env_table, where provides = mini_provides, OF _ _ sample_always_throws queue_q _ _ _
      inv p this, of "''/tmp''" 0]
  show ?thesis by (simp add: redis_env_def redis_scope_def exact_def job_key_def new_job_def)
qed

lemma failing_class_keeps: "keeps_counters failing_class"
  by (rule always_throws_keeps [OF sample_always_throws])

theorem redis_attempts_bounded_witness:
  "\<exists>f n. mini_attempt\<^sup>*\<^sup>* (boom_pushed, 0) (f, n) \<and> job_key ''u1'' \<in> fl_finished f \<and> 0 < n \<and> n \<le> 3"
proof -
  obtain f n where f: "mini_attempt\<^sup>*\<^sup>* (boom_pushed, 0) (f, n)" "job_key ''u1'' \<in> fl_finished f"
    using boom_attempts by blast
  have "n \<le> unat (maxtries (new_job ())) \<and> (job_key ''u1'' \<in> fl_finished f \<longrightarrow> 0 < n)"
    by (rule redis_attempts_bounded [where w = "new_worker empty_service" and q = empty_service and pc = sample_poco
          and cls = failing_class and env = redis_env and clk = "\<lambda>s. 60" and provides = mini_provides,
          OF mini_documented field_order_enumerates queue_q empty_up _ _ _ _ sample_restores])
      (use f(1) sample_poco_documented sample_reads_back in \<open>simp_all add: empty_fleet sample_json_def failing_class_keeps\<close>,
       simp_all add: redis_env_def new_worker_def new_fleet_def new_job_def empty_service_def new_service_replicas_def
         mini_init_def mini_data_def)
  then show ?thesis using f by (auto simp: new_job_def)
qed

theorem redis_failing_job_exact_witness:
  "\<exists>f. mini_attempt\<^sup>*\<^sup>* (boom_pushed, 0) (f, 3) \<and> job_key ''u1'' \<in> fl_finished f"
proof -
  obtain f n where f: "mini_attempt\<^sup>*\<^sup>* (boom_pushed, 0) (f, n)" "job_key ''u1'' \<in> fl_finished f"
    using boom_attempts by blast
  have "(job_key ''u1'' \<in> fl_finished f \<longrightarrow> n = unat (maxtries (new_job ()))) \<and>
      (\<forall>i r. fl_phase f i \<noteq> Halted (Some (job_key ''u1'')) r)"
    by (rule redis_failing_job_exact [where w = "new_worker empty_service" and q = empty_service and pc = sample_poco
          and cls = failing_class and env = redis_env and clk = "\<lambda>s. 60" and provides = mini_provides,
          OF mini_documented field_order_enumerates queue_q empty_up _ _ _ _ sample_restores])
      (use f(1) sample_poco_documented sample_reads_back in \<open>simp_all add: empty_fleet sample_json_def sample_always_throws\<close>,
       simp_all add: redis_env_def new_worker_def new_fleet_def new_job_def empty_service_def new_service_replicas_def
         mini_init_def mini_data_def)
  then show ?thesis using f by (auto simp: new_job_def)
qed

end
