(* ===== verification/LogLife.thy ===== *)
theory LogLife
  imports Logging
begin

text \<open>
  The life of the log (src/src/utils/CLog.cpp): the configuration, the constructor, the one instance of the
  process, its end. The ring is a global of the file and outlives the instances.
\<close>

section \<open>The instance of the process\<close>

text \<open>Where text can go: a file, by its name, or a stream of the program (\<open>std::cout\<close> is the stream ''cout'').\<close>

datatype sink = File string | Stream string

record logOutputInfo =
  cfg_filename :: string
  cfg_stream :: "string option"

text \<open>
  A \<open>CLog\<close>: what \<open>LogFile\<close> writes to (none once its redirection ended: the file behind it was never opened),
  whether \<open>streamRedirect\<close> is set, and the log, whose \<open>log_file\<close> is all the text of that sink.
\<close>

record log_instance =
  li_sink :: "sink option"
  li_redirect :: bool
  li_log :: clog

record log_world =
  lw_sinks :: "sink \<Rightarrow> string"
  lw_ring :: "log_line ring"
  lw_defaultcfg :: logOutputInfo
  lw_instance :: "log_instance option"

text \<open>What the program does not decide: local time, the macros of the build, the time, and which files can be opened.\<close>

record log_env =
  le_time :: "string \<Rightarrow> int \<Rightarrow> string"
  le_date_macro :: string
  le_time_macro :: string
  le_commit :: string
  le_now :: int
  le_can_open :: "string \<Rightarrow> bool"

definition default_config :: "string \<Rightarrow> logOutputInfo" where
  "default_config path = \<lparr>cfg_filename = path, cfg_stream = None\<rparr>"

definition start_message :: "string \<Rightarrow> string" where
  "start_message filename = ''Iniciando log em '' @ filename @ [CHR 0x0A]"

definition say :: "string \<Rightarrow> log_world \<Rightarrow> log_world" where
  "say t w = w\<lparr>lw_sinks := (lw_sinks w)(Stream ''cout'' := lw_sinks w (Stream ''cout'') @ t)\<rparr>"

text \<open>The constructor; a file is opened to append.\<close>

definition open_instance :: "log_env \<Rightarrow> sink \<Rightarrow> log_world \<Rightarrow> log_instance" where
  "open_instance env snk w =
     (let c = insertLogHeader (le_time env) (le_date_macro env) (le_time_macro env) (le_commit env) (le_now env)
        \<lparr>log_file = lw_sinks w snk, log_flushed = length (lw_sinks w snk), log_ring = lw_ring w, log_running = True, log_writer = False, log_finished = False\<rparr>
      in \<lparr>li_sink = Some snk, li_redirect = (case snk of File f \<Rightarrow> False | Stream s \<Rightarrow> True),
          li_log = c\<lparr>log_writer := True\<rparr>\<rparr>)"

definition new_clog :: "log_env \<Rightarrow> logOutputInfo \<Rightarrow> (log_world, log_instance) eff" where
  "new_clog env cfg w =
     (case cfg_stream cfg of
        Some s \<Rightarrow> (Inr (open_instance env (Stream s) w), w)
      | None \<Rightarrow>
          (let w1 = say (start_message (cfg_filename cfg)) w in
           if le_can_open env (cfg_filename cfg) then (Inr (open_instance env (File (cfg_filename cfg)) w1), w1)
           else (Inl (StdExn Runtime_error ''Impossivel criar ou abrir o arquivo de log''), w1)))"

definition initSingleton :: "log_env \<Rightarrow> logOutputInfo \<Rightarrow> (log_world, unit) eff" where
  "initSingleton env cfg w =
     (case lw_instance w of
        Some i \<Rightarrow> (Inr (), w)
      | None \<Rightarrow>
          (case new_clog env cfg w of
             (Inl e, w1) \<Rightarrow> (Inl e, w1)
           | (Inr i, w1) \<Rightarrow> (Inr (), w1\<lparr>lw_instance := Some i\<rparr>)))"

definition initSingleton_path :: "log_env \<Rightarrow> string \<Rightarrow> (log_world, unit) eff" where
  "initSingleton_path env filepath w =
     (case lw_instance w of
        Some i \<Rightarrow> (Inr (), w)
      | None \<Rightarrow> initSingleton env (default_config filepath) (w\<lparr>lw_defaultcfg := default_config filepath\<rparr>))"

text \<open>An operation on \<open>CLog::log()\<close>; None where that dereferences a null pointer, or the operation does not return.\<close>

definition log_use :: "(clog \<Rightarrow> clog option) \<Rightarrow> log_world \<Rightarrow> log_world option" where
  "log_use f w =
     (case lw_instance w of
        None \<Rightarrow> None
      | Some i \<Rightarrow> map_option (\<lambda>c. w\<lparr>lw_instance := Some (i\<lparr>li_log := c\<rparr>)\<rparr>) (f (li_log i)))"

text \<open>\<open>FinishLog\<close> with its last statement, which ends a redirection; without a sink nothing is written.\<close>

definition finish_instance :: "log_env \<Rightarrow> log_instance \<Rightarrow> log_instance option" where
  "finish_instance env i =
     map_option (\<lambda>c. i\<lparr>
         li_log := (if li_sink i = None then c\<lparr>log_file := log_file (li_log i), log_flushed := log_flushed (li_log i)\<rparr> else c),
         li_sink := (if li_redirect i then None else li_sink i),
         li_redirect := False\<rparr>)
       (FinishLog (le_time env) (le_now env) (li_log i))"

text \<open>The text of the instance as the text of its sink, and the end of the process, which destroys the instance.\<close>

definition sync :: "sink option \<Rightarrow> log_instance \<Rightarrow> log_world \<Rightarrow> log_world" where
  "sync snk i w = w\<lparr>lw_sinks := (case snk of None \<Rightarrow> lw_sinks w | Some s \<Rightarrow> (lw_sinks w)(s := log_file (li_log i))),
     lw_ring := log_ring (li_log i)\<rparr>"

definition log_finish :: "log_env \<Rightarrow> log_world \<Rightarrow> log_world option" where
  "log_finish env w =
     (case lw_instance w of
        None \<Rightarrow> None
      | Some i \<Rightarrow> map_option (\<lambda>i'. (sync (li_sink i) i' w)\<lparr>lw_instance := Some i'\<rparr>) (finish_instance env i))"

definition destroy_log :: "log_env \<Rightarrow> log_world \<Rightarrow> log_world option" where
  "destroy_log env w =
     (case lw_instance w of
        None \<Rightarrow> Some w
      | Some i \<Rightarrow> map_option (\<lambda>i'. (sync (li_sink i) i' w)\<lparr>lw_instance := None\<rparr>) (finish_instance env i))"

section \<open>Opening\<close>

text \<open>The first call decides: later ones change nothing, whatever they ask for.\<close>

lemma initSingleton_once:
  "lw_instance w = Some i \<Longrightarrow> initSingleton env cfg w = (Inr (), w)"
  "lw_instance w = Some i \<Longrightarrow> initSingleton_path env p w = (Inr (), w)"
  by (simp_all add: initSingleton_def initSingleton_path_def)

text \<open>A file that cannot be opened leaves no instance, but the default configuration with its name.\<close>

lemma initSingleton_fails:
  assumes "lw_instance w = None" and "\<not> le_can_open env p"
  shows "initSingleton_path env p w =
    (Inl (StdExn Runtime_error ''Impossivel criar ou abrir o arquivo de log''),
     say (start_message p) (w\<lparr>lw_defaultcfg := default_config p\<rparr>))"
  using assms by (simp add: initSingleton_path_def initSingleton_def new_clog_def default_config_def say_def Let_def)

lemma initSingleton_opens:
  assumes "lw_instance w = None" and "le_can_open env p"
  shows "initSingleton_path env p w =
    (Inr (), (say (start_message p) (w\<lparr>lw_defaultcfg := default_config p\<rparr>))
       \<lparr>lw_instance := Some (open_instance env (File p) w)\<rparr>)"
  using assms by (simp add: initSingleton_path_def initSingleton_def new_clog_def default_config_def say_def
    open_instance_def Let_def)

section \<open>The whole life\<close>

lemma FinishLog_holds:
  assumes "holds (log_ring c) k xs" and "length xs < ring_num (log_ring c)" and "log_writer c"
  obtains c' where "FinishLog lt now c = Some c'" and "log_writer c' = False"
    and "log_file c' = log_file c @ concat (map (line_text lt) xs) @ log_footer lt now"
proof -
  have "holds (log_ring (c\<lparr>log_running := False\<rparr>)) k xs" "length xs < ring_num (log_ring (c\<lparr>log_running := False\<rparr>))"
    using assms by simp_all
  from pass_holds [OF this, of lt False] obtain c1 where
    "addLinesToLog lt False (c\<lparr>log_running := False\<rparr>) = Some (xs \<noteq> [], c1)"
    "log_file c1 = log_file c @ concat (map (line_text lt) xs)" by auto
  then show ?thesis
    using assms(3) that [of "log_flush (c1\<lparr>log_writer := False, log_file := log_file c1 @ log_footer lt now\<rparr>)\<lparr>log_finished := True\<rparr>"]
    by (simp add: FinishLog_def join_writer_def Let_def log_flush_def)
qed

text \<open>Logging through the instance: batches that the writer passes, and last ones that it did not see yet.\<close>

definition log_session :: "log_env \<Rightarrow> (clog \<Rightarrow> clog) \<Rightarrow> log_call list list \<Rightarrow> log_call list \<Rightarrow> clog \<Rightarrow> clog option" where
  "log_session env others bs ends c =
     (case log_batches (le_time env) others bs c of None \<Rightarrow> None | Some c1 \<Rightarrow> log_all others ends c1)"

definition env_header :: "log_env \<Rightarrow> string" where
  "env_header env = log_header (le_time env) (le_date_macro env) (le_time_macro env) (le_commit env) (le_now env)"

lemma open_instance_sel [simp]:
  "li_sink (open_instance env snk w) = Some snk" "log_ring (li_log (open_instance env snk w)) = lw_ring w"
  "log_file (li_log (open_instance env snk w)) = lw_sinks w snk @ env_header env"
  "log_writer (li_log (open_instance env snk w))"
  by (simp_all add: open_instance_def insertLogHeader_def env_header_def Let_def)

lemma log_session_holds:
  assumes "holds (log_ring c) k []" and "\<forall>b \<in> set bs. length b < ring_num (log_ring c)"
    and "length ends < ring_num (log_ring c)"
  obtains c' k' where "log_session env others bs ends c = Some c'" and "same_log c' c"
    and "log_file c' = log_file c @ concat (map (call_text (le_time env)) (concat bs))"
    and "holds (log_ring c') k' (map call_line ends)"
proof -
  from log_batches_holds [OF assms(1,2), of "le_time env" others] obtain c1 where
    c1: "log_batches (le_time env) others bs c = Some c1" "same_log c1 c"
      "log_file c1 = log_file c @ concat (map (call_text (le_time env)) (concat bs))"
      "holds (log_ring c1) (slot (ring_num (log_ring c)) k (length (concat bs))) []" by blast
  have "length [] + length ends \<le> ring_num (log_ring c1)" using assms(3) c1(2) by (simp add: same_log_def)
  from log_all_holds [OF c1(4) this, of others] obtain c2 where
    "log_all others ends c1 = Some c2" "log_file c2 = log_file c1"
    "holds (log_ring c2) (slot (ring_num (log_ring c)) k (length (concat bs))) (map call_line ends)" "same_log c2 c1" by auto
  with c1 show ?thesis by (intro that) (auto simp: log_session_def intro: same_log_trans)
qed

text \<open>C28: the life of a log. The first \<open>initSingleton\<close> opens the file; as long as fewer lines wait than the ring
  has slots, every line logged by the process reaches the file, once and in the order of the calls, however they
  fall on the passes of the writer, those it has not seen when the process ends included; the file has what it had
  before, the header, the lines and the footer, and no instance is left.\<close>

theorem log_life:
  assumes "lw_instance w = None" and "lw_ring w = new_ring n no_line" and "0 < n" and "n < 2 ^ 63"
    and "le_can_open env path" and "\<forall>b \<in> set bs. length b < n" and "length ends < n"
  shows "\<exists>w1 w2 w3. initSingleton_path env path w = (Inr (), w1) \<and>
    log_use (log_session env others bs ends) w1 = Some w2 \<and> destroy_log env w2 = Some w3 \<and>
    lw_instance w3 = None \<and>
    lw_sinks w3 (File path) = lw_sinks w (File path) @ env_header env @
      concat (map (call_text (le_time env)) (concat bs @ ends)) @ log_footer (le_time env) (le_now env)"
proof -
  let ?i = "open_instance env (File path) w"
  let ?w1 = "(say (start_message path) (w\<lparr>lw_defaultcfg := default_config path\<rparr>))\<lparr>lw_instance := Some ?i\<rparr>"
  have n: "ring_num (log_ring (li_log ?i)) = n" "holds (log_ring (li_log ?i)) 0 []"
    using assms(2-4) holds_new_ring by (simp_all add: new_ring_def) (simp add: new_ring_def [symmetric])
  obtain c k where c: "log_session env others bs ends (li_log ?i) = Some c" "same_log c (li_log ?i)"
      "log_file c = log_file (li_log ?i) @ concat (map (call_text (le_time env)) (concat bs))"
      "holds (log_ring c) k (map call_line ends)"
    by (rule log_session_holds [OF n(2)]) (use n(1) assms(6,7) in auto)
  have "length (map call_line ends) < ring_num (log_ring c)" "log_writer c"
    using assms(7) c(2) n(1) by (simp_all add: same_log_def)
  then obtain c' where c': "FinishLog (le_time env) (le_now env) c = Some c'"
      "log_file c' = log_file c @ concat (map (line_text (le_time env)) (map call_line ends)) @ log_footer (le_time env) (le_now env)"
    using FinishLog_holds [OF c(4), of "le_time env" "le_now env"] by blast
  have "destroy_log env (?w1\<lparr>lw_instance := Some (?i\<lparr>li_log := c\<rparr>)\<rparr>) =
      Some ((?w1\<lparr>lw_sinks := (lw_sinks ?w1)(File path := log_file c'), lw_ring := log_ring c'\<rparr>)\<lparr>lw_instance := None\<rparr>)"
    using c'(1) by (simp add: destroy_log_def finish_instance_def sync_def)
  moreover have "log_use (log_session env others bs ends) ?w1 = Some (?w1\<lparr>lw_instance := Some (?i\<lparr>li_log := c\<rparr>)\<rparr>)"
    using c(1) by (simp add: log_use_def)
  ultimately show ?thesis
    using initSingleton_opens [OF assms(1,5)] c(3) c'(2) by simp
qed

section \<open>After the end\<close>

text \<open>\<open>FinishLog\<close> does not look at \<open>Finished\<close>: called by the program and again by the destructor, it writes the
  footer twice into a file.\<close>

lemma finished_twice:
  assumes "lw_instance w = Some i" and "li_sink i = Some (File p)" and "\<not> li_redirect i" and "\<not> log_writer (li_log i)"
  shows "\<exists>w1 w2. log_finish env w = Some w1 \<and> destroy_log env w1 = Some w2 \<and>
    lw_sinks w2 (File p) = log_file (li_log i) @ log_footer (le_time env) (le_now env) @ log_footer (le_time env) (le_now env)"
  using assms
  by (simp add: log_finish_def destroy_log_def finish_instance_def FinishLog_def join_writer_def sync_def)

text \<open>After \<open>FinishLog\<close> no thread frees the slots: the call that finds the ring full never returns.\<close>

definition all_taken :: "'a ring \<Rightarrow> bool" where
  "all_taken r \<longleftrightarrow> 0 < ring_num r \<and> (\<forall>k < ring_num r. elements_state r ! k \<noteq> 0)"

lemma new_write_taken:
  assumes "all_taken r"
  shows "\<exists>r'. new_write r = (None, r') \<and> all_taken r'"
  using assms by (auto simp: new_write_def claim_slot_def all_taken_def Let_def)

lemma full_log_hangs:
  assumes "all_taken (log_ring c)"
  shows "AddToLog id thrid now Text extraid c = None"
proof -
  have "\<not> (others = id \<and> all_taken (log_ring c))" if "wait_for_slot others c = Some y" for others c y
  proof (rule wait_for_slot.raw_induct [where P = "\<lambda>others c y. \<not> (others = id \<and> all_taken (log_ring c))", OF _ that])
    fix wait others and c :: clog and y
    assume step: "(case new_write (log_ring c) of (None, r) \<Rightarrow> wait others (others (c\<lparr>log_ring := r\<rparr>))
        | (Some a, r) \<Rightarrow> Some (a, c\<lparr>log_ring := r\<rparr>)) = Some y"
      and ih: "\<And>others c y. wait others c = Some y \<Longrightarrow> \<not> (others = id \<and> all_taken (log_ring c))"
    show "\<not> (others = id \<and> all_taken (log_ring c))"
    proof
      assume *: "others = id \<and> all_taken (log_ring c)"
      then obtain r' where "new_write (log_ring c) = (None, r')" "all_taken r'" using new_write_taken by blast
      with step * ih [of id "c\<lparr>log_ring := r'\<rparr>"] show False by simp
    qed
  qed
  then have "wait_for_slot id c = None" using assms by (cases "wait_for_slot id c") auto
  then show ?thesis by (simp add: AddToLog_def)
qed

section \<open>A witness\<close>

definition sample_world :: log_world where
  "sample_world = \<lparr>lw_sinks = (\<lambda>s. if s = File ''a.log'' then ''old'' else []), lw_ring = new_ring ring_size no_line,
     lw_defaultcfg = default_config ''program.log'', lw_instance = None\<rparr>"

definition sample_log_env :: log_env where
  "sample_log_env = \<lparr>le_time = fixed_time, le_date_macro = ''Jan  1 2024'', le_time_macro = ''00:00:00'', le_commit = ''#'',
     le_now = 0, le_can_open = (\<lambda>f. True)\<rparr>"

theorem log_life_witness:
  "\<exists>w1 w2 w3. initSingleton_path sample_log_env ''a.log'' sample_world = (Inr (), w1) \<and>
    log_use (log_session sample_log_env id [[(''1'', 7000, ''a'', []), (''1'', 8000, ''b'', ''x'')]] [(''2'', 9000, ''c'', [])]) w1 = Some w2 \<and>
    destroy_log sample_log_env w2 = Some w3 \<and> lw_instance w3 = None \<and>
    lw_sinks w3 (File ''a.log'') = ''old'' @ env_header sample_log_env @
      ''2024/01/01 00:00:00.000007: 1  a'' @ [CHR 0x0A] @ ''2024/01/01 00:00:00.000008: 1 x b'' @ [CHR 0x0A] @
      ''2024/01/01 00:00:00.000009: 2  c'' @ [CHR 0x0A] @ log_footer fixed_time 0"
proof -
  have t: "concat (map (call_text fixed_time)
      (concat [[(''1'', 7000, ''a'', []), (''1'', 8000, ''b'', ''x'')]] @ [(''2'', 9000, ''c'', [])])) =
    ''2024/01/01 00:00:00.000007: 1  a'' @ [CHR 0x0A] @ ''2024/01/01 00:00:00.000008: 1 x b'' @ [CHR 0x0A] @
      ''2024/01/01 00:00:00.000009: 2  c'' @ [CHR 0x0A]"
    by code_simp
  have s: "lw_sinks sample_world (File ''a.log'') = ''old''" by (simp add: sample_world_def)
  have "\<exists>w1 w2 w3. initSingleton_path sample_log_env ''a.log'' sample_world = (Inr (), w1) \<and>
    log_use (log_session sample_log_env id [[(''1'', 7000, ''a'', []), (''1'', 8000, ''b'', ''x'')]] [(''2'', 9000, ''c'', [])]) w1 = Some w2 \<and>
    destroy_log sample_log_env w2 = Some w3 \<and> lw_instance w3 = None \<and>
    lw_sinks w3 (File ''a.log'') = lw_sinks sample_world (File ''a.log'') @ env_header sample_log_env @
      concat (map (call_text (le_time sample_log_env))
        (concat [[(''1'', 7000, ''a'', []), (''1'', 8000, ''b'', ''x'')]] @ [(''2'', 9000, ''c'', [])])) @
      log_footer (le_time sample_log_env) (le_now sample_log_env)"
    by (rule log_life [where n = ring_size]) (simp_all add: sample_world_def sample_log_env_def ring_size_def)
  moreover have "le_time sample_log_env = fixed_time" "le_now sample_log_env = 0" by (simp_all add: sample_log_env_def)
  ultimately show ?thesis unfolding s by (simp only: t append_assoc)
qed

end
