(* ===== verification/Spec2Isabelle.thy ===== *)
theory Spec2Isabelle
  imports WorkerRuns Redis RedisContract WebSocketFrame Validators StructParser WebControllers Database Migrations LogRing ProcessFork
    WebSocketServer DocApi Utilities Endpoints SqlConnection LuaQueue ExampleMetrics FleetTries LogLife
begin

text \<open>
  A verification library for cppapiframework, a C++ framework for HTTP services: a job queue and its
  worker, Redis and MySQL access, request validation, JSON to structure parsing, controllers on top
  of Pistache, WebSockets, an asynchronous log and the helpers they share. The definitions are
  translated from the files under src/src; the properties stand in the theories of the components.

  Conventions. A C++ exception is a value of \<open>exn\<close> (\<open>Prelude\<close>); an operation that may throw and changes
  a state is an \<open>eff\<close>, a function from the state to a result or an exception and the new state; one
  that only may throw gives \<open>exn + 'a\<close>. \<open>size_t\<close> and the other fixed width integers are words where
  wrapping matters and naturals where they are positions in a list. Strings are byte strings. Loops
  are structural recursions, functions with a measure, or \<open>partial_function (option)\<close> where the source may
  not return (the frame loop of \<open>onInput\<close>, the loop of \<open>AddToLog\<close>, \<open>addLinesToLog\<close>, \<open>streamWrite\<close>): then a
  property that they return proves \<open>Some\<close>. No theory uses fuel, except \<open>loop\<close> of \<open>QueueWorker\<close>, whose argument
  is the number of rounds of a loop that runs until the program is stopped, and \<open>read_all\<close> of
  \<open>Utilities\<close>, which is no code but the reader of a property. Poco, Pistache, the Redis client, the MySQL
  connector, the file system and the clocks are arguments (records such as \<open>poco\<close>, \<open>worker_env\<close>, \<open>connector\<close>,
  \<open>fs_env\<close>, \<open>router_env\<close>); what the code relies on is stated in predicates named \<open>documented\<close>, and each property with
  such a hypothesis has a witness on concrete functions. The texts the repository itself writes for other interpreters
  are not assumed to do anything: \<open>Lexing\<close> cuts them into tokens, \<open>LuaScript\<close> parses and evaluates the fragment of Lua
  that the script of \<open>RedisQueue::pop\<close> is written in, and \<open>SqlText\<close> reads the INSERT and the counting SELECT of the
  migrations. What is assumed of the server is that EVAL follows these rules for any script and that a single command or a statement,
  as read, does what its documentation says.

  \<open>Prelude\<close> has what several parts share: exceptions and effects, decimal text, substrings, and the locale
  \<open>escaping\<close> of a writer and a reader of escaped texts, which the JSON writer and the SQL literals are shown to fit.

  Queues and jobs.
  \<^item> \<open>GenericQueue\<close>: the virtual functions of queues/GenericQueue.hpp as a record, and what a worker relies on as the
    locale \<open>job_queue\<close>. \<open>StdQueue\<close>: the in-memory queue (queues/StdQueue.cpp), which interprets it; over any run the
    pops are the pushes in order.
  \<^item> \<open>Json\<close>, \<open>PocoJsonStringify\<close>: documents and the JSON writer (utils/PocoJsonStringify.hpp) with the round trip of its
    escapes. \<open>Jobs\<close>: job instances, the serialisation macros and the registry (jobhandler/QueueableJob, JobsHandler).
  \<^item> \<open>QueueWorker\<close>: the worker (jobhandler/QueueWorker.cpp). \<open>WorkerSpec\<close> states a round as an abstract machine with the
    metrics it emits, \<open>WorkerRuns\<close> the runs: how often a failing job is tried, that a round touches only its job, what
    becomes of jobs that succeed, throw foreign values or have no class.
  \<^item> \<open>Metrics\<close>: the callbacks of the worker (jobhandler/WorkerMetricsCallback.hpp, SimpleConsoleMetrics.hpp) and the statistics of
    example_metrics_usage.cpp; what a callback counts is the locale \<open>event_counter\<close>. \<open>ExampleMetrics\<close>: that program, from its
    job class to its exit code: how the worker empties a queue of several jobs over any provider, and the statistics at
    the end.
  \<^item> \<open>ProcessFork\<close>: forking and waiting (utils/ProcessHelper.cpp), what the worker makes of the answer of \<open>waitpid\<close>, and
    that a fork neither loses nor repeats a line of the log and leaves nothing in the buffer of the stream, which the child copies.
  \<^item> \<open>BorrowPool\<close>: the pool of utils/BorrowPool.hpp, alone and as the interleavings of its atomic operations for any
    number of threads; exclusive lending as an invariant, and the run that loses a wake-up.
  \<^item> \<open>Redis\<close>: the service, the cache helper and the queue over Redis (utils/RedisService, queues/RedisQueue).
    \<open>RedisContract\<close>: what Redis documents of the commands sent (and of EVAL, by \<open>run_script\<close>), and that over such a server the queue keeps the contract
    \<open>job_queue\<close> for names that keep apart (\<open>redis_scope\<close>), so that what is proved of the worker over any provider holds
    over Redis. \<open>WorkerFleet\<close>: any number of workers on one queue, a round cut at its calls of the queue; no entry is ever
    with two of them, and none is lost but with a worker that ends while it holds it. \<open>FleetTries\<close>: one entry followed through those steps, with a counter of the calls of
    \<open>work\<close> on it; all workers together attempt a job at most \<open>maxtries\<close> times, and one whose runs all throw a standard exception exactly so often. \<open>LuaQueue\<close>: the
    scripts of queues/LuaScripts.hpp as functions on the data of the server, with the jobs on the three keys of a queue as
    a multiset that no run of them loses or doubles while the payloads can be decoded (one that cannot is lost by \<open>pop\<close>).

  Log.
  \<^item> \<open>Logging\<close>: the ring of utils/CircleMTIO.hpp and \<open>CLog\<close> (utils/CLog.cpp, ChronoUtils.hpp), one operation at a time. \<open>holds\<close> reads
    the ring as a queue; from its lemmas follow that everything logged reaches the file in order while fewer lines wait
    than the ring has slots, that a full ring stalls, and that \<open>AddToLog\<close> returns when a slot is free. The stream is the text written and how much of it was flushed.
  \<^item> \<open>LogLife\<close>: the constructor, the one instance of the process and its end; what the file holds when the process is over.
  \<^item> \<open>LogRing\<close>: the atomic steps of \<open>new_write\<close> for any number of threads, the bounds of its indices and counters, and the
    run in which two threads get one slot.

  Web.
  \<^item> \<open>Validators\<close>: the field rules, with a regular expression matcher for the patterns, and the drivers
    (utils/InputValidators, Validator, ControllerInputValidator, ControllerInputModifier).
  \<^item> \<open>WebControllers\<close>: WebInterface/CController.cpp, httpwrappers.hpp, JsonResponse.hpp, the storage controller, \<open>Storage\<close> and the
    \<open>Last-Modified\<close> header. \<open>DocApi\<close>: the OpenAPI recorder (utils/DocAPI.cpp), with its document shape as an invariant and the calls that throw.
    \<open>Endpoints\<close>: WebApp and CPistacheEndpoint, the routes controllers register, and when \<open>start\<close> returns.
  \<^item> \<open>WebSocketFrame\<close>: the frame reader (WebSocket/WebSocketHandler.cpp), its round trip with RFC 6455 frames, and the delivery
    loop. \<open>WebSocketServer\<close>: the handshake, with its answer written out as RFC 6455 has it (Pistache's collection of headers is an argument), and the switch between HTTP parser and frames (WebSocket/HandshakeWebSocket.cpp,
    RouterHandler.cpp).
  \<^item> \<open>StructParser\<close>: JSON events into typed structures (JSON/StructParser.hpp); places are paths, the fillers compute a
    recursive reading of the document, never dangle, and restore every value from the document it is written as, whichever kind of integer the parser delivers.

  Data and text.
  \<^item> \<open>Database\<close>: the statement builders of Database/CSql.hpp, which a reader of MySQL literals reads back. \<open>Migrations\<close>: the runner of the
    migrations (Database/DBMigrate.cpp, Migration.hpp); what succeeded is run once. \<open>SqlConnection\<close>: the connection factories (Database/CSql.cpp), the
    wrappers of connections and statements, and that none of them leaves a connection open.
  \<^item> \<open>Strutils\<close>, \<open>Config\<close>: string helpers, formatted output, percent decoding, the configuration. \<open>Utilities\<close>: \<open>Result\<close>, the stream
    buffer over a \<open>string_view\<close>, paths into documents, the HTTP session pool.

  Not modelled: Mail (its body is commented out), the precompiled headers, the macros of map.h, \<open>staticfile\<close> and
  \<open>setupRoutes\<close> of CPistacheEndpoint (their bodies are empty or commented out), and what the compiler writes: copies,
  moves and destructors that are defaulted. \<open>Endpoints\<close> has WebApp and CPistacheEndpoint, but of Pistache's endpoint
  only what is asked of it.
\<close>

end
